(* ===== verification/Results.thy ===== *)
theory Results
  imports Go_Prelude
begin

text \<open>
  Computations that return a value or an error, in sequence: \<open>attempt\<close> is the pattern
  \<open>x, err := m; if err != nil { return err }\<close>, \<open>try_each\<close> a loop that stops at the first error.
\<close>

named_theorems result_simps \<open>how a sequence of computations can end\<close>

definition attempt :: "'e + 'a \<Rightarrow> ('a \<Rightarrow> 'e + 'b) \<Rightarrow> 'e + 'b" where
  "attempt m f = (case m of Inl e \<Rightarrow> Inl e | Inr x \<Rightarrow> f x)"

primrec try_each :: "('a \<Rightarrow> 'e + 'b) \<Rightarrow> 'a list \<Rightarrow> 'e + 'b list" where
  "try_each f [] = Inr []"
| "try_each f (x # xs) = attempt (f x) (\<lambda>y. attempt (try_each f xs) (\<lambda>ys. Inr (y # ys)))"

lemma attempt_simps [simp]: "attempt (Inl e) f = Inl e" "attempt (Inr x) f = f x"
  by (simp_all add: attempt_def)

lemma attempt_Inr_iff [result_simps]: "attempt m f = Inr y \<longleftrightarrow> (\<exists>x. m = Inr x \<and> f x = Inr y)"
  by (cases m) simp_all

lemma attempt_cong [fundef_cong]: "m = m' \<Longrightarrow> (\<And>x. m' = Inr x \<Longrightarrow> f x = f' x) \<Longrightarrow> attempt m f = attempt m' f'"
  by (cases m') simp_all

lemma try_each_Inr_iff [result_simps]: "try_each f xs = Inr ys \<longleftrightarrow> list_all2 (\<lambda>x y. f x = Inr y) xs ys"
  by (induction xs arbitrary: ys) (auto simp: attempt_Inr_iff list_all2_Cons1)

lemma try_each_cong [fundef_cong]:
  "xs = ys \<Longrightarrow> (\<And>x. x \<in> set ys \<Longrightarrow> f x = g x) \<Longrightarrow> try_each f xs = try_each g ys"
  by (induction ys arbitrary: xs) auto

lemma try_each_results:
  assumes "try_each f xs = Inr ys" and "\<And>x y. x \<in> set xs \<Longrightarrow> f x = Inr y \<Longrightarrow> P y"
  shows "\<forall>y\<in>set ys. P y"
proof
  fix y assume "y \<in> set ys"
  then obtain i where i: "i < length ys" "y = ys ! i" by (auto simp: in_set_conv_nth)
  have "list_all2 (\<lambda>x y. f x = Inr y) xs ys" using assms(1) by (simp add: try_each_Inr_iff)
  then have "i < length xs" "f (xs ! i) = Inr y" using i by (auto simp: list_all2_conv_all_nth)
  then show "P y" using assms(2) nth_mem by blast
qed

lemma try_each_pure: "(\<And>x. x \<in> set xs \<Longrightarrow> f x = Inr (g x)) \<Longrightarrow> try_each f xs = Inr (map g xs)"
  by (induction xs) auto

lemma try_each_append:
  "try_each f (xs @ ys) = attempt (try_each f xs) (\<lambda>as. attempt (try_each f ys) (\<lambda>bs. Inr (as @ bs)))"
proof (induction xs)
  case Nil
  then show ?case by (cases "try_each f ys") simp_all
next
  case (Cons x xs)
  then show ?case
    by (cases "f x"; cases "try_each f xs"; cases "try_each f ys") simp_all
qed

text \<open>Sequencing of computations that may also panic, or not end: \<open>None\<close>.\<close>

definition try_step :: "('e + 'a) option \<Rightarrow> ('a \<Rightarrow> ('e + 'b) option) \<Rightarrow> ('e + 'b) option" where
  "try_step r f = (case r of None \<Rightarrow> None | Some (Inl e) \<Rightarrow> Some (Inl e) | Some (Inr x) \<Rightarrow> f x)"

lemma try_step_Inr: "try_step r f = Some (Inr y) \<longleftrightarrow> (\<exists>x. r = Some (Inr x) \<and> f x = Some (Inr y))"
  by (simp add: try_step_def split: option.split sum.split)

end
