(* ===== verification/Override_Lexer.thy ===== *)
theory Override_Lexer
  imports Results
begin

text \<open>
  The lexer of the override expressions (\<open>adapter/provider/override_expr.go\<close>). It looks at the
  source byte by byte and asks the Unicode tables about the byte as if it were a character, so
  the classes of letters and of spaces are those of the first 256 code points.
\<close>

subsection \<open>Tokens\<close>

datatype token_kind =
    TEof | TDot | TIdent | TString | TNumber
  | TLeftParen | TRightParen | TLeftBracket | TRightBracket | TLeftBrace | TRightBrace
  | TComma | TSemicolon | TColon | TPipe
  | TAssign | TUpdateAssign | TAddAssign | TSubtractAssign | TMultiplyAssign
  | TPlus | TMinus | TMultiply | TDivide | TModulo | TAlternative
  | TEqual | TNotEqual | TLess | TLessEqual | TGreater | TGreaterEqual

record token =
  t_kind :: token_kind
  t_text :: string
  t_pos :: nat

subsection \<open>Character classes\<close>

definition latin_space :: "char \<Rightarrow> bool" where
  "latin_space c = (let n = char_code c in (9 \<le> n \<and> n \<le> 13) \<or> n = 32 \<or> n = 0x85 \<or> n = 0xa0)"

definition latin_letter :: "char \<Rightarrow> bool" where
  "latin_letter c =
     (let n = char_code c in
      (65 \<le> n \<and> n \<le> 90) \<or> (97 \<le> n \<and> n \<le> 122) \<or> n = 0xaa \<or> n = 0xb5 \<or> n = 0xba \<or>
      (0xc0 \<le> n \<and> n \<noteq> 0xd7 \<and> n \<noteq> 0xf7))"

definition identifier_start :: "char \<Rightarrow> bool" where
  "identifier_start c = (c = CHR ''_'' \<or> latin_letter c)"

definition identifier_part :: "char \<Rightarrow> bool" where
  "identifier_part c = (c = CHR ''_'' \<or> c = CHR ''-'' \<or> latin_letter c \<or> is_digit c)"

definition hex_char :: "char \<Rightarrow> bool" where
  "hex_char c =
     (let n = char_code c in (48 \<le> n \<and> n \<le> 57) \<or> (97 \<le> n \<and> n \<le> 102) \<or> (65 \<le> n \<and> n \<le> 70))"

subsection \<open>Strings and numbers\<close>

text \<open>The source after the opening quote: the raw text of the string and what follows it.\<close>

fun scan_string :: "string \<Rightarrow> (string \<times> string) option" where
  "scan_string [] = None"
| "scan_string (c # s) =
     (if c = CHR 0x5C then
        (case s of
           [] \<Rightarrow> None
         | d # s' \<Rightarrow> map_option (\<lambda>(raw, rest). (c # d # raw, rest)) (scan_string s'))
      else if c = CHR 0x22 then Some ([], s)
      else map_option (\<lambda>(raw, rest). (c # raw, rest)) (scan_string s))"

text \<open>The number at the head of the source.\<close>

definition scan_number :: "string \<Rightarrow> string" where
  "scan_number s =
     (if 2 \<le> length s \<and> s ! 0 = CHR ''0'' \<and> (s ! 1 = CHR ''x'' \<or> s ! 1 = CHR ''X'')
      then take 2 s @ takeWhile hex_char (drop 2 s)
      else
        (let ds = takeWhile is_digit s; s1 = dropWhile is_digit s;
             frac = (case s1 of c # r \<Rightarrow> if c = CHR ''.'' then c # takeWhile is_digit r else [] | [] \<Rightarrow> []);
             s2 = drop (length frac) s1;
             ex = (case s2 of
                     c # r \<Rightarrow>
                       if c = CHR ''e'' \<or> c = CHR ''E'' then
                         (case r of
                            d # r' \<Rightarrow> if d = CHR ''+'' \<or> d = CHR ''-'' then c # d # takeWhile is_digit r'
                                      else c # takeWhile is_digit r
                          | [] \<Rightarrow> [c])
                       else []
                   | [] \<Rightarrow> [])
         in ds @ frac @ ex))"

text \<open>Only \<open>\n\<close>, an escaped quote and an escaped backslash are decoded.\<close>

fun decode_string :: "string \<Rightarrow> string + string" where
  "decode_string [] = Inr []"
| "decode_string (c # s) =
     (if c \<noteq> CHR 0x5C then attempt (decode_string s) (\<lambda>r. Inr (c # r))
      else
        (case s of
           [] \<Rightarrow> Inl ''invalid string escape''
         | d # s' \<Rightarrow>
             attempt (decode_string s') (\<lambda>r.
               if d = CHR 0x22 then Inr (d # r)
               else if d = CHR ''n'' then Inr (CHR 0x0A # r)
               else if d = CHR 0x5C then Inr (d # r)
               else Inr (c # d # r))))"

subsection \<open>The lexer\<close>

definition single_tokens :: "(char \<times> token_kind) list" where
  "single_tokens =
     [(CHR ''.'', TDot), (CHR ''('', TLeftParen), (CHR '')'', TRightParen), (CHR ''['', TLeftBracket),
      (CHR '']'', TRightBracket), (CHR ''{'', TLeftBrace), (CHR ''}'', TRightBrace), (CHR '','', TComma),
      (CHR '';'', TSemicolon), (CHR '':'', TColon), (CHR ''%'', TModulo), (CHR 0x7E, TIdent)]"

text \<open>The second character, the kind with it and the kind without it.\<close>

definition double_tokens :: "(char \<times> char \<times> token_kind \<times> token_kind) list" where
  "double_tokens =
     [(CHR ''|'', CHR ''='', TUpdateAssign, TPipe), (CHR ''+'', CHR ''='', TAddAssign, TPlus),
      (CHR ''-'', CHR ''='', TSubtractAssign, TMinus), (CHR ''*'', CHR ''='', TMultiplyAssign, TMultiply),
      (CHR ''/'', CHR ''/'', TAlternative, TDivide), (CHR ''='', CHR ''='', TEqual, TAssign),
      (CHR ''<'', CHR ''='', TLessEqual, TLess), (CHR ''>'', CHR ''='', TGreaterEqual, TGreater)]"

text \<open>The token at the head of a source that starts with \<open>c\<close>, and the number of bytes it takes.\<close>

definition lex_one :: "nat \<Rightarrow> char \<Rightarrow> string \<Rightarrow> string + token \<times> nat" where
  "lex_one pos c s =
     (case map_of single_tokens c of
        Some k \<Rightarrow> Inr (\<lparr>t_kind = k, t_text = [c], t_pos = pos\<rparr>, 1)
      | None \<Rightarrow>
          (case map_of double_tokens c of
             Some (d, two, one) \<Rightarrow>
               (if s \<noteq> [] \<and> hd s = d then Inr (\<lparr>t_kind = two, t_text = [c, d], t_pos = pos\<rparr>, 2)
                else Inr (\<lparr>t_kind = one, t_text = [c], t_pos = pos\<rparr>, 1))
           | None \<Rightarrow>
               (if c = CHR ''!'' then
                  (if s \<noteq> [] \<and> hd s = CHR ''=''
                   then Inr (\<lparr>t_kind = TNotEqual, t_text = ''!='', t_pos = pos\<rparr>, 2)
                   else Inl ''unexpected'')
                else if c = CHR 0x22 then
                  (case scan_string s of
                     None \<Rightarrow> Inl ''unterminated string''
                   | Some (raw, _) \<Rightarrow> Inr (\<lparr>t_kind = TString, t_text = raw, t_pos = pos\<rparr>, length raw + 2))
                else if is_digit c then
                  (let n = scan_number (c # s) in
                   Inr (\<lparr>t_kind = TNumber, t_text = n, t_pos = pos\<rparr>, length n))
                else if identifier_start c then
                  (let name = c # takeWhile identifier_part s in
                   Inr (\<lparr>t_kind = TIdent, t_text = name, t_pos = pos\<rparr>, length name))
                else Inl ''unexpected'')))"

lemma scan_number_not_Nil: "is_digit c \<Longrightarrow> scan_number (c # s) \<noteq> []"
  by (simp add: scan_number_def Let_def)

lemma lex_one_width: "lex_one pos c s = Inr (t, w) \<Longrightarrow> 0 < w"
  using scan_number_not_Nil [of c s] by (auto simp: lex_one_def Let_def split: option.splits if_splits)

function lex_from :: "nat \<Rightarrow> nat \<Rightarrow> string \<Rightarrow> string + token list" where
  "lex_from len pos s =
     (case s of
        [] \<Rightarrow> Inr [\<lparr>t_kind = TEof, t_text = [], t_pos = len\<rparr>]
      | c # s' \<Rightarrow>
          (if latin_space c then lex_from len (pos + 1) s'
           else if c = CHR ''#'' then Inr [\<lparr>t_kind = TEof, t_text = [], t_pos = len\<rparr>]
           else
             (case lex_one pos c s' of
                Inl e \<Rightarrow> Inl e
              | Inr (t, w) \<Rightarrow> attempt (lex_from len (pos + w) (drop w s)) (\<lambda>ts. Inr (t # ts)))))"
  by pat_completeness auto
termination
  by (relation "measure (\<lambda>(_, _, s). length s)") (auto dest: lex_one_width)

declare lex_from.simps [simp del]

definition lex_override_expr :: "string \<Rightarrow> string + token list" where
  "lex_override_expr source = lex_from (length source) 0 source"

subsection \<open>Tokens cover the source\<close>

definition token_source :: "token \<Rightarrow> string" where
  "token_source t = (if t_kind t = TString then CHR 0x22 # t_text t @ [CHR 0x22] else t_text t)"

definition token_at :: "string \<Rightarrow> token \<Rightarrow> bool" where
  "token_at source t \<longleftrightarrow> t_kind t \<noteq> TEof \<and> token_source t \<noteq> [] \<and>
     (\<exists>rest. drop (t_pos t) source = token_source t @ rest)"

definition token_end :: "token \<Rightarrow> nat" where
  "token_end t = t_pos t + length (token_source t)"

lemma scan_string_source: "scan_string s = Some (raw, rest) \<Longrightarrow> s = raw @ CHR 0x22 # rest"
proof (induction s arbitrary: raw rest rule: scan_string.induct)
  case (2 c s)
  then show ?case by (auto split: if_splits list.splits)
qed simp

lemma take_drop_while: "takeWhile P s @ drop (length (takeWhile P s)) s = s"
  by (simp add: dropWhile_eq_drop [symmetric])

lemma scan_number_prefix: "\<exists>rest. s = scan_number s @ rest"
proof (cases "2 \<le> length s \<and> s ! 0 = CHR ''0'' \<and> (s ! 1 = CHR ''x'' \<or> s ! 1 = CHR ''X'')")
  case True
  then have n: "scan_number s = take 2 s @ takeWhile hex_char (drop 2 s)" by (simp add: scan_number_def)
  have "s = scan_number s @ dropWhile hex_char (drop 2 s)" unfolding n by simp
  then show ?thesis by blast
next
  case False
  define s1 where "s1 = dropWhile is_digit s"
  define frac where "frac = (case s1 of c # r \<Rightarrow> if c = CHR ''.'' then c # takeWhile is_digit r else [] | [] \<Rightarrow> [])"
  define s2 where "s2 = drop (length frac) s1"
  define ex where "ex = (case s2 of
                     c # r \<Rightarrow>
                       if c = CHR ''e'' \<or> c = CHR ''E'' then
                         (case r of
                            d # r' \<Rightarrow> if d = CHR ''+'' \<or> d = CHR ''-'' then c # d # takeWhile is_digit r'
                                      else c # takeWhile is_digit r
                          | [] \<Rightarrow> [c])
                       else []
                   | [] \<Rightarrow> [])"
  have n: "scan_number s = takeWhile is_digit s @ frac @ ex"
    by (simp only: scan_number_def False if_False Let_def s1_def frac_def s2_def ex_def)
  have "s1 = frac @ s2"
    by (auto simp: frac_def s2_def dropWhile_eq_drop [symmetric] split: list.split)
  moreover have "s2 = ex @ drop (length ex) s2"
    by (auto simp: ex_def dropWhile_eq_drop [symmetric] split: list.split)
  ultimately have "s = scan_number s @ drop (length ex) s2"
    unfolding n using takeWhile_dropWhile_id [of is_digit s] by (simp add: s1_def)
  then show ?thesis by blast
qed

lemma map_of_set: "map_of xs c = Some k \<Longrightarrow> (\<forall>x\<in>set xs. P (fst x) (snd x)) \<Longrightarrow> P c k"
  using map_of_SomeD by fastforce

lemma single_token_kind: "map_of single_tokens c = Some k \<Longrightarrow> k \<noteq> TEof \<and> k \<noteq> TString"
  by (rule map_of_set [of single_tokens c k "\<lambda>c k. k \<noteq> TEof \<and> k \<noteq> TString"]) (simp_all add: single_tokens_def)

lemma double_token_kind:
  "map_of double_tokens c = Some (d, two, one) \<Longrightarrow> {two, one} \<inter> {TEof, TString} = {}"
  using map_of_set [of double_tokens c "(d, two, one)" "\<lambda>c x. {fst (snd x), snd (snd x)} \<inter> {TEof, TString} = {}"]
  by (simp add: double_tokens_def)

lemma lex_one_token:
  assumes "lex_one pos c s = Inr (t, w)" and "drop pos source = c # s"
  shows "token_at source t \<and> t_pos t = pos \<and> token_end t = pos + w"
proof -
  note defs = token_at_def token_source_def token_end_def
  consider (single) k where "map_of single_tokens c = Some k"
    | (double) d two one where "map_of single_tokens c = None" "map_of double_tokens c = Some (d, two, one)"
    | (other) "map_of single_tokens c = None" "map_of double_tokens c = None"
    by (cases "map_of single_tokens c"; cases "map_of double_tokens c") auto
  then show ?thesis
  proof cases
    case single
    then show ?thesis using assms single_token_kind [OF single] by (auto simp: lex_one_def defs)
  next
    case double
    then show ?thesis using assms double_token_kind [OF double(2)]
      by (cases s) (auto simp: lex_one_def defs split: if_splits)
  next
    case other
    obtain num where num: "c # s = scan_number (c # s) @ num" using scan_number_prefix by blast
    consider "c = CHR ''!''" | "c = CHR 0x22" | "c \<noteq> CHR ''!''" "c \<noteq> CHR 0x22" by blast
    then show ?thesis
    proof cases
      case 1
      then show ?thesis using assms other by (cases s) (auto simp: lex_one_def defs split: if_splits)
    next
      case 2
      then show ?thesis
        using assms other by (auto simp: lex_one_def defs dest: scan_string_source split: option.splits)
    next
      case 3
      show ?thesis
      proof (cases "is_digit c")
        case True
        then show ?thesis
          using assms other 3 num scan_number_not_Nil [OF True, of s] by (auto simp: lex_one_def defs Let_def)
      next
        case False
        moreover have "\<exists>rest. s = takeWhile identifier_part s @ rest"
          using takeWhile_dropWhile_id [of identifier_part s] by metis
        ultimately show ?thesis
          using assms other 3 by (auto simp: lex_one_def defs Let_def split: if_splits)
      qed
    qed
  qed
qed

lemma lex_from_tokens:
  assumes "lex_from (length source) pos s = Inr ts" and "s = drop pos source"
  shows "\<exists>front. ts = front @ [\<lparr>t_kind = TEof, t_text = [], t_pos = length source\<rparr>] \<and>
    (\<forall>t\<in>set front. token_at source t \<and> pos \<le> t_pos t) \<and>
    sorted_wrt (\<lambda>t u. token_end t \<le> t_pos u) front"
  using assms
proof (induction "length source" pos s arbitrary: ts rule: lex_from.induct)
  case (1 pos s)
  show ?case
  proof (cases s)
    case Nil
    then show ?thesis using "1.prems" by (simp add: lex_from.simps)
  next
    case (Cons c s')
    have s': "s' = drop (pos + 1) source" using Cons "1.prems"(2) by (metis drop_Suc_Cons drop_drop drop0 plus_1_eq_Suc add.commute)
    consider (space) "latin_space c" | (comment) "\<not> latin_space c" "c = CHR ''#''"
      | (tok) "\<not> latin_space c" "c \<noteq> CHR ''#''" by blast
    then show ?thesis
    proof cases
      case space
      then have "lex_from (length source) (pos + 1) s' = Inr ts" using "1.prems"(1) Cons by (simp add: lex_from.simps [of _ pos])
      from "1.hyps"(1) [OF Cons space this s'] show ?thesis by force
    next
      case comment
      then show ?thesis using "1.prems"(1) Cons by (simp add: lex_from.simps [of _ pos])
    next
      case tok
      then obtain t w ts' where t: "lex_one pos c s' = Inr (t, w)"
        and rest: "lex_from (length source) (pos + w) (drop w s) = Inr ts'" and ts: "ts = t # ts'"
        using "1.prems"(1) Cons
        by (auto simp: lex_from.simps [of _ pos] attempt_Inr_iff split: sum.splits)
      have d: "drop w s = drop (pos + w) source" using "1.prems"(2) by (simp add: add.commute)
      from "1.hyps"(2) [OF Cons tok t refl rest d] obtain front
        where f: "ts' = front @ [\<lparr>t_kind = TEof, t_text = [], t_pos = length source\<rparr>]"
          "\<forall>u\<in>set front. token_at source u \<and> pos + w \<le> t_pos u"
          "sorted_wrt (\<lambda>t u. token_end t \<le> t_pos u) front" by blast
      have "token_at source t \<and> t_pos t = pos \<and> token_end t = pos + w"
        using lex_one_token [OF t, of source] "1.prems"(2) Cons by simp
      then have "ts = (t # front) @ [\<lparr>t_kind = TEof, t_text = [], t_pos = length source\<rparr>] \<and>
        (\<forall>u\<in>set (t # front). token_at source u \<and> pos \<le> t_pos u) \<and>
        sorted_wrt (\<lambda>t u. token_end t \<le> t_pos u) (t # front)"
        using f ts by fastforce
      then show ?thesis by blast
    qed
  qed
qed

lemma lex_tokens:
  assumes "lex_override_expr source = Inr ts"
  obtains front where "ts = front @ [\<lparr>t_kind = TEof, t_text = [], t_pos = length source\<rparr>]"
    and "\<forall>t\<in>set front. token_at source t" and "sorted_wrt (\<lambda>t u. token_end t \<le> t_pos u) front"
  using lex_from_tokens [of source 0 source ts] assms by (auto simp: lex_override_expr_def)

text \<open>
  When the lexer accepts a source, its tokens stand in the source one after the other: each
  has the text found at its position (a string between quotes), is not empty and ends before
  the next one begins; a single end token, at the end of the source, closes the list.
\<close>

theorem lexer_tokens_cover_source:
  assumes "lex_override_expr source = Inr ts"
  shows "ts \<noteq> [] \<and> last ts = \<lparr>t_kind = TEof, t_text = [], t_pos = length source\<rparr> \<and>
    list_all (token_at source) (butlast ts) \<and> sorted_wrt (\<lambda>t u. token_end t \<le> t_pos u) (butlast ts)"
  using lex_tokens [OF assms] by (metis append_is_Nil_conv butlast_snoc last_snoc list.distinct(1) list_all_iff)

theorem lexer_tokens_cover_source_witness:
  "list_all (token_at ''.a |= 0x1F # c'') [\<lparr>t_kind = TDot, t_text = ''.'', t_pos = 0\<rparr>,
     \<lparr>t_kind = TIdent, t_text = ''a'', t_pos = 1\<rparr>, \<lparr>t_kind = TUpdateAssign, t_text = ''|='', t_pos = 3\<rparr>,
     \<lparr>t_kind = TNumber, t_text = ''0x1F'', t_pos = 6\<rparr>]"
proof -
  have "lex_override_expr ''.a |= 0x1F # c'' = Inr [\<lparr>t_kind = TDot, t_text = ''.'', t_pos = 0\<rparr>,
     \<lparr>t_kind = TIdent, t_text = ''a'', t_pos = 1\<rparr>, \<lparr>t_kind = TUpdateAssign, t_text = ''|='', t_pos = 3\<rparr>,
     \<lparr>t_kind = TNumber, t_text = ''0x1F'', t_pos = 6\<rparr>, \<lparr>t_kind = TEof, t_text = [], t_pos = 14\<rparr>]"
    by code_simp
  from lexer_tokens_cover_source [OF this] show ?thesis by simp
qed

end
