(* ===== verification/Net_Addr.thy ===== *)
theory Net_Addr
  imports Go_Prelude
begin

unbundle bit_operations_syntax

text \<open>
  What the program uses of Go's \<open>net/netip\<close>: the value types \<open>Addr\<close> and \<open>Prefix\<close>. The zero
  \<open>Addr\<close> (no address) is \<open>NoAddr\<close>; an IPv6 address carries its zone. Textual parsing
  (\<open>ParseAddr\<close>, \<open>ParsePrefix\<close>) stays a parameter of the definitions that call it.
\<close>

datatype addr = NoAddr | V4 "32 word" | V6 "128 word" string

datatype net_prefix = NoPrefix | Pfx addr nat

subsection \<open>Addresses\<close>

fun addr_valid :: "addr \<Rightarrow> bool" where
  "addr_valid NoAddr = False"
| "addr_valid _ = True"

fun addr_is4 :: "addr \<Rightarrow> bool" where
  "addr_is4 (V4 _) = True"
| "addr_is4 _ = False"

fun addr_is6 :: "addr \<Rightarrow> bool" where
  "addr_is6 (V6 _ _) = True"
| "addr_is6 _ = False"

fun addr_bitlen :: "addr \<Rightarrow> nat" where
  "addr_bitlen NoAddr = 0"
| "addr_bitlen (V4 _) = 32"
| "addr_bitlen (V6 _ _) = 128"

fun addr_unmap :: "addr \<Rightarrow> addr" where
  "addr_unmap (V6 w z) = (if drop_bit 32 w = 0xffff then V4 (ucast w) else V6 w z)"
| "addr_unmap a = a"

fun addr_zone :: "addr \<Rightarrow> string" where
  "addr_zone (V6 _ z) = z"
| "addr_zone _ = []"

text \<open>\<open>WithZone(s)\<close>: only IPv6 addresses can carry a zone.\<close>

fun addr_with_zone :: "string \<Rightarrow> addr \<Rightarrow> addr" where
  "addr_with_zone z (V6 w _) = V6 w z"
| "addr_with_zone z a = a"

text \<open>\<open>Next\<close> and \<open>Prev\<close> return the zero address when the value would wrap around.\<close>

fun addr_next :: "addr \<Rightarrow> addr" where
  "addr_next NoAddr = NoAddr"
| "addr_next (V4 w) = (if w = - 1 then NoAddr else V4 (w + 1))"
| "addr_next (V6 w z) = (if w = - 1 then NoAddr else V6 (w + 1) z)"

fun addr_prev :: "addr \<Rightarrow> addr" where
  "addr_prev NoAddr = NoAddr"
| "addr_prev (V4 w) = (if w = 0 then NoAddr else V4 (w - 1))"
| "addr_prev (V6 w z) = (if w = 0 then NoAddr else V6 (w - 1) z)"

fun str_less :: "string \<Rightarrow> string \<Rightarrow> bool" where
  "str_less _ [] = False"
| "str_less [] (_ # _) = True"
| "str_less (a # s) (b # t) =
     (if char_code a < char_code b then True
      else if char_code b < char_code a then False else str_less s t)"

text \<open>\<open>Less\<close> compares bit lengths, then values, then zones.\<close>

fun addr_less :: "addr \<Rightarrow> addr \<Rightarrow> bool" where
  "addr_less (V4 a) (V4 b) = (a < b)"
| "addr_less (V6 a y) (V6 b z) = (a < b \<or> (a = b \<and> str_less y z))"
| "addr_less a b = (addr_bitlen a < addr_bitlen b)"

fun addr_slice :: "addr \<Rightarrow> 8 word list" where
  "addr_slice NoAddr = []"
| "addr_slice (V4 w) = map (\<lambda>i. ucast (drop_bit (8 * (3 - i)) w)) [0..<4]"
| "addr_slice (V6 w _) = map (\<lambda>i. ucast (drop_bit (8 * (15 - i)) w)) [0..<16]"

subsection \<open>Address classes\<close>

fun in_net4 :: "32 word \<Rightarrow> 32 word \<Rightarrow> nat \<Rightarrow> bool" where
  "in_net4 w base n = (drop_bit (32 - n) (w XOR base) = 0)"

fun in_net6 :: "128 word \<Rightarrow> 128 word \<Rightarrow> nat \<Rightarrow> bool" where
  "in_net6 w base n = (drop_bit (128 - n) (w XOR base) = 0)"

fun addr_is_private :: "addr \<Rightarrow> bool" where
  "addr_is_private NoAddr = False"
| "addr_is_private (V4 w) =
     (in_net4 w 0x0a000000 8 \<or> in_net4 w 0xac100000 12 \<or> in_net4 w 0xc0a80000 16)"
| "addr_is_private (V6 w _) = in_net6 w (push_bit 120 0xfc) 7"

fun addr_is_unspecified :: "addr \<Rightarrow> bool" where
  "addr_is_unspecified NoAddr = False"
| "addr_is_unspecified (V4 w) = (w = 0)"
| "addr_is_unspecified (V6 w z) = (w = 0 \<and> z = [])"

fun addr_is_loopback :: "addr \<Rightarrow> bool" where
  "addr_is_loopback NoAddr = False"
| "addr_is_loopback (V4 w) = in_net4 w 0x7f000000 8"
| "addr_is_loopback (V6 w _) = (w = 1)"

fun addr_is_multicast :: "addr \<Rightarrow> bool" where
  "addr_is_multicast NoAddr = False"
| "addr_is_multicast (V4 w) = in_net4 w 0xe0000000 4"
| "addr_is_multicast (V6 w _) = in_net6 w (push_bit 120 0xff) 8"

fun addr_is_link_local_unicast :: "addr \<Rightarrow> bool" where
  "addr_is_link_local_unicast NoAddr = False"
| "addr_is_link_local_unicast (V4 w) = in_net4 w 0xa9fe0000 16"
| "addr_is_link_local_unicast (V6 w _) = in_net6 w (push_bit 112 0xfe80) 10"

subsection \<open>Prefixes\<close>

fun prefix_contains :: "net_prefix \<Rightarrow> addr \<Rightarrow> bool" where
  "prefix_contains NoPrefix _ = False"
| "prefix_contains (Pfx p n) ip =
     (if addr_zone ip \<noteq> [] then False
      else (case (p, ip) of
              (V4 b, V4 w) \<Rightarrow> in_net4 w b n
            | (V6 b _, V6 w _) \<Rightarrow> in_net6 w b n
            | _ \<Rightarrow> False))"

fun prefix_addr :: "net_prefix \<Rightarrow> addr" where
  "prefix_addr NoPrefix = NoAddr"
| "prefix_addr (Pfx a _) = a"

fun prefix_bits :: "net_prefix \<Rightarrow> nat" where
  "prefix_bits NoPrefix = 0"
| "prefix_bits (Pfx _ n) = n"

fun prefix_valid :: "net_prefix \<Rightarrow> bool" where
  "prefix_valid NoPrefix = False"
| "prefix_valid (Pfx a n) = (addr_valid a \<and> n \<le> addr_bitlen a)"

definition keep_top :: "nat \<Rightarrow> nat \<Rightarrow> ('a::len) word \<Rightarrow> 'a word" where
  "keep_top len n w = push_bit (len - n) (drop_bit (len - n) w)"

fun prefix_masked :: "net_prefix \<Rightarrow> net_prefix" where
  "prefix_masked (Pfx (V4 w) n) = Pfx (V4 (keep_top 32 n w)) n"
| "prefix_masked (Pfx (V6 w z) n) = Pfx (V6 (keep_top 128 n w) []) n"
| "prefix_masked _ = NoPrefix"

subsection \<open>Facts\<close>

lemma addr_less_irrefl [simp]: "\<not> addr_less a a"
proof -
  have "\<not> str_less s s" for s by (induction s) auto
  then show ?thesis by (cases a) auto
qed

lemma addr_prev_next [simp]: "addr_valid (addr_next a) \<Longrightarrow> addr_prev (addr_next a) = a"
  by (cases a) (auto split: if_splits simp: eq_neg_iff_add_eq_0 [symmetric])

lemma addr_next_prev [simp]: "addr_valid (addr_prev a) \<Longrightarrow> addr_next (addr_prev a) = a"
  by (cases a) (auto split: if_splits simp: diff_eq_eq)

lemma length_addr_slice: "length (addr_slice a) = addr_bitlen a div 8"
  by (cases a) simp_all

lemma addr_unmap_idem [simp]: "addr_unmap (addr_unmap a) = addr_unmap a"
  by (cases a) auto

end
