(* ===== verification/Float64.thy ===== *)
theory Float64
  imports Go_Prelude Complex_Main "HOL-Library.Log_Nat"
begin

text \<open>
  The numbers of the program that are no integers: Go's \<open>float64\<close>, the binary64 format of
  IEEE 754. A finite number other than zero is the rational it denotes; the zeros carry their
  sign, and so do the infinities (\<open>True\<close> is negative). Every operation computes the exact result
  and rounds it once, to the nearest number and to the even one of two. The conversion of an
  integer and the truncation back are the ones of the language; the result of a truncation that
  does not fit 64 bits is left to the implementation by the language, and is an argument here.
\<close>

subsection \<open>Rounding\<close>

datatype float64 = FNan | FInf bool | FZero bool | FNum rat

definition pow2 :: "int \<Rightarrow> rat" where
  "pow2 e = (if 0 \<le> e then 2 ^ nat e else 1 / 2 ^ nat (- e))"

text \<open>The greatest exponent \<open>k\<close> with \<open>2 ^ k \<le> q\<close>, for a positive \<open>q\<close>.\<close>

definition exponent_of :: "rat \<Rightarrow> int" where
  "exponent_of q =
     (let (n, d) = quotient_of q; k = bitlen n - bitlen d in if pow2 k \<le> q then k else k - 1)"

definition round_even :: "rat \<Rightarrow> int" where
  "round_even q =
     (let f = \<lfloor>q\<rfloor>; r = q - of_int f in if r < 1 / 2 \<or> (r = 1 / 2 \<and> even f) then f else f + 1)"

definition round_magnitude :: "rat \<Rightarrow> rat" where
  "round_magnitude q =
     (let e = max (exponent_of q - 52) (- 1074) in of_int (round_even (q / pow2 e)) * pow2 e)"

definition float_round :: "rat \<Rightarrow> float64" where
  "float_round q =
     (let v = round_magnitude \<bar>q\<bar> in
      if q = 0 then FZero False
      else if v = 0 then FZero (q < 0)
      else if 2 ^ 1024 \<le> v then FInf (q < 0)
      else FNum (if q < 0 then - v else v))"

subsection \<open>Operations\<close>

fun float_negative :: "float64 \<Rightarrow> bool" where
  "float_negative FNan = False"
| "float_negative (FInf s) = s"
| "float_negative (FZero s) = s"
| "float_negative (FNum q) = (q < 0)"

fun float_neg :: "float64 \<Rightarrow> float64" where
  "float_neg FNan = FNan"
| "float_neg (FInf s) = FInf (\<not> s)"
| "float_neg (FZero s) = FZero (\<not> s)"
| "float_neg (FNum q) = FNum (- q)"

fun float_add :: "float64 \<Rightarrow> float64 \<Rightarrow> float64" where
  "float_add FNan y = FNan"
| "float_add x FNan = FNan"
| "float_add (FInf s) (FInf t) = (if s = t then FInf s else FNan)"
| "float_add (FInf s) y = FInf s"
| "float_add x (FInf t) = FInf t"
| "float_add (FZero s) (FZero t) = FZero (s \<and> t)"
| "float_add (FZero s) (FNum q) = FNum q"
| "float_add (FNum p) (FZero t) = FNum p"
| "float_add (FNum p) (FNum q) = float_round (p + q)"

definition float_sub :: "float64 \<Rightarrow> float64 \<Rightarrow> float64" where
  "float_sub x y = float_add x (float_neg y)"

definition float_mul :: "float64 \<Rightarrow> float64 \<Rightarrow> float64" where
  "float_mul x y =
     (let s = (float_negative x \<noteq> float_negative y) in
      case (x, y) of
        (FNan, _) \<Rightarrow> FNan | (_, FNan) \<Rightarrow> FNan
      | (FInf _, FZero _) \<Rightarrow> FNan | (FZero _, FInf _) \<Rightarrow> FNan
      | (FInf _, _) \<Rightarrow> FInf s | (_, FInf _) \<Rightarrow> FInf s
      | (FZero _, _) \<Rightarrow> FZero s | (_, FZero _) \<Rightarrow> FZero s
      | (FNum p, FNum q) \<Rightarrow> float_round (p * q))"

definition float_div :: "float64 \<Rightarrow> float64 \<Rightarrow> float64" where
  "float_div x y =
     (let s = (float_negative x \<noteq> float_negative y) in
      case (x, y) of
        (FNan, _) \<Rightarrow> FNan | (_, FNan) \<Rightarrow> FNan
      | (FInf _, FInf _) \<Rightarrow> FNan | (FZero _, FZero _) \<Rightarrow> FNan
      | (FInf _, _) \<Rightarrow> FInf s | (_, FInf _) \<Rightarrow> FZero s
      | (FZero _, _) \<Rightarrow> FZero s | (_, FZero _) \<Rightarrow> FInf s
      | (FNum p, FNum q) \<Rightarrow> float_round (p / q))"

definition rat_truncate :: "rat \<Rightarrow> int" where
  "rat_truncate q = (if q < 0 then \<lceil>q\<rceil> else \<lfloor>q\<rfloor>)"

text \<open>\<open>math.Mod\<close>: the remainder of the truncated quotient, exact, with the sign of \<open>x\<close>.\<close>

definition float_mod :: "float64 \<Rightarrow> float64 \<Rightarrow> float64" where
  "float_mod x y =
     (case (x, y) of
        (FNan, _) \<Rightarrow> FNan | (_, FNan) \<Rightarrow> FNan
      | (FInf _, _) \<Rightarrow> FNan | (_, FZero _) \<Rightarrow> FNan
      | (_, FInf _) \<Rightarrow> x | (FZero _, _) \<Rightarrow> x
      | (FNum p, FNum q) \<Rightarrow>
          (let r = p - q * of_int (rat_truncate (p / q)) in if r = 0 then FZero (p < 0) else FNum r))"

fun float_value :: "float64 \<Rightarrow> rat" where
  "float_value (FNum q) = q"
| "float_value _ = 0"

fun float_less :: "float64 \<Rightarrow> float64 \<Rightarrow> bool" where
  "float_less FNan y = False"
| "float_less x FNan = False"
| "float_less (FInf s) (FInf t) = (s \<and> \<not> t)"
| "float_less (FInf s) y = s"
| "float_less x (FInf t) = (\<not> t)"
| "float_less x y = (float_value x < float_value y)"

fun float_eq :: "float64 \<Rightarrow> float64 \<Rightarrow> bool" where
  "float_eq FNan y = False"
| "float_eq x FNan = False"
| "float_eq (FInf s) y = (y = FInf s)"
| "float_eq x (FInf t) = False"
| "float_eq x y = (float_value x = float_value y)"

subsection \<open>Integers\<close>

definition wrap64 :: "int \<Rightarrow> int" where
  "wrap64 n = (n + 2 ^ 63) mod 2 ^ 64 - 2 ^ 63"

definition fits64 :: "int \<Rightarrow> bool" where
  "fits64 n \<longleftrightarrow> - (2 ^ 63) \<le> n \<and> n < 2 ^ 63"

definition float_of_int :: "int \<Rightarrow> float64" where
  "float_of_int n = float_round (of_int n)"

definition int_of_float :: "(float64 \<Rightarrow> int) \<Rightarrow> float64 \<Rightarrow> int" where
  "int_of_float conv x =
     (case x of
        FNan \<Rightarrow> conv x | FInf _ \<Rightarrow> conv x | FZero _ \<Rightarrow> 0
      | FNum q \<Rightarrow> (if fits64 (rat_truncate q) then rat_truncate q else conv x))"

subsection \<open>Small integers are exact\<close>

lemma pow2_powi: "pow2 e = 2 powi e"
  by (simp add: pow2_def power_int_def power_one_over inverse_eq_divide)

lemma exponent_of_int:
  assumes "0 < n"
  shows "exponent_of (of_int n) = bitlen n - 1"
proof -
  have "(1 :: int) \<le> bitlen n" using bitlen_bounds [OF assms] assms bitlen_le_iff_power [of n 0] by fastforce
  then have "pow2 (bitlen n - 1) = of_int (2 ^ nat (bitlen n - 1))" by (simp add: pow2_def)
  also have "\<dots> \<le> (of_int n :: rat)" using bitlen_bounds [OF assms] by (simp del: of_int_power)
  finally have "pow2 (bitlen n - bitlen 1) \<le> of_int n" by (simp add: bitlen_def compute_floorlog)
  then show ?thesis by (simp add: exponent_of_def Let_def) (simp add: bitlen_def compute_floorlog)
qed

lemma round_even_int [simp]: "round_even (of_int m) = m"
  by (simp add: round_even_def)

lemma round_magnitude_int:
  assumes "0 < n" and "n \<le> 2 ^ 53"
  shows "round_magnitude (of_int n) = of_int n"
proof -
  define e where "e = max (exponent_of (of_int n) - 52) (- 1074)"
  have b: "2 ^ nat (bitlen n - 1) \<le> n" "n < 2 ^ nat (bitlen n)" using bitlen_bounds [OF assms(1)] by auto
  have "\<exists>m. of_int n / pow2 e = of_int m"
  proof (cases "e \<le> 0")
    case True
    then have "of_int n / pow2 e = (of_int (n * 2 ^ nat (- e)) :: rat)"
      by (cases "e = 0") (simp_all add: pow2_def)
    then show ?thesis by blast
  next
    case False
    then have "53 \<le> bitlen n - 1" by (simp add: e_def exponent_of_int [OF assms(1)])
    moreover have "bitlen n - 1 \<le> 53"
    proof (rule ccontr)
      assume "\<not> bitlen n - 1 \<le> 53"
      then have "(2 :: int) ^ 54 \<le> 2 ^ nat (bitlen n - 1)" by (intro power_increasing) auto
      then show False using b(1) assms(2) by simp
    qed
    ultimately have "bitlen n - 1 = 53" by simp
    then have "n = 2 ^ 53" and "e = 1"
      using b(1) assms(2) by (simp, unfold e_def exponent_of_int [OF assms(1)], simp)
    then have "of_int n / pow2 e = (of_int (2 ^ 52) :: rat)" by (simp add: pow2_def)
    then show ?thesis by blast
  qed
  then obtain m where m: "of_int n / pow2 e = of_int m" by blast
  have "pow2 e \<noteq> 0" by (simp add: pow2_powi)
  then have "of_int m * pow2 e = of_int n" using m by (simp add: field_simps)
  then show ?thesis by (simp add: round_magnitude_def e_def [symmetric] m Let_def)
qed

definition exact_int :: "int \<Rightarrow> bool" where
  "exact_int n \<longleftrightarrow> \<bar>n\<bar> \<le> 2 ^ 53"

lemma float_of_int_exact:
  assumes "exact_int n"
  shows "float_of_int n = (if n = 0 then FZero False else FNum (of_int n))"
proof (cases "n = 0")
  case False
  then have "round_magnitude (of_int \<bar>n\<bar>) = of_int \<bar>n\<bar>"
    using assms by (intro round_magnitude_int) (auto simp: exact_int_def)
  moreover have "(of_int \<bar>n\<bar> :: rat) < 2 ^ 1024"
  proof -
    have "(of_int \<bar>n\<bar> :: rat) \<le> of_int (2 ^ 53)" using assms by (simp add: exact_int_def del: of_int_power of_int_numeral)
    also have "\<dots> < 2 ^ 1024" by simp
    finally show ?thesis .
  qed
  ultimately show ?thesis using False
    by (simp add: float_of_int_def float_round_def Let_def of_int_abs [symmetric] not_le del: of_int_abs)
qed (simp add: float_of_int_def float_round_def Let_def)

lemma int_of_float_exact: "exact_int n \<Longrightarrow> int_of_float conv (float_of_int n) = n"
proof -
  assume "exact_int n"
  moreover have "rat_truncate (of_int n) = n" by (simp add: rat_truncate_def)
  moreover from \<open>exact_int n\<close> have "fits64 n" by (auto simp: exact_int_def fits64_def abs_le_iff)
  ultimately show ?thesis by (simp add: int_of_float_def float_of_int_exact)
qed

lemma float_eq_exact: "exact_int m \<Longrightarrow> exact_int n \<Longrightarrow> float_eq (float_of_int m) (float_of_int n) \<longleftrightarrow> m = n"
  by (simp add: float_of_int_exact)

lemma float_less_exact: "exact_int m \<Longrightarrow> exact_int n \<Longrightarrow> float_less (float_of_int m) (float_of_int n) \<longleftrightarrow> m < n"
  by (simp add: float_of_int_exact)

lemma wrap64_fits: "fits64 n \<Longrightarrow> wrap64 n = n"
  by (simp add: wrap64_def fits64_def mod_pos_pos_trivial)

text \<open>Past \<open>2 ^ 53\<close> the conversion rounds.\<close>

lemma float_of_int_rounds: "float_of_int 9007199254740993 = float_of_int 9007199254740992"
  by code_simp

end
