(* ===== verification/Override_Value.thy ===== *)
theory Override_Value
  imports Net_Addr Float64 Results "HOL-Library.Char_ord" "HOL-Library.List_Lexorder"
begin

text \<open>
  The values the override expressions of a proxy provider compute with
  (\<open>adapter/provider/override_expr.go\<close>): Go's \<open>any\<close> over what the YAML decoder and the converters of
  subscriptions produce. A \<open>map[string]any\<close> is the list of its entries in the order of their keys
  (\<open>well_formed\<close>); the code iterates over a map in an arbitrary order only where the order does not
  matter. Values are immutable here: the copies the code makes are the identity. The struct
  \<open>overrideNoMatch\<close>, the result of an expression that selects nothing, flows through \<open>any\<close> as well
  and is a value of another Go type (\<open>VOther\<close>, with the name of the type and its printed form).

  What the code takes from \<open>strconv\<close> for floats, from \<open>regexp\<close> and from the YAML encoder is an
  argument, the record \<open>expr_env\<close>. An error is its message without the arguments of the format.
\<close>

subsection \<open>Values\<close>

datatype int_kind = KInt | KInt8 | KInt16 | KInt32 | KInt64 | KUint | KUint8 | KUint16 | KUint32 | KUint64

datatype float_kind = KFloat32 | KFloat64

datatype oval =
    VNull
  | VBool bool
  | VStr string
  | VInt int_kind int
  | VFloat float_kind float64
  | VSeq "oval list"
  | VMap "(string \<times> oval) list"
  | VOther string string

definition no_match :: oval where
  "no_match = VOther ''provider.overrideNoMatch'' ''{}''"

definition is_no_match :: "oval \<Rightarrow> bool" where
  "is_no_match v = (v = no_match)"

record expr_env =
  ee_print_float :: "float_kind \<Rightarrow> float64 \<Rightarrow> string"
  ee_parse_float :: "string \<Rightarrow> float64 option"
  ee_int_of_float :: "float64 \<Rightarrow> int"
  ee_yaml :: "oval \<Rightarrow> string option"
  ee_regexp :: "string \<Rightarrow> ((string \<Rightarrow> bool) \<times> (string \<Rightarrow> string \<Rightarrow> string)) option"

subsection \<open>Maps\<close>

definition map_get :: "string \<Rightarrow> (string \<times> oval) list \<Rightarrow> oval" where
  "map_get k kvs = (case map_of kvs k of Some v \<Rightarrow> v | None \<Rightarrow> VNull)"

fun map_put :: "string \<Rightarrow> 'v \<Rightarrow> (string \<times> 'v) list \<Rightarrow> (string \<times> 'v) list" where
  "map_put k v [] = [(k, v)]"
| "map_put k v ((k', v') # kvs) =
     (if k = k' then (k, v) # kvs
      else if str_less k k' then (k, v) # (k', v') # kvs
      else (k', v') # map_put k v kvs)"

definition map_del :: "string \<Rightarrow> (string \<times> 'v) list \<Rightarrow> (string \<times> 'v) list" where
  "map_del k kvs = filter (\<lambda>(k', _). k' \<noteq> k) kvs"

subsection \<open>Classification and printing\<close>

fun clone_value :: "oval \<Rightarrow> oval" where
  "clone_value (VMap kvs) = VMap (map (\<lambda>(k, v). (k, clone_value v)) kvs)"
| "clone_value (VSeq vs) = VSeq (map clone_value vs)"
| "clone_value v = v"

fun override_number :: "oval \<Rightarrow> (float64 \<times> bool) option" where
  "override_number (VInt k n) = Some (float_of_int n, True)"
| "override_number (VFloat k x) = Some (x, False)"
| "override_number _ = None"

fun is_scalar :: "oval \<Rightarrow> bool" where
  "is_scalar VNull = True"
| "is_scalar (VBool _) = True"
| "is_scalar (VStr _) = True"
| "is_scalar v = (override_number v \<noteq> None)"

fun truthy :: "oval \<Rightarrow> bool" where
  "truthy VNull = False"
| "truthy (VBool b) = b"
| "truthy _ = True"

fun override_type :: "oval \<Rightarrow> string" where
  "override_type VNull = ''!!null''"
| "override_type (VBool _) = ''!!bool''"
| "override_type (VStr _) = ''!!str''"
| "override_type (VSeq _) = ''!!seq''"
| "override_type (VMap _) = ''!!map''"
| "override_type (VInt _ _) = ''!!int''"
| "override_type (VFloat _ _) = ''!!float''"
| "override_type (VOther t _) = t"

definition int_str :: "int \<Rightarrow> string" where
  "int_str n = (if n < 0 then CHR ''-'' # nat_str (nat (- n)) else nat_str (nat n))"

text \<open>\<open>fmt.Sprint\<close>; the code never prints a sequence or a map with it.\<close>

fun sprint :: "expr_env \<Rightarrow> oval \<Rightarrow> string" where
  "sprint env VNull = ''<nil>''"
| "sprint env (VBool b) = (if b then ''true'' else ''false'')"
| "sprint env (VStr s) = s"
| "sprint env (VInt k n) = int_str n"
| "sprint env (VFloat k x) = ee_print_float env k x"
| "sprint env (VOther t s) = s"
| "sprint env _ = []"

subsection \<open>Equality\<close>

text \<open>\<open>reflect.DeepEqual\<close>: equal types and contents; floats compare as numbers.\<close>

fun deep_equal :: "oval \<Rightarrow> oval \<Rightarrow> bool"
  and deep_equal_list :: "oval list \<Rightarrow> oval list \<Rightarrow> bool"
  and deep_equal_entries :: "(string \<times> oval) list \<Rightarrow> (string \<times> oval) list \<Rightarrow> bool" where
  "deep_equal (VFloat k x) (VFloat k' y) = (k = k' \<and> float_eq x y)"
| "deep_equal (VSeq vs) (VSeq ws) = deep_equal_list vs ws"
| "deep_equal (VMap kvs) (VMap kws) = deep_equal_entries kvs kws"
| "deep_equal v w = (v = w)"
| "deep_equal_list [] ws = (ws = [])"
| "deep_equal_list (v # vs) ws = (case ws of [] \<Rightarrow> False | w # ws' \<Rightarrow> deep_equal v w \<and> deep_equal_list vs ws')"
| "deep_equal_entries [] kws = (kws = [])"
| "deep_equal_entries ((k, v) # kvs) kws =
     (case kws of [] \<Rightarrow> False | (k', w) # kws' \<Rightarrow> k = k' \<and> deep_equal v w \<and> deep_equal_entries kvs kws')"

definition override_equal :: "oval \<Rightarrow> oval \<Rightarrow> bool" where
  "override_equal left right =
     (case override_number left of
        Some (x, i) \<Rightarrow> (case override_number right of Some (y, j) \<Rightarrow> i = j \<and> float_eq x y | None \<Rightarrow> False)
      | None \<Rightarrow> deep_equal left right)"

definition yq_equal :: "expr_env \<Rightarrow> oval \<Rightarrow> oval \<Rightarrow> bool" where
  "yq_equal env left right =
     (if \<not> is_scalar left \<or> \<not> is_scalar right then False
      else if left = VNull \<or> right = VNull then left = VNull \<and> right = VNull
      else (case (override_number left, override_number right) of
              (Some (x, i), Some (y, j)) \<Rightarrow> i = j \<and> float_eq x y
            | _ \<Rightarrow> sprint env left = sprint env right))"

subsection \<open>Collections\<close>

lemma map_get_size [termination_simp]: "map_of kvs k = Some v \<Longrightarrow> size v < Suc (size_list (\<lambda>x. Suc (size (snd x))) kvs)"
proof -
  assume "map_of kvs k = Some v"
  then have "(k, v) \<in> set kvs" by (rule map_of_SomeD)
  then show ?thesis by (induction kvs) auto
qed

text \<open>Whether a string occurs in another one, an element in a list, the entries in a map.\<close>

fun contains_value :: "oval \<Rightarrow> oval \<Rightarrow> bool" where
  "contains_value (VStr s) wanted = (case wanted of VStr t \<Rightarrow> str_contains s t | _ \<Rightarrow> False)"
| "contains_value (VSeq candidates) wanted =
     list_all (\<lambda>w. list_ex (\<lambda>c. override_equal c w \<or> contains_value c w) candidates)
       (case wanted of VSeq ws \<Rightarrow> ws | w \<Rightarrow> [w])"
| "contains_value (VMap kvs) wanted =
     (case wanted of
        VMap kws \<Rightarrow>
          list_all (\<lambda>(k, w). case map_of kvs k of
            None \<Rightarrow> False | Some c \<Rightarrow> override_equal c w \<or> contains_value c w) kws
      | _ \<Rightarrow> False)"
| "contains_value _ _ = False"

fun merge_maps :: "(string \<times> oval) list \<Rightarrow> (string \<times> oval) list \<Rightarrow> (string \<times> oval) list" where
  "merge_maps left [] = left"
| "merge_maps left ((k, rv) # rest) =
     map_put k
       (case (map_of left k, rv) of
          (Some (VMap lm), VMap rm) \<Rightarrow> VMap (merge_maps lm rm)
        | _ \<Rightarrow> rv)
       (merge_maps left rest)"

text \<open>A negative depth flattens all levels.\<close>

fun flatten_values :: "oval list \<Rightarrow> int \<Rightarrow> oval list" where
  "flatten_values [] depth = []"
| "flatten_values (VSeq children # vs) depth =
     (if depth = 0 then VSeq children # flatten_values vs depth
      else flatten_values children (if depth > 0 then depth - 1 else depth) @ flatten_values vs depth)"
| "flatten_values (v # vs) depth = v # flatten_values vs depth"

definition unique_key :: "expr_env \<Rightarrow> oval \<Rightarrow> string + string" where
  "unique_key env v =
     (if is_scalar v then Inr (if v = VNull then ''null'' else sprint env v)
      else (case ee_yaml env v of Some t \<Rightarrow> Inr t | None \<Rightarrow> Inl ''yaml''))"

fun unique_values :: "expr_env \<Rightarrow> string set \<Rightarrow> oval list \<Rightarrow> string + oval list" where
  "unique_values env seen [] = Inr []"
| "unique_values env seen (v # vs) =
     attempt (unique_key env v) (\<lambda>key.
       if key \<in> seen then unique_values env seen vs
       else attempt (unique_values env (insert key seen) vs) (\<lambda>rest. Inr (v # rest)))"

subsection \<open>Order\<close>

definition str_compare :: "string \<Rightarrow> string \<Rightarrow> int" where
  "str_compare s t = (if str_less s t then - 1 else if str_less t s then 1 else 0)"

definition compare_values :: "oval \<Rightarrow> oval \<Rightarrow> string + int" where
  "compare_values left right =
     (case override_number left of
        Some (x, _) \<Rightarrow>
          (case override_number right of
             None \<Rightarrow> Inl ''cannot compare number and''
           | Some (y, _) \<Rightarrow> Inr (if float_less x y then - 1 else if float_less y x then 1 else 0))
      | None \<Rightarrow>
          (case (left, right) of
             (VStr s, VStr t) \<Rightarrow> Inr (str_compare s t)
           | _ \<Rightarrow> Inl ''cannot compare''))"

fun sort_rank :: "oval \<Rightarrow> nat" where
  "sort_rank VNull = 0"
| "sort_rank (VBool _) = 1"
| "sort_rank (VInt _ _) = 2"
| "sort_rank (VFloat _ _) = 2"
| "sort_rank (VStr _) = 3"
| "sort_rank _ = 4"

definition compare_sort_values :: "oval \<Rightarrow> oval \<Rightarrow> string + int" where
  "compare_sort_values left right =
     (if sort_rank left \<noteq> sort_rank right then Inr (if sort_rank left < sort_rank right then - 1 else 1)
      else
        (case (left, right) of
           (VNull, _) \<Rightarrow> Inr 0
         | (VBool a, VBool b) \<Rightarrow> Inr (if a = b then 0 else if \<not> a then - 1 else 1)
         | _ \<Rightarrow>
             (if sort_rank left = 2 \<or> sort_rank left = 3 then compare_values left right
              else Inl ''sort only supports scalar array values in override-expr'')))"

definition sort_less :: "oval \<Rightarrow> oval \<Rightarrow> bool" where
  "sort_less left right = (case compare_sort_values left right of Inr c \<Rightarrow> c < 0 | Inl _ \<Rightarrow> False)"

text \<open>
  \<open>sort.SliceStable\<close>, by insertion from the right, as the library sorts its blocks. Two values
  that cannot be compared are neighbours of the sorted list, so some comparison of them is made
  whenever there are two.
\<close>

fun insert_from_right :: "oval \<Rightarrow> oval list \<Rightarrow> oval list" where
  "insert_from_right x [] = [x]"
| "insert_from_right x (y # ys) = (if sort_less x y then y # insert_from_right x ys else x # y # ys)"

definition sort_values :: "oval list \<Rightarrow> string + oval list" where
  "sort_values vs =
     (if 2 \<le> length (filter (\<lambda>v. sort_rank v = 4) vs)
      then Inl ''sort only supports scalar array values in override-expr''
      else Inr (rev (foldl (\<lambda>sorted v. insert_from_right v sorted) [] vs)))"

subsection \<open>Operators\<close>

definition evaluate_numbers :: "expr_env \<Rightarrow> string \<Rightarrow> oval \<Rightarrow> oval \<Rightarrow> string + oval" where
  "evaluate_numbers env operator left right =
     (case (override_number left, override_number right) of
        (Some (x, i), Some (y, j)) \<Rightarrow>
          (let ints = i \<and> j; m = int_of_float (ee_int_of_float env) x; n = int_of_float (ee_int_of_float env) y in
           if operator = ''+'' then
             Inr (if ints then VInt KInt (wrap64 (m + n)) else VFloat KFloat64 (float_add x y))
           else if operator = ''-'' then
             Inr (if ints then VInt KInt (wrap64 (m - n)) else VFloat KFloat64 (float_sub x y))
           else if operator = ''*'' then
             Inr (if ints then VInt KInt (wrap64 (m * n)) else VFloat KFloat64 (float_mul x y))
           else if operator = ''/'' then Inr (VFloat KFloat64 (float_div x y))
           else if operator = ''%'' then
             (if ints then
                (if float_eq y (FZero False) then Inl ''cannot modulo by zero''
                 else Inr (VInt KInt (wrap64 (m - n * rat_truncate (of_int m / of_int n)))))
              else Inr (VFloat KFloat64 (float_mod x y)))
           else Inl ''unsupported numeric operator'')
      | _ \<Rightarrow> Inl ''operator cannot be used with'')"

text \<open>\<open>strings.Split\<close>; an empty separator splits after every character.\<close>

fun split_from :: "string \<Rightarrow> string \<Rightarrow> string \<Rightarrow> string list" where
  "split_from sep acc [] = [rev acc]"
| "split_from sep acc (c # s) =
     (if has_prefix (c # s) sep then rev acc # split_from sep [] (drop (length sep - 1) s)
      else split_from sep (c # acc) s)"

definition split_string :: "string \<Rightarrow> string \<Rightarrow> string list" where
  "split_string s sep = (if sep = [] then map (\<lambda>c. [c]) s else split_from sep [] s)"

definition repeat_string :: "expr_env \<Rightarrow> string \<Rightarrow> oval \<Rightarrow> string + oval" where
  "repeat_string env s number =
     (case override_number number of
        Some (count, True) \<Rightarrow>
          (if float_less count (FZero False) then Inl ''string multiplier must be a non-negative integer''
           else if float_less (float_of_int 10000000) count then Inl ''string multiplier cannot exceed 10 million''
           else Inr (VStr (concat (replicate (nat (int_of_float (ee_int_of_float env) count)) s))))
      | _ \<Rightarrow> Inl ''string multiplier must be a non-negative integer'')"

text \<open>The cases of \<open>evaluateOverrideBinary\<close>, one definition for each group of operators.\<close>

definition eval_order :: "string \<Rightarrow> oval \<Rightarrow> oval \<Rightarrow> string + oval" where
  "eval_order operator left right =
     (if \<not> is_scalar left \<or> \<not> is_scalar right then Inl ''cannot compare''
      else if left = VNull \<or> right = VNull then
        Inr (VBool (left = VNull \<and> right = VNull \<and> (operator = ''<='' \<or> operator = ''>='')))
      else attempt (compare_values left right) (\<lambda>c.
        Inr (VBool (if operator = ''<'' then c < 0 else if operator = ''<='' then c \<le> 0
                    else if operator = ''>'' then c > 0 else c \<ge> 0))))"

definition eval_add :: "expr_env \<Rightarrow> oval \<Rightarrow> oval \<Rightarrow> string + oval" where
  "eval_add env left right =
     (case left of
        VNull \<Rightarrow> Inr (clone_value right)
      | VStr s \<Rightarrow>
          (if right = VNull then Inr (VStr s)
           else if \<not> is_scalar right then Inl ''cannot add string and''
           else Inr (VStr (s @ sprint env right)))
      | VSeq vs \<Rightarrow>
          (case right of
             VNull \<Rightarrow> Inr (VSeq vs)
           | VSeq ws \<Rightarrow> Inr (VSeq (vs @ map clone_value ws))
           | w \<Rightarrow> Inr (VSeq (vs @ [clone_value w])))
      | VMap kvs \<Rightarrow>
          (case right of
             VMap kws \<Rightarrow> Inr (VMap (foldl (\<lambda>m (k, v). map_put k (clone_value v) m) kvs kws))
           | _ \<Rightarrow> Inl ''cannot add mapping and'')
      | _ \<Rightarrow>
          (case right of
             VStr t \<Rightarrow>
               (if is_scalar left then Inr (VStr (sprint env left @ t)) else evaluate_numbers env ''+'' left right)
           | _ \<Rightarrow> evaluate_numbers env ''+'' left right))"

definition eval_subtract :: "expr_env \<Rightarrow> oval \<Rightarrow> oval \<Rightarrow> string + oval" where
  "eval_subtract env left right =
     (case left of
        VNull \<Rightarrow> Inr (clone_value right)
      | VSeq vs \<Rightarrow>
          (case right of
             VSeq ws \<Rightarrow> Inr (VSeq (filter (\<lambda>v. \<not> list_ex (override_equal v) ws) vs))
           | _ \<Rightarrow> Inl ''cannot be subtracted from !!seq'')
      | _ \<Rightarrow> evaluate_numbers env ''-'' left right)"

definition eval_multiply :: "expr_env \<Rightarrow> oval \<Rightarrow> oval \<Rightarrow> string + oval" where
  "eval_multiply env left right =
     (case (left, right) of
        (_, VNull) \<Rightarrow> Inr (clone_value left)
      | (VNull, VSeq ws) \<Rightarrow> Inr (clone_value (VSeq ws))
      | (VNull, VMap kws) \<Rightarrow> Inr (clone_value (VMap kws))
      | (VMap kvs, VMap kws) \<Rightarrow> Inr (VMap (merge_maps kvs kws))
      | (VMap _, _) \<Rightarrow> Inl ''cannot multiply mapping and''
      | (VSeq _, VSeq ws) \<Rightarrow> Inr (clone_value (VSeq ws))
      | (VStr s, _) \<Rightarrow> repeat_string env s right
      | (_, VStr t) \<Rightarrow> repeat_string env t left
      | _ \<Rightarrow> evaluate_numbers env ''*'' left right)"

definition eval_divide :: "expr_env \<Rightarrow> oval \<Rightarrow> oval \<Rightarrow> string + oval" where
  "eval_divide env left right =
     (case left of
        VStr s \<Rightarrow>
          (case right of
             VStr t \<Rightarrow> Inr (VSeq (if s = [] then [] else map VStr (split_string s t)))
           | _ \<Rightarrow> Inl ''operator / cannot be used with !!str and'')
      | _ \<Rightarrow> evaluate_numbers env ''/'' left right)"

definition evaluate_binary :: "expr_env \<Rightarrow> string \<Rightarrow> oval \<Rightarrow> oval \<Rightarrow> string + oval" where
  "evaluate_binary env operator left right =
     (if operator = ''and'' then Inr (VBool (truthy left \<and> truthy right))
      else if operator = ''or'' then Inr (VBool (truthy left \<or> truthy right))
      else if operator = ''//'' then Inr (if truthy left then left else right)
      else if operator = ''=='' then Inr (VBool (yq_equal env left right))
      else if operator = ''!='' then Inr (VBool (\<not> yq_equal env left right))
      else if operator \<in> {''<'', ''<='', ''>'', ''>=''} then eval_order operator left right
      else if operator = ''+'' then eval_add env left right
      else if operator = ''-'' then eval_subtract env left right
      else if operator = ''*'' then eval_multiply env left right
      else if operator = ''/'' then eval_divide env left right
      else if operator = ''%'' then evaluate_numbers env operator left right
      else Inl ''unsupported operator'')"

subsection \<open>Well-formed values\<close>

fun int_fits :: "int_kind \<Rightarrow> int \<Rightarrow> bool" where
  "int_fits KInt8 n = (- (2 ^ 7) \<le> n \<and> n < 2 ^ 7)"
| "int_fits KInt16 n = (- (2 ^ 15) \<le> n \<and> n < 2 ^ 15)"
| "int_fits KInt32 n = (- (2 ^ 31) \<le> n \<and> n < 2 ^ 31)"
| "int_fits KUint8 n = (0 \<le> n \<and> n < 2 ^ 8)"
| "int_fits KUint16 n = (0 \<le> n \<and> n < 2 ^ 16)"
| "int_fits KUint32 n = (0 \<le> n \<and> n < 2 ^ 32)"
| "int_fits KUint n = (0 \<le> n \<and> n < 2 ^ 64)"
| "int_fits KUint64 n = (0 \<le> n \<and> n < 2 ^ 64)"
| "int_fits _ n = fits64 n"

text \<open>Integers are in the range of their type; the keys of every map increase.\<close>

fun well_formed :: "oval \<Rightarrow> bool" where
  "well_formed (VInt k n) = int_fits k n"
| "well_formed (VSeq vs) = list_all well_formed vs"
| "well_formed (VMap kvs) = (sorted_wrt (<) (map fst kvs) \<and> list_all (\<lambda>(k, v). well_formed v) kvs)"
| "well_formed _ = True"

definition entries_ok :: "(string \<times> oval) list \<Rightarrow> bool" where
  "entries_ok kvs \<longleftrightarrow> sorted_wrt (<) (map fst kvs) \<and> (\<forall>v\<in>snd ` set kvs. well_formed v)"

named_theorems wf_values \<open>operations keep values well formed\<close>

lemma str_less_iff [simp]: "str_less s t \<longleftrightarrow> s < t"
proof (induction s t rule: str_less.induct)
  case (3 a s b t)
  have "char_code a < char_code b \<longleftrightarrow> a < b" "char_code b < char_code a \<longleftrightarrow> b < a"
    by (simp_all add: char_code_def less_char_def)
  then show ?case using 3 by (auto simp: not_less_iff_gr_or_eq)
qed simp_all

lemma well_formed_VMap [simp]: "well_formed (VMap kvs) \<longleftrightarrow> entries_ok kvs"
  by (auto simp: entries_ok_def list_all_iff)

lemma well_formed_VSeq [simp]: "well_formed (VSeq vs) \<longleftrightarrow> (\<forall>v\<in>set vs. well_formed v)"
  by (simp add: list_all_iff)

declare well_formed.simps(2,3) [simp del]

lemma clone_value_id [simp]: "clone_value v = v"
  by (induction v rule: clone_value.induct) (auto intro!: map_idI)

lemma map_clone [simp]: "map clone_value vs = vs"
  by (simp add: map_idI)

lemma keys_map_put [simp]: "fst ` set (map_put k v kvs) = insert k (fst ` set kvs)"
  by (induction k v kvs rule: map_put.induct) (simp_all add: insert_commute)

lemma sorted_map_put: "sorted_wrt (<) (map fst kvs) \<Longrightarrow> sorted_wrt (<) (map fst (map_put k v kvs))"
proof (induction kvs)
  case (Cons x kvs)
  obtain k' v' where x: "x = (k', v')" by (cases x)
  have "\<forall>y \<in> set (map fst (map_put k v kvs)). y = k \<or> y \<in> fst ` set kvs" by simp
  then show ?case using Cons x by (auto simp: not_less_iff_gr_or_eq)
qed simp

lemma map_of_map_put: "sorted_wrt (<) (map fst kvs) \<Longrightarrow> map_of (map_put k v kvs) = (map_of kvs)(k \<mapsto> v)"
proof (induction kvs)
  case (Cons x kvs)
  obtain k' v' where x: "x = (k', v')" by (cases x)
  show ?case
  proof (cases "k < k'")
    case True
    then have "k \<notin> fst ` set (x # kvs)" using Cons.prems x by (auto simp: less_asym)
    then show ?thesis using True x by (auto simp: fun_eq_iff)
  qed (use Cons x in \<open>auto simp: fun_eq_iff\<close>)
qed simp

lemma values_map_put: "snd ` set (map_put k v kvs) \<subseteq> insert v (snd ` set kvs)"
  by (induction k v kvs rule: map_put.induct) (simp_all add: subset_insertI2 insert_commute, blast)

lemma entries_ok_Nil [simp]: "entries_ok []"
  by (simp add: entries_ok_def)

lemma entries_ok_map_put [wf_values]: "entries_ok kvs \<Longrightarrow> well_formed v \<Longrightarrow> entries_ok (map_put k v kvs)"
  using sorted_map_put [of kvs k v] values_map_put [of k v kvs] unfolding entries_ok_def by blast

lemma entries_ok_map_del [wf_values]: "entries_ok kvs \<Longrightarrow> entries_ok (map_del k kvs)"
  unfolding entries_ok_def map_del_def by (auto simp: sorted_wrt_map sorted_wrt_filter)

lemma map_of_map_del: "map_of (map_del k kvs) = (map_of kvs)(k := None)"
  by (induction kvs) (auto simp: map_del_def fun_eq_iff)

lemma well_formed_map_of: "entries_ok kvs \<Longrightarrow> map_of kvs k = Some v \<Longrightarrow> well_formed v"
  by (force simp: entries_ok_def dest: map_of_SomeD)

lemma well_formed_map_get [wf_values]: "entries_ok kvs \<Longrightarrow> well_formed (map_get k kvs)"
  by (auto simp: map_get_def well_formed_map_of split: option.split)

lemma well_formed_no_match [simp]: "well_formed no_match"
  by (simp add: no_match_def)

lemma entries_ok_Cons: "entries_ok ((k, v) # kvs) \<longleftrightarrow>
    (\<forall>k'\<in>fst ` set kvs. k < k') \<and> well_formed v \<and> entries_ok kvs"
  by (auto simp: entries_ok_def)

lemma entries_ok_merge [wf_values]: "entries_ok left \<Longrightarrow> entries_ok right \<Longrightarrow> entries_ok (merge_maps left right)"
proof (induction left right rule: merge_maps.induct)
  case (2 left k rv rest)
  then have rest: "entries_ok (merge_maps left rest)" and rv: "well_formed rv" by (auto simp: entries_ok_Cons)
  show ?case
  proof (cases "\<exists>lm rm. map_of left k = Some (VMap lm) \<and> rv = VMap rm")
    case True
    then obtain lm rm where m: "map_of left k = Some (VMap lm)" "rv = VMap rm" by blast
    then have "entries_ok lm" using "2.prems"(1) well_formed_map_of by fastforce
    then have "entries_ok (merge_maps lm rm)" using "2.IH"(1) m rv by simp
    then show ?thesis using m rest by (simp add: wf_values)
  next
    case False
    then have "(case (map_of left k, rv) of (Some (VMap lm), VMap rm) \<Rightarrow> VMap (merge_maps lm rm) | _ \<Rightarrow> rv) = rv"
      by (auto split: option.splits oval.splits)
    then show ?thesis using rest rv by (simp add: wf_values)
  qed
qed simp

lemma well_formed_flatten [wf_values]:
  "\<forall>v\<in>set vs. well_formed v \<Longrightarrow> \<forall>v\<in>set (flatten_values vs depth). well_formed v"
proof (induction vs depth rule: flatten_values.induct)
  case (2 children vs depth)
  have vs: "\<forall>v\<in>set vs. well_formed v" and children: "\<forall>v\<in>set children. well_formed v"
    using "2.prems" by simp_all
  show ?case
  proof (cases "depth = 0")
    case True
    then show ?thesis using "2.IH"(1) [OF True vs] children by simp
  next
    case False
    then show ?thesis using "2.IH"(2) [OF False children] "2.IH"(3) [OF False vs] by (simp add: ball_Un)
  qed
qed simp_all

lemma unique_values_subset: "unique_values env seen vs = Inr ws \<Longrightarrow> set ws \<subseteq> set vs"
  by (induction env seen vs arbitrary: ws rule: unique_values.induct)
    (fastforce simp: attempt_Inr_iff split: if_splits)+

lemma set_insert_from_right [simp]: "set (insert_from_right x ys) = insert x (set ys)"
  by (induction ys) auto

lemma set_insertion: "set (foldl (\<lambda>sorted v. insert_from_right v sorted) acc vs) = set acc \<union> set vs"
  by (induction vs arbitrary: acc) auto

lemma set_sort_values: "sort_values vs = Inr ws \<Longrightarrow> set ws = set vs"
  by (auto simp: sort_values_def set_insertion split: if_splits)

lemma wrap64_range [simp]: "fits64 (wrap64 n)"
  using pos_mod_bound [of "2 ^ 64" "n + 2 ^ 63"] pos_mod_sign [of "2 ^ 64" "n + 2 ^ 63"]
  by (simp add: wrap64_def fits64_def)

lemma wf_evaluate_numbers: "evaluate_numbers env operator left right = Inr v \<Longrightarrow> well_formed v"
  by (auto simp: evaluate_numbers_def Let_def split: option.splits if_splits)

lemma wf_repeat_string: "repeat_string env s n = Inr v \<Longrightarrow> well_formed v"
  by (auto simp: repeat_string_def split: option.splits if_splits bool.splits prod.splits)

lemma entries_ok_values: "entries_ok kvs \<Longrightarrow> \<forall>v\<in>snd ` set kvs. well_formed v"
  by (simp add: entries_ok_def)

lemma entries_ok_update_all:
  "entries_ok kvs \<Longrightarrow> \<forall>v\<in>snd ` set kws. well_formed v \<Longrightarrow> entries_ok (foldl (\<lambda>m (k, v). map_put k v m) kvs kws)"
  by (induction kws arbitrary: kvs) (auto simp: wf_values)

lemma wf_eval_add: "eval_add env left right = Inr v \<Longrightarrow> well_formed left \<Longrightarrow> well_formed right \<Longrightarrow> well_formed v"
  by (cases left; cases right)
    (auto simp: eval_add_def entries_ok_update_all entries_ok_values dest: wf_evaluate_numbers split: if_splits)

lemma wf_eval_subtract:
  "eval_subtract env left right = Inr v \<Longrightarrow> well_formed left \<Longrightarrow> well_formed right \<Longrightarrow> well_formed v"
  by (cases left; cases right) (auto simp: eval_subtract_def dest: wf_evaluate_numbers)

lemma wf_eval_multiply:
  "eval_multiply env left right = Inr v \<Longrightarrow> well_formed left \<Longrightarrow> well_formed right \<Longrightarrow> well_formed v"
  by (cases left; cases right)
    (auto simp: eval_multiply_def wf_values dest: wf_evaluate_numbers wf_repeat_string)

lemma wf_eval_divide: "eval_divide env left right = Inr v \<Longrightarrow> well_formed v"
  by (cases left; cases right) (auto simp: eval_divide_def dest: wf_evaluate_numbers split: if_splits)

lemma wf_eval_order: "eval_order operator left right = Inr v \<Longrightarrow> well_formed v"
  by (auto simp: eval_order_def attempt_Inr_iff split: if_splits)

lemma wf_evaluate_binary:
  assumes "evaluate_binary env operator left right = Inr v" and "well_formed left" and "well_formed right"
  shows "well_formed v"
  using assms(1) wf_eval_add [OF _ assms(2,3)] wf_eval_subtract [OF _ assms(2,3)] wf_eval_multiply [OF _ assms(2,3)]
    wf_eval_divide wf_eval_order wf_evaluate_numbers assms(2,3)
  unfolding evaluate_binary_def by (force split: if_splits)

end
