(* ===== verification/Override_Parser.thy ===== *)
theory Override_Parser
  imports Override_Lexer Override_Value
begin

text \<open>
  The parser of the override expressions (\<open>adapter/provider/override_expr.go\<close>): recursive descent
  over the list of the tokens left, which always ends in the end token. A method of the parser
  that reads a value is given the function for nested values, \<open>value\<close>, and the one that parses the
  source inside a string interpolation, \<open>interp\<close>; \<open>parse_value\<close> and \<open>parse_source\<close> tie the knots
  with a bound on the nesting that \<open>Out\<close> reports. Loops run at most once for every token left.
\<close>

subsection \<open>Syntax\<close>

datatype path_segment = SField string | SIndex int | SWild

datatype vexpr =
    EPipeline "vexpr list"
  | EUnion "vexpr list"
  | ELiteral oval
  | EString "string_part list"
  | EPath "path_segment list"
  | EArray "vexpr list"
  | EMap "(string \<times> vexpr) list"
  | EUpdate "path_segment list" token_kind vexpr
  | EBinary string vexpr vexpr
  | EFunction string "vexpr list"
  | EStream string "vexpr list"
and string_part = PLit string | PExpr vexpr

datatype target_stage = StagePath "path_segment list" | StageCond vexpr

datatype statement =
    SAssign "path_segment list" "target_stage list option" token_kind vexpr
  | SFilter vexpr
  | SDelete "path_segment list list"

type_synonym 'a parser = "token list \<Rightarrow> string + 'a \<times> token list"

definition out_of_fuel :: string where
  "out_of_fuel = ''Out''"

subsection \<open>Moving through the tokens\<close>

definition end_token :: token where
  "end_token = \<lparr>t_kind = TEof, t_text = [], t_pos = 0\<rparr>"

definition peek :: "token list \<Rightarrow> token" where
  "peek ts = (case ts of t # _ \<Rightarrow> t | [] \<Rightarrow> end_token)"

definition next_token :: "token list \<Rightarrow> token \<times> token list" where
  "next_token ts = (case ts of [] \<Rightarrow> (end_token, []) | t # r \<Rightarrow> (t, if t_kind t = TEof then ts else r))"

definition skip :: "token list \<Rightarrow> token list" where
  "skip ts = snd (next_token ts)"

definition at_kind :: "token_kind \<Rightarrow> token list \<Rightarrow> bool" where
  "at_kind k ts = (t_kind (peek ts) = k)"

definition expect :: "token_kind \<Rightarrow> string \<Rightarrow> token parser" where
  "expect k message ts =
     (case next_token ts of (t, r) \<Rightarrow> if t_kind t = k then Inr (t, r) else Inl message)"

definition peek_identifier :: "string \<Rightarrow> token list \<Rightarrow> bool" where
  "peek_identifier s ts = (t_kind (peek ts) = TIdent \<and> t_text (peek ts) = s)"

fun is_assignment :: "token_kind \<Rightarrow> bool" where
  "is_assignment TAssign = True"
| "is_assignment TUpdateAssign = True"
| "is_assignment TAddAssign = True"
| "is_assignment TSubtractAssign = True"
| "is_assignment TMultiplyAssign = True"
| "is_assignment _ = False"

text \<open>A loop \<open>for { item; if !p.match(sep) { break } }\<close>.\<close>

fun sep_by :: "nat \<Rightarrow> token_kind set \<Rightarrow> 'a parser \<Rightarrow> 'a list parser" where
  "sep_by 0 seps item ts = Inl out_of_fuel"
| "sep_by (Suc n) seps item ts =
     attempt (item ts) (\<lambda>(x, ts1).
       if t_kind (peek ts1) \<in> seps
       then attempt (sep_by n seps item (skip ts1)) (\<lambda>(xs, ts2). Inr (x # xs, ts2))
       else Inr ([x], ts1))"

text \<open>A loop that collects the operands of operators of one level to the left.\<close>

fun left_assoc :: "nat \<Rightarrow> (token \<Rightarrow> string option) \<Rightarrow> vexpr parser \<Rightarrow> vexpr \<Rightarrow> vexpr parser" where
  "left_assoc 0 op operand left ts = Inl out_of_fuel"
| "left_assoc (Suc n) op operand left ts =
     (case op (peek ts) of
        None \<Rightarrow> Inr (left, ts)
      | Some name \<Rightarrow>
          attempt (operand (skip ts)) (\<lambda>(right, ts1).
            left_assoc n op operand (EBinary name left right) ts1))"

definition binary_level :: "(token \<Rightarrow> string option) \<Rightarrow> vexpr parser \<Rightarrow> vexpr parser" where
  "binary_level op operand ts =
     attempt (operand ts) (\<lambda>(left, ts1). left_assoc (Suc (length ts1)) op operand left ts1)"

subsection \<open>Paths\<close>

definition path_field :: "token \<Rightarrow> string + string" where
  "path_field t = (if t_kind t = TIdent then Inr (t_text t) else decode_string (t_text t))"

definition path_index :: "token list \<Rightarrow> string + path_segment \<times> token list" where
  "path_index ts =
     (case next_token ts of
        (t, ts1) \<Rightarrow>
          (if t_kind t \<in> {TString, TIdent} then attempt (path_field t) (\<lambda>key. Inr (SField key, ts1))
           else if t_kind t \<in> {TNumber, TMinus} then
             attempt
               (if t_kind t = TMinus then
                  attempt (expect TNumber ''expected array index after -'' ts1) (\<lambda>(n, ts2).
                    Inr (t_text t @ t_text n, ts2))
                else Inr (t_text t, ts1))
               (\<lambda>(text, ts2).
                 (case parse_int64 text of None \<Rightarrow> Inl ''invalid array index'' | Some i \<Rightarrow> Inr (SIndex i, ts2)))
           else Inl ''expected field name or array index''))"

fun parse_segments :: "nat \<Rightarrow> path_segment list parser" where
  "parse_segments 0 ts = Inl out_of_fuel"
| "parse_segments (Suc n) ts =
     (if at_kind TDot ts then
        (case next_token (skip ts) of
           (t, ts1) \<Rightarrow>
             (if t_kind t \<notin> {TIdent, TString} then Inl ''expected field name after dot''
              else attempt (path_field t) (\<lambda>key.
                attempt (parse_segments n ts1) (\<lambda>(path, ts2). Inr (SField key # path, ts2)))))
      else if at_kind TLeftBracket ts then
        (if at_kind TRightBracket (skip ts) then
           attempt (parse_segments n (skip (skip ts))) (\<lambda>(path, ts2). Inr (SWild # path, ts2))
         else
           attempt (path_index (skip ts)) (\<lambda>(seg, ts1).
             attempt (expect TRightBracket '']'' ts1) (\<lambda>(_, ts2).
               attempt (parse_segments n ts2) (\<lambda>(path, ts3). Inr (seg # path, ts3)))))
      else Inr ([], ts))"

definition parse_path :: "path_segment list parser" where
  "parse_path ts =
     attempt (expect TDot ''expected path starting with dot'' ts) (\<lambda>(_, ts1).
       if t_kind (peek ts1) \<in> {TIdent, TString} then
         attempt (path_field (peek ts1)) (\<lambda>key.
           attempt (parse_segments (Suc (length ts1)) (skip ts1)) (\<lambda>(path, ts2). Inr (SField key # path, ts2)))
       else parse_segments (Suc (length ts1)) ts1)"

subsection \<open>Numbers and strings\<close>

text \<open>\<open>strconv.ParseInt(s, base, 64)\<close> for an explicit base.\<close>

definition base_digit :: "char \<Rightarrow> nat option" where
  "base_digit c =
     (let n = char_code c in
      if 48 \<le> n \<and> n \<le> 57 then Some (n - 48)
      else if 97 \<le> n \<and> n \<le> 122 then Some (n - 87)
      else if 65 \<le> n \<and> n \<le> 90 then Some (n - 55) else None)"

fun base_digits :: "nat \<Rightarrow> nat \<Rightarrow> string \<Rightarrow> nat option" where
  "base_digits base acc [] = Some acc"
| "base_digits base acc (c # s) =
     (case base_digit c of
        Some d \<Rightarrow> if d < base then base_digits base (base * acc + d) s else None
      | None \<Rightarrow> None)"

definition parse_int_base :: "nat \<Rightarrow> string \<Rightarrow> int option" where
  "parse_int_base base s =
     (let neg = (s \<noteq> [] \<and> hd s = CHR ''-'');
          body = (if s \<noteq> [] \<and> (hd s = CHR ''-'' \<or> hd s = CHR ''+'') then tl s else s) in
      if body = [] then None
      else (case base_digits base 0 body of
              None \<Rightarrow> None
            | Some n \<Rightarrow>
                (let i = (if neg then - int n else int n) in if fits64 i then Some i else None)))"

definition parse_number :: "expr_env \<Rightarrow> string \<Rightarrow> string + vexpr" where
  "parse_number env text =
     (if list_ex (\<lambda>c. c \<in> {CHR ''.'', CHR ''e'', CHR ''E''}) text then
        (case ee_parse_float env text of
           None \<Rightarrow> Inl ''invalid number'' | Some x \<Rightarrow> Inr (ELiteral (VFloat KFloat64 x)))
      else
        (case (if has_prefix text ''0x'' \<or> has_prefix text ''0X'' then parse_int_base 16 (drop 2 text)
               else parse_int_base 10 text) of
           None \<Rightarrow> Inl ''invalid number'' | Some i \<Rightarrow> Inr (ELiteral (VInt KInt i))))"

text \<open>The raw text of a string up to its first interpolation, and what follows the opening parenthesis.\<close>

fun find_interpolation :: "string \<Rightarrow> (string \<times> string) option" where
  "find_interpolation [] = None"
| "find_interpolation (c # s) =
     (if c \<noteq> CHR 0x5C then map_option (\<lambda>(l, r). (c # l, r)) (find_interpolation s)
      else
        (case s of
           [] \<Rightarrow> None
         | d # s' \<Rightarrow>
             (if d = CHR ''('' then Some ([], s')
              else map_option (\<lambda>(l, r). (c # d # l, r)) (find_interpolation s'))))"

text \<open>What a string inside an interpolation takes, with its closing quote, and the rest.\<close>

fun skip_quoted :: "string \<Rightarrow> string \<times> string" where
  "skip_quoted [] = ([], [])"
| "skip_quoted (c # s) =
     (if c = CHR 0x22 then ([c], s)
      else if c = CHR 0x5C then
        (case s of [] \<Rightarrow> ([c], []) | d # s' \<Rightarrow> map_prod (\<lambda>q. c # d # q) id (skip_quoted s'))
      else map_prod (\<lambda>q. c # q) id (skip_quoted s))"

lemma skip_quoted_length: "length (snd (skip_quoted s)) \<le> length s"
proof (induction s rule: skip_quoted.induct)
  case (2 c s)
  show ?case
  proof (cases s)
    case Nil
    then show ?thesis by simp
  next
    case (Cons d s')
    have "length (snd (skip_quoted s')) \<le> length s'" if "c \<noteq> CHR 0x22" "c = CHR 0x5C"
      using "2.IH"(1) [OF that Cons] .
    moreover have "length (snd (skip_quoted s)) \<le> length s" if "c \<noteq> CHR 0x22" "c \<noteq> CHR 0x5C"
      using "2.IH"(2) [OF that] .
    ultimately show ?thesis
      unfolding skip_quoted.simps(2) [of c s] using Cons
      by (cases "c = CHR 0x22"; cases "c = CHR 0x5C") (simp_all del: skip_quoted.simps)
  qed
qed simp

lemma skip_quoted_shorter [termination_simp]: "(q, r) = skip_quoted s \<Longrightarrow> length r < Suc (length s)"
  using skip_quoted_length [of s] by (simp add: less_Suc_eq_le prod_eq_iff)

fun interpolation_end :: "nat \<Rightarrow> string \<Rightarrow> (string \<times> string) option" where
  "interpolation_end depth [] = None"
| "interpolation_end depth (c # s) =
     (if c = CHR 0x5C then
        (case s of
           [] \<Rightarrow> None
         | d # s' \<Rightarrow> map_option (\<lambda>(e, r). (c # d # e, r)) (interpolation_end depth s'))
      else if c = CHR 0x22 then
        (case skip_quoted s of
           (q, s') \<Rightarrow> map_option (\<lambda>(e, r). (c # q @ e, r)) (interpolation_end depth s'))
      else if c = CHR ''('' then map_option (\<lambda>(e, r). (c # e, r)) (interpolation_end (Suc depth) s)
      else if c = CHR '')'' then
        (if depth = 0 then Some ([], s)
         else map_option (\<lambda>(e, r). (c # e, r)) (interpolation_end (depth - 1) s))
      else map_option (\<lambda>(e, r). (c # e, r)) (interpolation_end depth s))"

fun unescape_quotes :: "string \<Rightarrow> string" where
  "unescape_quotes [] = []"
| "unescape_quotes [c] = [c]"
| "unescape_quotes (c # d # s) =
     (if c = CHR 0x5C \<and> d = CHR 0x22 then d # unescape_quotes s else c # unescape_quotes (d # s))"

fun parse_parts ::
  "nat \<Rightarrow> (string \<Rightarrow> string + vexpr) \<Rightarrow> string_part list \<Rightarrow> string \<Rightarrow> string + string_part list \<times> string" where
  "parse_parts 0 interp parts raw = Inl out_of_fuel"
| "parse_parts (Suc n) interp parts raw =
     (case find_interpolation raw of
        None \<Rightarrow> attempt (decode_string raw) (\<lambda>literal. Inr (parts, literal))
      | Some (before, rest) \<Rightarrow>
          attempt (decode_string before) (\<lambda>literal.
            (case interpolation_end 0 rest of
               None \<Rightarrow> Inl ''unterminated interpolation''
             | Some (source, rest') \<Rightarrow>
                 attempt (interp (unescape_quotes source)) (\<lambda>e.
                   parse_parts n interp
                     (parts @ (if literal = [] then [] else [PLit literal]) @ [PExpr e]) rest'))))"

definition parse_string :: "(string \<Rightarrow> string + vexpr) \<Rightarrow> string \<Rightarrow> string + vexpr" where
  "parse_string interp text =
     attempt (parse_parts (Suc (length text)) interp [] text) (\<lambda>(parts, literal).
       if parts = [] then Inr (ELiteral (VStr literal))
       else Inr (EString (parts @ (if literal = [] then [] else [PLit literal]))))"

subsection \<open>Values\<close>

definition plain_functions :: "string list" where
  "plain_functions =
     [''length'', ''type'', ''keys'', ''has'', ''contains'', ''select'', ''sub'', ''test'', ''split'',
      ''join'', ''upcase'', ''downcase'', ''trim'', ''tostring'', ''tonumber'', ''not'', ''reverse'',
      ''sort'', ''unique'', ''flatten'', ''any'', ''all'']"

definition stream_functions :: "string list" where
  "stream_functions =
     [''map'', ''map_values'', ''filter'', ''to_entries'', ''from_entries'', ''with_entries'', ''any_c'', ''all_c'']"

definition is_override_function :: "string \<Rightarrow> bool" where
  "is_override_function name = (name \<in> set (plain_functions @ stream_functions))"

definition is_stream_function :: "string \<Rightarrow> bool" where
  "is_stream_function name = (name \<in> set stream_functions)"

definition map_entry :: "(bool \<Rightarrow> vexpr parser) \<Rightarrow> (string \<times> vexpr) parser" where
  "map_entry value ts =
     (case next_token ts of
        (key, ts1) \<Rightarrow>
          (if t_kind key \<noteq> TString then Inl ''expected quoted map key''
           else attempt (expect TColon ''expected colon after map key'' ts1) (\<lambda>(_, ts2).
             attempt (decode_string (t_text key)) (\<lambda>k.
               attempt (value True ts2) (\<lambda>(v, ts3). Inr ((k, v), ts3))))))"

text \<open>\<open>parseUnionExpression\<close>.\<close>

definition parse_union :: "(bool \<Rightarrow> vexpr parser) \<Rightarrow> bool \<Rightarrow> vexpr parser" where
  "parse_union value allow ts =
     attempt (sep_by (Suc (length ts)) {TComma} (value allow) ts) (\<lambda>(vs, ts1).
       case vs of [v] \<Rightarrow> Inr (v, ts1) | _ \<Rightarrow> Inr (EUnion vs, ts1))"

definition parse_arguments :: "(bool \<Rightarrow> vexpr parser) \<Rightarrow> vexpr list parser" where
  "parse_arguments value ts =
     (if at_kind TLeftParen ts then
        (if at_kind TRightParen (skip ts) then Inr ([], skip (skip ts))
         else attempt (sep_by (Suc (length ts)) {TComma, TSemicolon} (value True) (skip ts)) (\<lambda>(args, ts1).
           attempt (expect TRightParen ''expected right parenthesis after function arguments'' ts1) (\<lambda>(_, ts2).
             Inr (args, ts2))))
      else Inr ([], ts))"

definition parse_identifier :: "(bool \<Rightarrow> vexpr parser) \<Rightarrow> string \<Rightarrow> vexpr parser" where
  "parse_identifier value name ts =
     (if name = ''true'' then Inr (ELiteral (VBool True), ts)
      else if name = ''false'' then Inr (ELiteral (VBool False), ts)
      else if name = ''null'' \<or> name = [CHR 0x7E] then Inr (ELiteral VNull, ts)
      else attempt (parse_arguments value ts) (\<lambda>(args, ts1).
        if \<not> is_override_function name then Inl ''unknown function''
        else Inr (if is_stream_function name then EStream name args else EFunction name args, ts1)))"

definition parse_primary ::
  "expr_env \<Rightarrow> (string \<Rightarrow> string + vexpr) \<Rightarrow> (bool \<Rightarrow> vexpr parser) \<Rightarrow> vexpr parser" where
  "parse_primary env interp value ts =
     (case next_token ts of
        (t, ts1) \<Rightarrow>
          (case t_kind t of
             TDot \<Rightarrow> attempt (parse_path ts) (\<lambda>(path, ts2). Inr (EPath path, ts2))
           | TString \<Rightarrow> attempt (parse_string interp (t_text t)) (\<lambda>e. Inr (e, ts1))
           | TNumber \<Rightarrow> attempt (parse_number env (t_text t)) (\<lambda>e. Inr (e, ts1))
           | TLeftParen \<Rightarrow>
               attempt (parse_union value True ts1) (\<lambda>(e, ts2).
                 attempt (expect TRightParen ''expected right parenthesis'' ts2) (\<lambda>(_, ts3). Inr (e, ts3)))
           | TLeftBracket \<Rightarrow>
               (if at_kind TRightBracket ts1 then Inr (EArray [], skip ts1)
                else attempt (sep_by (Suc (length ts1)) {TComma} (value True) ts1) (\<lambda>(vs, ts2).
                  attempt (expect TRightBracket ''expected right bracket after array'' ts2) (\<lambda>(_, ts3).
                    Inr (EArray vs, ts3))))
           | TLeftBrace \<Rightarrow>
               (if at_kind TRightBrace ts1 then Inr (EMap [], skip ts1)
                else attempt (sep_by (Suc (length ts1)) {TComma} (map_entry value) ts1) (\<lambda>(es, ts2).
                  attempt (expect TRightBrace ''expected right brace after map'' ts2) (\<lambda>(_, ts3).
                    Inr (EMap es, ts3))))
           | TIdent \<Rightarrow> parse_identifier value (t_text t) ts1
           | _ \<Rightarrow> Inl ''expected value''))"

definition parse_unary ::
  "expr_env \<Rightarrow> (string \<Rightarrow> string + vexpr) \<Rightarrow> (bool \<Rightarrow> vexpr parser) \<Rightarrow> vexpr parser" where
  "parse_unary env interp value ts =
     (if at_kind TMinus ts then
        (case next_token (skip ts) of
           (n, ts1) \<Rightarrow>
             (if t_kind n \<noteq> TNumber then Inl ''unary minus is only supported for number literals''
              else attempt (parse_number env (CHR ''-'' # t_text n)) (\<lambda>e. Inr (e, ts1))))
      else parse_primary env interp value ts)"

definition kind_op :: "token_kind set \<Rightarrow> token \<Rightarrow> string option" where
  "kind_op kinds t = (if t_kind t \<in> kinds then Some (t_text t) else None)"

definition word_op :: "string \<Rightarrow> token \<Rightarrow> string option" where
  "word_op word t = (if t_kind t = TIdent \<and> t_text t = word then Some word else None)"

definition parse_multiplicative ::
  "expr_env \<Rightarrow> (string \<Rightarrow> string + vexpr) \<Rightarrow> (bool \<Rightarrow> vexpr parser) \<Rightarrow> vexpr parser" where
  "parse_multiplicative env interp value =
     binary_level (kind_op {TMultiply, TDivide, TModulo}) (parse_unary env interp value)"

definition parse_additive ::
  "expr_env \<Rightarrow> (string \<Rightarrow> string + vexpr) \<Rightarrow> (bool \<Rightarrow> vexpr parser) \<Rightarrow> vexpr parser" where
  "parse_additive env interp value =
     binary_level (kind_op {TPlus, TMinus}) (parse_multiplicative env interp value)"

definition parse_comparison ::
  "expr_env \<Rightarrow> (string \<Rightarrow> string + vexpr) \<Rightarrow> (bool \<Rightarrow> vexpr parser) \<Rightarrow> vexpr parser" where
  "parse_comparison env interp value =
     binary_level (kind_op {TEqual, TNotEqual, TLess, TLessEqual, TGreater, TGreaterEqual})
       (parse_additive env interp value)"

definition parse_alternative ::
  "expr_env \<Rightarrow> (string \<Rightarrow> string + vexpr) \<Rightarrow> (bool \<Rightarrow> vexpr parser) \<Rightarrow> vexpr parser" where
  "parse_alternative env interp value =
     binary_level (kind_op {TAlternative}) (parse_comparison env interp value)"

definition parse_and ::
  "expr_env \<Rightarrow> (string \<Rightarrow> string + vexpr) \<Rightarrow> (bool \<Rightarrow> vexpr parser) \<Rightarrow> vexpr parser" where
  "parse_and env interp value = binary_level (word_op ''and'') (parse_alternative env interp value)"

definition parse_or ::
  "expr_env \<Rightarrow> (string \<Rightarrow> string + vexpr) \<Rightarrow> (bool \<Rightarrow> vexpr parser) \<Rightarrow> vexpr parser" where
  "parse_or env interp value = binary_level (word_op ''or'') (parse_and env interp value)"

text \<open>
  \<open>parseValueUpdateExpression\<close>: \<open>None\<close> when the tokens do not start with a path and an assignment.
\<close>

definition parse_update :: "(bool \<Rightarrow> vexpr parser) \<Rightarrow> token list \<Rightarrow> (string + vexpr \<times> token list) option" where
  "parse_update value ts =
     (if \<not> at_kind TDot ts then None
      else
        (case parse_path ts of
           Inl _ \<Rightarrow> None
         | Inr (path, ts1) \<Rightarrow>
             (if \<not> is_assignment (t_kind (peek ts1)) then None
              else Some (attempt (value False (skip ts1)) (\<lambda>(v, ts2).
                Inr (EUpdate path (t_kind (peek ts1)) v, ts2))))))"

definition parse_stage ::
  "expr_env \<Rightarrow> (string \<Rightarrow> string + vexpr) \<Rightarrow> (bool \<Rightarrow> vexpr parser) \<Rightarrow> bool \<Rightarrow> vexpr parser" where
  "parse_stage env interp value allow ts =
     (case parse_update value ts of
        Some r \<Rightarrow> r
      | None \<Rightarrow>
          (if allow then parse_or env interp value ts else parse_alternative env interp value ts))"

fun parse_value ::
  "expr_env \<Rightarrow> (string \<Rightarrow> string + vexpr) \<Rightarrow> nat \<Rightarrow> bool \<Rightarrow> vexpr parser" where
  "parse_value env interp 0 allow ts = Inl out_of_fuel"
| "parse_value env interp (Suc n) allow ts =
     (if \<not> allow then parse_stage env interp (parse_value env interp n) False ts
      else
        attempt (sep_by (Suc (length ts)) {TPipe} (parse_stage env interp (parse_value env interp n) True) ts)
          (\<lambda>(stages, ts1). case stages of [e] \<Rightarrow> Inr (e, ts1) | _ \<Rightarrow> Inr (EPipeline stages, ts1)))"

text \<open>\<open>parseOverrideValueExpr\<close>, for a source nested in at most \<open>n\<close> interpolations.\<close>

fun parse_source :: "expr_env \<Rightarrow> nat \<Rightarrow> string \<Rightarrow> string + vexpr" where
  "parse_source env 0 source = Inl out_of_fuel"
| "parse_source env (Suc n) source =
     attempt (lex_override_expr source) (\<lambda>ts.
       attempt (parse_union (parse_value env (parse_source env n) (Suc (length ts))) True ts) (\<lambda>(e, ts1).
         if at_kind TEof ts1 then Inr e else Inl ''unexpected''))"

subsection \<open>Statements\<close>

text \<open>Whether the parenthesis that opens here is followed, once closed, by an assignment.\<close>

fun closes_before_assignment :: "nat \<Rightarrow> token list \<Rightarrow> bool" where
  "closes_before_assignment depth [] = False"
| "closes_before_assignment depth (t # ts) =
     (if t_kind t = TLeftParen then closes_before_assignment (Suc depth) ts
      else if t_kind t = TRightParen then
        (if depth = 1 then ts \<noteq> [] \<and> is_assignment (t_kind (hd ts))
         else closes_before_assignment (depth - 1) ts)
      else closes_before_assignment depth ts)"

definition starts_assignment :: "token list \<Rightarrow> bool" where
  "starts_assignment ts =
     (if at_kind TDot ts then
        (case parse_path ts of Inl _ \<Rightarrow> False | Inr (_, ts1) \<Rightarrow> is_assignment (t_kind (peek ts1)))
      else if at_kind TLeftParen ts then closes_before_assignment 0 ts
      else False)"

definition parse_target_stage :: "(bool \<Rightarrow> vexpr parser) \<Rightarrow> target_stage parser" where
  "parse_target_stage value ts =
     (if peek_identifier ''select'' ts then
        attempt (expect TLeftParen ''expected left parenthesis after select'' (skip ts)) (\<lambda>(_, ts1).
          attempt (value True ts1) (\<lambda>(c, ts2).
            attempt (expect TRightParen ''expected right parenthesis after select condition'' ts2) (\<lambda>(_, ts3).
              Inr (StageCond c, ts3))))
      else attempt (parse_path ts) (\<lambda>(path, ts1). Inr (StagePath path, ts1)))"

definition parse_assignment_target :: "(bool \<Rightarrow> vexpr parser) \<Rightarrow> target_stage list parser" where
  "parse_assignment_target value ts =
     attempt (expect TLeftParen ''expected left parenthesis'' ts) (\<lambda>(_, ts1).
       attempt (sep_by (Suc (length ts1)) {TPipe} (parse_target_stage value) ts1) (\<lambda>(stages, ts2).
         attempt (expect TRightParen ''expected right parenthesis after assignment path'' ts2) (\<lambda>(_, ts3).
           if list_ex (\<lambda>s. case s of StagePath _ \<Rightarrow> True | StageCond _ \<Rightarrow> False) stages then Inr (stages, ts3)
           else Inl ''conditional assignment must select a path'')))"

definition parse_delete :: "statement parser" where
  "parse_delete ts =
     attempt (expect TLeftParen ''expected left parenthesis after del'' ts) (\<lambda>(_, ts1).
       attempt (sep_by (Suc (length ts1)) {TComma} parse_path ts1) (\<lambda>(paths, ts2).
         attempt (expect TRightParen ''expected right parenthesis after del arguments'' ts2) (\<lambda>(_, ts3).
           if [] \<in> set paths then Inl ''del(.) cannot be represented by a mapping override''
           else Inr (SDelete paths, ts3))))"

definition parse_statement :: "(bool \<Rightarrow> vexpr parser) \<Rightarrow> statement parser" where
  "parse_statement value ts =
     (if peek_identifier ''del'' ts then parse_delete (skip ts)
      else if \<not> starts_assignment ts then
        attempt (parse_union value True ts) (\<lambda>(e, ts1). Inr (SFilter e, ts1))
      else
        attempt
          (if at_kind TLeftParen ts
           then attempt (parse_assignment_target value ts) (\<lambda>(stages, ts1). Inr (([], Some stages), ts1))
           else attempt (parse_path ts) (\<lambda>(path, ts1). Inr ((path, None), ts1)))
          (\<lambda>((path, target), ts1).
            (case next_token ts1 of
               (op, ts2) \<Rightarrow>
                 (if \<not> is_assignment (t_kind op) then Inl ''expected assignment operator after path''
                  else attempt (value False ts2) (\<lambda>(v, ts3). Inr (SAssign path target (t_kind op) v, ts3))))))"

fun parse_statements :: "nat \<Rightarrow> (bool \<Rightarrow> vexpr parser) \<Rightarrow> statement list parser" where
  "parse_statements 0 value ts = Inl out_of_fuel"
| "parse_statements (Suc n) value ts =
     attempt (parse_statement value ts) (\<lambda>(s, ts1).
       if \<not> at_kind TPipe ts1 then Inr ([s], ts1)
       else if at_kind TEof (skip ts1) then Inl ''expected expression after pipe''
       else attempt (parse_statements n value (skip ts1)) (\<lambda>(ss, ts2). Inr (s # ss, ts2)))"

definition parse_tokens :: "(bool \<Rightarrow> vexpr parser) \<Rightarrow> token list \<Rightarrow> string + statement list" where
  "parse_tokens value ts =
     (if at_kind TEof ts then Inl ''expression is empty''
      else attempt (parse_statements (Suc (length ts)) value ts) (\<lambda>(ss, ts1).
        if at_kind TEof ts1 then Inr ss else Inl ''unexpected''))"

record override_expr =
  oe_source :: string
  oe_statements :: "statement list"

definition new_override_expr :: "expr_env \<Rightarrow> string \<Rightarrow> string + override_expr" where
  "new_override_expr env source =
     attempt (lex_override_expr source) (\<lambda>ts.
       attempt (parse_tokens (parse_value env (parse_source env (Suc (length source))) (Suc (length ts))) ts)
         (\<lambda>ss. Inr \<lparr>oe_source = source, oe_statements = ss\<rparr>))"

text \<open>\<open>UnmarshalText\<close>, \<open>MarshalText\<close> and \<open>String\<close>.\<close>

definition unmarshal_expr :: "expr_env \<Rightarrow> string \<Rightarrow> override_expr \<Rightarrow> override_expr \<times> string option" where
  "unmarshal_expr env text e =
     (case new_override_expr env text of Inl err \<Rightarrow> (e, Some err) | Inr e' \<Rightarrow> (e', None))"

definition expr_text :: "override_expr \<Rightarrow> string" where
  "expr_text e = oe_source e"

end
