(* ===== verification/Override_Path.thy ===== *)
theory Override_Path
  imports Override_Parser
begin

text \<open>
  Paths into the values of the override expressions (\<open>adapter/provider/override_expr.go\<close>): reading
  (\<open>lookupOverridePathStream\<close>), updating (\<open>updateOverridePath\<close>), deleting (\<open>deleteOverridePaths\<close>)
  and resolving the target of a conditional assignment (\<open>expandOverrideTargetPath\<close>). The code
  updates maps and slices in place; the functions here return the new value.
\<close>

subsection \<open>Operations\<close>

text \<open>A negative index counts from the end.\<close>

definition array_index :: "int \<Rightarrow> 'a list \<Rightarrow> int" where
  "array_index i vs = (if i < 0 then i + int (length vs) else i)"

primrec select_path :: "path_segment list \<Rightarrow> oval \<Rightarrow> oval list" where
  "select_path [] v = [v]"
| "select_path (seg # path) v =
     (case seg of
        SField key \<Rightarrow> (case v of VMap kvs \<Rightarrow> select_path path (map_get key kvs) | _ \<Rightarrow> [VNull])
      | SIndex i \<Rightarrow>
          (case v of
             VSeq vs \<Rightarrow>
               (let index = array_index i vs in
                if index < 0 \<or> index \<ge> int (length vs) then [VNull]
                else select_path path (vs ! nat index))
           | _ \<Rightarrow> [VNull])
      | SWild \<Rightarrow>
          (case v of
             VSeq vs \<Rightarrow> concat (map (select_path path) vs)
           | VMap kvs \<Rightarrow> concat (map (\<lambda>(_, w). select_path path w) kvs)
           | _ \<Rightarrow> []))"

definition extend_to :: "nat \<Rightarrow> oval list \<Rightarrow> oval list" where
  "extend_to index vs = vs @ replicate (Suc index - length vs) VNull"

primrec update_path :: "path_segment list \<Rightarrow> (oval \<Rightarrow> string + oval) \<Rightarrow> oval \<Rightarrow> string + oval" where
  "update_path [] updater node = updater node"
| "update_path (seg # path) updater node =
     (case seg of
        SField key \<Rightarrow>
          (case (if node = VNull then VMap [] else node) of
             VMap kvs \<Rightarrow> attempt (update_path path updater (map_get key kvs)) (\<lambda>v. Inr (VMap (map_put key v kvs)))
           | _ \<Rightarrow> Inr node)
      | SIndex i \<Rightarrow>
          (case (if node = VNull then VSeq [] else node) of
             VSeq vs \<Rightarrow>
               (let index = array_index i vs in
                if index < 0 then Inl ''array index is out of range''
                else
                  (let ws = extend_to (nat index) vs in
                   attempt (update_path path updater (ws ! nat index)) (\<lambda>v. Inr (VSeq (ws[nat index := v])))))
           | _ \<Rightarrow> Inr node)
      | SWild \<Rightarrow>
          (case node of
             VSeq vs \<Rightarrow> attempt (try_each (update_path path updater) vs) (\<lambda>ws. Inr (VSeq ws))
           | VMap kvs \<Rightarrow>
               attempt (try_each (\<lambda>(k, v). attempt (update_path path updater v) (\<lambda>w. Inr (k, w))) kvs)
                 (\<lambda>kws. Inr (VMap kws))
           | _ \<Rightarrow> Inr node))"

text \<open>The paths that go through an entry of a map or an element of an array.\<close>

definition hits_key :: "string \<Rightarrow> path_segment list \<Rightarrow> bool" where
  "hits_key key path = (case path of [] \<Rightarrow> False | seg # _ \<Rightarrow> seg = SWild \<or> seg = SField key)"

definition hits_index :: "nat \<Rightarrow> 'a list \<Rightarrow> path_segment list \<Rightarrow> bool" where
  "hits_index idx vs path =
     (case path of
        [] \<Rightarrow> False
      | seg # _ \<Rightarrow> (case seg of SWild \<Rightarrow> True | SIndex i \<Rightarrow> array_index i vs = int idx | SField _ \<Rightarrow> False))"

lemma enumerate_size [termination_simp]: "(i, c) \<in> set (enumerate n vs) \<Longrightarrow> size c < Suc (size_list size vs)"
  by (auto simp: in_set_enumerate_eq less_Suc_eq_le intro!: size_list_estimation')

fun delete_paths :: "path_segment list list \<Rightarrow> oval \<Rightarrow> oval" where
  "delete_paths paths (VMap kvs) =
     VMap (concat (map (\<lambda>(k, child).
       (let hits = filter (hits_key k) paths; tails = map tl (filter (\<lambda>p. length p \<noteq> 1) hits) in
        if list_ex (\<lambda>p. length p = 1) hits then []
        else [(k, if tails = [] then child else delete_paths tails child)])) kvs))"
| "delete_paths paths (VSeq vs) =
     VSeq (concat (map (\<lambda>(idx, child).
       (let hits = filter (hits_index idx vs) paths; tails = map tl (filter (\<lambda>p. length p \<noteq> 1) hits) in
        if list_ex (\<lambda>p. length p = 1) hits then []
        else [if tails = [] then child else delete_paths tails child])) (enumerate 0 vs)))"
| "delete_paths paths v = v"

text \<open>A selection is a value and the concrete path it was found at.\<close>

primrec expand_path :: "path_segment list \<Rightarrow> oval \<times> path_segment list \<Rightarrow> (oval \<times> path_segment list) list" where
  "expand_path [] selection = [selection]"
| "expand_path (seg # path) selection =
     (case selection of
        (value, found) \<Rightarrow>
          (case seg of
             SField key \<Rightarrow>
               (case value of
                  VNull \<Rightarrow> expand_path path (VNull, found @ [seg])
                | VMap kvs \<Rightarrow> expand_path path (map_get key kvs, found @ [seg])
                | _ \<Rightarrow> [])
           | SIndex i \<Rightarrow>
               (case value of
                  VNull \<Rightarrow> expand_path path (VNull, found @ [seg])
                | VSeq vs \<Rightarrow>
                    (let index = array_index i vs in
                     if index < 0 then []
                     else expand_path path
                       (if index < int (length vs) then vs ! nat index else VNull, found @ [SIndex index]))
                | _ \<Rightarrow> [])
           | SWild \<Rightarrow>
               (case value of
                  VSeq vs \<Rightarrow>
                    concat (map (\<lambda>(idx, item). expand_path path (item, found @ [SIndex (int idx)])) (enumerate 0 vs))
                | VMap kvs \<Rightarrow>
                    concat (map (\<lambda>(key, item). expand_path path (item, found @ [SField key])) kvs)
                | _ \<Rightarrow> [])))"

subsection \<open>Well-formed values stay well formed\<close>

lemma select_path_wf: "well_formed v \<Longrightarrow> w \<in> set (select_path path v) \<Longrightarrow> well_formed w"
proof (induction path arbitrary: v)
  case (Cons seg path)
  show ?case
  proof (cases seg)
    case (SField key)
    then show ?thesis
      using Cons.IH [OF well_formed_map_get] Cons.prems by (cases v) auto
  next
    case (SIndex i)
    have elem: "well_formed (vs ! nat j)" if "\<forall>x\<in>set vs. well_formed x" "\<not> j < 0" "\<not> int (length vs) \<le> j" for vs j
      using that nth_mem [of "nat j" vs] by auto
    show ?thesis using SIndex Cons.prems Cons.IH [OF elem] by (cases v) (auto simp: Let_def split: if_splits)
  next
    case SWild
    then show ?thesis using Cons.prems Cons.IH by (cases v) (fastforce simp: entries_ok_def)+
  qed
qed simp

lemma set_extend_to: "set (extend_to n vs) \<subseteq> insert VNull (set vs)"
  by (auto simp: extend_to_def)

lemma length_extend_to [simp]: "length (extend_to n vs) = max (Suc n) (length vs)"
  by (simp add: extend_to_def)

lemma nth_extend_to [simp]: "extend_to n vs ! n = (if n < length vs then vs ! n else VNull)"
  by (simp add: extend_to_def nth_append)

lemma try_each_keys:
  "try_each (\<lambda>(k, v). attempt (g v) (\<lambda>w. Inr (k, w))) kvs = Inr kws \<Longrightarrow> map fst kws = map fst kvs"
  by (induction kvs arbitrary: kws) (auto simp: attempt_Inr_iff)

lemma update_path_wf:
  assumes "\<And>x y. well_formed x \<Longrightarrow> updater x = Inr y \<Longrightarrow> well_formed y"
  shows "well_formed v \<Longrightarrow> update_path path updater v = Inr v' \<Longrightarrow> well_formed v'"
proof (induction path arbitrary: v v')
  case Nil
  then show ?case using assms by simp
next
  case (Cons seg path)
  note IH = Cons.IH and wf = Cons.prems(1) and upd = Cons.prems(2)
  show ?case
  proof (cases seg)
    case (SField key)
    let ?node = "if v = VNull then VMap [] else v"
    show ?thesis
    proof (cases "\<exists>kvs. ?node = VMap kvs")
      case True
      then obtain kvs where n: "?node = VMap kvs" by blast
      then have ok: "entries_ok kvs" using wf by (auto split: if_splits)
      obtain w where w: "update_path path updater (map_get key kvs) = Inr w" "v' = VMap (map_put key w kvs)"
        using upd SField n by (auto simp: attempt_Inr_iff)
      then show ?thesis using IH [OF well_formed_map_get [OF ok] w(1)] ok by (simp add: wf_values)
    next
      case False
      then have "v' = v" using upd SField by (cases v) (auto split: if_splits)
      then show ?thesis using wf by simp
    qed
  next
    case (SIndex i)
    let ?node = "if v = VNull then VSeq [] else v"
    show ?thesis
    proof (cases "\<exists>vs. ?node = VSeq vs")
      case True
      then obtain vs where n: "?node = VSeq vs" by blast
      then have ok: "\<forall>x\<in>set vs. well_formed x" using wf by (auto split: if_splits)
      define idx where "idx = nat (array_index i vs)"
      obtain w where w: "update_path path updater (extend_to idx vs ! idx) = Inr w" "v' = VSeq ((extend_to idx vs)[idx := w])"
        using upd SIndex n by (auto simp: attempt_Inr_iff Let_def idx_def simp del: nth_extend_to split: if_splits)
      have "well_formed (extend_to idx vs ! idx)" using ok by auto
      then have "well_formed w" using IH w(1) by blast
      then show ?thesis
        using ok w(2) set_update_subset_insert [of "extend_to idx vs" idx w] set_extend_to [of idx vs] by fastforce
    next
      case False
      then have "v' = v" using upd SIndex by (cases v) (auto split: if_splits)
      then show ?thesis using wf by simp
    qed
  next
    case SWild
    show ?thesis
    proof (cases v)
      case (VSeq vs)
      then obtain ws where "try_each (update_path path updater) vs = Inr ws" "v' = VSeq ws"
        using upd SWild by (auto simp: attempt_Inr_iff)
      then show ?thesis using try_each_results [of _ vs ws well_formed] wf VSeq IH by auto
    next
      case (VMap kvs)
      then obtain kws where kws: "try_each (\<lambda>(k, v). attempt (update_path path updater v) (\<lambda>w. Inr (k, w))) kvs = Inr kws"
        "v' = VMap kws" using upd SWild by (auto simp: attempt_Inr_iff)
      have "\<forall>kw\<in>set kws. well_formed (snd kw)"
        by (rule try_each_results [OF kws(1)]) (use wf VMap IH in \<open>force simp: attempt_Inr_iff entries_ok_def\<close>)
      then show ?thesis using try_each_keys [OF kws(1)] kws(2) wf VMap by (auto simp: entries_ok_def)
    qed (use upd SWild wf in auto)
  qed
qed

text \<open>Both kinds of collection keep the children that no path ends at.\<close>

definition removed :: "(path_segment list \<Rightarrow> bool) \<Rightarrow> path_segment list list \<Rightarrow> bool" where
  "removed hit paths \<longleftrightarrow> (\<exists>p\<in>set paths. hit p \<and> length p = 1)"

definition tails_of :: "(path_segment list \<Rightarrow> bool) \<Rightarrow> path_segment list list \<Rightarrow> path_segment list list" where
  "tails_of hit paths = map tl (filter (\<lambda>p. length p \<noteq> 1) (filter hit paths))"

definition delete_child :: "(path_segment list \<Rightarrow> bool) \<Rightarrow> path_segment list list \<Rightarrow> oval \<Rightarrow> oval" where
  "delete_child hit paths child =
     (if tails_of hit paths = [] then child else delete_paths (tails_of hit paths) child)"

lemma concat_map_entries:
  "concat (map (\<lambda>(k, c). if R k then [] else [g k c]) kvs) = map (\<lambda>(k, c). g k c) (filter (\<lambda>(k, _). \<not> R k) kvs)"
  by (induction kvs) auto

lemma delete_paths_VMap:
  "delete_paths paths (VMap kvs) =
     VMap (map (\<lambda>(k, c). (k, delete_child (hits_key k) paths c)) (filter (\<lambda>(k, _). \<not> removed (hits_key k) paths) kvs))"
proof -
  have "list_ex (\<lambda>p. length p = 1) (filter (hits_key k) paths) \<longleftrightarrow> removed (hits_key k) paths" for k
    by (auto simp: removed_def list_ex_iff)
  then show ?thesis
    using concat_map_entries [of "\<lambda>k. removed (hits_key k) paths" "\<lambda>k c. (k, delete_child (hits_key k) paths c)" kvs]
    by (simp only: delete_paths.simps Let_def tails_of_def delete_child_def)
qed

lemma delete_paths_VSeq:
  "delete_paths paths (VSeq vs) =
     VSeq (map (\<lambda>(i, c). delete_child (hits_index i vs) paths c)
       (filter (\<lambda>(i, _). \<not> removed (hits_index i vs) paths) (enumerate 0 vs)))"
proof -
  have "list_ex (\<lambda>p. length p = 1) (filter (hits_index i vs) paths) \<longleftrightarrow> removed (hits_index i vs) paths" for i
    by (auto simp: removed_def list_ex_iff)
  then show ?thesis
    using concat_map_entries [of "\<lambda>i. removed (hits_index i vs) paths" "\<lambda>i c. delete_child (hits_index i vs) paths c" "enumerate 0 vs"]
    by (simp only: delete_paths.simps Let_def tails_of_def delete_child_def)
qed

declare delete_paths.simps(1,2) [simp del]

lemma delete_child_wf:
  assumes "\<And>ps. well_formed (delete_paths ps c)" and "well_formed c"
  shows "well_formed (delete_child hit paths c)"
  using assms by (simp add: delete_child_def)

lemma delete_paths_wf: "well_formed v \<Longrightarrow> well_formed (delete_paths paths v)"
proof (induction v arbitrary: paths)
  case (VMap kvs)
  have "well_formed (delete_child (hits_key k) paths c)" if "(k, c) \<in> set kvs" for k c
    using VMap.IH [OF that, of c] VMap.prems that by (intro delete_child_wf) (auto simp: entries_ok_def)
  moreover have "sorted_wrt (<) (map fst (filter (\<lambda>(k, _). \<not> removed (hits_key k) paths) kvs))"
    using VMap.prems by (simp add: entries_ok_def sorted_wrt_map sorted_wrt_filter)
  ultimately show ?case by (auto simp: delete_paths_VMap entries_ok_def o_def case_prod_unfold)
next
  case (VSeq vs)
  have "well_formed (delete_child (hits_index i vs) paths c)" if "c \<in> set vs" for i c
    using VSeq that by (intro delete_child_wf) auto
  then show ?case by (auto simp: delete_paths_VSeq in_set_enumerate_eq)
qed simp_all

lemma expand_path_wf:
  "well_formed (fst sel) \<Longrightarrow> x \<in> set (expand_path path sel) \<Longrightarrow> well_formed (fst x)"
proof (induction path arbitrary: sel)
  case (Cons seg path)
  obtain v found where sel: "sel = (v, found)" by (cases sel)
  then have wf: "well_formed v" using Cons.prems(1) by simp
  have IH: "well_formed w \<Longrightarrow> x \<in> set (expand_path path (w, f)) \<Longrightarrow> well_formed (fst x)" for w f
    using Cons.IH [of "(w, f)"] by simp
  show ?case
  proof (cases seg)
    case (SField key)
    then show ?thesis
      using Cons.prems(2) sel wf IH [OF well_formed_map_get] IH [of VNull] by (cases v) auto
  next
    case (SIndex i)
    have elem: "well_formed (if j < int (length vs) then vs ! nat j else VNull)"
      if "\<forall>x\<in>set vs. well_formed x" "\<not> j < 0" for vs j
      using that nth_mem [of "nat j" vs] by auto
    show ?thesis
      using SIndex Cons.prems(2) sel wf IH [OF elem] IH [of VNull] by (cases v) (auto simp: Let_def split: if_splits)
  next
    case SWild
    show ?thesis
    proof (cases v)
      case (VSeq vs)
      then obtain i where "i < length vs" "x \<in> set (expand_path path (vs ! i, found @ [SIndex (int i)]))"
        using SWild Cons.prems(2) sel by (auto simp: in_set_enumerate_eq)
      moreover have "well_formed (vs ! i)" using wf VSeq \<open>i < length vs\<close> by simp
      ultimately show ?thesis using IH by blast
    next
      case (VMap kvs)
      then obtain k w where "(k, w) \<in> set kvs" "x \<in> set (expand_path path (w, found @ [SField k]))"
        using SWild Cons.prems(2) sel by auto
      then show ?thesis using IH wf VMap by (force simp: entries_ok_def)
    qed (use SWild Cons.prems(2) sel in auto)
  qed
qed simp

subsection \<open>Reading after an update\<close>

text \<open>
  A path is open in a value when it has no wildcard and leads through maps and arrays of the
  right kind, or through what is missing.
\<close>

primrec path_open :: "path_segment list \<Rightarrow> oval \<Rightarrow> bool" where
  "path_open [] v = True"
| "path_open (seg # path) v =
     (case seg of
        SField key \<Rightarrow>
          (case v of VNull \<Rightarrow> path_open path VNull | VMap kvs \<Rightarrow> path_open path (map_get key kvs) | _ \<Rightarrow> False)
      | SIndex i \<Rightarrow>
          (case v of
             VNull \<Rightarrow> 0 \<le> i \<and> path_open path VNull
           | VSeq vs \<Rightarrow>
               (let index = array_index i vs in
                0 \<le> index \<and> path_open path (if index < int (length vs) then vs ! nat index else VNull))
           | _ \<Rightarrow> False)
      | SWild \<Rightarrow> False)"

definition concrete :: "path_segment list \<Rightarrow> bool" where
  "concrete path \<longleftrightarrow> (\<forall>seg\<in>set path. case seg of SField _ \<Rightarrow> True | SIndex i \<Rightarrow> 0 \<le> i | SWild \<Rightarrow> False)"

lemma concrete_simps [simp]:
  "concrete []" "concrete (SField k # p) = concrete p" "concrete (SIndex i # p) = (0 \<le> i \<and> concrete p)"
  "\<not> concrete (SWild # p)"
  by (auto simp: concrete_def)

lemma lookup_null: "path_open path VNull \<Longrightarrow> select_path path VNull = [VNull]"
  by (cases path) (auto split: path_segment.splits)

lemma lookup_null_concrete: "concrete path \<Longrightarrow> select_path path VNull = [VNull]"
  by (cases path) (auto split: path_segment.splits)

lemma map_get_put [simp]: "sorted_wrt (<) (map fst kvs) \<Longrightarrow> map_get k' (map_put k v kvs) = (if k' = k then v else map_get k' kvs)"
  by (simp add: map_get_def map_of_map_put)

lemma lookup_open: "path_open path v \<Longrightarrow> \<exists>old. select_path path v = [old]"
proof (induction path arbitrary: v)
  case (Cons seg path)
  show ?case
  proof (cases seg)
    case (SField k)
    then show ?thesis using Cons by (cases v) auto
  next
    case (SIndex i)
    then show ?thesis using Cons by (cases v) (auto simp: Let_def)
  next
    case SWild
    then show ?thesis using Cons.prems by simp
  qed
qed simp

lemma update_then_lookup:
  "path_open path v \<Longrightarrow> well_formed v \<Longrightarrow> select_path path v = [old] \<Longrightarrow> updater old = Inr new \<Longrightarrow>
   \<exists>v'. update_path path updater v = Inr v' \<and> select_path path v' = [new]"
proof (induction path arbitrary: v)
  case (Cons seg path)
  note IH = Cons.IH and po = Cons.prems(1) and wf = Cons.prems(2) and lk = Cons.prems(3) and up = Cons.prems(4)
  show ?case
  proof (cases seg)
    case (SField k)
    obtain kvs where node: "(if v = VNull then VMap [] else v) = VMap kvs" and ok: "entries_ok kvs"
      and "path_open path (map_get k kvs)" and "select_path path (map_get k kvs) = [old]"
      using SField po wf lk lookup_null [of path] by (cases v) (auto simp: map_get_def)
    then obtain w where "update_path path updater (map_get k kvs) = Inr w" "select_path path w = [new]"
      using IH [of "map_get k kvs"] up by (auto simp: well_formed_map_get)
    then show ?thesis using SField node ok by (auto simp: entries_ok_def)
  next
    case (SIndex i)
    let ?elem = "\<lambda>vs. if array_index i vs < int (length vs) then vs ! nat (array_index i vs) else VNull"
    obtain vs where node: "(if v = VNull then VSeq [] else v) = VSeq vs" and ok: "\<forall>x\<in>set vs. well_formed x"
      and idx: "0 \<le> array_index i vs" and "path_open path (?elem vs)" and "select_path path (?elem vs) = [old]"
      using SIndex po wf lk lookup_null [of path]
      by (cases v) (auto simp: Let_def array_index_def split: if_splits)
    moreover have "well_formed (?elem vs)" using ok idx nth_mem [of "nat (array_index i vs)" vs] by auto
    ultimately obtain w where w: "update_path path updater (?elem vs) = Inr w" "select_path path w = [new]"
      using IH [of "?elem vs"] up by blast
    define ws where "ws = extend_to (nat (array_index i vs)) vs"
    have "ws ! nat (array_index i vs) = ?elem vs" using idx by (simp add: ws_def nat_less_iff)
    then have "update_path (seg # path) updater v = Inr (VSeq (ws[nat (array_index i vs) := w]))"
      using SIndex node idx w(1) by (simp add: Let_def ws_def del: nth_extend_to)
    moreover have "array_index i (ws[nat (array_index i vs) := w]) = array_index i vs"
      using idx by (auto simp: array_index_def ws_def)
    ultimately show ?thesis
      using SIndex idx w(2) by (auto simp: Let_def ws_def nat_less_iff)
  next
    case SWild
    then show ?thesis using po by simp
  qed
qed simp

lemma map_get_Nil [simp]: "map_get k [] = VNull" "map_get k [(k', v)] = (if k = k' then v else VNull)"
  by (simp_all add: map_get_def)

text \<open>A path that branches off is not touched.\<close>

lemma update_frame:
  assumes "concrete (r @ s # p)" and "concrete (r @ t # q)" and "s \<noteq> t"
  shows "well_formed v \<Longrightarrow> update_path (r @ s # p) updater v = Inr v' \<Longrightarrow>
    select_path (r @ t # q) v' = select_path (r @ t # q) v"
  using assms
proof (induction r arbitrary: v v')
  case Nil
  have null: "select_path q VNull = [VNull]" using Nil.prems(4) lookup_null_concrete [of q] by (cases t) auto
  show ?case
  proof (cases s)
    case (SField k)
    show ?thesis
    proof (cases "\<exists>kvs. (if v = VNull then VMap [] else v) = VMap kvs")
      case True
      then obtain kvs w where node: "(if v = VNull then VMap [] else v) = VMap kvs" and "v' = VMap (map_put k w kvs)"
        using Nil.prems(2) SField by (auto simp: attempt_Inr_iff)
      moreover have "entries_ok kvs" using node Nil.prems(1) by (auto split: if_splits)
      ultimately show ?thesis
        using Nil.prems(4,5) SField null by (cases t; cases v) (auto simp: entries_ok_def split: if_splits)
    next
      case False
      then have "v' = v" using Nil.prems(2) SField by (cases v) (auto split: if_splits)
      then show ?thesis by simp
    qed
  next
    case (SIndex i)
    then have i: "0 \<le> i" using Nil.prems(3) by simp
    show ?thesis
    proof (cases "\<exists>vs. (if v = VNull then VSeq [] else v) = VSeq vs")
      case True
      then obtain vs where node: "(if v = VNull then VSeq [] else v) = VSeq vs" by blast
      then obtain w where v': "v' = VSeq ((extend_to (nat i) vs)[nat i := w])"
        using Nil.prems(2) SIndex i by (auto simp: attempt_Inr_iff array_index_def Let_def simp del: nth_extend_to)
      show ?thesis
      proof (cases t)
        case (SIndex j)
        then have j: "0 \<le> j" "j \<noteq> i" using Nil.prems(4,5) \<open>s = SIndex i\<close> by auto
        have "select_path (t # q) (VSeq vs) = select_path (t # q) v'"
          using SIndex j i v' null by (auto simp: array_index_def Let_def extend_to_def nth_append nat_less_iff nth_list_update)
        moreover have "select_path (t # q) v = select_path (t # q) (VSeq vs)"
          using node SIndex j by (auto simp: array_index_def split: if_splits)
        ultimately show ?thesis by simp
      next
        case (SField k)
        then show ?thesis using v' node by (cases v) auto
      qed (use Nil.prems(4) in simp)
    next
      case False
      then have "v' = v" using Nil.prems(2) SIndex by (cases v) (auto split: if_splits)
      then show ?thesis by simp
    qed
  qed (use Nil.prems(3) in simp)
next
  case (Cons a r)
  have conc: "concrete (r @ s # p)" "concrete (r @ t # q)" using Cons.prems(3,4) by (cases a; simp)+
  have null: "select_path (r @ t # q) VNull = [VNull]" using conc(2) by (rule lookup_null_concrete)
  note IH = Cons.IH [OF _ _ conc Cons.prems(5)]
  show ?case
  proof (cases a)
    case (SField k)
    show ?thesis
    proof (cases "\<exists>kvs. (if v = VNull then VMap [] else v) = VMap kvs")
      case True
      then obtain kvs w where node: "(if v = VNull then VMap [] else v) = VMap kvs"
        and w: "update_path (r @ s # p) updater (map_get k kvs) = Inr w" and v': "v' = VMap (map_put k w kvs)"
        using Cons.prems(2) SField by (auto simp: attempt_Inr_iff)
      have ok: "entries_ok kvs" using node Cons.prems(1) by (auto split: if_splits)
      have "select_path (r @ t # q) w = select_path (r @ t # q) (map_get k kvs)"
        using IH [OF well_formed_map_get [OF ok] w] .
      then show ?thesis
        using SField v' ok node null by (cases v) (auto simp: entries_ok_def split: if_splits)
    next
      case False
      then have "v' = v" using Cons.prems(2) SField by (cases v) (auto split: if_splits)
      then show ?thesis by simp
    qed
  next
    case (SIndex i)
    then have i: "0 \<le> i" using Cons.prems(3) by simp
    show ?thesis
    proof (cases "\<exists>vs. (if v = VNull then VSeq [] else v) = VSeq vs")
      case True
      then obtain vs where node: "(if v = VNull then VSeq [] else v) = VSeq vs" by blast
      let ?elem = "if nat i < length vs then vs ! nat i else VNull"
      obtain w where w: "update_path (r @ s # p) updater ?elem = Inr w" and v': "v' = VSeq ((extend_to (nat i) vs)[nat i := w])"
        using Cons.prems(2) SIndex i node by (auto simp: attempt_Inr_iff array_index_def Let_def)
      have "well_formed ?elem" using node Cons.prems(1) nth_mem [of "nat i" vs] by (auto split: if_splits)
      then have "select_path (r @ t # q) w = select_path (r @ t # q) ?elem" using IH w by blast
      then have "select_path ((a # r) @ t # q) v' = select_path ((a # r) @ t # q) (VSeq vs)"
        using SIndex i v' null by (auto simp: array_index_def Let_def nat_less_iff)
      moreover have "select_path ((a # r) @ t # q) v = select_path ((a # r) @ t # q) (VSeq vs)"
        using node SIndex i by (auto simp: array_index_def split: if_splits)
      ultimately show ?thesis by simp
    next
      case False
      then have "v' = v" using Cons.prems(2) SIndex by (cases v) (auto split: if_splits)
      then show ?thesis by simp
    qed
  qed (use Cons.prems(3) in simp)
qed

subsection \<open>Reading after a deletion\<close>

lemma map_get_delete:
  "map_get k (map (\<lambda>(k, c). (k, delete_child (hits_key k) paths c)) (filter (\<lambda>(k, _). \<not> removed (hits_key k) paths) kvs)) =
   (if removed (hits_key k) paths \<or> map_of kvs k = None then VNull else delete_child (hits_key k) paths (map_get k kvs))"
  by (induction kvs) (auto simp: map_get_def)

lemma delete_child_single:
  "delete_child hit [seg # path] c = (if hit (seg # path) \<and> path \<noteq> [] then delete_paths [path] c else c)"
  by (simp add: delete_child_def tails_of_def)

lemma removed_single: "removed hit [seg # path] \<longleftrightarrow> hit (seg # path) \<and> path = []"
  by (auto simp: removed_def)

lemma hits_simps [simp]:
  "hits_key k (SField k' # p) = (k' = k)" "\<not> hits_key k (SIndex i # p)"
  "\<not> hits_index n vs (SField k # p)" "hits_index n vs (SIndex i # p) = (array_index i vs = int n)"
  by (auto simp: hits_key_def hits_index_def)

lemma delete_seq_nth:
  assumes "path \<noteq> []"
  shows "delete_paths [SIndex i # path] (VSeq vs) =
    VSeq (map (\<lambda>(j, c). if array_index i vs = int j then delete_paths [path] c else c) (enumerate 0 vs))"
  using assms by (simp add: delete_paths_VSeq removed_single delete_child_single)

lemma delete_through:
  assumes "concrete (a # path)" and "path \<noteq> []"
  shows "delete_paths [a # path] v =
    (case (a, v) of
       (SField k, VMap kvs) \<Rightarrow> VMap (map (\<lambda>(k', c). (k', if k' = k then delete_paths [path] c else c)) kvs)
     | (SIndex i, VSeq vs) \<Rightarrow> VSeq (if i < int (length vs) then vs[nat i := delete_paths [path] (vs ! nat i)] else vs)
     | _ \<Rightarrow> v)"
proof (cases a)
  case (SField k)
  have same: "map (\<lambda>(i, c). c) (enumerate 0 vs) = vs" for vs :: "oval list"
    by (simp add: case_prod_unfold)
  show ?thesis using assms SField
    by (cases v) (auto simp: delete_paths_VMap delete_paths_VSeq removed_single delete_child_single same simp del: enumerate_eq_zip)
next
  case (SIndex i)
  then have i: "0 \<le> i" using assms by simp
  show ?thesis
  proof (cases v)
    case (VSeq vs)
    have "map (\<lambda>(j, c). if array_index i vs = int j then delete_paths [path] c else c) (enumerate 0 vs) =
      (if i < int (length vs) then vs[nat i := delete_paths [path] (vs ! nat i)] else vs)"
      using i by (intro nth_equalityI) (auto simp: array_index_def nth_enumerate_eq nth_list_update)
    then show ?thesis using VSeq SIndex delete_seq_nth [OF assms(2)] by simp
  qed (use SIndex assms in \<open>simp_all add: delete_paths_VMap removed_single delete_child_single\<close>)
qed (use assms in simp)

lemma delete_then_lookup:
  "concrete path \<Longrightarrow> select_path (path @ [SField k]) (delete_paths [path @ [SField k]] v) = [VNull]"
proof (induction path arbitrary: v)
  case Nil
  show ?case
    using map_get_delete [of k "[[SField k]]"]
    by (cases v) (simp_all add: delete_paths_VMap delete_paths_VSeq removed_single)
next
  case (Cons a path)
  then have conc: "concrete (a # path @ [SField k])" "concrete path" by (cases a; simp add: concrete_def)+
  have null: "select_path (path @ [SField k]) VNull = [VNull]"
    using conc by (intro lookup_null_concrete) (simp add: concrete_def)
  note IH = Cons.IH [OF conc(2)] and thr = delete_through [OF conc(1)]
  show ?case
  proof (cases a)
    case (SField k')
    have "map_get k' (map (\<lambda>(k'', c). (k'', if k'' = k' then d c else c)) kvs) =
        (if map_of kvs k' = None then VNull else d (map_get k' kvs))" for d kvs
      by (induction kvs) (auto simp: map_get_def)
    then show ?thesis using SField thr IH null by (cases v) auto
  next
    case (SIndex i)
    then show ?thesis using thr IH null conc by (cases v) (auto simp: array_index_def Let_def)
  qed (use conc in simp)
qed

end
