(* ===== verification/Override_Eval.thy ===== *)
theory Override_Eval
  imports Override_Path
begin

text \<open>
  The evaluation of the override expressions (\<open>adapter/provider/override_expr.go\<close>). The code
  dispatches on the interfaces a value expression implements: one value (\<open>eval\<close>), a stream of
  values (\<open>evalAll\<close>), or a stream for a list of inputs (\<open>evalAllInputs\<close>). An \<open>evaluator\<close> has one
  constructor for each, and \<open>meaning\<close> maps the syntax of an expression to its evaluator.
\<close>

subsection \<open>Streams\<close>

datatype evaluator =
    Plain "oval \<Rightarrow> string + oval"
  | Streaming "oval \<Rightarrow> string + oval list"
  | Batch "oval list \<Rightarrow> string + oval list"

definition concat_each :: "('a \<Rightarrow> string + oval list) \<Rightarrow> 'a list \<Rightarrow> string + oval list" where
  "concat_each f xs = attempt (try_each f xs) (\<lambda>yss. Inr (concat yss))"

fun eval_stream :: "evaluator \<Rightarrow> oval \<Rightarrow> string + oval list" where
  "eval_stream (Plain f) input = attempt (f input) (\<lambda>v. Inr (if is_no_match v then [] else [v]))"
| "eval_stream (Streaming g) input = g input"
| "eval_stream (Batch h) input = h [input]"

definition eval_single :: "evaluator \<Rightarrow> oval \<Rightarrow> string + oval" where
  "eval_single e input =
     attempt (eval_stream e input) (\<lambda>vs.
       case vs of [] \<Rightarrow> Inr no_match | [v] \<Rightarrow> Inr v | _ \<Rightarrow> Inl ''expression produced several results'')"

text \<open>The method \<open>eval\<close>.\<close>

fun eval_value :: "evaluator \<Rightarrow> oval \<Rightarrow> string + oval" where
  "eval_value (Plain f) input = f input"
| "eval_value e input = eval_single e input"

fun eval_stream_inputs :: "evaluator \<Rightarrow> oval list \<Rightarrow> string + oval list" where
  "eval_stream_inputs (Batch h) inputs = h inputs"
| "eval_stream_inputs e inputs = concat_each (eval_stream e) inputs"

definition eval_list :: "evaluator list \<Rightarrow> oval \<Rightarrow> string + oval list" where
  "eval_list es input = concat_each (\<lambda>e. eval_stream e input) es"

subsection \<open>Composite expressions\<close>

primrec eval_pipeline :: "evaluator list \<Rightarrow> oval list \<Rightarrow> string + oval list" where
  "eval_pipeline [] values = Inr values"
| "eval_pipeline (e # es) values = attempt (eval_stream_inputs e values) (eval_pipeline es)"

definition trim_newline :: "string \<Rightarrow> string" where
  "trim_newline s = (if s \<noteq> [] \<and> last s = CHR 0x0A then butlast s else s)"

definition yaml_text :: "expr_env \<Rightarrow> oval \<Rightarrow> string + string" where
  "yaml_text env v = (case ee_yaml env v of None \<Rightarrow> Inl ''yaml'' | Some t \<Rightarrow> Inr (trim_newline t))"

fun eval_part :: "expr_env \<Rightarrow> oval \<Rightarrow> string + evaluator \<Rightarrow> string + string" where
  "eval_part env input (Inl literal) = Inr literal"
| "eval_part env input (Inr e) =
     attempt (eval_stream e input) (\<lambda>vs.
       case vs of
         [] \<Rightarrow> Inr []
       | v # _ \<Rightarrow>
           (case v of
              VStr s \<Rightarrow> Inr s
            | _ \<Rightarrow>
                (if is_scalar v then Inr (if v = VNull then ''null'' else sprint env v)
                 else yaml_text env v)))"

definition eval_string :: "expr_env \<Rightarrow> (string + evaluator) list \<Rightarrow> oval \<Rightarrow> string + oval" where
  "eval_string env parts input = attempt (try_each (eval_part env input) parts) (\<lambda>ss. Inr (VStr (concat ss)))"

definition eval_map_entries :: "(string \<times> evaluator) list \<Rightarrow> oval \<Rightarrow> string + oval" where
  "eval_map_entries entries input =
     attempt (try_each (\<lambda>(k, e). attempt (eval_stream e input) (\<lambda>vs. Inr (k, vs))) entries) (\<lambda>kvss.
       Inr (VMap (foldl (\<lambda>m (k, vs). if vs = [] then m else map_put k (last vs) m) [] kvss)))"

fun assign_operator :: "token_kind \<Rightarrow> string" where
  "assign_operator TAddAssign = ''+''"
| "assign_operator TSubtractAssign = ''-''"
| "assign_operator TMultiplyAssign = ''*''"
| "assign_operator _ = []"

text \<open>The update of \<open>|=\<close>: no result leaves the old value.\<close>

definition update_with :: "evaluator \<Rightarrow> oval \<Rightarrow> string + oval" where
  "update_with e old = attempt (eval_single e old) (\<lambda>v. Inr (if is_no_match v then old else v))"

definition eval_update :: "expr_env \<Rightarrow> path_segment list \<Rightarrow> token_kind \<Rightarrow> evaluator \<Rightarrow> oval \<Rightarrow> string + oval" where
  "eval_update env path op e input =
     (let root = clone_value input in
      case op of
        TAssign \<Rightarrow>
          attempt (eval_single e root) (\<lambda>v.
            if is_no_match v then Inr root else update_path path (\<lambda>_. Inr (clone_value v)) root)
      | TUpdateAssign \<Rightarrow> update_path path (update_with e) root
      | _ \<Rightarrow>
          attempt (eval_single e root) (\<lambda>v.
            update_path path (\<lambda>old. evaluate_binary env (assign_operator op) old v) root))"

definition eval_alternative :: "evaluator \<Rightarrow> evaluator \<Rightarrow> oval \<Rightarrow> string + oval list" where
  "eval_alternative left right input =
     attempt (eval_stream left input) (\<lambda>lefts.
       if lefts = [] then eval_stream right input
       else concat_each (\<lambda>l. if truthy l then Inr [l] else eval_stream right input) lefts)"

text \<open>\<open>and\<close>, \<open>or\<close> evaluate the right side only when some left value asks for it.\<close>

definition decides :: "string \<Rightarrow> oval \<Rightarrow> bool" where
  "decides operator l = ((operator = ''and'' \<and> \<not> truthy l) \<or> (operator = ''or'' \<and> truthy l))"

definition eval_binary :: "expr_env \<Rightarrow> string \<Rightarrow> evaluator \<Rightarrow> evaluator \<Rightarrow> oval \<Rightarrow> string + oval list" where
  "eval_binary env operator left right input =
     (if operator = ''//'' then eval_alternative left right input
      else
        attempt (eval_stream left input) (\<lambda>lefts.
          if (operator = ''and'' \<or> operator = ''or'') \<and> list_all (decides operator) lefts then
            Inr (map (\<lambda>l. VBool (operator = ''or'' \<and> truthy l)) lefts)
          else
            attempt (eval_stream right input) (\<lambda>rights.
              concat_each (\<lambda>l.
                if decides operator l then Inr [VBool (operator = ''or'')]
                else try_each (\<lambda>r. evaluate_binary env operator l r) rights) lefts)))"

subsection \<open>Functions over streams\<close>

definition collection_values :: "oval \<Rightarrow> string + oval list" where
  "collection_values input =
     (case input of
        VSeq vs \<Rightarrow> Inr vs
      | VMap kvs \<Rightarrow> Inr (map snd kvs)
      | _ \<Rightarrow> Inl ''expected array or mapping'')"

text \<open>A length or an index as a Go \<open>int\<close>.\<close>

definition int_value :: "nat \<Rightarrow> oval" where
  "int_value n = VInt KInt (wrap64 (int n))"

definition entry_value :: "oval \<Rightarrow> oval \<Rightarrow> oval" where
  "entry_value key v = VMap (map_put ''key'' key (map_put ''value'' v []))"

text \<open>\<open>None\<close> is the absence of a result.\<close>

definition to_entries :: "oval \<Rightarrow> string + oval list option" where
  "to_entries input =
     (case input of
        VNull \<Rightarrow> Inr None
      | VSeq vs \<Rightarrow> Inr (Some (map (\<lambda>(i, v). entry_value (int_value i) (clone_value v)) (enumerate 0 vs)))
      | VMap kvs \<Rightarrow> Inr (Some (map (\<lambda>(k, v). entry_value (VStr k) (clone_value v)) kvs))
      | _ \<Rightarrow> Inl ''has no keys'')"

definition from_entry :: "oval \<Rightarrow> string + string \<times> oval" where
  "from_entry item =
     (case item of
        VMap kvs \<Rightarrow>
          (case (map_of kvs ''key'', map_of kvs ''value'') of
             (None, _) \<Rightarrow> Inl ''entry has no key''
           | (_, None) \<Rightarrow> Inl ''entry has no value''
           | (Some (VStr k), Some v) \<Rightarrow> Inr (k, clone_value v)
           | _ \<Rightarrow> Inl ''entry key must be a string in override-expr'')
      | _ \<Rightarrow> Inl ''entry must be a mapping'')"

definition from_entries :: "oval list \<Rightarrow> string + oval" where
  "from_entries items =
     attempt (try_each from_entry items) (\<lambda>kvs. Inr (VMap (foldl (\<lambda>m (k, v). map_put k v m) [] kvs)))"

text \<open>The first truth value that decides, of the first results of the condition.\<close>

fun any_all :: "bool \<Rightarrow> evaluator list \<Rightarrow> oval list \<Rightarrow> string + bool" where
  "any_all all es [] = Inr all"
| "any_all all es (v # vs) =
     attempt (eval_list es v) (\<lambda>items.
       case items of
         [] \<Rightarrow> any_all all es vs
       | item # _ \<Rightarrow> if truthy item \<noteq> all then Inr (\<not> all) else any_all all es vs)"

definition first_or_old :: "evaluator list \<Rightarrow> oval \<Rightarrow> string + oval" where
  "first_or_old es v = attempt (eval_list es v) (\<lambda>items. Inr (case items of [] \<Rightarrow> v | w # _ \<Rightarrow> clone_value w))"

definition eval_stream_function :: "string \<Rightarrow> evaluator list \<Rightarrow> oval \<Rightarrow> string + oval list" where
  "eval_stream_function name args input =
     (if name = ''map'' \<or> name = ''filter'' then
        (if args = [] then Inl ''expects an expression''
         else attempt (collection_values input) (\<lambda>values.
           if name = ''map'' then
             attempt (concat_each (\<lambda>e. eval_stream_inputs e values) args) (\<lambda>vs. Inr [VSeq vs])
           else
             attempt (concat_each (\<lambda>v. attempt (eval_list args v) (\<lambda>items.
               Inr (if list_ex truthy items then [clone_value v] else []))) values) (\<lambda>vs. Inr [VSeq vs])))
      else if name = ''map_values'' then
        (if args = [] then Inl ''map_values expects an expression''
         else (case input of
                 VSeq vs \<Rightarrow> attempt (try_each (first_or_old args) vs) (\<lambda>ws. Inr [VSeq ws])
               | VMap kvs \<Rightarrow>
                   attempt (try_each (\<lambda>(k, v). attempt (first_or_old args v) (\<lambda>w. Inr (k, w))) kvs) (\<lambda>kws.
                     Inr [VMap kws])
               | _ \<Rightarrow> Inl ''map_values only supports arrays and mappings''))
      else if name = ''to_entries'' then
        (if args \<noteq> [] then Inl ''to_entries expects no arguments''
         else attempt (to_entries input) (\<lambda>r. Inr (case r of None \<Rightarrow> [] | Some es \<Rightarrow> [VSeq es])))
      else if name = ''from_entries'' then
        (if args \<noteq> [] then Inl ''from_entries expects no arguments''
         else (case input of
                 VSeq es \<Rightarrow> attempt (from_entries es) (\<lambda>v. Inr [v])
               | _ \<Rightarrow> Inl ''from_entries only supports arrays''))
      else if name = ''with_entries'' then
        (if args = [] then Inl ''with_entries expects an expression''
         else (case input of
                 VMap kvs \<Rightarrow>
                   attempt (to_entries (VMap kvs)) (\<lambda>r.
                     case r of
                       None \<Rightarrow> Inr []
                     | Some es \<Rightarrow>
                         attempt (concat_each (eval_list args) es) (\<lambda>transformed.
                           attempt (from_entries transformed) (\<lambda>v. Inr [v])))
               | _ \<Rightarrow> Inl ''with_entries only supports mappings''))
      else if name = ''any_c'' \<or> name = ''all_c'' then
        (if args = [] then Inl ''expects a condition''
         else (case input of
                 VSeq vs \<Rightarrow> attempt (any_all (name = ''all_c'') args vs) (\<lambda>b. Inr [VBool b])
               | _ \<Rightarrow> Inl ''only supports arrays''))
      else Inl ''unsupported stream function'')"

subsection \<open>Functions of one value\<close>

definition fn_array :: "oval \<Rightarrow> (oval list \<Rightarrow> string + oval) \<Rightarrow> string + oval" where
  "fn_array input f = (case input of VSeq vs \<Rightarrow> f vs | _ \<Rightarrow> Inl ''only supports arrays'')"

definition fn_string :: "oval \<Rightarrow> (string \<Rightarrow> string + oval) \<Rightarrow> string + oval" where
  "fn_string input f = (case input of VStr s \<Rightarrow> f s | _ \<Rightarrow> Inl ''requires string input'')"

definition string_arg :: "oval \<Rightarrow> string + string" where
  "string_arg v = (case v of VStr s \<Rightarrow> Inr s | _ \<Rightarrow> Inl ''argument must be a string'')"

definition fn_length :: "expr_env \<Rightarrow> oval \<Rightarrow> string + oval" where
  "fn_length env input =
     (case input of
        VNull \<Rightarrow> Inr (int_value 0)
      | VStr s \<Rightarrow> Inr (int_value (length s))
      | VSeq vs \<Rightarrow> Inr (int_value (length vs))
      | VMap kvs \<Rightarrow> Inr (int_value (length kvs))
      | VOther _ _ \<Rightarrow> Inl ''length cannot be used with''
      | _ \<Rightarrow> Inr (int_value (length (sprint env input))))"

definition fn_keys :: "oval \<Rightarrow> string + oval" where
  "fn_keys input =
     (case input of
        VMap kvs \<Rightarrow> Inr (VSeq (map (\<lambda>(k, _). VStr k) kvs))
      | VSeq vs \<Rightarrow> Inr (VSeq (map int_value [0..<length vs]))
      | _ \<Rightarrow> Inl ''keys cannot be used with'')"

definition fn_has :: "expr_env \<Rightarrow> oval \<Rightarrow> oval \<Rightarrow> string + oval" where
  "fn_has env input key =
     (case input of
        VMap kvs \<Rightarrow> attempt (string_arg key) (\<lambda>k. Inr (VBool (map_of kvs k \<noteq> None)))
      | VSeq vs \<Rightarrow>
          (case override_number key of
             Some (x, True) \<Rightarrow>
               (let i = array_index (int_of_float (ee_int_of_float env) x) vs in
                Inr (VBool (0 \<le> i \<and> i < int (length vs))))
           | _ \<Rightarrow> Inr (VBool False))
      | _ \<Rightarrow> Inr (VBool False))"

definition fn_contains :: "oval \<Rightarrow> oval \<Rightarrow> string + oval" where
  "fn_contains input wanted =
     (case input of
        VStr s \<Rightarrow> attempt (string_arg wanted) (\<lambda>t. Inr (VBool (str_contains s t)))
      | VSeq vs \<Rightarrow>
          (case wanted of VSeq _ \<Rightarrow> Inr (VBool (contains_value input wanted))
                        | _ \<Rightarrow> Inl ''cannot check contained in !!seq'')
      | VMap kvs \<Rightarrow>
          (case wanted of VMap _ \<Rightarrow> Inr (VBool (contains_value input wanted))
                        | _ \<Rightarrow> Inl ''cannot check contained in !!map'')
      | _ \<Rightarrow>
          (if \<not> is_scalar wanted then Inl ''cannot check contained in''
           else if override_type input \<noteq> override_type wanted then Inr (VBool False)
           else Inr (VBool (override_equal input wanted))))"

definition with_regexp ::
  "expr_env \<Rightarrow> oval \<Rightarrow> oval \<Rightarrow> (string \<Rightarrow> (string \<Rightarrow> bool) \<times> (string \<Rightarrow> string \<Rightarrow> string) \<Rightarrow> string + oval) \<Rightarrow> string + oval" where
  "with_regexp env input pattern_arg f =
     fn_string input (\<lambda>s.
       attempt (string_arg pattern_arg) (\<lambda>pattern.
         case ee_regexp env pattern of None \<Rightarrow> Inl ''invalid regular expression'' | Some re \<Rightarrow> f s re))"

definition fn_test :: "expr_env \<Rightarrow> oval \<Rightarrow> oval list \<Rightarrow> string + oval" where
  "fn_test env input args =
     attempt
       (case args of
          [_, options] \<Rightarrow>
            attempt (string_arg options) (\<lambda>o_text.
              if str_trim (\<lambda>c. c = CHR ''g'') o_text \<noteq> [] then Inl ''unsupported test options'' else Inr ())
        | _ \<Rightarrow> Inr ())
       (\<lambda>_. with_regexp env input (hd args) (\<lambda>s re. Inr (VBool (fst re s))))"

definition fn_sub :: "expr_env \<Rightarrow> oval \<Rightarrow> oval \<Rightarrow> oval \<Rightarrow> string + oval" where
  "fn_sub env input pattern_arg replacement =
     with_regexp env input pattern_arg (\<lambda>s re.
       attempt (string_arg replacement) (\<lambda>r. Inr (VStr (snd re s r))))"

definition fn_split :: "oval \<Rightarrow> oval \<Rightarrow> string + oval" where
  "fn_split input separator =
     (if input = VNull then Inr no_match
      else fn_string input (\<lambda>s.
        attempt (string_arg separator) (\<lambda>sep. Inr (VSeq (map VStr (split_string s sep))))))"

definition join_text :: "expr_env \<Rightarrow> oval \<Rightarrow> string" where
  "join_text env v =
     (case v of VNull \<Rightarrow> [] | VSeq _ \<Rightarrow> [] | VMap _ \<Rightarrow> [] | VStr s \<Rightarrow> s | _ \<Rightarrow> sprint env v)"

definition fn_join :: "expr_env \<Rightarrow> oval \<Rightarrow> oval \<Rightarrow> string + oval" where
  "fn_join env input separator =
     fn_array input (\<lambda>vs.
       attempt (string_arg separator) (\<lambda>sep. Inr (VStr (str_join (map (join_text env) vs) sep))))"

definition fn_flatten :: "expr_env \<Rightarrow> oval \<Rightarrow> oval list \<Rightarrow> string + oval" where
  "fn_flatten env input args =
     fn_array input (\<lambda>vs.
       case args of
         [] \<Rightarrow> Inr (VSeq (flatten_values vs (- 1)))
       | d # _ \<Rightarrow>
           (case override_number d of
              Some (x, True) \<Rightarrow>
                (if float_less x (FZero False) then Inl ''flatten depth must be a non-negative integer''
                 else Inr (VSeq (flatten_values vs (int_of_float (ee_int_of_float env) x))))
            | _ \<Rightarrow> Inl ''flatten depth must be a non-negative integer''))"

definition fn_tostring :: "expr_env \<Rightarrow> oval \<Rightarrow> string + oval" where
  "fn_tostring env input =
     (case input of VStr s \<Rightarrow> Inr (VStr s) | _ \<Rightarrow> attempt (yaml_text env input) (\<lambda>t. Inr (VStr t)))"

definition fn_tonumber :: "expr_env \<Rightarrow> oval \<Rightarrow> string + oval" where
  "fn_tonumber env input =
     (if override_number input \<noteq> None then Inr input
      else
        (case input of
           VStr s \<Rightarrow>
             (if has_prefix s ''0b'' \<or> has_prefix s ''0B'' then Inl ''cannot convert to number''
              else
                (case (if has_prefix s ''0x'' \<or> has_prefix s ''0X'' then parse_int_base 16 (drop 2 s)
                       else if has_prefix s ''0o'' then parse_int_base 8 (drop 2 s)
                       else parse_int_base 10 s) of
                   Some i \<Rightarrow> Inr (VInt KInt i)
                 | None \<Rightarrow>
                     (case ee_parse_float env s of
                        Some x \<Rightarrow> Inr (VFloat KFloat64 x)
                      | None \<Rightarrow> Inl ''cannot convert to number'')))
         | _ \<Rightarrow> Inl ''tonumber requires string or number input''))"

text \<open>The number of arguments a function takes.\<close>

definition arg_counts :: "string \<Rightarrow> nat set" where
  "arg_counts name =
     (if name \<in> {''select'', ''has'', ''contains'', ''split'', ''join''} then {1}
      else if name = ''sub'' then {2}
      else if name = ''test'' then {1, 2}
      else if name = ''flatten'' then {0, 1}
      else {0})"

definition apply_function :: "expr_env \<Rightarrow> string \<Rightarrow> oval \<Rightarrow> oval list \<Rightarrow> string + oval" where
  "apply_function env name input args =
     (if name \<notin> set plain_functions then Inl ''unsupported function''
      else if length args \<notin> arg_counts name then Inl ''expects arguments''
      else if name = ''select'' then
        Inr (if is_no_match (hd args) \<or> \<not> truthy (hd args) then no_match else input)
      else if name = ''not'' then Inr (VBool (\<not> truthy input))
      else if name = ''reverse'' then fn_array input (\<lambda>vs. Inr (VSeq (rev vs)))
      else if name = ''sort'' then fn_array input (\<lambda>vs. attempt (sort_values vs) (\<lambda>ws. Inr (VSeq ws)))
      else if name = ''unique'' then
        fn_array input (\<lambda>vs. attempt (unique_values env {} vs) (\<lambda>ws. Inr (VSeq ws)))
      else if name = ''flatten'' then fn_flatten env input args
      else if name = ''any'' then fn_array input (\<lambda>vs. Inr (VBool (list_ex truthy vs)))
      else if name = ''all'' then fn_array input (\<lambda>vs. Inr (VBool (list_all truthy vs)))
      else if name = ''length'' then fn_length env input
      else if name = ''type'' then Inr (VStr (override_type input))
      else if name = ''keys'' then fn_keys input
      else if name = ''has'' then fn_has env input (hd args)
      else if name = ''contains'' then fn_contains input (hd args)
      else if name = ''test'' then fn_test env input args
      else if name = ''sub'' then fn_sub env input (args ! 0) (args ! 1)
      else if name = ''split'' then fn_split input (hd args)
      else if name = ''join'' then fn_join env input (hd args)
      else if name = ''upcase'' then fn_string input (\<lambda>s. Inr (VStr (to_upper s)))
      else if name = ''downcase'' then fn_string input (\<lambda>s. Inr (VStr (to_lower s)))
      else if name = ''trim'' then fn_string input (\<lambda>s. Inr (VStr (trim_space s)))
      else if name = ''tostring'' then fn_tostring env input
      else fn_tonumber env input)"

definition eval_function :: "expr_env \<Rightarrow> string \<Rightarrow> evaluator list \<Rightarrow> oval \<Rightarrow> string + oval" where
  "eval_function env name es input =
     (if is_no_match input then Inr input
      else attempt (try_each (\<lambda>e. eval_value e input) es) (apply_function env name input))"

subsection \<open>The meaning of an expression\<close>

fun meaning :: "expr_env \<Rightarrow> vexpr \<Rightarrow> evaluator"
  and part_meaning :: "expr_env \<Rightarrow> string_part \<Rightarrow> string + evaluator" where
  "meaning env (EPipeline es) = Streaming (\<lambda>input. eval_pipeline (map (meaning env) es) [input])"
| "meaning env (EUnion es) = Batch (\<lambda>inputs. concat_each (\<lambda>e. eval_stream_inputs e inputs) (map (meaning env) es))"
| "meaning env (ELiteral v) = Plain (\<lambda>_. Inr (clone_value v))"
| "meaning env (EString parts) = Plain (eval_string env (map (part_meaning env) parts))"
| "meaning env (EPath path) = Streaming (\<lambda>input. Inr (select_path path input))"
| "meaning env (EArray es) = Plain (\<lambda>input. attempt (eval_list (map (meaning env) es) input) (\<lambda>vs. Inr (VSeq vs)))"
| "meaning env (EMap entries) = Plain (eval_map_entries (map (\<lambda>(k, e). (k, meaning env e)) entries))"
| "meaning env (EUpdate path op e) = Plain (eval_update env path op (meaning env e))"
| "meaning env (EBinary op l r) = Streaming (eval_binary env op (meaning env l) (meaning env r))"
| "meaning env (EFunction name args) = Plain (eval_function env name (map (meaning env) args))"
| "meaning env (EStream name args) = Streaming (eval_stream_function name (map (meaning env) args))"
| "part_meaning env (PLit s) = Inl s"
| "part_meaning env (PExpr e) = Inr (meaning env e)"

subsection \<open>Evaluation keeps values well formed\<close>

definition all_wf :: "oval list \<Rightarrow> bool" where
  "all_wf vs \<longleftrightarrow> (\<forall>v\<in>set vs. well_formed v)"

definition evaluator_ok :: "evaluator \<Rightarrow> bool" where
  "evaluator_ok e =
     (case e of
        Plain f \<Rightarrow> \<forall>x v. well_formed x \<longrightarrow> f x = Inr v \<longrightarrow> well_formed v
      | Streaming g \<Rightarrow> \<forall>x vs. well_formed x \<longrightarrow> g x = Inr vs \<longrightarrow> all_wf vs
      | Batch h \<Rightarrow> \<forall>xs vs. all_wf xs \<longrightarrow> h xs = Inr vs \<longrightarrow> all_wf vs)"

fun literals_ok :: "vexpr \<Rightarrow> bool" and part_literals_ok :: "string_part \<Rightarrow> bool" where
  "literals_ok (ELiteral v) = well_formed v"
| "literals_ok (EPipeline es) = list_all literals_ok es"
| "literals_ok (EUnion es) = list_all literals_ok es"
| "literals_ok (EString parts) = list_all part_literals_ok parts"
| "literals_ok (EPath path) = True"
| "literals_ok (EArray es) = list_all literals_ok es"
| "literals_ok (EMap entries) = list_all (\<lambda>(_, e). literals_ok e) entries"
| "literals_ok (EUpdate path op e) = literals_ok e"
| "literals_ok (EBinary op l r) = (literals_ok l \<and> literals_ok r)"
| "literals_ok (EFunction name args) = list_all literals_ok args"
| "literals_ok (EStream name args) = list_all literals_ok args"
| "part_literals_ok (PLit s) = True"
| "part_literals_ok (PExpr e) = literals_ok e"

lemma all_wf_simps [simp]:
  "all_wf []" "all_wf (v # vs) \<longleftrightarrow> well_formed v \<and> all_wf vs" "all_wf (vs @ ws) \<longleftrightarrow> all_wf vs \<and> all_wf ws"
  "well_formed (VSeq vs) \<longleftrightarrow> all_wf vs"
  by (auto simp: all_wf_def)

declare well_formed_VSeq [simp del]

lemma all_wfD: "all_wf vs \<Longrightarrow> v \<in> set vs \<Longrightarrow> well_formed v"
  by (simp add: all_wf_def)

lemma all_wf_subset: "all_wf vs \<Longrightarrow> set ws \<subseteq> set vs \<Longrightarrow> all_wf ws"
  by (auto simp: all_wf_def)

lemma concat_each_wf:
  assumes "concat_each f xs = Inr vs" and "\<And>x ys. x \<in> set xs \<Longrightarrow> f x = Inr ys \<Longrightarrow> all_wf ys"
  shows "all_wf vs"
proof -
  obtain yss where yss: "try_each f xs = Inr yss" "vs = concat yss"
    using assms(1) by (auto simp: concat_each_def attempt_Inr_iff)
  have "\<forall>ys\<in>set yss. all_wf ys" by (rule try_each_results [OF yss(1)]) (use assms(2) in blast)
  then show ?thesis by (auto simp: yss(2) all_wf_def)
qed

lemma try_each_wf:
  assumes "try_each f xs = Inr vs" and "\<And>x v. x \<in> set xs \<Longrightarrow> f x = Inr v \<Longrightarrow> well_formed v"
  shows "all_wf vs"
  unfolding all_wf_def by (rule try_each_results [OF assms(1)]) (use assms(2) in blast)

lemma evaluator_ok_simps:
  "evaluator_ok (Plain f) \<longleftrightarrow> (\<forall>x v. well_formed x \<longrightarrow> f x = Inr v \<longrightarrow> well_formed v)"
  "evaluator_ok (Streaming g) \<longleftrightarrow> (\<forall>x vs. well_formed x \<longrightarrow> g x = Inr vs \<longrightarrow> all_wf vs)"
  "evaluator_ok (Batch h) \<longleftrightarrow> (\<forall>xs vs. all_wf xs \<longrightarrow> h xs = Inr vs \<longrightarrow> all_wf vs)"
  by (simp_all add: evaluator_ok_def)

lemma eval_stream_wf:
  assumes "evaluator_ok e" and "well_formed x" and "eval_stream e x = Inr vs"
  shows "all_wf vs"
proof (cases e)
  case (Batch h)
  then have "all_wf [x] \<longrightarrow> h [x] = Inr vs \<longrightarrow> all_wf vs" using assms(1) unfolding evaluator_ok_simps Batch by blast
  then show ?thesis using assms(2,3) Batch by simp
qed (use assms in \<open>auto simp: evaluator_ok_simps attempt_Inr_iff\<close>)

lemma eval_single_wf:
  assumes "evaluator_ok e" and "well_formed x" and "eval_single e x = Inr v"
  shows "well_formed v"
proof -
  obtain vs where vs: "eval_stream e x = Inr vs"
    and v: "(case vs of [] \<Rightarrow> Inr no_match | [v] \<Rightarrow> Inr v | _ \<Rightarrow> Inl ''expression produced several results'') = Inr v"
    using assms(3) by (auto simp: eval_single_def attempt_Inr_iff)
  have "all_wf vs" by (rule eval_stream_wf [OF assms(1,2) vs])
  then show ?thesis using v by (cases vs; cases "tl vs") auto
qed

lemma eval_value_wf: "evaluator_ok e \<Longrightarrow> well_formed x \<Longrightarrow> eval_value e x = Inr v \<Longrightarrow> well_formed v"
  using eval_single_wf [of e x v] by (cases e) (auto simp: evaluator_ok_def)

lemma eval_stream_inputs_wf:
  assumes "evaluator_ok e" and "all_wf xs" and "eval_stream_inputs e xs = Inr vs"
  shows "all_wf vs"
proof (cases "\<exists>h. e = Batch h")
  case True
  then show ?thesis using assms by (auto simp: evaluator_ok_def)
next
  case False
  then have "concat_each (eval_stream e) xs = Inr vs" using assms(3) by (cases e) auto
  then show ?thesis using concat_each_wf eval_stream_wf [OF assms(1)] all_wfD [OF assms(2)] by blast
qed

lemma eval_list_wf:
  "\<forall>e\<in>set es. evaluator_ok e \<Longrightarrow> well_formed x \<Longrightarrow> eval_list es x = Inr vs \<Longrightarrow> all_wf vs"
  unfolding eval_list_def using concat_each_wf eval_stream_wf by blast

lemma eval_pipeline_wf:
  "\<forall>e\<in>set es. evaluator_ok e \<Longrightarrow> all_wf xs \<Longrightarrow> eval_pipeline es xs = Inr vs \<Longrightarrow> all_wf vs"
  by (induction es arbitrary: xs) (auto simp: attempt_Inr_iff dest: eval_stream_inputs_wf)

lemma update_with_wf: "evaluator_ok e \<Longrightarrow> well_formed x \<Longrightarrow> update_with e x = Inr v \<Longrightarrow> well_formed v"
  using eval_single_wf [of e x] by (auto simp: update_with_def attempt_Inr_iff split: if_splits)

lemma eval_update_wf:
  assumes "evaluator_ok e" and "well_formed x" and "eval_update env path op e x = Inr v"
  shows "well_formed v"
proof (cases "op = TAssign \<or> op = TUpdateAssign")
  case True
  then consider "op = TAssign" | "op = TUpdateAssign" by blast
  then show ?thesis
  proof cases
    case 1
    then obtain w where w: "eval_single e x = Inr w"
      and v: "(if is_no_match w then Inr x else update_path path (\<lambda>_. Inr w) x) = Inr v"
      using assms(3) by (auto simp: eval_update_def attempt_Inr_iff cong: if_cong)
    have "well_formed w" by (rule eval_single_wf [OF assms(1,2) w])
    then show ?thesis
      using v assms(2) update_path_wf [of "\<lambda>_. Inr w" x path v] by (auto split: if_splits)
  next
    case 2
    then have "update_path path (update_with e) x = Inr v" using assms(3) by (simp add: eval_update_def)
    then show ?thesis using update_path_wf [of "update_with e" x path v] update_with_wf [OF assms(1)] assms(2) by blast
  qed
next
  case False
  then obtain w where w: "eval_single e x = Inr w"
    "update_path path (\<lambda>old. evaluate_binary env (assign_operator op) old w) x = Inr v"
    using assms(3) by (cases op) (auto simp: eval_update_def attempt_Inr_iff)
  show ?thesis
    by (rule update_path_wf [OF _ assms(2) w(2)]) (use wf_evaluate_binary eval_single_wf [OF assms(1,2) w(1)] in blast)
qed

lemma eval_map_entries_wf:
  assumes "\<forall>(k, e)\<in>set entries. evaluator_ok e" and "well_formed x" and "eval_map_entries entries x = Inr v"
  shows "well_formed v"
proof -
  obtain kvss where kvss: "try_each (\<lambda>(k, e). attempt (eval_stream e x) (\<lambda>vs. Inr (k, vs))) entries = Inr kvss"
    and v: "v = VMap (foldl (\<lambda>m (k, vs). if vs = [] then m else map_put k (last vs) m) [] kvss)"
    using assms(3) by (auto simp: eval_map_entries_def attempt_Inr_iff)
  have "\<forall>kvs\<in>set kvss. all_wf (snd kvs)"
  proof (rule try_each_results [OF kvss])
    fix ke y assume "ke \<in> set entries" and y: "(case ke of (k, e) \<Rightarrow> attempt (eval_stream e x) (\<lambda>vs. Inr (k, vs))) = Inr y"
    then have "evaluator_ok (snd ke)" using assms(1) by auto
    then show "all_wf (snd y)" using y eval_stream_wf assms(2) by (auto simp: attempt_Inr_iff split: prod.splits)
  qed
  then have "entries_ok m \<Longrightarrow> entries_ok (foldl (\<lambda>m (k, vs). if vs = [] then m else map_put k (last vs) m) m kvss)" for m
    by (induction kvss arbitrary: m) (auto simp: wf_values all_wfD)
  then show ?thesis by (simp add: v)
qed

lemma well_formed_int_value [simp]: "well_formed (int_value n)"
  by (simp add: int_value_def)

lemma eval_binary_wf:
  assumes l: "evaluator_ok left" and r: "evaluator_ok right" and x: "well_formed x"
    and v: "eval_binary env operator left right x = Inr vs"
  shows "all_wf vs"
proof (cases "operator = ''//''")
  case True
  then obtain lefts where lefts: "eval_stream left x = Inr lefts" "all_wf lefts"
    and rest: "(if lefts = [] then eval_stream right x
       else concat_each (\<lambda>l. if truthy l then Inr [l] else eval_stream right x) lefts) = Inr vs"
    using v eval_stream_wf [OF l x] by (auto simp: eval_binary_def eval_alternative_def attempt_Inr_iff)
  have right: "eval_stream right x = Inr ws \<Longrightarrow> all_wf ws" for ws using eval_stream_wf [OF r x] .
  show ?thesis
  proof (cases "lefts = []")
    case False
    then have c: "concat_each (\<lambda>l. if truthy l then Inr [l] else eval_stream right x) lefts = Inr vs" using rest by simp
    show ?thesis
      by (rule concat_each_wf [OF c]) (use right lefts(2) in \<open>auto simp: all_wfD split: if_splits\<close>)
  qed (use rest right in simp)
next
  case False
  then obtain lefts where lefts: "eval_stream left x = Inr lefts" "all_wf lefts"
    and rest: "(if (operator = ''and'' \<or> operator = ''or'') \<and> list_all (decides operator) lefts then
            Inr (map (\<lambda>l. VBool (operator = ''or'' \<and> truthy l)) lefts)
          else
            attempt (eval_stream right x) (\<lambda>rights.
              concat_each (\<lambda>l.
                if decides operator l then Inr [VBool (operator = ''or'')]
                else try_each (\<lambda>r. evaluate_binary env operator l r) rights) lefts)) = Inr vs"
    using v eval_stream_wf [OF l x] unfolding eval_binary_def attempt_Inr_iff if_not_P [OF False] by blast
  show ?thesis
  proof (cases "(operator = ''and'' \<or> operator = ''or'') \<and> list_all (decides operator) lefts")
    case True
    then have "vs = map (\<lambda>l. VBool (operator = ''or'' \<and> truthy l)) lefts" using rest by simp
    then show ?thesis by (auto simp: all_wf_def)
  next
    case False
    then obtain rights where rights: "eval_stream right x = Inr rights" "all_wf rights"
      and c: "concat_each (\<lambda>l. if decides operator l then Inr [VBool (operator = ''or'')]
                else try_each (\<lambda>r. evaluate_binary env operator l r) rights) lefts = Inr vs"
      using rest eval_stream_wf [OF r x] unfolding if_not_P [OF False] attempt_Inr_iff by blast
    show ?thesis
    proof (rule concat_each_wf [OF c])
      fix a ys assume a: "a \<in> set lefts"
        and ys: "(if decides operator a then Inr [VBool (operator = ''or'')]
                else try_each (\<lambda>r. evaluate_binary env operator a r) rights) = Inr ys"
      show "all_wf ys"
      proof (cases "decides operator a")
        case False
        then have t: "try_each (\<lambda>r. evaluate_binary env operator a r) rights = Inr ys" using ys by simp
        show ?thesis
          by (rule try_each_wf [OF t]) (use wf_evaluate_binary all_wfD lefts(2) rights(2) a in blast)
      qed (use ys in auto)
    qed
  qed
qed

lemma collection_values_wf: "well_formed x \<Longrightarrow> collection_values x = Inr vs \<Longrightarrow> all_wf vs"
  by (cases x) (auto simp: collection_values_def entries_ok_def all_wf_def)

lemma entry_value_wf: "well_formed k \<Longrightarrow> well_formed v \<Longrightarrow> well_formed (entry_value k v)"
  by (simp add: entry_value_def wf_values del: map_put.simps)

lemma to_entries_wf: "well_formed x \<Longrightarrow> to_entries x = Inr (Some es) \<Longrightarrow> all_wf es"
proof (cases x)
  case (VSeq vs)
  assume "well_formed x" "to_entries x = Inr (Some es)"
  then have "all_wf vs" "es = map (\<lambda>(i, v). entry_value (int_value i) v) (enumerate 0 vs)" using VSeq by (simp_all add: to_entries_def)
  then show ?thesis by (auto simp: all_wf_def in_set_enumerate_eq entry_value_wf)
next
  case (VMap kvs)
  assume "well_formed x" "to_entries x = Inr (Some es)"
  then have "entries_ok kvs" "es = map (\<lambda>(k, v). entry_value (VStr k) v) kvs" using VMap by (simp_all add: to_entries_def)
  then show ?thesis by (auto simp: all_wf_def entries_ok_def intro!: entry_value_wf)
qed (simp_all add: to_entries_def)

lemma from_entry_wf: "well_formed x \<Longrightarrow> from_entry x = Inr (k, v) \<Longrightarrow> well_formed v"
  by (cases x) (auto simp: from_entry_def well_formed_map_of split: option.splits oval.splits)

lemma from_entries_wf:
  assumes "all_wf items" and "from_entries items = Inr v"
  shows "well_formed v"
proof -
  obtain kvs where kvs: "try_each from_entry items = Inr kvs" and v: "v = VMap (foldl (\<lambda>m (k, v). map_put k v m) [] kvs)"
    using assms(2) by (auto simp: from_entries_def attempt_Inr_iff)
  have "\<forall>kv\<in>set kvs. well_formed (snd kv)"
    by (rule try_each_results [OF kvs]) (use from_entry_wf all_wfD [OF assms(1)] in force)
  then show ?thesis using entries_ok_update_all [of "[]" kvs] by (simp add: v)
qed

lemma first_or_old_wf:
  assumes "\<forall>e\<in>set es. evaluator_ok e" and "well_formed v" and "first_or_old es v = Inr w"
  shows "well_formed w"
proof -
  obtain items where "eval_list es v = Inr items" "w = (case items of [] \<Rightarrow> v | w # _ \<Rightarrow> clone_value w)"
    using assms(3) by (auto simp: first_or_old_def attempt_Inr_iff)
  then show ?thesis using eval_list_wf [OF assms(1,2)] assms(2) by (cases items) auto
qed

text \<open>\<open>map_values\<close> keeps the keys.\<close>

lemma map_values_wf:
  assumes "\<forall>e\<in>set es. evaluator_ok e" and "entries_ok kvs"
    and "try_each (\<lambda>(k, v). attempt (first_or_old es v) (\<lambda>w. Inr (k, w))) kvs = Inr kws"
  shows "entries_ok kws"
proof -
  have "\<forall>kw\<in>set kws. well_formed (snd kw)"
  proof (rule try_each_results [OF assms(3)])
    fix kv y assume "kv \<in> set kvs" and y: "(case kv of (k, v) \<Rightarrow> attempt (first_or_old es v) (\<lambda>w. Inr (k, w))) = Inr y"
    then have "well_formed (snd kv)" using assms(2) by (auto simp: entries_ok_def)
    then show "well_formed (snd y)" using y first_or_old_wf [OF assms(1)] by (auto simp: attempt_Inr_iff split: prod.splits)
  qed
  then show ?thesis using assms(2) try_each_keys [OF assms(3)] by (auto simp: entries_ok_def)
qed

lemma stream_function_map:
  "eval_stream_function ''map'' args x =
     (if args = [] then Inl ''expects an expression''
      else attempt (collection_values x) (\<lambda>values.
        attempt (concat_each (\<lambda>e. eval_stream_inputs e values) args) (\<lambda>vs. Inr [VSeq vs])))"
  by (simp add: eval_stream_function_def)

lemma stream_function_filter:
  "eval_stream_function ''filter'' args x =
     (if args = [] then Inl ''expects an expression''
      else attempt (collection_values x) (\<lambda>values.
        attempt (concat_each (\<lambda>v. attempt (eval_list args v) (\<lambda>items.
          Inr (if list_ex truthy items then [v] else []))) values) (\<lambda>vs. Inr [VSeq vs])))"
  by (simp add: eval_stream_function_def cong: if_cong)

lemma stream_function_map_values:
  "eval_stream_function ''map_values'' args x =
     (if args = [] then Inl ''map_values expects an expression''
      else (case x of
              VSeq vs \<Rightarrow> attempt (try_each (first_or_old args) vs) (\<lambda>ws. Inr [VSeq ws])
            | VMap kvs \<Rightarrow>
                attempt (try_each (\<lambda>(k, v). attempt (first_or_old args v) (\<lambda>w. Inr (k, w))) kvs) (\<lambda>kws.
                  Inr [VMap kws])
            | _ \<Rightarrow> Inl ''map_values only supports arrays and mappings''))"
  by (simp add: eval_stream_function_def)

lemma stream_function_with_entries:
  "eval_stream_function ''with_entries'' args x =
     (if args = [] then Inl ''with_entries expects an expression''
      else (case x of
              VMap kvs \<Rightarrow>
                attempt (concat_each (eval_list args) (map (\<lambda>(k, v). entry_value (VStr k) v) kvs)) (\<lambda>transformed.
                  attempt (from_entries transformed) (\<lambda>v. Inr [v]))
            | _ \<Rightarrow> Inl ''with_entries only supports mappings''))"
  by (simp add: eval_stream_function_def to_entries_def split: oval.split)

lemma map_function_wf:
  assumes ok: "\<forall>e\<in>set args. evaluator_ok e" and x: "well_formed x"
    and v: "eval_stream_function ''map'' args x = Inr vs"
  shows "all_wf vs"
proof -
  obtain xs ws where xs: "collection_values x = Inr xs"
    and ws: "concat_each (\<lambda>e. eval_stream_inputs e xs) args = Inr ws" and vs: "vs = [VSeq ws]"
    using v unfolding stream_function_map by (auto simp: attempt_Inr_iff split: if_splits)
  have "all_wf ws"
    by (rule concat_each_wf [OF ws]) (use eval_stream_inputs_wf ok collection_values_wf [OF x xs] in blast)
  then show ?thesis by (simp add: vs)
qed

lemma filter_function_wf:
  assumes x: "well_formed x" and v: "eval_stream_function ''filter'' args x = Inr vs"
  shows "all_wf vs"
proof -
  obtain xs ws where xs: "collection_values x = Inr xs"
    and ws: "concat_each (\<lambda>v. attempt (eval_list args v) (\<lambda>items.
        Inr (if list_ex truthy items then [v] else []))) xs = Inr ws" and vs: "vs = [VSeq ws]"
    using v unfolding stream_function_filter by (auto simp: attempt_Inr_iff split: if_splits)
  have "all_wf ws"
    by (rule concat_each_wf [OF ws])
      (use all_wfD [OF collection_values_wf [OF x xs]] in \<open>auto simp: attempt_Inr_iff split: if_splits\<close>)
  then show ?thesis by (simp add: vs)
qed

lemma map_values_function_wf:
  assumes ok: "\<forall>e\<in>set args. evaluator_ok e" and x: "well_formed x"
    and v: "eval_stream_function ''map_values'' args x = Inr vs"
  shows "all_wf vs"
proof (cases x)
  case (VSeq xs)
  then obtain ws where ws: "try_each (first_or_old args) xs = Inr ws" "vs = [VSeq ws]"
    using v unfolding stream_function_map_values by (auto simp: attempt_Inr_iff split: if_splits)
  have "all_wf ws"
    by (rule try_each_wf [OF ws(1)]) (use first_or_old_wf [OF ok] all_wfD x VSeq in auto)
  then show ?thesis by (simp add: ws(2))
next
  case (VMap kvs)
  then obtain kws where kws: "try_each (\<lambda>(k, v). attempt (first_or_old args v) (\<lambda>w. Inr (k, w))) kvs = Inr kws" "vs = [VMap kws]"
    using v unfolding stream_function_map_values by (auto simp: attempt_Inr_iff split: if_splits)
  have "entries_ok kws" by (rule map_values_wf [OF ok _ kws(1)]) (use x VMap in simp)
  then show ?thesis by (simp add: kws(2))
qed (use v in \<open>auto simp: stream_function_map_values split: if_splits\<close>)

lemma with_entries_function_wf:
  assumes ok: "\<forall>e\<in>set args. evaluator_ok e" and x: "well_formed x"
    and v: "eval_stream_function ''with_entries'' args x = Inr vs"
  shows "all_wf vs"
proof (cases x)
  case (VMap kvs)
  define es where "es = map (\<lambda>(k, v). entry_value (VStr k) v) kvs"
  obtain ws w where ws: "concat_each (eval_list args) es = Inr ws" and w: "from_entries ws = Inr w" "vs = [w]"
    using v VMap unfolding stream_function_with_entries es_def by (auto simp: attempt_Inr_iff split: if_splits)
  have "to_entries x = Inr (Some es)" by (simp add: VMap to_entries_def es_def)
  then have es: "all_wf es" by (rule to_entries_wf [OF x])
  have "all_wf ws" by (rule concat_each_wf [OF ws]) (use eval_list_wf [OF ok] all_wfD [OF es] in blast)
  then show ?thesis using from_entries_wf w by simp
qed (use v in \<open>auto simp: stream_function_with_entries split: if_splits\<close>)

lemma stream_function_entries:
  "eval_stream_function ''to_entries'' args x =
     (if args \<noteq> [] then Inl ''to_entries expects no arguments''
      else attempt (to_entries x) (\<lambda>r. Inr (case r of None \<Rightarrow> [] | Some es \<Rightarrow> [VSeq es])))"
  "eval_stream_function ''from_entries'' args x =
     (if args \<noteq> [] then Inl ''from_entries expects no arguments''
      else (case x of
              VSeq es \<Rightarrow> attempt (from_entries es) (\<lambda>v. Inr [v])
            | _ \<Rightarrow> Inl ''from_entries only supports arrays''))"
  by (simp_all add: eval_stream_function_def)

lemma entries_function_wf:
  assumes x: "well_formed x" and v: "eval_stream_function name args x = Inr vs"
    and name: "name = ''to_entries'' \<or> name = ''from_entries''"
  shows "all_wf vs"
  using name
proof
  assume "name = ''to_entries''"
  then have "eval_stream_function ''to_entries'' args x = Inr vs" using v by simp
  then obtain r where "to_entries x = Inr r" "vs = (case r of None \<Rightarrow> [] | Some es \<Rightarrow> [VSeq es])"
    unfolding stream_function_entries by (auto simp: attempt_Inr_iff split: if_splits)
  then show ?thesis using to_entries_wf [OF x] by (cases r) auto
next
  assume "name = ''from_entries''"
  then have "eval_stream_function ''from_entries'' args x = Inr vs" using v by simp
  then obtain es w where "x = VSeq es" "from_entries es = Inr w" "vs = [w]"
    unfolding stream_function_entries by (cases x) (auto simp: attempt_Inr_iff split: if_splits)
  then show ?thesis using from_entries_wf x by simp
qed

lemma any_all_function_wf:
  assumes "eval_stream_function name args x = Inr vs"
    and "name \<notin> {''map'', ''filter'', ''map_values'', ''to_entries'', ''from_entries'', ''with_entries''}"
  shows "all_wf vs"
proof -
  have "eval_stream_function name args x =
      (if name = ''any_c'' \<or> name = ''all_c'' then
         (if args = [] then Inl ''expects a condition''
          else (case x of
                  VSeq vs \<Rightarrow> attempt (any_all (name = ''all_c'') args vs) (\<lambda>b. Inr [VBool b])
                | _ \<Rightarrow> Inl ''only supports arrays''))
       else Inl ''unsupported stream function'')"
    using assms(2) by (simp add: eval_stream_function_def)
  then have "(case x of VSeq vs \<Rightarrow> attempt (any_all (name = ''all_c'') args vs) (\<lambda>b. Inr [VBool b])
                | _ \<Rightarrow> Inl ''only supports arrays'') = Inr vs"
    using assms(1) by (auto split: if_splits)
  then obtain b where "vs = [VBool b]" by (cases x) (auto simp: attempt_Inr_iff)
  then show ?thesis by simp
qed

lemma eval_stream_function_wf:
  assumes "\<forall>e\<in>set args. evaluator_ok e" and "well_formed x" and "eval_stream_function name args x = Inr vs"
  shows "all_wf vs"
proof -
  consider "name = ''map''" | "name = ''filter''" | "name = ''map_values''"
    | "name = ''to_entries'' \<or> name = ''from_entries''" | "name = ''with_entries''"
    | "name \<notin> {''map'', ''filter'', ''map_values'', ''to_entries'', ''from_entries'', ''with_entries''}"
    unfolding insert_iff empty_iff by argo
  then show ?thesis
  proof cases
    case 4
    then show ?thesis by (rule entries_function_wf [OF assms(2,3)])
  next
    case 6
    then show ?thesis by (rule any_all_function_wf [OF assms(3)])
  next
    case 1
    show ?thesis using assms(3) unfolding 1 by (rule map_function_wf [OF assms(1,2)])
  next
    case 2
    show ?thesis using assms(3) unfolding 2 by (rule filter_function_wf [OF assms(2)])
  next
    case 3
    show ?thesis using assms(3) unfolding 3 by (rule map_values_function_wf [OF assms(1,2)])
  next
    case 5
    show ?thesis using assms(3) unfolding 5 by (rule with_entries_function_wf [OF assms(1,2)])
  qed
qed

text \<open>The functions of one value; most of them make scalars.\<close>

lemma fn_array_Inr: "fn_array x f = Inr v \<Longrightarrow> \<exists>vs. x = VSeq vs \<and> f vs = Inr v"
  by (cases x) (auto simp: fn_array_def)

lemma fn_string_Inr: "fn_string x f = Inr v \<Longrightarrow> \<exists>s. x = VStr s \<and> f s = Inr v"
  by (cases x) (auto simp: fn_string_def)

lemma fn_scalars_wf:
  "fn_length env x = Inr v \<Longrightarrow> well_formed v"
  "fn_has env x key = Inr v \<Longrightarrow> well_formed v"
  "fn_contains x key = Inr v \<Longrightarrow> well_formed v"
  "fn_join env x key = Inr v \<Longrightarrow> well_formed v"
  "fn_tostring env x = Inr v \<Longrightarrow> well_formed v"
  by (cases x; auto simp: fn_length_def fn_has_def fn_contains_def fn_join_def fn_tostring_def fn_array_def
      attempt_Inr_iff Let_def split: option.splits prod.splits bool.splits if_splits oval.splits)+

lemma fn_sequences_wf:
  "fn_keys x = Inr v \<Longrightarrow> well_formed v"
  "fn_split x key = Inr v \<Longrightarrow> well_formed v"
  by (cases x; auto simp: fn_keys_def fn_split_def fn_string_def attempt_Inr_iff all_wf_def)+

lemma with_regexp_wf:
  assumes "with_regexp env x p f = Inr v" and "\<And>s re w. f s re = Inr w \<Longrightarrow> well_formed w"
  shows "well_formed v"
  using assms(1) assms(2) by (auto simp: with_regexp_def attempt_Inr_iff dest!: fn_string_Inr split: option.splits)

lemma fn_regexp_wf:
  "fn_test env x args = Inr v \<Longrightarrow> well_formed v"
  "fn_sub env x p r = Inr v \<Longrightarrow> well_formed v"
  by (auto simp: fn_test_def fn_sub_def attempt_Inr_iff elim!: with_regexp_wf)

lemma fn_flatten_wf: "well_formed x \<Longrightarrow> fn_flatten env x args = Inr v \<Longrightarrow> well_formed v"
  using well_formed_flatten
  by (auto simp: fn_flatten_def all_wf_def dest!: fn_array_Inr split: list.splits option.splits prod.splits bool.splits if_splits)

lemma parse_int_base_fits: "parse_int_base b s = Some i \<Longrightarrow> fits64 i"
  by (auto simp: parse_int_base_def Let_def split: if_splits option.splits)

lemma fn_tonumber_wf: "well_formed x \<Longrightarrow> fn_tonumber env x = Inr v \<Longrightarrow> well_formed v"
  by (auto simp: fn_tonumber_def parse_int_base_fits split: if_splits oval.splits option.splits)

lemma if_InrE:
  assumes "(if c then a else b) = Inr v" and "a = Inr v \<Longrightarrow> P" and "b = Inr v \<Longrightarrow> P"
  shows P
  using assms by (simp split: if_splits)

lemma fn_lists_wf:
  assumes "well_formed x"
  shows "fn_array x (\<lambda>vs. Inr (VSeq (rev vs))) = Inr v \<Longrightarrow> well_formed v"
    and "fn_array x (\<lambda>vs. attempt (sort_values vs) (\<lambda>ws. Inr (VSeq ws))) = Inr v \<Longrightarrow> well_formed v"
    and "fn_array x (\<lambda>vs. attempt (unique_values env {} vs) (\<lambda>ws. Inr (VSeq ws))) = Inr v \<Longrightarrow> well_formed v"
    and "fn_array x (\<lambda>vs. Inr (VBool (g vs))) = Inr v \<Longrightarrow> well_formed v"
    and "fn_string x (\<lambda>s. Inr (VStr (h s))) = Inr v \<Longrightarrow> well_formed v"
  using assms unique_values_subset
  by (fastforce simp: attempt_Inr_iff all_wf_def set_sort_values dest!: fn_array_Inr fn_string_Inr)+

lemma apply_function_wf:
  assumes "well_formed x" and "apply_function env name x args = Inr v"
  shows "well_formed v"
  using assms(2,1) unfolding apply_function_def
  by (elim if_InrE fn_lists_wf [OF assms(1)] fn_scalars_wf fn_sequences_wf fn_regexp_wf
      fn_flatten_wf [OF assms(1)] fn_tonumber_wf [OF assms(1)])
    (auto split: if_splits)

lemma eval_function_wf:
  assumes "well_formed x" and "eval_function env name es x = Inr v"
  shows "well_formed v"
  using assms apply_function_wf by (auto simp: eval_function_def attempt_Inr_iff split: if_splits)

lemma try_each_strings: "eval_string env parts x = Inr v \<Longrightarrow> well_formed v"
  by (auto simp: eval_string_def attempt_Inr_iff)

lemma meaning_ok: "literals_ok e \<Longrightarrow> evaluator_ok (meaning env e)"
  and "part_literals_ok p \<Longrightarrow> True"
proof (induction env e and env p rule: meaning_part_meaning.induct)
  case (1 env es)
  then have "\<forall>e\<in>set (map (meaning env) es). evaluator_ok e" by (auto simp: list_all_iff)
  then show ?case unfolding meaning.simps evaluator_ok_simps by (metis all_wf_simps(1,2) eval_pipeline_wf)
next
  case (2 env es)
  then have ok: "\<forall>e\<in>set (map (meaning env) es). evaluator_ok e" by (auto simp: list_all_iff)
  show ?case unfolding meaning.simps evaluator_ok_simps
  proof (intro allI impI)
    fix xs vs assume "all_wf xs" and c: "concat_each (\<lambda>e. eval_stream_inputs e xs) (map (meaning env) es) = Inr vs"
    show "all_wf vs" by (rule concat_each_wf [OF c]) (use eval_stream_inputs_wf ok \<open>all_wf xs\<close> in blast)
  qed
next
  case (6 env es)
  then have "\<forall>e\<in>set (map (meaning env) es). evaluator_ok e" by (auto simp: list_all_iff)
  then show ?case using eval_list_wf [of "map (meaning env) es"] by (auto simp: evaluator_ok_simps attempt_Inr_iff)
next
  case (7 env entries)
  then have "\<forall>(k, e)\<in>set (map (\<lambda>(k, e). (k, meaning env e)) entries). evaluator_ok e" by (auto simp: list_all_iff)
  then show ?case unfolding meaning.simps evaluator_ok_simps using eval_map_entries_wf by blast
next
  case (11 env name args)
  then have "\<forall>e\<in>set (map (meaning env) args). evaluator_ok e" by (auto simp: list_all_iff)
  then show ?case unfolding meaning.simps evaluator_ok_simps using eval_stream_function_wf by blast
next
  case (4 env parts)
  show ?case unfolding meaning.simps evaluator_ok_simps using try_each_strings by blast
next
  case (5 env path)
  show ?case unfolding meaning.simps evaluator_ok_simps all_wf_def using select_path_wf by blast
next
  case (8 env path op e)
  then have "evaluator_ok (meaning env e)" by simp
  then show ?case unfolding meaning.simps evaluator_ok_simps using eval_update_wf by blast
next
  case (9 env op l r)
  then have "evaluator_ok (meaning env l)" "evaluator_ok (meaning env r)" by simp_all
  then show ?case unfolding meaning.simps evaluator_ok_simps using eval_binary_wf by blast
next
  case (10 env name args)
  show ?case unfolding meaning.simps evaluator_ok_simps using eval_function_wf by blast
qed (simp_all add: evaluator_ok_simps)

end
