(* ===== verification/Override_Parse_Total.thy ===== *)
theory Override_Parse_Total
  imports Override_Parser
begin

text \<open>
  The bounds on nesting and on loops that the model of the parser carries are never reached: the
  parser answers on every source. A parser is \<open>good\<close> when on short enough token lists it does not
  run out and leaves a suffix of the tokens; the locale \<open>nested_sources\<close> is what the parser needs
  of the function that parses the source of an interpolation.
\<close>

subsection \<open>Parsers that do not run out\<close>

definition fuel_ok :: "token list \<Rightarrow> string + 'a \<times> token list \<Rightarrow> bool" where
  "fuel_ok ts r = (case r of Inl e \<Rightarrow> e \<noteq> out_of_fuel | Inr (_, ts') \<Rightarrow> suffix ts' ts)"

definition texts_ok :: "nat \<Rightarrow> token list \<Rightarrow> bool" where
  "texts_ok m ts \<longleftrightarrow> (\<forall>t\<in>set ts. t_kind t = TString \<longrightarrow> length (t_text t) \<le> m)"

definition good :: "nat \<Rightarrow> nat \<Rightarrow> 'a parser \<Rightarrow> bool" where
  "good m n p \<longleftrightarrow> (\<forall>ts. length ts < n \<longrightarrow> texts_ok m ts \<longrightarrow> fuel_ok ts (p ts))"

lemma fuel_ok_simps [simp]:
  "fuel_ok ts (Inl e) \<longleftrightarrow> e \<noteq> out_of_fuel" "fuel_ok ts (Inr (x, ts')) \<longleftrightarrow> suffix ts' ts"
  by (simp_all add: fuel_ok_def)

lemma fuel_ok_suffix: "fuel_ok ts r \<Longrightarrow> suffix ts us \<Longrightarrow> fuel_ok us r"
  by (auto simp: fuel_ok_def split: sum.splits intro: suffix_order.trans)

lemma texts_ok_suffix: "texts_ok m ts \<Longrightarrow> suffix us ts \<Longrightarrow> texts_ok m us"
  using set_mono_suffix by (fastforce simp: texts_ok_def)

lemma goodD: "good m n p \<Longrightarrow> length ts < n \<Longrightarrow> texts_ok m ts \<Longrightarrow> fuel_ok ts (p ts)"
  by (simp add: good_def)

lemma fuel_ok_attempt:
  assumes "fuel_ok us r" and "suffix us ts" and "\<And>x vs. r = Inr (x, vs) \<Longrightarrow> suffix vs us \<Longrightarrow> fuel_ok ts (f (x, vs))"
  shows "fuel_ok ts (attempt r f)"
  using assms by (cases r) (auto simp: fuel_ok_def [of us])

lemma fuel_ok_attempt_value:
  assumes "r \<noteq> Inl out_of_fuel" and "\<And>x. r = Inr x \<Longrightarrow> fuel_ok ts (f x)"
  shows "fuel_ok ts (attempt r f)"
  using assms by (cases r) auto

lemma suffix_skip: "suffix (skip ts) ts"
  by (cases ts) (simp_all add: skip_def next_token_def suffix_ConsI)

lemma skip_shorter: "t_kind (peek ts) \<noteq> TEof \<Longrightarrow> length (skip ts) < length ts"
  by (cases ts) (simp_all add: skip_def next_token_def peek_def end_token_def)

lemma next_token_eq: "next_token ts = (peek ts, skip ts)"
  by (cases ts) (simp_all add: skip_def next_token_def peek_def)

lemma peek_in_set: "t_kind (peek ts) \<noteq> TEof \<Longrightarrow> peek ts \<in> set ts"
  by (cases ts) (simp_all add: peek_def end_token_def)

lemma suffix_trans_skip: "suffix us ts \<Longrightarrow> suffix (skip us) ts"
  using suffix_skip suffix_order.trans by blast

lemma fuel_ok_expect:
  assumes "message \<noteq> out_of_fuel" and "suffix us ts"
    and "\<And>t. t_kind (peek us) = k \<Longrightarrow> suffix (skip us) us \<Longrightarrow> fuel_ok ts (f (t, skip us))"
  shows "fuel_ok ts (attempt (expect k message us) f)"
  using assms suffix_skip [of us] by (simp add: expect_def next_token_eq)

lemma sep_by_ok:
  assumes "good m n item" and "TEof \<notin> seps"
  shows "length ts < n \<Longrightarrow> texts_ok m ts \<Longrightarrow> length ts < k \<Longrightarrow> fuel_ok ts (sep_by k seps item ts)"
proof (induction k arbitrary: ts)
  case (Suc k)
  show ?case unfolding sep_by.simps
  proof (rule fuel_ok_attempt [OF goodD [OF assms(1) Suc.prems(1,2)]], simp, clarsimp)
    fix ts1 assume s: "suffix ts1 ts" and sep: "t_kind (peek ts1) \<in> seps"
    have "length (skip ts1) < length ts1" using sep assms(2) by (intro skip_shorter) auto
    then have l: "length (skip ts1) < length ts" using suffix_length_le [OF s] by linarith
    have sk: "suffix (skip ts1) ts" using s suffix_trans_skip by blast
    have "fuel_ok (skip ts1) (sep_by k seps item (skip ts1))"
      using Suc.prems l texts_ok_suffix [OF Suc.prems(2) sk] by (intro Suc.IH) auto
    then show "fuel_ok ts (attempt (sep_by k seps item (skip ts1)) (\<lambda>(xs, ts2). Inr (x # xs, ts2)))" for x
      using sk by (rule fuel_ok_attempt) (auto intro: suffix_order.trans [OF _ sk])
  qed
qed simp

lemma left_assoc_ok:
  assumes "good m n operand" and "\<And>t. op t \<noteq> None \<Longrightarrow> t_kind t \<noteq> TEof"
  shows "length ts < n \<Longrightarrow> texts_ok m ts \<Longrightarrow> length ts < k \<Longrightarrow> fuel_ok ts (left_assoc k op operand left ts)"
proof (induction k arbitrary: ts left)
  case (Suc k)
  show ?case
  proof (cases "op (peek ts)")
    case (Some name)
    have l: "length (skip ts) < length ts" using Some assms(2) by (intro skip_shorter) auto
    have "texts_ok m (skip ts)" using Suc.prems(2) suffix_skip texts_ok_suffix by blast
    then have "fuel_ok (skip ts) (operand (skip ts))" using goodD [OF assms(1)] l Suc.prems(1) by simp
    then have "fuel_ok ts (attempt (operand (skip ts)) (\<lambda>(right, ts1).
        left_assoc k op operand (EBinary name left right) ts1))"
    proof (rule fuel_ok_attempt [OF _ suffix_skip], clarsimp)
      fix right ts1 assume s: "suffix ts1 (skip ts)"
      then have s': "suffix ts1 ts" using suffix_skip suffix_order.trans by blast
      have "length ts1 < length ts" using suffix_length_le [OF s] l by linarith
      then have "fuel_ok ts1 (left_assoc k op operand (EBinary name left right) ts1)"
        using Suc.prems texts_ok_suffix [OF Suc.prems(2) s'] by (intro Suc.IH) auto
      then show "fuel_ok ts (left_assoc k op operand (EBinary name left right) ts1)"
        using s' fuel_ok_suffix by blast
    qed
    then show ?thesis using Some by simp
  qed simp
qed simp

lemma binary_level_good:
  assumes "good m n operand" and "\<And>t. op t \<noteq> None \<Longrightarrow> t_kind t \<noteq> TEof"
  shows "good m n (binary_level op operand)"
  unfolding good_def binary_level_def
proof (intro allI impI)
  fix ts :: "token list" assume l: "length ts < n" and t: "texts_ok m ts"
  show "fuel_ok ts (attempt (operand ts) (\<lambda>(left, ts1). left_assoc (Suc (length ts1)) op operand left ts1))"
  proof (rule fuel_ok_attempt [OF goodD [OF assms(1) l t]], simp, clarsimp simp del: left_assoc.simps)
    fix left ts1 assume s: "suffix ts1 ts"
    then have "fuel_ok ts1 (left_assoc (Suc (length ts1)) op operand left ts1)"
      using l suffix_length_le [OF s] texts_ok_suffix [OF t s] by (intro left_assoc_ok [OF assms]) auto
    then show "fuel_ok ts (left_assoc (Suc (length ts1)) op operand left ts1)" using s fuel_ok_suffix by blast
  qed
qed

subsection \<open>Paths\<close>

lemma decode_string_ok: "decode_string s \<noteq> Inl out_of_fuel"
proof (induction s rule: decode_string.induct)
  case (2 c s)
  show ?case
  proof (cases "c = CHR 0x5C")
    case True
    show ?thesis
    proof (cases s)
      case Nil
      then show ?thesis using True by (simp add: out_of_fuel_def)
    next
      case (Cons d s')
      then have "decode_string s' \<noteq> Inl out_of_fuel" using "2.IH"(2) True by simp
      then show ?thesis using True Cons by (cases "decode_string s'") auto
    qed
  next
    case False
    then show ?thesis using "2.IH"(1) by (cases "decode_string s") auto
  qed
qed simp

lemma path_field_ok: "path_field t \<noteq> Inl out_of_fuel"
  by (simp add: path_field_def decode_string_ok)

text \<open>After an expected token, which is not the end token, one token less is left.\<close>

lemma path_index_ok: "fuel_ok ts (path_index ts)"
proof -
  have "fuel_ok ts (attempt (path_field t) (\<lambda>key. Inr (SField key, skip ts)))" for t
    by (rule fuel_ok_attempt_value [OF path_field_ok]) (simp add: suffix_skip)
  moreover have "fuel_ok ts (attempt
      (if c then attempt (expect TNumber ''expected array index after -'' (skip ts)) (\<lambda>(n, ts2). Inr (x @ t_text n, ts2))
       else Inr (x, skip ts))
      (\<lambda>(text, ts2). case parse_int64 text of None \<Rightarrow> Inl ''invalid array index'' | Some i \<Rightarrow> Inr (SIndex i, ts2)))" for c x
  proof (rule fuel_ok_attempt [where us = ts])
    show "fuel_ok ts (if c then attempt (expect TNumber ''expected array index after -'' (skip ts)) (\<lambda>(n, ts2). Inr (x @ t_text n, ts2))
       else Inr (x, skip ts))"
      by (auto simp: suffix_skip suffix_trans_skip out_of_fuel_def intro!: fuel_ok_expect)
  qed (auto simp: out_of_fuel_def split: option.split)
  ultimately show ?thesis by (simp add: path_index_def next_token_eq out_of_fuel_def)
qed

lemma parse_segments_ok: "length ts < n \<Longrightarrow> fuel_ok ts (parse_segments n ts)"
proof (induction n arbitrary: ts)
  case (Suc n)
  have more: "fuel_ok ts (attempt (parse_segments n us) (\<lambda>(path, ts2). Inr (seg # path, ts2)))"
    if "suffix us ts" "length us < length ts" for us seg
  proof -
    have "fuel_ok us (parse_segments n us)" using that(2) Suc.prems by (intro Suc.IH) simp
    then show ?thesis by (rule fuel_ok_attempt [OF _ that(1)]) (auto intro: suffix_order.trans [OF _ that(1)])
  qed
  consider (dot) "at_kind TDot ts" | (bracket) "\<not> at_kind TDot ts" "at_kind TLeftBracket ts"
    | (other) "\<not> at_kind TDot ts" "\<not> at_kind TLeftBracket ts" by blast
  then show ?case
  proof cases
    case dot
    then have l: "length (skip ts) < length ts" by (intro skip_shorter) (simp add: at_kind_def)
    then have l2: "length (skip (skip ts)) < length ts" using suffix_length_le [OF suffix_skip [of "skip ts"]] by simp
    have "fuel_ok ts (attempt (path_field (peek (skip ts))) (\<lambda>key.
        attempt (parse_segments n (skip (skip ts))) (\<lambda>(path, ts2). Inr (SField key # path, ts2))))"
      using more [OF _ l2] suffix_trans_skip [OF suffix_skip] by (intro fuel_ok_attempt_value [OF path_field_ok]) auto
    then show ?thesis using dot by (simp add: next_token_eq out_of_fuel_def)
  next
    case bracket
    then have l: "length (skip ts) < length ts" by (intro skip_shorter) (simp add: at_kind_def)
    have sk: "suffix (skip ts) ts" by (rule suffix_skip)
    have "fuel_ok ts (attempt (parse_segments n (skip (skip ts))) (\<lambda>(path, ts2). Inr (SWild # path, ts2)))"
      using l suffix_length_le [OF suffix_skip [of "skip ts"]] by (intro more suffix_trans_skip [OF sk]) simp
    moreover have "fuel_ok ts (attempt (path_index (skip ts)) (\<lambda>(seg, ts1).
        attempt (expect TRightBracket '']'' ts1) (\<lambda>(_, ts2).
          attempt (parse_segments n ts2) (\<lambda>(path, ts3). Inr (seg # path, ts3)))))"
    proof (rule fuel_ok_attempt [OF path_index_ok sk], clarsimp)
      fix seg ts1 assume s: "suffix ts1 (skip ts)"
      then have s1: "suffix ts1 ts" using sk suffix_order.trans by blast
      show "fuel_ok ts (attempt (expect TRightBracket '']'' ts1) (\<lambda>(_, ts2).
          attempt (parse_segments n ts2) (\<lambda>(path, ts3). Inr (seg # path, ts3))))"
      proof (rule fuel_ok_expect [OF _ s1], simp add: out_of_fuel_def, clarsimp)
        assume "suffix (skip ts1) ts1"
        then have "length (skip ts1) < length ts" using l suffix_length_le [OF s] suffix_length_le by fastforce
        then show "fuel_ok ts (attempt (parse_segments n (skip ts1)) (\<lambda>(path, ts3). Inr (seg # path, ts3)))"
          by (rule more [OF suffix_trans_skip [OF s1]])
      qed
    qed
    ultimately show ?thesis using bracket by simp
  qed simp
qed simp

lemma parse_path_ok: "fuel_ok ts (parse_path ts)"
  unfolding parse_path_def
proof (rule fuel_ok_expect)
  fix t
  have sk: "suffix (skip ts) ts" by (rule suffix_skip)
  have "fuel_ok ts (attempt (path_field (peek (skip ts))) (\<lambda>key.
      attempt (parse_segments (Suc (length (skip ts))) (skip (skip ts))) (\<lambda>(path, ts2). Inr (SField key # path, ts2))))"
  proof (rule fuel_ok_attempt_value [OF path_field_ok])
    fix key
    have s2: "suffix (skip (skip ts)) ts" by (rule suffix_trans_skip [OF sk])
    have "fuel_ok (skip (skip ts)) (parse_segments (Suc (length (skip ts))) (skip (skip ts)))"
      using suffix_length_le [OF suffix_skip [of "skip ts"]] by (intro parse_segments_ok) simp
    then show "fuel_ok ts (attempt (parse_segments (Suc (length (skip ts))) (skip (skip ts))) (\<lambda>(path, ts2). Inr (SField key # path, ts2)))"
      by (rule fuel_ok_attempt [OF _ s2]) (auto intro: suffix_order.trans [OF _ s2])
  qed
  moreover have "fuel_ok ts (parse_segments (Suc (length (skip ts))) (skip ts))"
    by (rule fuel_ok_suffix [OF parse_segments_ok [OF lessI] sk])
  ultimately show "fuel_ok ts (case (t, skip ts) of (_, ts1) \<Rightarrow>
      if t_kind (peek ts1) \<in> {TIdent, TString} then
        attempt (path_field (peek ts1)) (\<lambda>key.
          attempt (parse_segments (Suc (length ts1)) (skip ts1)) (\<lambda>(path, ts2). Inr (SField key # path, ts2)))
      else parse_segments (Suc (length ts1)) ts1)"
    by (simp del: parse_segments.simps)
qed (simp_all add: out_of_fuel_def)

lemma parse_path_good: "good m n parse_path"
  by (simp add: good_def parse_path_ok)

subsection \<open>Interpolations\<close>

lemma find_interpolation_shorter: "find_interpolation raw = Some (b, r) \<Longrightarrow> length r < length raw"
proof (induction raw arbitrary: b r rule: find_interpolation.induct)
  case (2 c s)
  show ?case
  proof (cases "c = CHR 0x5C")
    case True
    then obtain d s' where s: "s = d # s'" using "2.prems" by (cases s) auto
    show ?thesis
    proof (cases "d = CHR ''(''")
      case True
      then show ?thesis using "2.prems" \<open>c = _\<close> s by simp
    next
      case False
      then obtain l where "find_interpolation s' = Some (l, r)" using "2.prems" \<open>c = _\<close> s by auto
      then show ?thesis using "2.IH"(2) [OF _ s False] \<open>c = _\<close> s by fastforce
    qed
  next
    case False
    then obtain l where "find_interpolation s = Some (l, r)" using "2.prems" by auto
    then show ?thesis using "2.IH"(1) [OF False] by fastforce
  qed
qed simp

lemma skip_quoted_parts: "length (fst (skip_quoted s)) + length (snd (skip_quoted s)) = length s"
proof (induction s rule: skip_quoted.induct)
  case (2 c s)
  show ?case
  proof (cases s)
    case (Cons d s')
    show ?thesis unfolding skip_quoted.simps(2) [of c s] using "2.IH" Cons
      by (cases "c = CHR 0x22"; cases "c = CHR 0x5C") (simp_all del: skip_quoted.simps)
  qed simp
qed simp

lemma interpolation_end_shorter: "interpolation_end depth s = Some (e, r) \<Longrightarrow> length e + length r < length s"
proof (induction depth s arbitrary: e r rule: interpolation_end.induct)
  case (2 depth c s)
  consider (escape) "c = CHR 0x5C" | (quote) "c = CHR 0x22" | (left) "c = CHR ''(''"
    | (right) "c = CHR '')''" | (other) "c \<notin> {CHR 0x5C, CHR 0x22, CHR ''('', CHR '')''}" by blast
  then show ?case
  proof cases
    case escape
    then obtain d s' where s: "s = d # s'" using "2.prems" by (cases s) auto
    then obtain l where l: "interpolation_end depth s' = Some (l, r)" "e = c # d # l" using "2.prems" escape by auto
    then show ?thesis using "2.IH"(1) [OF escape s l(1)] s by simp
  next
    case quote
    obtain q s' where q: "skip_quoted s = (q, s')" by (cases "skip_quoted s")
    then obtain l where l: "interpolation_end depth s' = Some (l, r)" "e = c # q @ l" using "2.prems" quote by auto
    have "length l + length r < length s'" using "2.IH"(2) [of q s' l r] q quote l(1) by simp
    then show ?thesis using skip_quoted_parts [of s] q l(2) by simp
  next
    case left
    then obtain l where l: "interpolation_end (Suc depth) s = Some (l, r)" "e = c # l" using "2.prems" by auto
    then show ?thesis using "2.IH"(3) [of l r] left by simp
  next
    case right
    show ?thesis
    proof (cases "depth = 0")
      case True
      then show ?thesis using "2.prems" right by simp
    next
      case False
      then obtain l where l: "interpolation_end (depth - 1) s = Some (l, r)" "e = c # l" using "2.prems" right by auto
      then show ?thesis using "2.IH"(4) [of l r] right False by simp
    qed
  next
    case other
    then obtain l where l: "interpolation_end depth s = Some (l, r)" "e = c # l" using "2.prems" by auto
    then show ?thesis using "2.IH"(5) [of l r] other by simp
  qed
qed simp

lemma unescape_quotes_length: "length (unescape_quotes s) \<le> length s"
  by (induction s rule: unescape_quotes.induct) auto

lemma parse_number_ok: "parse_number env text \<noteq> Inl out_of_fuel"
  by (auto simp: parse_number_def out_of_fuel_def split: option.splits)

subsection \<open>Values\<close>

locale nested_sources =
  fixes env :: expr_env and interp :: "string \<Rightarrow> string + vexpr" and m :: nat
  assumes nested: "length source < m \<Longrightarrow> interp source \<noteq> Inl out_of_fuel"
begin

lemma parse_parts_ok:
  "length raw \<le> m \<Longrightarrow> length raw < n \<Longrightarrow> parse_parts n interp parts raw \<noteq> Inl out_of_fuel"
proof (induction n arbitrary: parts raw)
  case (Suc n)
  show ?case
  proof (cases "find_interpolation raw")
    case None
    then show ?thesis using decode_string_ok [of raw] by (cases "decode_string raw") auto
  next
    case (Some br)
    obtain b r where br: "br = (b, r)" by (cases br)
    have r: "length r < length raw" using find_interpolation_shorter Some br by simp
    show ?thesis
    proof (cases "decode_string b")
      case (Inl e)
      then show ?thesis using Some br decode_string_ok [of b] by auto
    next
      case (Inr literal)
      show ?thesis
      proof (cases "interpolation_end 0 r")
        case None
        then show ?thesis using Some br Inr by (simp add: out_of_fuel_def)
      next
        case (Some er)
        obtain src r' where er: "er = (src, r')" by (cases er)
        have l: "length src + length r' < length r" using interpolation_end_shorter Some er by simp
        then have "interp (unescape_quotes src) \<noteq> Inl out_of_fuel"
          using unescape_quotes_length [of src] r Suc.prems(1) by (intro nested) simp
        moreover have "parse_parts n interp ps r' \<noteq> Inl out_of_fuel" for ps
          using Suc.prems r l by (intro Suc.IH) simp_all
        ultimately show ?thesis
          using \<open>find_interpolation raw = Some br\<close> br Inr Some er
          by (cases "interp (unescape_quotes src)") simp_all
      qed
    qed
  qed
qed simp

lemma parse_string_ok: "length text \<le> m \<Longrightarrow> parse_string interp text \<noteq> Inl out_of_fuel"
  using parse_parts_ok [of "text" "Suc (length text)" "[]"]
  by (cases "parse_parts (Suc (length text)) interp [] text") (auto simp: parse_string_def simp del: parse_parts.simps split: if_splits)

text \<open>A parser of nested values is called after a token was taken.\<close>

lemma map_entry_good:
  assumes "\<And>allow. good m n (value allow)"
  shows "good m n (map_entry value)"
  unfolding good_def map_entry_def next_token_eq
proof (intro allI impI, simp, intro impI conjI)
  fix ts :: "token list" assume l: "length ts < n" and t: "texts_ok m ts"
  show "fuel_ok ts (attempt (expect TColon ''expected colon after map key'' (skip ts)) (\<lambda>(_, ts2).
      attempt (decode_string (t_text (peek ts))) (\<lambda>k. attempt (value True ts2) (\<lambda>(v, ts3). Inr ((k, v), ts3)))))"
  proof (rule fuel_ok_expect [OF _ suffix_skip], simp add: out_of_fuel_def, clarsimp, rule fuel_ok_attempt_value [OF decode_string_ok])
    fix k
    have s: "suffix (skip (skip ts)) ts" by (intro suffix_trans_skip suffix_skip)
    have "fuel_ok (skip (skip ts)) (value True (skip (skip ts)))"
      using l suffix_length_le [OF s] texts_ok_suffix [OF t s] by (intro goodD [OF assms]) auto
    then show "fuel_ok ts (attempt (value True (skip (skip ts))) (\<lambda>(v, ts3). Inr ((k, v), ts3)))"
      by (rule fuel_ok_attempt [OF _ s]) (auto intro: suffix_order.trans [OF _ s])
  qed
qed (simp add: out_of_fuel_def)

lemma parse_union_good:
  assumes "\<And>allow. good m n (value allow)"
  shows "good m n (parse_union value allow)"
  unfolding good_def parse_union_def
proof (intro allI impI)
  fix ts :: "token list" assume l: "length ts < n" and t: "texts_ok m ts"
  have "fuel_ok ts (sep_by (Suc (length ts)) {TComma} (value allow) ts)"
    using l t by (intro sep_by_ok [OF assms]) auto
  then show "fuel_ok ts (attempt (sep_by (Suc (length ts)) {TComma} (value allow) ts) (\<lambda>(vs, ts1).
      case vs of [v] \<Rightarrow> Inr (v, ts1) | _ \<Rightarrow> Inr (EUnion vs, ts1)))"
    by (rule fuel_ok_attempt) (auto split: list.split)
qed

text \<open>A list of items and the token that closes it, after the token that opens it.\<close>

lemma closed_list_ok:
  assumes "good m n item" and "TEof \<notin> seps" and "message \<noteq> out_of_fuel"
    and "suffix us ts" and "length us < n" and "texts_ok m ts" and "length us < k"
  shows "fuel_ok ts (attempt (sep_by k seps item us) (\<lambda>(vs, ts2).
    attempt (expect close message ts2) (\<lambda>(_, ts3). Inr (f vs, ts3))))"
proof (rule fuel_ok_attempt [OF sep_by_ok [OF assms(1,2,5) texts_ok_suffix [OF assms(6,4)] assms(7)] assms(4)], clarsimp)
  fix vs ts2 assume "suffix ts2 us"
  then have s: "suffix ts2 ts" using assms(4) suffix_order.trans by blast
  then show "fuel_ok ts (attempt (expect close message ts2) (\<lambda>(_, ts3). Inr (f vs, ts3)))"
    by (rule fuel_ok_expect [OF assms(3)]) (simp add: suffix_trans_skip [OF s])
qed

lemma parse_arguments_ok:
  assumes "\<And>allow. good m n (value allow)" and "length ts \<le> n" and "texts_ok m ts"
  shows "fuel_ok ts (parse_arguments value ts)"
proof (cases "at_kind TLeftParen ts")
  case True
  then have l: "length (skip ts) < length ts" by (intro skip_shorter) (simp add: at_kind_def)
  have "fuel_ok ts (attempt (sep_by (Suc (length ts)) {TComma, TSemicolon} (value True) (skip ts)) (\<lambda>(args, ts1).
      attempt (expect TRightParen ''expected right parenthesis after function arguments'' ts1) (\<lambda>(_, ts2). Inr (args, ts2))))"
    using l assms(2,3) by (intro closed_list_ok [OF assms(1)]) (auto simp: out_of_fuel_def suffix_skip)
  then show ?thesis using True by (simp add: parse_arguments_def suffix_trans_skip suffix_skip del: sep_by.simps)
qed (simp add: parse_arguments_def)

lemma parse_identifier_ok:
  assumes "\<And>allow. good m n (value allow)" and "length ts \<le> n" and "texts_ok m ts"
  shows "fuel_ok ts (parse_identifier value name ts)"
proof -
  have "fuel_ok ts (attempt (parse_arguments value ts) (\<lambda>(args, ts1).
      if \<not> is_override_function name then Inl ''unknown function''
      else Inr (if is_stream_function name then EStream name args else EFunction name args, ts1)))"
    by (rule fuel_ok_attempt [OF parse_arguments_ok [OF assms]]) (auto simp: out_of_fuel_def)
  then show ?thesis by (simp add: parse_identifier_def)
qed

lemma parse_primary_good:
  assumes "\<And>allow. good m n (value allow)"
  shows "good m (Suc n) (parse_primary env interp value)"
  unfolding good_def
proof (intro allI impI)
  fix ts :: "token list" assume l: "length ts < Suc n" and t: "texts_ok m ts"
  let ?t = "peek ts" and ?r = "skip ts"
  have sk: "suffix ?r ts" by (rule suffix_skip)
  show "fuel_ok ts (parse_primary env interp value ts)"
  proof (cases "t_kind ?t = TEof")
    case True
    then show ?thesis by (simp add: parse_primary_def next_token_eq out_of_fuel_def)
  next
    case False
    then have sl: "length ?r < n" using l skip_shorter [of ts] by simp
    have tr: "texts_ok m ?r" using t sk texts_ok_suffix by blast
    have path: "fuel_ok ts (attempt (parse_path ts) (\<lambda>(path, ts2). Inr (EPath path, ts2)))"
      by (rule fuel_ok_attempt [OF parse_path_ok]) auto
    have str: "fuel_ok ts (attempt (parse_string interp (t_text ?t)) (\<lambda>e. Inr (e, ?r)))" if "t_kind ?t = TString"
      using t peek_in_set [OF False] that sk
      by (intro fuel_ok_attempt_value parse_string_ok) (auto simp: texts_ok_def)
    have num: "fuel_ok ts (attempt (parse_number env (t_text ?t)) (\<lambda>e. Inr (e, ?r)))"
      by (rule fuel_ok_attempt_value [OF parse_number_ok]) (simp add: sk)
    have paren: "fuel_ok ts (attempt (parse_union value True ?r) (\<lambda>(e, ts2).
        attempt (expect TRightParen ''expected right parenthesis'' ts2) (\<lambda>(_, ts3). Inr (e, ts3))))"
    proof (rule fuel_ok_attempt [OF goodD [OF parse_union_good [OF assms] sl tr] sk], clarsimp)
      fix e ts2 assume "suffix ts2 ?r"
      then have s: "suffix ts2 ts" using sk suffix_order.trans by blast
      then show "fuel_ok ts (attempt (expect TRightParen ''expected right parenthesis'' ts2) (\<lambda>(_, ts3). Inr (e, ts3)))"
        by (rule fuel_ok_expect [rotated]) (auto simp: out_of_fuel_def suffix_trans_skip [OF s])
    qed
    have array: "fuel_ok ts (attempt (sep_by (Suc (length ?r)) {TComma} (value True) ?r) (\<lambda>(vs, ts2).
        attempt (expect TRightBracket ''expected right bracket after array'' ts2) (\<lambda>(_, ts3). Inr (EArray vs, ts3))))"
      using sl sk t by (intro closed_list_ok [OF assms]) (auto simp: out_of_fuel_def)
    have mapping: "fuel_ok ts (attempt (sep_by (Suc (length ?r)) {TComma} (map_entry value) ?r) (\<lambda>(es, ts2).
        attempt (expect TRightBrace ''expected right brace after map'' ts2) (\<lambda>(_, ts3). Inr (EMap es, ts3))))"
      using sl sk t by (intro closed_list_ok [OF map_entry_good [OF assms]]) (auto simp: out_of_fuel_def)
    have ident: "fuel_ok ts (parse_identifier value (t_text ?t) ?r)"
      using fuel_ok_suffix [OF parse_identifier_ok [OF assms less_imp_le [OF sl] tr] sk] .
    show ?thesis
      using path str num paren array mapping ident suffix_trans_skip [OF sk] False
      by (cases "t_kind ?t") (simp_all add: parse_primary_def next_token_eq out_of_fuel_def del: sep_by.simps)
  qed
qed

lemma parse_unary_good:
  assumes "\<And>allow. good m n (value allow)"
  shows "good m (Suc n) (parse_unary env interp value)"
  unfolding good_def
proof (intro allI impI)
  fix ts :: "token list" assume l: "length ts < Suc n" and t: "texts_ok m ts"
  have "fuel_ok ts (attempt (parse_number env number) (\<lambda>e. Inr (e, skip (skip ts))))" for number
    by (rule fuel_ok_attempt_value [OF parse_number_ok]) (simp add: suffix_trans_skip suffix_skip)
  moreover have "fuel_ok ts (parse_primary env interp value ts)" by (rule goodD [OF parse_primary_good [OF assms] l t])
  ultimately show "fuel_ok ts (parse_unary env interp value ts)"
    by (simp add: parse_unary_def next_token_eq out_of_fuel_def)
qed

lemma kind_op_not_eof: "TEof \<notin> kinds \<Longrightarrow> kind_op kinds t \<noteq> None \<Longrightarrow> t_kind t \<noteq> TEof"
  by (auto simp: kind_op_def split: if_splits)

lemma word_op_not_eof: "word_op word t \<noteq> None \<Longrightarrow> t_kind t \<noteq> TEof"
  by (auto simp: word_op_def split: if_splits)

lemma parse_alternative_good:
  assumes "\<And>allow. good m n (value allow)"
  shows "good m (Suc n) (parse_alternative env interp value)"
  unfolding parse_alternative_def parse_comparison_def parse_additive_def parse_multiplicative_def
  by (intro binary_level_good parse_unary_good assms; erule kind_op_not_eof [rotated], simp)

lemma parse_or_good:
  assumes "\<And>allow. good m n (value allow)"
  shows "good m (Suc n) (parse_or env interp value)"
  unfolding parse_or_def parse_and_def
  by (intro binary_level_good parse_alternative_good assms word_op_not_eof)

lemma parse_stage_good:
  assumes "\<And>allow. good m n (value allow)"
  shows "good m (Suc n) (parse_stage env interp value allow)"
  unfolding good_def
proof (intro allI impI)
  fix ts :: "token list" assume l: "length ts < Suc n" and t: "texts_ok m ts"
  show "fuel_ok ts (parse_stage env interp value allow ts)"
  proof (cases "parse_update value ts")
    case None
    then show ?thesis
      using goodD [OF parse_or_good [OF assms] l t] goodD [OF parse_alternative_good [OF assms] l t]
      by (simp add: parse_stage_def)
  next
    case (Some r)
    then obtain path ts1 where p: "parse_path ts = Inr (path, ts1)" and a: "is_assignment (t_kind (peek ts1))"
      and r: "r = attempt (value False (skip ts1)) (\<lambda>(v, ts2). Inr (EUpdate path (t_kind (peek ts1)) v, ts2))"
      by (auto simp: parse_update_def split: if_splits sum.splits)
    have s1: "suffix ts1 ts" using parse_path_ok [of ts] p by simp
    have s: "suffix (skip ts1) ts" by (rule suffix_trans_skip [OF s1])
    have "length (skip ts1) < length ts1" using a by (intro skip_shorter) auto
    then have "length (skip ts1) < n" using l suffix_length_le [OF s1] by simp
    then have "fuel_ok (skip ts1) (value False (skip ts1))" using texts_ok_suffix [OF t s] goodD [OF assms] by blast
    then have "fuel_ok ts r" unfolding r
      by (rule fuel_ok_attempt [OF _ s]) (auto intro: suffix_order.trans [OF _ s])
    then show ?thesis using Some by (simp add: parse_stage_def)
  qed
qed

lemma parse_value_good: "good m n (parse_value env interp n allow)"
proof (induction n arbitrary: allow)
  case 0
  then show ?case by (simp add: good_def)
next
  case (Suc n)
  have stage: "good m (Suc n) (parse_stage env interp (parse_value env interp n) b)" for b
    by (rule parse_stage_good) (rule Suc.IH)
  show ?case
  proof (cases allow)
    case True
    show ?thesis unfolding good_def
    proof (intro allI impI)
      fix ts :: "token list" assume l: "length ts < Suc n" and t: "texts_ok m ts"
      have "fuel_ok ts (sep_by (Suc (length ts)) {TPipe} (parse_stage env interp (parse_value env interp n) True) ts)"
        using l t by (intro sep_by_ok [OF stage]) auto
      then have "fuel_ok ts (attempt (sep_by (Suc (length ts)) {TPipe} (parse_stage env interp (parse_value env interp n) True) ts)
          (\<lambda>(stages, ts1). case stages of [e] \<Rightarrow> Inr (e, ts1) | _ \<Rightarrow> Inr (EPipeline stages, ts1)))"
        by (rule fuel_ok_attempt) (auto split: list.split)
      then show "fuel_ok ts (parse_value env interp (Suc n) allow ts)" using True by simp
    qed
  next
    case False
    then show ?thesis using stage [of False] by (simp add: good_def)
  qed
qed

end

subsection \<open>Sources and statements\<close>

lemma lex_from_ok: "lex_from len pos s \<noteq> Inl out_of_fuel"
proof (induction len pos s rule: lex_from.induct)
  case (1 len pos s)
  have one: "lex_one pos c r \<noteq> Inl out_of_fuel" for c r
    by (auto simp: lex_one_def out_of_fuel_def Let_def split: option.splits if_splits prod.splits)
  show ?case
  proof (cases s)
    case (Cons c s')
    note step = lex_from.simps [of len pos "c # s'"]
    show ?thesis
    proof (cases "lex_one pos c s'")
      case (Inl e)
      then show ?thesis
        using "1.IH"(1) [OF Cons] one [of c s'] Cons by (auto simp: step)
    next
      case (Inr tw)
      obtain t w where tw: "tw = (t, w)" by (cases tw)
      show ?thesis
      proof (cases "latin_space c \<or> c = CHR ''#''")
        case True
        then show ?thesis using "1.IH"(1) [OF Cons] Cons by (auto simp: step)
      next
        case False
        then have "lex_from len (pos + w) (drop w s) \<noteq> Inl out_of_fuel"
          using "1.IH"(2) [OF Cons _ _ Inr tw [symmetric]] tw by simp
        then show ?thesis
          using False Inr tw Cons by (cases "lex_from len (pos + w) (drop w s)") (auto simp: step)
      qed
    qed
  qed (simp add: lex_from.simps)
qed

lemma lex_texts:
  assumes "lex_override_expr source = Inr ts"
  shows "texts_ok (length source) ts"
proof -
  obtain front where ts: "ts = front @ [\<lparr>t_kind = TEof, t_text = [], t_pos = length source\<rparr>]"
    and at: "\<forall>t\<in>set front. token_at source t" by (rule lex_tokens [OF assms])
  have "length (t_text t) \<le> length source" if at: "token_at source t" for t
  proof -
    obtain rest where "drop (t_pos t) source = token_source t @ rest" using at by (auto simp: token_at_def)
    then have "length (token_source t) \<le> length source" by (metis append_take_drop_id le_add1 le_add2 length_append order_trans)
    then show ?thesis by (simp add: token_source_def split: if_splits)
  qed
  then show ?thesis using at ts by (auto simp: texts_ok_def)
qed

lemma parse_source_ok: "length source < n \<Longrightarrow> parse_source env n source \<noteq> Inl out_of_fuel"
proof (induction n arbitrary: source)
  case (Suc n)
  have nested: "nested_sources (parse_source env n) n" by unfold_locales (rule Suc.IH)
  show ?case
  proof (cases "lex_override_expr source")
    case (Inl e)
    then show ?thesis using lex_from_ok [of "length source" 0 source] by (auto simp: lex_override_expr_def)
  next
    case (Inr ts)
    then have t: "texts_ok n ts" using lex_texts [OF Inr] Suc.prems by (auto simp: texts_ok_def)
    have "good n (Suc (length ts)) (parse_union (parse_value env (parse_source env n) (Suc (length ts))) True)"
      by (intro nested_sources.parse_union_good [OF nested] nested_sources.parse_value_good [OF nested])
    then have "fuel_ok ts (parse_union (parse_value env (parse_source env n) (Suc (length ts))) True ts)"
      by (rule goodD [OF _ lessI t])
    then show ?thesis
      using Inr by (auto simp: out_of_fuel_def fuel_ok_def attempt_def split: sum.splits)
  qed
qed simp

interpretation source_parser: nested_sources env "parse_source env n" n for env n
  by unfold_locales (rule parse_source_ok)

lemma parse_target_stage_good:
  assumes "\<And>allow. good m n (value allow)"
  shows "good m n (parse_target_stage value)"
  unfolding good_def
proof (intro allI impI)
  fix ts :: "token list" assume l: "length ts < n" and t: "texts_ok m ts"
  have s: "suffix (skip (skip ts)) ts" by (intro suffix_trans_skip suffix_skip)
  have "fuel_ok ts (attempt (expect TLeftParen ''expected left parenthesis after select'' (skip ts)) (\<lambda>(_, ts1).
      attempt (value True ts1) (\<lambda>(c, ts2).
        attempt (expect TRightParen ''expected right parenthesis after select condition'' ts2) (\<lambda>(_, ts3).
          Inr (StageCond c, ts3)))))"
  proof (rule fuel_ok_expect [OF _ suffix_skip], simp add: out_of_fuel_def, clarsimp)
    have "fuel_ok (skip (skip ts)) (value True (skip (skip ts)))"
      using l suffix_length_le [OF s] texts_ok_suffix [OF t s] by (intro goodD [OF assms]) auto
    then show "fuel_ok ts (attempt (value True (skip (skip ts))) (\<lambda>(c, ts2).
        attempt (expect TRightParen ''expected right parenthesis after select condition'' ts2) (\<lambda>(_, ts3). Inr (StageCond c, ts3))))"
    proof (rule fuel_ok_attempt [OF _ s], clarsimp)
      fix c ts2 assume "suffix ts2 (skip (skip ts))"
      then have s2: "suffix ts2 ts" using s suffix_order.trans by blast
      then show "fuel_ok ts (attempt (expect TRightParen ''expected right parenthesis after select condition'' ts2) (\<lambda>(_, ts3). Inr (StageCond c, ts3)))"
        by (rule fuel_ok_expect [rotated]) (auto simp: out_of_fuel_def suffix_trans_skip [OF s2])
    qed
  qed
  moreover have "fuel_ok ts (attempt (parse_path ts) (\<lambda>(path, ts1). Inr (StagePath path, ts1)))"
    by (rule fuel_ok_attempt [OF parse_path_ok]) auto
  ultimately show "fuel_ok ts (parse_target_stage value ts)" by (simp add: parse_target_stage_def)
qed

lemma closed_list_then_ok:
  assumes "fuel_ok us (sep_by k seps item us)" and "suffix us ts" and "message \<noteq> out_of_fuel"
    and "\<And>vs ts3. suffix ts3 ts \<Longrightarrow> fuel_ok ts (g vs ts3)"
  shows "fuel_ok ts (attempt (sep_by k seps item us) (\<lambda>(vs, ts2).
    attempt (expect close message ts2) (\<lambda>(_, ts3). g vs ts3)))"
proof (rule fuel_ok_attempt [OF assms(1,2)], clarsimp)
  fix vs ts2 assume "suffix ts2 us"
  then have s: "suffix ts2 ts" using assms(2) suffix_order.trans by blast
  show "fuel_ok ts (attempt (expect close message ts2) (\<lambda>(_, ts3). g vs ts3))"
    by (rule fuel_ok_expect [OF assms(3) s]) (simp add: assms(4) suffix_trans_skip [OF s])
qed

lemma parse_assignment_target_ok:
  assumes "\<And>allow. good m n (value allow)" and "length ts < n" and "texts_ok m ts"
  shows "fuel_ok ts (parse_assignment_target value ts)"
  unfolding parse_assignment_target_def
proof (rule fuel_ok_expect, simp add: out_of_fuel_def, simp, clarsimp simp del: sep_by.simps)
  have sk: "suffix (skip ts) ts" by (rule suffix_skip)
  have ok: "fuel_ok (skip ts) (sep_by (Suc (length (skip ts))) {TPipe} (parse_target_stage value) (skip ts))"
    using assms(2) suffix_length_le [OF sk] texts_ok_suffix [OF assms(3) sk]
    by (intro sep_by_ok [OF parse_target_stage_good [OF assms(1)]]) auto
  show "fuel_ok ts (attempt (sep_by (Suc (length (skip ts))) {TPipe} (parse_target_stage value) (skip ts)) (\<lambda>(stages, ts2).
         attempt (expect TRightParen ''expected right parenthesis after assignment path'' ts2) (\<lambda>(_, ts3).
           if list_ex (\<lambda>s. case s of StagePath _ \<Rightarrow> True | StageCond _ \<Rightarrow> False) stages then Inr (stages, ts3)
           else Inl ''conditional assignment must select a path'')))"
    by (rule closed_list_then_ok [OF ok sk]) (auto simp: out_of_fuel_def)
qed

lemma parse_delete_ok: "fuel_ok ts (parse_delete ts)"
  unfolding parse_delete_def
proof (rule fuel_ok_expect, simp add: out_of_fuel_def, simp, clarsimp simp del: sep_by.simps)
  have sk: "suffix (skip ts) ts" by (rule suffix_skip)
  have "\<exists>m. texts_ok m (skip ts)"
    by (rule exI [of _ "sum_list (map (\<lambda>t. length (t_text t)) (skip ts))"])
      (auto simp: texts_ok_def intro!: member_le_sum_list)
  then obtain m where m: "texts_ok m (skip ts)" by blast
  have ok: "fuel_ok (skip ts) (sep_by (Suc (length (skip ts))) {TComma} parse_path (skip ts))"
    by (rule sep_by_ok [OF parse_path_good _ lessI m]) simp_all
  show "fuel_ok ts (attempt (sep_by (Suc (length (skip ts))) {TComma} parse_path (skip ts)) (\<lambda>(paths, ts2).
         attempt (expect TRightParen ''expected right parenthesis after del arguments'' ts2) (\<lambda>(_, ts3).
           if [] \<in> set paths then Inl ''del(.) cannot be represented by a mapping override''
           else Inr (SDelete paths, ts3))))"
    by (rule closed_list_then_ok [OF ok sk]) (auto simp: out_of_fuel_def)
qed

lemma parse_statement_ok:
  assumes "\<And>allow. good m n (value allow)" and "length ts < n" and "texts_ok m ts"
  shows "fuel_ok ts (parse_statement value ts)"
proof -
  have del: "fuel_ok ts (parse_delete (skip ts))"
    by (rule fuel_ok_suffix [OF parse_delete_ok suffix_skip])
  have filt: "fuel_ok ts (attempt (parse_union value True ts) (\<lambda>(e, ts1). Inr (SFilter e, ts1)))"
    by (rule fuel_ok_attempt [OF goodD [OF source_parser.parse_union_good [OF assms(1)] assms(2,3)]]) auto
  let ?left = "if at_kind TLeftParen ts
           then attempt (parse_assignment_target value ts) (\<lambda>(stages, ts1). Inr (([], Some stages), ts1))
           else attempt (parse_path ts) (\<lambda>(path, ts1). Inr ((path, None), ts1))"
  have left: "fuel_ok ts ?left"
    by (auto intro!: fuel_ok_attempt [OF parse_assignment_target_ok [OF assms]] fuel_ok_attempt [OF parse_path_ok])
  have assign: "fuel_ok ts (attempt ?left (\<lambda>((path, target), ts1).
            (case next_token ts1 of
               (op, ts2) \<Rightarrow>
                 (if \<not> is_assignment (t_kind op) then Inl ''expected assignment operator after path''
                  else attempt (value False ts2) (\<lambda>(v, ts3). Inr (SAssign path target (t_kind op) v, ts3))))))"
  proof (rule fuel_ok_attempt [OF left])
    fix x :: "path_segment list \<times> target_stage list option" and ts1 assume s1: "suffix ts1 ts"
    obtain path target where x: "x = (path, target)" by (cases x)
    have s: "suffix (skip ts1) ts" by (rule suffix_trans_skip [OF s1])
    have "fuel_ok (skip ts1) (value False (skip ts1))"
      using assms(2) suffix_length_le [OF s] texts_ok_suffix [OF assms(3) s] by (intro goodD [OF assms(1)]) auto
    then have "fuel_ok ts (attempt (value False (skip ts1)) (\<lambda>(v, ts3). Inr (SAssign path target (t_kind (peek ts1)) v, ts3)))"
      by (rule fuel_ok_attempt [OF _ s]) (auto intro: suffix_order.trans [OF _ s])
    then show "fuel_ok ts ((\<lambda>((path, target), ts1).
            (case next_token ts1 of
               (op, ts2) \<Rightarrow>
                 (if \<not> is_assignment (t_kind op) then Inl ''expected assignment operator after path''
                  else attempt (value False ts2) (\<lambda>(v, ts3). Inr (SAssign path target (t_kind op) v, ts3))))) (x, ts1))"
      by (simp add: x next_token_eq out_of_fuel_def)
  qed simp
  show ?thesis using del filt assign by (simp add: parse_statement_def)
qed

lemma parse_statements_ok:
  assumes "\<And>allow. good m n (value allow)"
  shows "length ts < n \<Longrightarrow> texts_ok m ts \<Longrightarrow> length ts < k \<Longrightarrow> fuel_ok ts (parse_statements k value ts)"
proof (induction k arbitrary: ts)
  case (Suc k)
  show ?case unfolding parse_statements.simps
  proof (rule fuel_ok_attempt [OF parse_statement_ok [OF assms Suc.prems(1,2)]])
    fix st ts1 assume s: "suffix ts1 ts"
    have "fuel_ok ts (attempt (parse_statements k value (skip ts1)) (\<lambda>(ss, ts2). Inr (st # ss, ts2)))"
      if p: "at_kind TPipe ts1"
    proof -
      have "length (skip ts1) < length ts1" using p by (intro skip_shorter) (simp add: at_kind_def)
      then have l: "length (skip ts1) < length ts" using suffix_length_le [OF s] by linarith
      have sk: "suffix (skip ts1) ts" by (rule suffix_trans_skip [OF s])
      have "fuel_ok (skip ts1) (parse_statements k value (skip ts1))"
        using Suc.prems l texts_ok_suffix [OF Suc.prems(2) sk] by (intro Suc.IH) auto
      then show ?thesis by (rule fuel_ok_attempt [OF _ sk]) (auto intro: suffix_order.trans [OF _ sk])
    qed
    then show "fuel_ok ts (case (st, ts1) of (s, ts1) \<Rightarrow>
        if \<not> at_kind TPipe ts1 then Inr ([s], ts1)
        else if at_kind TEof (skip ts1) then Inl ''expected expression after pipe''
        else attempt (parse_statements k value (skip ts1)) (\<lambda>(ss, ts2). Inr (s # ss, ts2)))"
      using s by (simp add: out_of_fuel_def)
  qed simp
qed simp

text \<open>
  C35: the parser of the override expressions ends on every source: no nesting of parentheses,
  calls, collections or interpolations exhausts the bounds, which the length of the source and
  the number of its tokens give; the answer is an expression or an error of the parser.
\<close>

theorem override_parser_terminates: "new_override_expr env source \<noteq> Inl out_of_fuel"
proof (cases "lex_override_expr source")
  case (Inl e)
  then show ?thesis
    using lex_from_ok [of "length source" 0 source] by (auto simp: lex_override_expr_def new_override_expr_def)
next
  case (Inr ts)
  let ?v = "parse_value env (parse_source env (Suc (length source))) (Suc (length ts))"
  have "texts_ok (Suc (length source)) ts" using lex_texts [OF Inr] by (auto simp: texts_ok_def)
  then have "fuel_ok ts (parse_statements (Suc (length ts)) ?v ts)"
    by (intro parse_statements_ok [OF source_parser.parse_value_good]) auto
  then have "parse_tokens ?v ts \<noteq> Inl out_of_fuel"
    by (cases "parse_statements (Suc (length ts)) ?v ts")
      (auto simp: parse_tokens_def out_of_fuel_def simp del: parse_statements.simps split: if_splits)
  then show ?thesis
    using Inr by (cases "parse_tokens ?v ts") (auto simp: new_override_expr_def)
qed

end
