(* ===== verification/Override_Apply.thy ===== *)
theory Override_Apply
  imports Override_Eval Override_Parse_Total
begin

text \<open>
  The statements of the override expressions and their application to the mapping of a proxy
  (\<open>adapter/provider/override_expr.go\<close>), and the other options of the override section of a
  provider (\<open>override.go\<close>). The code changes the mapping in place and gives it up on an error; the
  functions here return the new mapping or the error.
\<close>

type_synonym mapping = "(string \<times> oval) list"

subsection \<open>Statements\<close>

text \<open>\<open>resolve\<close>: the selections a conditional target ends with.\<close>

fun resolve_target ::
  "expr_env \<Rightarrow> target_stage list \<Rightarrow> (oval \<times> path_segment list) list \<Rightarrow> string + (oval \<times> path_segment list) list" where
  "resolve_target env [] selections = Inr selections"
| "resolve_target env (StagePath path # stages) selections =
     resolve_target env stages (concat (map (expand_path path) selections))"
| "resolve_target env (StageCond condition # stages) selections =
     attempt
       (try_each (\<lambda>sel. attempt (eval_stream (meaning env condition) (fst sel)) (\<lambda>vs.
          Inr (if list_ex truthy vs then [sel] else []))) selections)
       (\<lambda>kept. resolve_target env stages (concat kept))"

definition updated_mapping :: "string + oval \<Rightarrow> string + mapping" where
  "updated_mapping r =
     attempt r (\<lambda>v. case v of VMap kvs \<Rightarrow> Inr kvs | _ \<Rightarrow> Inl ''root expression must produce a mapping'')"

fun update_selections ::
  "(oval \<Rightarrow> string + oval) \<Rightarrow> (oval \<times> path_segment list) list \<Rightarrow> mapping \<Rightarrow> string + mapping" where
  "update_selections updater [] m = Inr m"
| "update_selections updater (sel # sels) m =
     attempt (updated_mapping (update_path (snd sel) updater (VMap m))) (update_selections updater sels)"

text \<open>The updater of an assignment; \<open>None\<close> when the right side has no result.\<close>

definition assignment_updater ::
  "expr_env \<Rightarrow> token_kind \<Rightarrow> vexpr \<Rightarrow> oval \<Rightarrow> string + (oval \<Rightarrow> string + oval) option" where
  "assignment_updater env op e input =
     (case op of
        TUpdateAssign \<Rightarrow> Inr (Some (update_with (meaning env e)))
      | _ \<Rightarrow>
          attempt (eval_single (meaning env e) input) (\<lambda>v.
            Inr (if is_no_match v then None
                 else Some (if op = TAssign then (\<lambda>_. Inr (clone_value v))
                            else (\<lambda>old. evaluate_binary env (assign_operator op) old v)))))"

definition apply_statement :: "expr_env \<Rightarrow> statement \<Rightarrow> mapping \<Rightarrow> string + mapping" where
  "apply_statement env s m =
     (case s of
        SFilter e \<Rightarrow>
          attempt (eval_single (meaning env e) (VMap m)) (\<lambda>v.
            if is_no_match v then Inl ''filter expression produced no result; a mapping is required''
            else (case clone_value v of
                    VMap kvs \<Rightarrow> Inr kvs
                  | _ \<Rightarrow> Inl ''filter expression must produce a mapping''))
      | SAssign path target op e \<Rightarrow>
          attempt (assignment_updater env op e (VMap m)) (\<lambda>r.
            case r of
              None \<Rightarrow> Inr m
            | Some updater \<Rightarrow>
                (case target of
                   Some stages \<Rightarrow>
                     attempt (resolve_target env stages [(VMap m, [])]) (\<lambda>sels. update_selections updater sels m)
                 | None \<Rightarrow> updated_mapping (update_path path updater (VMap m))))
      | SDelete paths \<Rightarrow> updated_mapping (Inr (delete_paths paths (VMap m))))"

fun apply_statements :: "expr_env \<Rightarrow> statement list \<Rightarrow> mapping \<Rightarrow> string + mapping" where
  "apply_statements env [] m = Inr m"
| "apply_statements env (s # ss) m = attempt (apply_statement env s m) (apply_statements env ss)"

definition apply_expr :: "expr_env \<Rightarrow> override_expr \<Rightarrow> mapping \<Rightarrow> string + mapping" where
  "apply_expr env e m = apply_statements env (oe_statements e) m"

subsection \<open>The override section\<close>

text \<open>The pattern of a renaming is a compiled \<open>regexp2\<close> expression: its \<open>Replace\<close> method.\<close>

record proxy_name_rule =
  pn_replace :: "string \<Rightarrow> string \<Rightarrow> string + string"
  pn_target :: string

record override_schema =
  os_tfo :: "bool option"
  os_mptcp :: "bool option"
  os_udp :: "bool option"
  os_udp_over_tcp :: "bool option"
  os_up :: "string option"
  os_down :: "string option"
  os_dialer_proxy :: "string option"
  os_skip_cert_verify :: "bool option"
  os_name_cert_verify :: "string option"
  os_interface :: "string option"
  os_routing_mark :: "int option"
  os_ip_version :: "string option"
  os_additional_prefix :: "string option"
  os_additional_suffix :: "string option"
  os_proxy_name :: "proxy_name_rule list"
  os_exprs :: "override_expr list"

definition put_option :: "string \<Rightarrow> ('a \<Rightarrow> oval) \<Rightarrow> 'a option \<Rightarrow> mapping \<Rightarrow> mapping" where
  "put_option key inject v m = (case v of None \<Rightarrow> m | Some x \<Rightarrow> map_put key (inject x) m)"

definition put_options :: "override_schema \<Rightarrow> mapping \<Rightarrow> mapping" where
  "put_options os m =
     put_option ''ip-version'' VStr (os_ip_version os)
     (put_option ''routing-mark'' (VInt KInt) (os_routing_mark os)
     (put_option ''interface-name'' VStr (os_interface os)
     (put_option ''name-cert-verify'' VStr (os_name_cert_verify os)
     (put_option ''skip-cert-verify'' VBool (os_skip_cert_verify os)
     (put_option ''dialer-proxy'' VStr (os_dialer_proxy os)
     (put_option ''down'' VStr (os_down os)
     (put_option ''up'' VStr (os_up os)
     (put_option ''udp-over-tcp'' VBool (os_udp_over_tcp os)
     (put_option ''udp'' VBool (os_udp os)
     (put_option ''mptcp'' VBool (os_mptcp os)
     (put_option ''tfo'' VBool (os_tfo os) m)))))))))))"

text \<open>A name that is no string makes the conversion panic.\<close>

fun rename_proxy :: "proxy_name_rule list \<Rightarrow> mapping \<Rightarrow> string + mapping" where
  "rename_proxy [] m = Inr m"
| "rename_proxy (r # rs) m =
     (case map_get ''name'' m of
        VStr name \<Rightarrow>
          attempt (pn_replace r name (pn_target r)) (\<lambda>new. rename_proxy rs (map_put ''name'' (VStr new) m))
      | _ \<Rightarrow> Inl ''panic: interface conversion'')"

text \<open>The verb \<open>%s\<close>; the argument \<open>other\<close> prints what is no string.\<close>

definition name_text :: "(oval \<Rightarrow> string) \<Rightarrow> mapping \<Rightarrow> string" where
  "name_text other m = (case map_get ''name'' m of VStr s \<Rightarrow> s | v \<Rightarrow> other v)"

fun apply_exprs :: "expr_env \<Rightarrow> override_expr list \<Rightarrow> mapping \<Rightarrow> string + mapping" where
  "apply_exprs env [] m = Inr m"
| "apply_exprs env (e # es) m = attempt (apply_expr env e m) (apply_exprs env es)"

definition apply_schema :: "expr_env \<Rightarrow> (oval \<Rightarrow> string) \<Rightarrow> override_schema \<Rightarrow> mapping \<Rightarrow> string + mapping" where
  "apply_schema env other os m =
     attempt (rename_proxy (os_proxy_name os) (put_options os m)) (\<lambda>m1.
       let m2 = (case os_additional_prefix os of
                   None \<Rightarrow> m1 | Some p \<Rightarrow> map_put ''name'' (VStr (p @ name_text other m1)) m1);
           m3 = (case os_additional_suffix os of
                   None \<Rightarrow> m2 | Some x \<Rightarrow> map_put ''name'' (VStr (name_text other m2 @ x)) m2)
       in apply_exprs env (os_exprs os) m3)"

subsection \<open>Well-formed mappings\<close>

fun statement_ok :: "statement \<Rightarrow> bool" where
  "statement_ok (SAssign path target op e) = literals_ok e"
| "statement_ok (SFilter e) = literals_ok e"
| "statement_ok (SDelete paths) = True"

lemma updated_mapping_Inr [simp]: "updated_mapping r = Inr kvs \<longleftrightarrow> r = Inr (VMap kvs)"
proof (cases r)
  case (Inr v)
  then show ?thesis by (cases v) (simp_all add: updated_mapping_def)
qed (simp add: updated_mapping_def)

lemma update_selections_wf:
  assumes "\<And>x y. well_formed x \<Longrightarrow> updater x = Inr y \<Longrightarrow> well_formed y"
  shows "entries_ok m \<Longrightarrow> update_selections updater sels m = Inr m' \<Longrightarrow> entries_ok m'"
proof (induction sels arbitrary: m)
  case (Cons sel sels)
  then obtain v kvs where u: "update_path (snd sel) updater (VMap m) = Inr v" "v = VMap kvs"
    and rest: "update_selections updater sels kvs = Inr m'"
    by (auto simp: attempt_Inr_iff)
  have "well_formed v" by (rule update_path_wf [OF assms _ u(1)]) (use Cons.prems(1) in auto)
  then show ?case using Cons.IH [OF _ rest] u(2) by simp
qed simp

lemma assignment_updater_wf:
  assumes "literals_ok e" and "well_formed v" and "assignment_updater env op e v = Inr (Some updater)"
    and "well_formed x" and "updater x = Inr y"
  shows "well_formed y"
proof (cases "op = TUpdateAssign")
  case True
  then have "updater = update_with (meaning env e)" using assms(3) by (simp add: assignment_updater_def)
  then show ?thesis using assms(4,5) update_with_wf [OF meaning_ok [OF assms(1)], of x env y] by simp
next
  case False
  then obtain w where w: "eval_single (meaning env e) v = Inr w"
    and u: "updater = (if op = TAssign then (\<lambda>_. Inr w) else (\<lambda>old. evaluate_binary env (assign_operator op) old w))"
    using assms(3) by (cases op) (auto simp: assignment_updater_def attempt_Inr_iff cong: if_cong split: if_splits)
  have "well_formed w" by (rule eval_single_wf [OF meaning_ok [OF assms(1)] assms(2) w])
  then show ?thesis using u assms(4,5) wf_evaluate_binary by (auto split: if_splits)
qed

lemma apply_statement_wf:
  assumes "statement_ok s" and "entries_ok m" and "apply_statement env s m = Inr m'"
  shows "entries_ok m'"
proof (cases s)
  case (SFilter e)
  then obtain v where v: "eval_single (meaning env e) (VMap m) = Inr v" "v = VMap m'"
    using assms(3) by (auto simp: apply_statement_def attempt_Inr_iff split: if_splits oval.splits)
  then show ?thesis using eval_single_wf [OF meaning_ok _ v(1)] assms(1,2) SFilter by simp
next
  case (SDelete paths)
  then have "delete_paths paths (VMap m) = VMap m'"
    using assms(3) by (simp add: apply_statement_def)
  then show ?thesis using delete_paths_wf [of "VMap m" paths] assms(2) by simp
next
  case (SAssign path target op e)
  then obtain r where r: "assignment_updater env op e (VMap m) = Inr r"
    and rest: "(case r of None \<Rightarrow> Inr m | Some updater \<Rightarrow>
        (case target of
           Some stages \<Rightarrow> attempt (resolve_target env stages [(VMap m, [])]) (\<lambda>sels. update_selections updater sels m)
         | None \<Rightarrow> updated_mapping (update_path path updater (VMap m)))) = Inr m'"
    using assms(3) by (auto simp: apply_statement_def attempt_Inr_iff)
  show ?thesis
  proof (cases r)
    case (Some updater)
    have lit: "literals_ok e" and wf: "well_formed (VMap m)" using assms(1,2) SAssign by simp_all
    note up = assignment_updater_wf [OF lit wf r [unfolded Some]]
    show ?thesis
    proof (cases target)
      case None
      then obtain v where "update_path path updater (VMap m) = Inr v" "v = VMap m'"
        using rest Some by auto
      then show ?thesis using update_path_wf [OF up wf] by fastforce
    next
      case (Some stages)
      then show ?thesis using rest \<open>r = _\<close> update_selections_wf [OF up assms(2)] by (auto simp: attempt_Inr_iff)
    qed
  qed (use rest assms(2) in simp)
qed

lemma apply_statements_wf:
  "list_all statement_ok ss \<Longrightarrow> entries_ok m \<Longrightarrow> apply_statements env ss m = Inr m' \<Longrightarrow> entries_ok m'"
  by (induction ss arbitrary: m) (auto simp: attempt_Inr_iff dest: apply_statement_wf)

end
