(* ===== verification/Override_Literals.thy ===== *)
theory Override_Literals
  imports Override_Apply
begin

text \<open>
  What the parser builds: the literals of a parsed override expression are values of the
  language, integers of 64 bits among them. A result \<open>gives\<close> a property when it is an error or
  carries a value with the property; the rules below push it through the monad of the parser, and
  the lemmas follow the parser level by level.
\<close>

definition gives :: "('a \<Rightarrow> bool) \<Rightarrow> 'e + 'a \<times> 'b \<Rightarrow> bool" where
  "gives Q r \<longleftrightarrow> (\<forall>x ts. r = Inr (x, ts) \<longrightarrow> Q x)"

lemma gives_simps [simp]: "gives Q (Inl e)" "gives Q (Inr (x, ts)) \<longleftrightarrow> Q x"
  by (auto simp: gives_def)

lemma gives_top [simp]: "gives (\<lambda>_. True) r"
  by (simp add: gives_def)

lemma givesD: "gives Q r \<Longrightarrow> r = Inr (x, ts) \<Longrightarrow> Q x"
  by (simp add: gives_def)

lemma gives_attempt:
  assumes "gives P m" and "\<And>x ts. P x \<Longrightarrow> gives Q (f (x, ts))"
  shows "gives Q (attempt m f)"
  using assms by (cases m) auto

lemma gives_then: "(\<And>x ts. gives Q (f (x, ts))) \<Longrightarrow> gives Q (attempt m f)"
  by (rule gives_attempt [of "\<lambda>_. True"]) auto

lemma gives_pure: "(\<And>x. m = Inr x \<Longrightarrow> gives Q (f x)) \<Longrightarrow> gives Q (attempt m f)"
  by (cases m) auto

lemma gives_sep_by:
  assumes "\<And>ts. gives Q (item ts)"
  shows "gives (list_all Q) (sep_by n seps item ts)"
proof (induction n arbitrary: ts)
  case (Suc n)
  show ?case unfolding sep_by.simps
    by (rule gives_attempt [OF assms]) (auto intro: gives_attempt [OF Suc.IH])
qed simp

lemma gives_left_assoc:
  assumes "\<And>ts. gives literals_ok (operand ts)"
  shows "literals_ok left \<Longrightarrow> gives literals_ok (left_assoc n op operand left ts)"
proof (induction n arbitrary: left ts)
  case (Suc n)
  show ?case
    using Suc.prems by (auto intro!: gives_attempt [OF assms] Suc.IH split: option.splits)
qed simp

lemma gives_binary_level:
  "(\<And>ts. gives literals_ok (operand ts)) \<Longrightarrow> gives literals_ok (binary_level op operand ts)"
  unfolding binary_level_def
  by (rule gives_attempt [of literals_ok]) (auto intro: gives_left_assoc simp del: left_assoc.simps)

lemma parse_int_base_wf: "parse_int_base base s = Some i \<Longrightarrow> fits64 i"
  by (auto simp: parse_int_base_def Let_def split: if_splits option.splits)

lemma parse_number_literal: "parse_number env s = Inr e \<Longrightarrow> literals_ok e"
  by (auto simp: parse_number_def parse_int_base_wf split: if_splits option.splits)

lemma gives_parse_parts:
  assumes "\<And>s e. interp s = Inr e \<Longrightarrow> literals_ok e"
  shows "list_all part_literals_ok parts \<Longrightarrow> gives (list_all part_literals_ok) (parse_parts n interp parts raw)"
proof (induction n arbitrary: parts raw)
  case (Suc n)
  show ?case
    using Suc.prems assms by (auto intro!: gives_pure Suc.IH split: option.splits)
qed simp

lemma parse_string_literal:
  assumes "\<And>s e. interp s = Inr e \<Longrightarrow> literals_ok e" and "parse_string interp s = Inr e"
  shows "literals_ok e"
proof -
  obtain parts literal where p: "parse_parts (Suc (length s)) interp [] s = Inr (parts, literal)"
    and e: "e = (if parts = [] then ELiteral (VStr literal)
       else EString (parts @ (if literal = [] then [] else [PLit literal])))"
    using assms(2) by (auto simp: parse_string_def attempt_Inr_iff simp del: parse_parts.simps split: if_splits)
  have "list_all part_literals_ok parts"
    by (rule givesD [OF gives_parse_parts p]) (use assms(1) in auto)
  then show ?thesis by (auto simp: e)
qed

subsection \<open>Expressions\<close>

lemma gives_map_entry:
  assumes "\<And>a ts. gives literals_ok (value a ts)"
  shows "gives (\<lambda>(_, e). literals_ok e) (map_entry value ts)"
  by (auto simp: map_entry_def intro!: gives_then gives_pure gives_attempt [OF assms] split: prod.splits)

lemma gives_parse_union:
  assumes "\<And>a ts. gives literals_ok (value a ts)"
  shows "gives literals_ok (parse_union value allow ts)"
  unfolding parse_union_def
  by (rule gives_attempt [OF gives_sep_by [OF assms]]) (auto split: list.splits)

lemma gives_parse_arguments:
  assumes "\<And>a ts. gives literals_ok (value a ts)"
  shows "gives (list_all literals_ok) (parse_arguments value ts)"
  unfolding parse_arguments_def
  by (auto intro!: gives_then gives_attempt [OF gives_sep_by [OF assms]] simp del: sep_by.simps)

lemma gives_parse_identifier:
  assumes "\<And>a ts. gives literals_ok (value a ts)"
  shows "gives literals_ok (parse_identifier value name ts)"
proof -
  have "gives literals_ok (attempt (parse_arguments value ts) (\<lambda>(args, ts1).
      if \<not> is_override_function name then Inl ''unknown function''
      else Inr (if is_stream_function name then EStream name args else EFunction name args, ts1)))"
    by (rule gives_attempt [OF gives_parse_arguments [OF assms]]) simp
  then show ?thesis by (simp add: parse_identifier_def)
qed

lemma gives_parse_primary:
  assumes v: "\<And>a ts. gives literals_ok (value a ts)" and i: "\<And>s e. interp s = Inr e \<Longrightarrow> literals_ok e"
  shows "gives literals_ok (parse_primary env interp value ts)"
proof -
  obtain t ts1 where t: "next_token ts = (t, ts1)" by (cases "next_token ts")
  have "gives literals_ok (attempt (sep_by n {TComma} (value True) ts1) (\<lambda>(vs, ts2).
      attempt (expect TRightBracket m ts2) (\<lambda>(_, ts3). Inr (EArray vs, ts3))))" for n m
    by (rule gives_attempt [OF gives_sep_by [OF v]]) (auto intro: gives_then)
  moreover have "gives literals_ok (attempt (sep_by n {TComma} (map_entry value) ts1) (\<lambda>(es, ts2).
      attempt (expect TRightBrace m ts2) (\<lambda>(_, ts3). Inr (EMap es, ts3))))" for n m
    by (rule gives_attempt [OF gives_sep_by [OF gives_map_entry [OF v]]]) (auto intro: gives_then)
  moreover have "gives literals_ok (attempt (parse_union value True ts1) (\<lambda>(e, ts2).
      attempt (expect TRightParen m ts2) (\<lambda>(_, ts3). Inr (e, ts3))))" for m
    by (rule gives_attempt [OF gives_parse_union [OF v]]) (auto intro: gives_then)
  moreover have "gives literals_ok (attempt (parse_path ts) (\<lambda>(path, ts2). Inr (EPath path, ts2)))"
    by (auto intro: gives_then)
  moreover have "gives literals_ok (attempt (parse_string interp (t_text t)) (\<lambda>e. Inr (e, ts1)))"
    using parse_string_literal [of interp] i by (auto intro: gives_pure)
  moreover have "gives literals_ok (attempt (parse_number env (t_text t)) (\<lambda>e. Inr (e, ts1)))"
    using parse_number_literal by (auto intro: gives_pure)
  ultimately show ?thesis
    unfolding parse_primary_def t prod.case
    by (cases "t_kind t") (simp_all add: gives_parse_identifier [OF v] del: sep_by.simps)
qed

lemma gives_parse_unary:
  assumes "\<And>a ts. gives literals_ok (value a ts)" and "\<And>s e. interp s = Inr e \<Longrightarrow> literals_ok e"
  shows "gives literals_ok (parse_unary env interp value ts)"
proof (cases "at_kind TMinus ts")
  case True
  then show ?thesis
    using parse_number_literal by (auto simp: parse_unary_def intro!: gives_pure split: prod.splits)
next
  case False
  then show ?thesis using gives_parse_primary [of "value" interp, OF assms] by (simp add: parse_unary_def)
qed

lemma gives_parse_or:
  assumes "\<And>a ts. gives literals_ok (value a ts)" and "\<And>s e. interp s = Inr e \<Longrightarrow> literals_ok e"
  shows "gives literals_ok (parse_alternative env interp value ts)" and "gives literals_ok (parse_or env interp value ts)"
  unfolding parse_or_def parse_and_def parse_alternative_def parse_comparison_def parse_additive_def
    parse_multiplicative_def
  by (intro gives_binary_level gives_parse_unary assms; assumption)+

lemma gives_parse_stage:
  assumes v: "\<And>a ts. gives literals_ok (value a ts)" and i: "\<And>s e. interp s = Inr e \<Longrightarrow> literals_ok e"
  shows "gives literals_ok (parse_stage env interp value allow ts)"
proof (cases "parse_update value ts")
  case None
  then show ?thesis using gives_parse_or [of "value" interp, OF assms] by (simp add: parse_stage_def)
next
  case (Some r)
  then have "gives literals_ok r"
    by (auto simp: parse_update_def intro!: gives_attempt [OF v] split: if_splits sum.splits)
  then show ?thesis using Some by (simp add: parse_stage_def)
qed

lemma gives_parse_value:
  assumes "\<And>s e. interp s = Inr e \<Longrightarrow> literals_ok e"
  shows "gives literals_ok (parse_value env interp n allow ts)"
proof (induction n arbitrary: allow ts)
  case (Suc n)
  have stage: "gives literals_ok (parse_stage env interp (parse_value env interp n) a ts')" for a ts'
    by (rule gives_parse_stage) (use Suc assms in auto)
  have "gives literals_ok (attempt (sep_by k {TPipe} (parse_stage env interp (parse_value env interp n) True) ts)
      (\<lambda>(stages, ts1). case stages of [e] \<Rightarrow> Inr (e, ts1) | _ \<Rightarrow> Inr (EPipeline stages, ts1)))" for k
    by (rule gives_attempt [OF gives_sep_by [OF stage]]) (auto split: list.splits)
  then show ?case using stage by (simp del: sep_by.simps)
qed simp

lemma parse_source_literals: "parse_source env n s = Inr e \<Longrightarrow> literals_ok e"
proof (induction n arbitrary: s e)
  case (Suc n)
  obtain ts ts1 where
    p: "parse_union (parse_value env (parse_source env n) (Suc (length ts))) True ts = Inr (e, ts1)"
    using Suc.prems by (auto simp: attempt_Inr_iff simp del: parse_value.simps split: if_splits)
  show ?case
    by (rule givesD [OF gives_parse_union p]) (use gives_parse_value Suc.IH in blast)
qed simp

subsection \<open>Statements\<close>

lemma gives_parse_statement:
  assumes v: "\<And>a ts. gives literals_ok (value a ts)"
  shows "gives statement_ok (parse_statement value ts)"
proof -
  have "gives statement_ok (parse_delete ts')" for ts'
    unfolding parse_delete_def by (auto intro!: gives_then)
  moreover have "gives statement_ok (attempt (parse_union value True ts) (\<lambda>(e, ts1). Inr (SFilter e, ts1)))"
    by (rule gives_attempt [OF gives_parse_union [OF v]]) simp
  moreover have "gives statement_ok (attempt m (\<lambda>((path, target), ts1).
      (case next_token ts1 of
         (op, ts2) \<Rightarrow>
           (if \<not> is_assignment (t_kind op) then Inl msg
            else attempt (value False ts2) (\<lambda>(v, ts3). Inr (SAssign path target (t_kind op) v, ts3))))))" for m msg
    by (rule gives_then) (auto intro!: gives_attempt [OF v] split: prod.splits)
  ultimately show ?thesis unfolding parse_statement_def by (simp del: sep_by.simps cong: if_cong)
qed

lemma gives_parse_statements:
  assumes "\<And>a ts. gives literals_ok (value a ts)"
  shows "gives (list_all statement_ok) (parse_statements n value ts)"
proof (induction n arbitrary: ts)
  case (Suc n)
  show ?case unfolding parse_statements.simps
    by (rule gives_attempt [OF gives_parse_statement [OF assms]]) (auto intro: gives_attempt [OF Suc.IH])
qed simp

lemma new_override_expr_ok:
  assumes "new_override_expr env s = Inr e"
  shows "list_all statement_ok (oe_statements e)"
proof -
  obtain ts ss where ss: "parse_tokens (parse_value env (parse_source env (Suc (length s))) (Suc (length ts))) ts = Inr ss"
    and e: "oe_statements e = ss"
    using assms by (auto simp: new_override_expr_def attempt_Inr_iff simp del: parse_value.simps parse_source.simps)
  obtain ts1 where p: "parse_statements (Suc (length ts)) (parse_value env (parse_source env (Suc (length s))) (Suc (length ts))) ts
      = Inr (ss, ts1)"
    using ss by (auto simp: parse_tokens_def attempt_Inr_iff simp del: parse_value.simps parse_source.simps
        parse_statements.simps split: if_splits)
  show ?thesis unfolding e
    by (rule givesD [OF gives_parse_statements p]) (use gives_parse_value parse_source_literals in blast)
qed

end
