(* ===== verification/Override_Laws.thy ===== *)
theory Override_Laws
  imports Override_Literals
begin

text \<open>
  What the override expressions promise to the author of a configuration: an assignment sets the
  path it names and nothing beside it, a deletion removes the key, a filter replaces the mapping by
  the one mapping it selects, entries round-trip, and integer arithmetic is exact up to 53 bits.
\<close>

text \<open>An environment to evaluate expressions in that use no float text, pattern or YAML.\<close>

definition plain_env :: expr_env where
  "plain_env = \<lparr>ee_print_float = \<lambda>_ _. [], ee_parse_float = \<lambda>_. None, ee_int_of_float = \<lambda>_. 0,
     ee_yaml = \<lambda>_. None, ee_regexp = \<lambda>_. None\<rparr>"



subsection \<open>Assignments\<close>

lemma eval_update_shape:
  assumes "update_path (SField k # path) updater (VMap m) = Inr v"
  obtains m' where "v = VMap m'"
  using assms by (auto simp: attempt_Inr_iff)

lemma path_open_field: "path_open path (VMap m) \<Longrightarrow> path \<noteq> [] \<Longrightarrow> \<exists>k rest. path = SField k # rest"
  by (cases path) (auto split: path_segment.splits)

text \<open>
  C1: an assignment with \<open>=\<close> to a path that leads through mappings, arrays and missing values
  succeeds, and the path then has the value of the right side, evaluated on the mapping before.
\<close>

theorem assignment_sets_path:
  assumes "entries_ok m" and "path_open path (VMap m)" and "path \<noteq> []"
    and "eval_single (meaning env e) (VMap m) = Inr v" and "\<not> is_no_match v"
  shows "\<exists>m'. apply_statement env (SAssign path None TAssign e) m = Inr m' \<and> select_path path (VMap m') = [v]"
proof -
  obtain old where old: "select_path path (VMap m) = [old]" using lookup_open assms(2) by blast
  obtain v' where v': "update_path path (\<lambda>_. Inr (clone_value v)) (VMap m) = Inr v'" "select_path path v' = [v]"
    using update_then_lookup [OF assms(2) _ old, of "\<lambda>_. Inr (clone_value v)" v] assms(1) by auto
  obtain k rest where "path = SField k # rest" using path_open_field assms(2,3) by blast
  then obtain m' where "v' = VMap m'" using eval_update_shape v'(1) by blast
  then show ?thesis
    using v' assms(4,5) by (simp add: apply_statement_def assignment_updater_def updated_mapping_def)
qed

theorem assignment_sets_path_witness:
  "\<exists>m'. apply_statement plain_env (SAssign [SField ''a'', SIndex 1] None TAssign (EBinary ''//'' (EPath [SField ''m'']) (EPath [SField ''n''])))
      [(''n'', VInt KInt 4)] = Inr m' \<and> select_path [SField ''a'', SIndex 1] (VMap m') = [VInt KInt 4]"
proof (rule assignment_sets_path)
  show "eval_single (meaning plain_env (EBinary ''//'' (EPath [SField ''m'']) (EPath [SField ''n''])))
      (VMap [(''n'', VInt KInt 4)]) = Inr (VInt KInt 4)"
    by (simp add: eval_single_def eval_binary_def eval_alternative_def map_get_def concat_each_def)
qed (simp_all add: entries_ok_def map_get_def is_no_match_def no_match_def fits64_def)



text \<open>C1: \<open>del\<close> succeeds on every mapping and the deleted key then reads as null.\<close>

theorem deleted_path_is_null:
  assumes "concrete path"
  shows "\<exists>m'. apply_statement env (SDelete [path @ [SField key]]) m = Inr m' \<and>
    select_path (path @ [SField key]) (VMap m') = [VNull]"
  using delete_then_lookup [OF assms, of key "VMap m"]
  by (simp add: apply_statement_def updated_mapping_def delete_paths_VMap)

theorem deleted_path_is_null_witness:
  "\<exists>m'. apply_statement plain_env (SDelete [[SField ''opts'', SField ''host'']]) [(''opts'', VMap [(''host'', VStr ''h'')])] = Inr m' \<and>
    select_path [SField ''opts'', SField ''host''] (VMap m') = [VNull]"
  using deleted_path_is_null [of "[SField ''opts'']" plain_env "''host''" "[(''opts'', VMap [(''host'', VStr ''h'')])]"] by simp

subsection \<open>Filters and entries\<close>

text \<open>
  A statement that is a plain expression succeeds exactly when the expression has one result on
  the mapping and that is a mapping, which replaces it; no result, several results, or a result of
  another type are errors.
\<close>

theorem filter_needs_one_mapping:
  "apply_statement env (SFilter e) m = Inr m' \<longleftrightarrow> eval_stream (meaning env e) (VMap m) = Inr [VMap m']"
proof (cases "eval_stream (meaning env e) (VMap m)")
  case (Inr vs)
  consider "vs = []" | v where "vs = [v]" | v w ws where "vs = v # w # ws" by (cases vs; cases "tl vs") auto
  then show ?thesis
  proof cases
    case 2
    then show ?thesis using Inr
      by (cases v) (auto simp: apply_statement_def eval_single_def is_no_match_def no_match_def)
  qed (use Inr in \<open>simp_all add: apply_statement_def eval_single_def is_no_match_def\<close>)
qed (simp add: apply_statement_def eval_single_def)

lemma from_entry_of_entry [simp]: "from_entry (entry_value (VStr k) v) = Inr (k, v)"
  by (simp add: from_entry_def entry_value_def)

lemma map_put_greatest: "\<forall>k'\<in>fst ` set kvs. k' < k \<Longrightarrow> map_put k v kvs = kvs @ [(k, v)]"
  by (induction kvs) auto

lemma rebuild_map:
  "sorted_wrt (<) (map fst (m @ kvs)) \<Longrightarrow> foldl (\<lambda>m (k, v). map_put k v m) m kvs = m @ kvs"
proof (induction kvs arbitrary: m)
  case (Cons kv kvs)
  obtain k v where kv: "kv = (k, v)" by (cases kv)
  have "map_put k v m = m @ [(k, v)]"
    by (rule map_put_greatest) (use Cons.prems kv in \<open>auto simp: sorted_wrt_append\<close>)
  then show ?case using Cons.IH [of "m @ [(k, v)]"] Cons.prems kv by simp
qed simp

text \<open>C1: \<open>to_entries | from_entries\<close> gives every mapping back.\<close>

theorem entries_round_trip:
  assumes "entries_ok m"
  shows "eval_stream (meaning env (EPipeline [EStream ''to_entries'' [], EStream ''from_entries'' []])) (VMap m)
    = Inr [VMap m]"
proof -
  define es where "es = map (\<lambda>(k, v). entry_value (VStr k) v) m"
  have "try_each from_entry es = Inr (map (\<lambda>(k, v). (k, v)) m)"
    unfolding es_def by (induction m) auto
  then have "from_entries es = Inr (VMap m)"
    using rebuild_map [of "[]" m] assms by (simp add: from_entries_def entries_ok_def)
  moreover have "to_entries (VMap m) = Inr (Some es)" by (simp add: to_entries_def es_def)
  ultimately show ?thesis by (simp add: concat_each_def eval_stream_function_def)
qed

theorem entries_round_trip_witness:
  "eval_stream (meaning plain_env (EPipeline [EStream ''to_entries'' [], EStream ''from_entries'' []]))
     (VMap [(''name'', VStr ''hk''), (''port'', VInt KInt 443)]) = Inr [VMap [(''name'', VStr ''hk''), (''port'', VInt KInt 443)]]"
  by (rule entries_round_trip) (simp add: entries_ok_def fits64_def)

subsection \<open>Arithmetic\<close>

text \<open>
  C1: on integers of at most 53 bits, whatever their Go types, \<open>+\<close>, \<open>-\<close> and \<open>*\<close> give the exact
  integer when it fits 64 bits, although the code converts the operands to floats and back.
\<close>

theorem integer_arithmetic_is_exact:
  assumes "exact_int i" and "exact_int j" and "fits64 result"
    and "(operator, result) \<in> {(''+'', i + j), (''-'', i - j), (''*'', i * j)}"
  shows "evaluate_binary env operator (VInt a i) (VInt b j) = Inr (VInt KInt result)"
  using assms
  by (auto simp: evaluate_binary_def eval_add_def eval_subtract_def eval_multiply_def evaluate_numbers_def
      int_of_float_exact wrap64_fits)

theorem integer_arithmetic_is_exact_witness:
  "evaluate_binary plain_env ''+'' (VInt KUint16 65535) (VInt KInt (- 1)) = Inr (VInt KInt 65534)"
  by (rule integer_arithmetic_is_exact [of 65535 "- 1"]) (simp_all add: exact_int_def fits64_def)

end
