(* ===== verification/Dns_Message.thy ===== *)
theory Dns_Message
  imports Net_Addr Results
begin

text \<open>
  DNS messages and what the resolver does to them (\<open>dns/util.go\<close>, \<open>dns/edns0_subnet.go\<close>). A message
  has the fields of the message type of the DNS package that the code reads or writes; records
  carry their data as the constructor of their Go type. A copy is the identity. The method
  \<open>SetRcode\<close> of that package, which turns a message into the reply to a request, is a parameter.
\<close>

subsection \<open>Messages\<close>

record edns_subnet =
  es_code :: "16 word"
  es_family :: "16 word"
  es_netmask :: "8 word"
  es_scope :: "8 word"
  es_address :: "8 word list"

datatype edns_option = ESubnet edns_subnet | EOption string

datatype svcb_value = SvcbEch "8 word list" | SvcbValue string

datatype rdata =
    DA "8 word list"
  | DAaaa "8 word list"
  | DCname string
  | DOpt "edns_option list"
  | DHttps "svcb_value list"
  | DOther string

record rr =
  rr_name :: string
  rr_type :: "16 word"
  rr_class :: "16 word"
  rr_ttl :: "32 word"
  rr_data :: rdata

record question =
  q_name :: string
  q_type :: "16 word"
  q_class :: "16 word"

record dns_msg =
  dm_id :: "16 word"
  dm_response :: bool
  dm_authoritative :: bool
  dm_recursion_available :: bool
  dm_rcode :: int
  dm_question :: "question list"
  dm_answer :: "rr list"
  dm_ns :: "rr list"
  dm_extra :: "rr list"

definition type_A :: "16 word" where "type_A = 1"
definition type_CNAME :: "16 word" where "type_CNAME = 5"
definition type_TXT :: "16 word" where "type_TXT = 16"
definition type_AAAA :: "16 word" where "type_AAAA = 28"
definition type_OPT :: "16 word" where "type_OPT = 41"
definition type_SVCB :: "16 word" where "type_SVCB = 64"
definition type_HTTPS :: "16 word" where "type_HTTPS = 65"
definition class_INET :: "16 word" where "class_INET = 1"

lemmas dns_types = type_A_def type_CNAME_def type_TXT_def type_AAAA_def type_OPT_def type_SVCB_def
  type_HTTPS_def class_INET_def

definition rcode_success :: int where "rcode_success = 0"
definition rcode_server_failure :: int where "rcode_server_failure = 2"
definition rcode_refused :: int where "rcode_refused = 5"

definition empty_msg :: dns_msg where
  "empty_msg = \<lparr>dm_id = 0, dm_response = False, dm_authoritative = False, dm_recursion_available = False,
     dm_rcode = 0, dm_question = [], dm_answer = [], dm_ns = [], dm_extra = []\<rparr>"

subsection \<open>Times to live\<close>

text \<open>\<open>lo.MinBy\<close> keeps the first of the smallest.\<close>

definition minimal_ttl :: "rr list \<Rightarrow> 32 word" where
  "minimal_ttl records =
     (case records of
        [] \<Rightarrow> 0
      | r # rs \<Rightarrow> rr_ttl (foldl (\<lambda>m x. if rr_ttl x < rr_ttl m then x else m) r rs))"

definition clamp_word :: "32 word \<Rightarrow> 32 word \<Rightarrow> 32 word \<Rightarrow> 32 word" where
  "clamp_word v lo hi = (if v < lo then lo else if v > hi then hi else v)"

definition update_ttl :: "32 word \<Rightarrow> rr list \<Rightarrow> rr list" where
  "update_ttl ttl records =
     (let delta = minimal_ttl records - ttl in
      map (\<lambda>r. r\<lparr>rr_ttl := clamp_word (rr_ttl r - delta) 1 (rr_ttl r)\<rparr>) records)"

definition update_msg_ttl :: "32 word \<Rightarrow> dns_msg \<Rightarrow> dns_msg" where
  "update_msg_ttl ttl m =
     m\<lparr>dm_answer := update_ttl ttl (dm_answer m), dm_ns := update_ttl ttl (dm_ns m),
       dm_extra := update_ttl ttl (dm_extra m)\<rparr>"

definition set_msg_ttl :: "32 word \<Rightarrow> dns_msg \<Rightarrow> dns_msg" where
  "set_msg_ttl ttl m =
     m\<lparr>dm_answer := map (\<lambda>r. r\<lparr>rr_ttl := ttl\<rparr>) (dm_answer m),
       dm_ns := map (\<lambda>r. r\<lparr>rr_ttl := ttl\<rparr>) (dm_ns m),
       dm_extra := map (\<lambda>r. if rr_type r = type_OPT then r else r\<lparr>rr_ttl := ttl\<rparr>) (dm_extra m)\<rparr>"

text \<open>What is stored in the cache for a reply, with its lifetime in seconds; \<open>None\<close> when nothing is.\<close>

definition cacheable :: "question \<Rightarrow> dns_msg \<Rightarrow> (dns_msg \<times> 32 word) option" where
  "cacheable q m =
     (if q_type q = type_TXT \<and> has_prefix (q_name q) ''_acme-challenge.'' then None
      else
        (let m' = m\<lparr>dm_extra := filter (\<lambda>r. rr_type r \<noteq> type_OPT) (dm_extra m)\<rparr>;
             ttl = (if dm_rcode m' = rcode_server_failure then 5
                    else minimal_ttl (dm_answer m' @ dm_ns m' @ dm_extra m')) in
         if ttl = 0 then None else Some (m', ttl)))"

subsection \<open>Questions and answers\<close>

definition is_ip_request :: "question \<Rightarrow> bool" where
  "is_ip_request q = (q_class q = class_INET \<and> (q_type q = type_A \<or> q_type q = type_AAAA \<or> q_type q = type_CNAME))"

text \<open>\<open>netip.AddrFromSlice\<close>.\<close>

definition join_bytes :: "8 word list \<Rightarrow> 'a::len word" where
  "join_bytes bs = foldl (\<lambda>w b. push_bit 8 w OR ucast b) 0 bs"

definition addr_from_slice :: "8 word list \<Rightarrow> addr" where
  "addr_from_slice bs =
     (if length bs = 4 then V4 (join_bytes bs)
      else if length bs = 16 then V6 (join_bytes bs) []
      else NoAddr)"

fun rr_ip :: "rdata \<Rightarrow> addr option" where
  "rr_ip (DA bs) = Some (addr_from_slice bs)"
| "rr_ip (DAaaa bs) = Some (addr_from_slice bs)"
| "rr_ip _ = None"

definition msg_to_ip :: "dns_msg \<Rightarrow> addr list" where
  "msg_to_ip m =
     map addr_unmap (filter addr_valid (concat (map (\<lambda>r. case rr_ip (rr_data r) of Some a \<Rightarrow> [a] | None \<Rightarrow> []) (dm_answer m))))"

definition trim_right :: "char \<Rightarrow> string \<Rightarrow> string" where
  "trim_right c s = rev (dropWhile (\<lambda>d. d = c) (rev s))"

definition msg_to_domain :: "dns_msg \<Rightarrow> string" where
  "msg_to_domain m = (case dm_question m of q # _ \<Rightarrow> trim_right (CHR ''.'') (q_name q) | [] \<Rightarrow> [])"

definition empty_answer :: "(dns_msg \<Rightarrow> dns_msg \<Rightarrow> int \<Rightarrow> dns_msg) \<Rightarrow> dns_msg \<Rightarrow> dns_msg" where
  "empty_answer set_rcode r =
     (set_rcode empty_msg r rcode_success)\<lparr>dm_authoritative := True, dm_recursion_available := True\<rparr>"

subsection \<open>Client subnet\<close>

fun is_subnet :: "edns_option \<Rightarrow> bool" where
  "is_subnet (ESubnet _) = True"
| "is_subnet _ = False"

definition opt_options :: "rr \<Rightarrow> edns_option list option" where
  "opt_options r = (case rr_data r of DOpt os \<Rightarrow> Some os | _ \<Rightarrow> None)"

text \<open>
  The labelled loop of \<open>setEdns0Subnet\<close>: the index of the OPT record the loop ends with, and whether
  it ended at a subnet option of that record.
\<close>

fun find_subnet :: "nat \<Rightarrow> rr list \<Rightarrow> nat option \<Rightarrow> nat option \<times> bool" where
  "find_subnet i [] found = (found, False)"
| "find_subnet i (r # rs) found =
     (case opt_options r of
        None \<Rightarrow> find_subnet (Suc i) rs None
      | Some options \<Rightarrow> if list_ex is_subnet options then (Some i, True) else find_subnet (Suc i) rs (Some i))"

definition subnet_for :: "net_prefix \<Rightarrow> edns_subnet" where
  "subnet_for p =
     \<lparr>es_code = 8, es_family = (if addr_is4 (prefix_addr p) then 1 else 2),
       es_netmask = of_nat (prefix_bits p), es_scope = 0, es_address = addr_slice (prefix_addr p)\<rparr>"

fun put_subnet :: "edns_subnet \<Rightarrow> edns_option list \<Rightarrow> edns_option list" where
  "put_subnet e [] = [ESubnet e]"
| "put_subnet e (ESubnet old # os) = ESubnet (e\<lparr>es_scope := es_scope old\<rparr>) # os"
| "put_subnet e (EOption s # os) = EOption s # put_subnet e os"

definition new_opt :: "edns_option list \<Rightarrow> rr" where
  "new_opt os = \<lparr>rr_name = ''.'', rr_type = type_OPT, rr_class = 0, rr_ttl = 0, rr_data = DOpt os\<rparr>"

definition set_edns0_subnet :: "net_prefix \<Rightarrow> bool \<Rightarrow> dns_msg \<Rightarrow> dns_msg \<times> bool" where
  "set_edns0_subnet p override m =
     (case find_subnet 0 (dm_extra m) None of
        (found, present) \<Rightarrow>
          (if present \<and> \<not> override then (m, False)
           else
             (case found of
                None \<Rightarrow> (m\<lparr>dm_extra := dm_extra m @ [new_opt [ESubnet (subnet_for p)]]\<rparr>, True)
              | Some i \<Rightarrow>
                  (let r = dm_extra m ! i;
                       os = (case opt_options r of Some os \<Rightarrow> os | None \<Rightarrow> []) in
                   (m\<lparr>dm_extra := (dm_extra m)[i := r\<lparr>rr_data := DOpt (put_subnet (subnet_for p) os)\<rparr>]\<rparr>, True)))))"

subsection \<open>Facts\<close>

lemma foldl_min_ttl:
  "let r' = foldl (\<lambda>m x. if rr_ttl x < rr_ttl m then x else m) r rs in
   r' \<in> insert r (set rs) \<and> (\<forall>x\<in>insert r (set rs). rr_ttl r' \<le> rr_ttl x)"
proof (induction rs arbitrary: r)
  case (Cons x rs)
  show ?case using Cons.IH [of "if rr_ttl x < rr_ttl r then x else r"]
    by (auto simp: Let_def split: if_splits)
qed (simp add: Let_def)

lemma minimal_ttl_le: "r \<in> set rs \<Longrightarrow> minimal_ttl rs \<le> rr_ttl r"
proof (cases rs)
  case (Cons x xs)
  then show "r \<in> set rs \<Longrightarrow> ?thesis"
    using foldl_min_ttl [of x xs] by (auto simp: minimal_ttl_def Let_def)
qed simp

lemma minimal_ttl_in: "rs \<noteq> [] \<Longrightarrow> \<exists>r\<in>set rs. minimal_ttl rs = rr_ttl r"
proof (cases rs)
  case (Cons x xs)
  then show ?thesis using foldl_min_ttl [of x xs] by (auto simp: minimal_ttl_def Let_def)
qed simp

lemma minimal_ttl_eqI: "r \<in> set rs \<Longrightarrow> rr_ttl r = t \<Longrightarrow> (\<And>x. x \<in> set rs \<Longrightarrow> t \<le> rr_ttl x) \<Longrightarrow> minimal_ttl rs = t"
  using minimal_ttl_in [of rs] minimal_ttl_le [of r rs] by (metis antisym empty_iff empty_set)

text \<open>The time that passed, \<open>minimal_ttl rs - ttl\<close>, is taken from every record, down to one second.\<close>

lemma update_ttl_exact:
  assumes "ttl \<le> minimal_ttl rs"
  shows "update_ttl ttl rs =
    map (\<lambda>r. r\<lparr>rr_ttl := (if rr_ttl r = minimal_ttl rs - ttl then 1 else rr_ttl r - (minimal_ttl rs - ttl))\<rparr>) rs"
  unfolding update_ttl_def Let_def
proof (rule map_cong [OF refl])
  fix r assume "r \<in> set rs"
  define t d where "t = rr_ttl r" and "d = minimal_ttl rs - ttl"
  have "minimal_ttl rs \<le> t" using minimal_ttl_le \<open>r \<in> set rs\<close> by (simp add: t_def)
  moreover have "d \<le> minimal_ttl rs" using assms by (simp add: d_def word_sub_le)
  ultimately have d: "d \<le> t" by simp
  then have "t - d \<le> t" by (rule word_sub_le)
  moreover have "t - d = 0 \<longleftrightarrow> t = d" by simp
  ultimately have "clamp_word (t - d) 1 t = (if t = d then 1 else t - d)"
    by (auto simp: clamp_word_def not_less word_less_1)
  then show "r\<lparr>rr_ttl := clamp_word (rr_ttl r - (minimal_ttl rs - ttl)) 1 (rr_ttl r)\<rparr> =
      r\<lparr>rr_ttl := (if rr_ttl r = minimal_ttl rs - ttl then 1 else rr_ttl r - (minimal_ttl rs - ttl))\<rparr>"
    by (simp add: t_def d_def)
qed

text \<open>An address is what its bytes give.\<close>

definition low_bytes :: "nat \<Rightarrow> 'a::len word \<Rightarrow> 8 word list" where
  "low_bytes k w = map (\<lambda>i. ucast (drop_bit (8 * (k - Suc i)) w)) [0..<k]"

lemma low_bytes_Suc: "low_bytes (Suc k) w = low_bytes k (drop_bit 8 w) @ [ucast w]"
proof -
  have "drop_bit (8 * (k - i)) w = drop_bit (8 * (k - Suc i)) (drop_bit 8 w)" if "i < k" for i
  proof -
    have "8 * (k - i) = 8 * (k - Suc i) + 8" using that by simp
    then show ?thesis by (simp only: drop_bit_drop_bit)
  qed
  then show ?thesis by (simp add: low_bytes_def)
qed

lemma join_low_bytes: "8 * k \<le> LENGTH('a) \<Longrightarrow> join_bytes (low_bytes k w) = (take_bit (8 * k) w :: 'a::len word)"
proof (induction k arbitrary: w)
  case 0
  then show ?case by (simp add: low_bytes_def join_bytes_def)
next
  case (Suc k)
  have IH: "join_bytes (low_bytes k (drop_bit 8 w)) = take_bit (8 * k) (drop_bit 8 w)"
    by (rule Suc.IH) (use Suc.prems in simp)
  have "join_bytes (low_bytes (Suc k) w) = push_bit 8 (take_bit (8 * k) (drop_bit 8 w)) OR ucast (ucast w :: 8 word)"
    using IH by (simp add: low_bytes_Suc join_bytes_def)
  also have "\<dots> = take_bit (8 * Suc k) w"
  proof (rule bit_word_eqI)
    fix n assume "n < LENGTH('a)"
    then show "bit (push_bit 8 (take_bit (8 * k) (drop_bit 8 w)) OR ucast (ucast w :: 8 word)) n =
        bit (take_bit (8 * Suc k) w) n"
      by (cases "n < 8") (auto simp: bit_simps)
  qed
  finally show ?case .
qed

lemma addr_from_slice_V4: "addr_from_slice (addr_slice (V4 w)) = V4 w"
proof -
  have "addr_slice (V4 w) = low_bytes 4 w" by (simp add: low_bytes_def)
  then show ?thesis using join_low_bytes [of 4 w] by (simp add: addr_from_slice_def low_bytes_def take_bit_word_eq_self)
qed

lemma addr_from_slice_V6: "addr_from_slice (addr_slice (V6 w z)) = V6 w []"
proof -
  have "addr_slice (V6 w z) = low_bytes 16 w" by (simp add: low_bytes_def)
  then show ?thesis using join_low_bytes [of 16 w] by (simp add: addr_from_slice_def low_bytes_def take_bit_word_eq_self)
qed

end
