(* ===== verification/Domain_Trie.thy ===== *)
theory Domain_Trie
  imports Go_Prelude "HOL-Library.AList"
begin

text \<open>
  The trie of domain patterns (\<open>component/trie/domain.go\<close>, \<open>component/trie/node.go\<close>). A node keeps a
  lone child beside its map of children, as the source does; \<open>inited\<close> with \<open>data\<close> is an option, and
  the child map an association list in the order of its iteration. The slices that the source
  consumes from their end are reversed once, at the entry of the walk.
\<close>

subsection \<open>Nodes\<close>

datatype 'a node = Node (child_map: "(string \<times> 'a node) list option")
  (child_node: "(string \<times> 'a node) option") (node_data: "'a option")

definition new_node :: "'a node" where
  "new_node = Node None None None"

definition get_child :: "'a node \<Rightarrow> string \<Rightarrow> 'a node option" where
  "get_child n s =
     (case child_map n of
        None \<Rightarrow> (case child_node n of
                   Some (k, c) \<Rightarrow> (if k = s then Some c else None)
                 | None \<Rightarrow> None)
      | Some kvs \<Rightarrow> map_of kvs s)"

definition add_child :: "'a node \<Rightarrow> string \<Rightarrow> 'a node \<Rightarrow> 'a node" where
  "add_child n s c =
     (case child_map n of
        None \<Rightarrow> (case child_node n of
                   None \<Rightarrow> Node None (Some (s, c)) (node_data n)
                 | Some (k, c0) \<Rightarrow> Node (Some (AList.update s c [(k, c0)])) None (node_data n))
      | Some kvs \<Rightarrow> Node (Some (AList.update s c kvs)) (child_node n) (node_data n))"

definition get_or_new_child :: "'a node \<Rightarrow> string \<Rightarrow> 'a node" where
  "get_or_new_child n s = (case get_child n s of Some c \<Rightarrow> c | None \<Rightarrow> new_node)"

text \<open>
  The source changes a child in place through its pointer; here the changed child is put back:
  added when the node has none of that name, replaced where it is otherwise.
\<close>

definition put_child :: "'a node \<Rightarrow> string \<Rightarrow> 'a node \<Rightarrow> 'a node" where
  "put_child n s c =
     (if get_child n s = None then add_child n s c
      else (case child_map n of
              None \<Rightarrow> Node None (Some (s, c)) (node_data n)
            | Some kvs \<Rightarrow> Node (Some (AList.update s c kvs)) (child_node n) (node_data n)))"

definition is_empty_node :: "'a node option \<Rightarrow> bool" where
  "is_empty_node n = (case n of None \<Rightarrow> True | Some m \<Rightarrow> node_data m = None)"

definition set_data :: "'a \<Rightarrow> 'a node \<Rightarrow> 'a node" where
  "set_data d n = Node (child_map n) (child_node n) (Some d)"

definition get_children :: "'a node \<Rightarrow> (string \<times> 'a node) list" where
  "get_children n =
     (case child_map n of
        None \<Rightarrow> (case child_node n of Some kc \<Rightarrow> [kc] | None \<Rightarrow> [])
      | Some kvs \<Rightarrow> kvs)"

fun optimize :: "'a node \<Rightarrow> 'a node" where
  "optimize (Node m cn d) =
     (let cn' = map_option (\<lambda>(k, c). (k, optimize c)) cn in
      case m of
        None \<Rightarrow> Node None cn' d
      | Some kvs \<Rightarrow>
          (if length kvs = 0 then Node None cn' d
           else if length kvs = 1 then
             Node None (case kvs of [] \<Rightarrow> None | kc # _ \<Rightarrow> Some (fst kc, optimize (snd kc))) d
           else Node (Some (map (\<lambda>(k, c). (k, optimize c)) kvs)) cn' d))"

subsection \<open>Splitting a domain\<close>

datatype domain_error = InvalidDomain string string

definition space_runes :: "string list" where
  "space_runes = [[CHR 0x09], [CHR 0x0A], [CHR 0x0B], [CHR 0x0C], [CHR 0x0D], [CHR 0x20],
     [CHR 0xC2, CHR 0x85], [CHR 0xC2, CHR 0xA0], [CHR 0xE1, CHR 0x9A, CHR 0x80],
     [CHR 0xE2, CHR 0x80, CHR 0x80], [CHR 0xE2, CHR 0x80, CHR 0x81], [CHR 0xE2, CHR 0x80, CHR 0x82],
     [CHR 0xE2, CHR 0x80, CHR 0x83], [CHR 0xE2, CHR 0x80, CHR 0x84], [CHR 0xE2, CHR 0x80, CHR 0x85],
     [CHR 0xE2, CHR 0x80, CHR 0x86], [CHR 0xE2, CHR 0x80, CHR 0x87], [CHR 0xE2, CHR 0x80, CHR 0x88],
     [CHR 0xE2, CHR 0x80, CHR 0x89], [CHR 0xE2, CHR 0x80, CHR 0x8A], [CHR 0xE2, CHR 0x80, CHR 0xA8],
     [CHR 0xE2, CHR 0x80, CHR 0xA9], [CHR 0xE2, CHR 0x80, CHR 0xAF], [CHR 0xE2, CHR 0x81, CHR 0x9F],
     [CHR 0xE3, CHR 0x80, CHR 0x80]]"

fun empty_label :: "nat \<Rightarrow> string list \<Rightarrow> nat option" where
  "empty_label i [] = None"
| "empty_label i (p # ps) = (if p = [] then Some i else empty_label (Suc i) ps)"

fun bad_wildcard :: "nat \<Rightarrow> nat \<Rightarrow> string list \<Rightarrow> string option" where
  "bad_wildcard len i [] = None"
| "bad_wildcard len i (part # parts) =
     (if str_contains part ''+'' \<and> part \<noteq> ''+'' then
        Some ([CHR 0x22] @ ''+'' @ [CHR 0x22] @ '' wildcard must occupy the entire label '' @ nat_str (i + 1))
      else if str_contains part ''+'' \<and> i \<noteq> 0 then
        Some ([CHR 0x22] @ ''+'' @ [CHR 0x22] @ '' wildcard is only allowed in the first label'')
      else if str_contains part ''+'' \<and> len = 1 then
        Some ([CHR 0x22] @ ''+'' @ [CHR 0x22] @ '' wildcard must be followed by another label'')
      else if str_contains part ''*'' \<and> part \<noteq> ''*'' then
        Some ([CHR 0x22] @ ''*'' @ [CHR 0x22] @ '' wildcard must occupy the entire label '' @ nat_str (i + 1))
      else bad_wildcard len (i + 1) parts)"

definition valid_and_split_domain :: "string \<Rightarrow> domain_error + string list" where
  "valid_and_split_domain domain =
     (if domain = [] then Inl (InvalidDomain domain ''domain is empty'')
      else if domain ! (length domain - 1) = CHR ''.'' then
        Inl (InvalidDomain domain ''trailing dot is not allowed'')
      else if list_ex (has_prefix domain) space_runes then
        Inl (InvalidDomain domain ''leading whitespace is not allowed'')
      else if list_ex (has_suffix domain) space_runes then
        Inl (InvalidDomain domain ''trailing whitespace is not allowed'')
      else (let parts = str_split CHR ''.'' (to_lower domain) in
            if length parts = 1 \<and> parts ! 0 = [] then Inl (InvalidDomain domain ''domain is empty'')
            else (case (if length parts = 1 then None else empty_label 2 (drop 1 parts)) of
                    Some i \<Rightarrow> Inl (InvalidDomain domain (''label '' @ nat_str i @ '' is empty''))
                  | None \<Rightarrow>
                      (case bad_wildcard (length parts) 0 parts of
                         Some e \<Rightarrow> Inl (InvalidDomain domain e)
                       | None \<Rightarrow> Inr parts))))"

subsection \<open>Insert, Search, Foreach\<close>

text \<open>\<open>insert_path\<close> and \<open>search_path\<close> take the labels from the top-level one down.\<close>

fun insert_path :: "'a node \<Rightarrow> string list \<Rightarrow> 'a \<Rightarrow> 'a node" where
  "insert_path n [] data = set_data data n"
| "insert_path n (part # parts) data =
     put_child n part (insert_path (get_or_new_child n part) parts data)"

definition insert_parts :: "'a node \<Rightarrow> string list \<Rightarrow> 'a \<Rightarrow> 'a node" where
  "insert_parts root parts data = insert_path root (rev parts) data"

definition domain_insert :: "'a node \<Rightarrow> string \<Rightarrow> 'a \<Rightarrow> domain_error + 'a node" where
  "domain_insert root domain data =
     (case valid_and_split_domain domain of
        Inl e \<Rightarrow> Inl e
      | Inr parts \<Rightarrow>
          (if parts ! 0 = ''+'' then
             Inr (insert_parts (insert_parts root (drop 1 parts) data) (parts[0 := []]) data)
           else Inr (insert_parts root parts data)))"

fun search_path :: "'a node \<Rightarrow> string list \<Rightarrow> 'a node option" where
  "search_path n [] = Some n"
| "search_path n (part # parts) =
     (let static = (case get_child n part of None \<Rightarrow> None | Some c \<Rightarrow> search_path c parts) in
      if \<not> is_empty_node static then static
      else (let wild = (case get_child n ''*'' of None \<Rightarrow> None | Some c \<Rightarrow> search_path c parts) in
            if \<not> is_empty_node wild then wild else get_child n []))"

definition domain_search :: "'a node \<Rightarrow> string \<Rightarrow> 'a node option" where
  "domain_search root domain =
     (case valid_and_split_domain domain of
        Inl e \<Rightarrow> None
      | Inr parts \<Rightarrow>
          (if parts ! 0 = [] then None
           else (let n = search_path root (rev parts) in if is_empty_node n then None else n)))"

definition domain_optimize :: "'a node \<Rightarrow> 'a node" where
  "domain_optimize root = optimize root"

definition domain_is_empty :: "'a node \<Rightarrow> bool" where
  "domain_is_empty root = (length (get_children root) = 0)"

text \<open>
  \<open>Foreach\<close> calls \<open>fn\<close> on every stored pattern; a state passed through \<open>fn\<close> stands for what the
  closure changes, its second result for whether to go on. The walk below a top-level label
  stops when \<open>fn\<close> says so, but \<open>Foreach\<close> ignores that and goes on with the next label.
\<close>

lemma size_get_children: "size_list (size_prod (\<lambda>_. 0) (size_node f)) (get_children n) < size_node f n"
  by (cases n) (auto simp: get_children_def split: option.splits)

function foreach_kids ::
  "('s \<Rightarrow> string \<Rightarrow> 'a \<Rightarrow> 's \<times> bool) \<Rightarrow> string list \<Rightarrow> (string \<times> 'a node) list \<Rightarrow> 's \<Rightarrow> 's \<times> bool" where
  "foreach_kids fn items [] s = (s, True)"
| "foreach_kids fn items ((key, c) # rest) s =
     (let new_items = key # items;
          (s1, go) = (case node_data c of
                        Some d \<Rightarrow> fn s (str_join new_items ''.'') d
                      | None \<Rightarrow> (s, True)) in
      if \<not> go then (s1, False)
      else (let (s2, go2) = foreach_kids fn new_items (get_children c) s1 in
            if \<not> go2 then (s2, False) else foreach_kids fn items rest s2))"
  by pat_completeness auto
termination
proof (relation "measure (\<lambda>(fn, items, kcs, s). size_list (size_prod (\<lambda>_. 0) (size_node (\<lambda>_. 0))) kcs)")
qed (use size_get_children [of "\<lambda>_. 0"] in \<open>auto simp: less_Suc_eq intro: trans_less_add1\<close>)

fun foreach_top ::
  "('s \<Rightarrow> string \<Rightarrow> 'a \<Rightarrow> 's \<times> bool) \<Rightarrow> (string \<times> 'a node) list \<Rightarrow> 's \<Rightarrow> 's" where
  "foreach_top fn [] s = s"
| "foreach_top fn ((key, c) # rest) s =
     (let (s1, _) = foreach_kids fn [key] (get_children c) s in
      case node_data c of
        Some d \<Rightarrow>
          (let (s2, go) = fn s1 (str_join [key] ''.'') d in
           if \<not> go then s2 else foreach_top fn rest s2)
      | None \<Rightarrow> foreach_top fn rest s1)"

definition domain_foreach :: "('s \<Rightarrow> string \<Rightarrow> 'a \<Rightarrow> 's \<times> bool) \<Rightarrow> 'a node \<Rightarrow> 's \<Rightarrow> 's" where
  "domain_foreach fn root s = foreach_top fn (get_children root) s"

subsection \<open>The stored patterns as a map\<close>

fun lookup_path :: "'a node \<Rightarrow> string list \<Rightarrow> 'a option" where
  "lookup_path n [] = node_data n"
| "lookup_path n (p # ps) = (case get_child n p of None \<Rightarrow> None | Some c \<Rightarrow> lookup_path c ps)"

lemma get_child_new [simp]: "get_child new_node s = None"
  by (simp add: get_child_def new_node_def)

lemma node_data_new [simp]: "node_data new_node = None"
  by (simp add: new_node_def)

lemma lookup_path_new [simp]: "lookup_path new_node ps = None"
  by (cases ps) simp_all

lemma lookup_path_new_eq: "lookup_path new_node = (\<lambda>_. None)"
  by (rule ext) simp

lemma get_child_put [simp]: "get_child (put_child n s c) t = (if t = s then Some c else get_child n t)"
  by (auto simp: get_child_def put_child_def add_child_def update_conv split: option.splits)

lemma node_data_put [simp]: "node_data (put_child n s c) = node_data n"
  by (auto simp: put_child_def add_child_def split: option.splits)

lemma get_child_set_data [simp]: "get_child (set_data d n) s = get_child n s"
  by (simp add: get_child_def set_data_def split: option.split)

lemma node_data_set [simp]: "node_data (set_data d n) = Some d"
  by (simp add: set_data_def)

lemma lookup_get_or_new:
  "lookup_path (get_or_new_child n p) ps = (case get_child n p of None \<Rightarrow> None | Some c \<Rightarrow> lookup_path c ps)"
  by (simp add: get_or_new_child_def split: option.splits)

lemma lookup_insert_path:
  "lookup_path (insert_path n ps d) qs = (if qs = ps then Some d else lookup_path n qs)"
proof (induction n ps d arbitrary: qs rule: insert_path.induct)
  case (1 n d)
  then show ?case by (cases qs) simp_all
next
  case (2 n p ps d)
  then show ?case by (cases qs) (auto simp: lookup_get_or_new)
qed

text \<open>The best entry for a domain: at every label the exact name, then \<open>*\<close>, then the empty label.\<close>

fun best_match :: "(string list \<Rightarrow> 'a option) \<Rightarrow> string list \<Rightarrow> 'a option" where
  "best_match E [] = E []"
| "best_match E (d # ds) =
     (case best_match (\<lambda>p. E (d # p)) ds of
        Some v \<Rightarrow> Some v
      | None \<Rightarrow> (case best_match (\<lambda>p. E (''*'' # p)) ds of
                   Some v \<Rightarrow> Some v
                 | None \<Rightarrow> E [[]]))"

lemma best_match_none: "best_match (\<lambda>_. None) ds = None"
  by (induction ds) simp_all

definition result_data :: "'a node option \<Rightarrow> 'a option" where
  "result_data r = (case r of None \<Rightarrow> None | Some n \<Rightarrow> node_data n)"

lemma is_empty_node_iff: "is_empty_node r \<longleftrightarrow> result_data r = None"
  by (simp add: is_empty_node_def result_data_def split: option.splits)

lemma result_data_child: "result_data (get_child n s) = lookup_path n [s]"
  by (simp add: result_data_def split: option.splits)

lemma search_path_best: "result_data (search_path n ds) = best_match (lookup_path n) ds"
proof (induction ds arbitrary: n)
  case Nil
  then show ?case by (simp add: result_data_def)
next
  case (Cons d ds)
  have sub: "result_data (case get_child n x of None \<Rightarrow> None | Some c \<Rightarrow> search_path c ds) =
      best_match (\<lambda>p. lookup_path n (x # p)) ds" for x
    using Cons.IH by (cases "get_child n x") (simp_all add: result_data_def best_match_none)
  define static where "static = (case get_child n d of None \<Rightarrow> None | Some c \<Rightarrow> search_path c ds)"
  define wild where "wild = (case get_child n ''*'' of None \<Rightarrow> None | Some c \<Rightarrow> search_path c ds)"
  have "search_path n (d # ds) =
      (if result_data static \<noteq> None then static
       else if result_data wild \<noteq> None then wild else get_child n [])"
    by (simp add: static_def wild_def is_empty_node_iff Let_def)
  moreover have "best_match (\<lambda>p. lookup_path n (d # p)) ds = result_data static"
    "best_match (\<lambda>p. lookup_path n (''*'' # p)) ds = result_data wild"
    using sub unfolding static_def wild_def by simp_all
  moreover have "lookup_path n [[]] = result_data (get_child n [])" by (simp only: result_data_child)
  ultimately show ?case
    by (cases "result_data static"; cases "result_data wild")
      (simp_all only: best_match.simps option.case if_True if_False option.distinct simp_thms)
qed

subsection \<open>What a pattern accepts\<close>

definition label_match :: "string \<Rightarrow> string \<Rightarrow> bool" where
  "label_match p q \<longleftrightarrow> p = q \<or> p = ''*''"

definition pattern_accepts :: "string list \<Rightarrow> string list \<Rightarrow> bool" where
  "pattern_accepts ps qs \<longleftrightarrow>
     (let rest = drop 1 ps; n = length qs - length rest in
      if ps ! 0 = ''+'' then length rest \<le> length qs \<and> list_all2 label_match rest (drop n qs)
      else if ps ! 0 = [] then length rest < length qs \<and> list_all2 label_match rest (drop n qs)
      else list_all2 label_match ps qs)"

definition domain_accepts :: "string \<Rightarrow> string \<Rightarrow> bool" where
  "domain_accepts pat domain =
     (case (valid_and_split_domain pat, valid_and_split_domain domain) of
        (Inr ps, Inr qs) \<Rightarrow> qs ! 0 \<noteq> [] \<and> pattern_accepts ps qs
      | _ \<Rightarrow> False)"

fun path_accepts :: "string list \<Rightarrow> string list \<Rightarrow> bool" where
  "path_accepts [] ds = (ds = [])"
| "path_accepts (p # ps) [] = False"
| "path_accepts (p # ps) (d # ds) = (label_match p d \<and> path_accepts ps ds \<or> p = [] \<and> ps = [])"

lemma best_match_Some_iff: "best_match E ds \<noteq> None \<longleftrightarrow> (\<exists>p. E p \<noteq> None \<and> path_accepts p ds)"
proof (induction ds arbitrary: E)
  case Nil
  show ?case
  proof
    assume "\<exists>p. E p \<noteq> None \<and> path_accepts p []"
    then obtain p where "E p \<noteq> None" "path_accepts p []" by blast
    then show "best_match E [] \<noteq> None" by (cases p) simp_all
  qed (auto intro: exI [of _ "[]"])
next
  case (Cons d ds)
  have "best_match E (d # ds) \<noteq> None \<longleftrightarrow>
      best_match (\<lambda>p. E (d # p)) ds \<noteq> None \<or> best_match (\<lambda>p. E (''*'' # p)) ds \<noteq> None \<or> E [[]] \<noteq> None"
    by (auto split: option.splits)
  also have "\<dots> \<longleftrightarrow> (\<exists>p. E p \<noteq> None \<and> path_accepts p (d # ds))" (is "?l \<longleftrightarrow> ?r")
  proof
    assume ?l
    then show ?r unfolding Cons.IH
      by (auto simp: label_match_def intro: exI [of _ "d # _"] exI [of _ "''*'' # _"] exI [of _ "[[]]"])
  next
    assume ?r
    then obtain p where p: "E p \<noteq> None" "path_accepts p (d # ds)" by blast
    then obtain x xs where "p = x # xs" by (cases p) auto
    with p show ?l unfolding Cons.IH by (auto simp: label_match_def)
  qed
  finally show ?case .
qed

lemma path_accepts_labels:
  "[] \<notin> set ps \<Longrightarrow> path_accepts ps ds \<longleftrightarrow> list_all2 label_match ps ds"
  by (induction ps ds rule: path_accepts.induct) auto

lemma path_accepts_dot:
  "[] \<notin> set ps \<Longrightarrow> [] \<notin> set ds \<Longrightarrow> path_accepts (ps @ [[]]) ds \<longleftrightarrow>
   length ps < length ds \<and> list_all2 label_match ps (take (length ps) ds)"
proof (induction ps arbitrary: ds)
  case Nil
  then show ?case by (cases ds) (auto simp: label_match_def)
next
  case (Cons p ps)
  then show ?case by (cases ds) auto
qed

lemma list_all2_rev_take:
  "length ps \<le> length qs \<Longrightarrow>
   list_all2 R (rev ps) (take (length ps) (rev qs)) \<longleftrightarrow> list_all2 R ps (drop (length qs - length ps) qs)"
  by (simp add: take_rev)

subsection \<open>Valid patterns\<close>

lemma empty_label_None: "empty_label i ps = None \<longleftrightarrow> [] \<notin> set ps"
  by (induction i ps rule: empty_label.induct) auto

lemma bad_wildcard_None:
  "bad_wildcard n i ps = None \<Longrightarrow> ''+'' \<in> set ps \<Longrightarrow> i = 0 \<and> ps ! 0 = ''+'' \<and> n \<noteq> 1"
proof (induction n i ps rule: bad_wildcard.induct)
  case (2 n i part parts)
  have "str_contains ''+'' ''+''" by code_simp
  with 2 show ?case by (auto split: if_splits)
qed simp

lemma valid_split_facts:
  assumes "valid_and_split_domain d = Inr ps"
  shows "ps \<noteq> []" and "[] \<notin> set (drop 1 ps)" and "ps \<noteq> [[]]" and "ps \<noteq> [''+'']"
proof -
  have ps: "ps = str_split CHR ''.'' (to_lower d)" and one: "\<not> (length ps = 1 \<and> ps ! 0 = [])"
    and e: "(if length ps = 1 then None else empty_label 2 (drop 1 ps)) = None"
    and w: "bad_wildcard (length ps) 0 ps = None"
    using assms by (auto simp: valid_and_split_domain_def Let_def split: if_splits option.splits)
  show "ps \<noteq> []" by (simp add: ps)
  show "[] \<notin> set (drop 1 ps)" using e by (cases ps; cases "drop 1 ps") (auto simp: empty_label_None split: if_splits)
  show "ps \<noteq> [[]]" using one by auto
  show "ps \<noteq> [''+'']" using bad_wildcard_None [OF w] by auto
qed

definition pattern_paths :: "string \<Rightarrow> string list list" where
  "pattern_paths pat =
     (case valid_and_split_domain pat of
        Inl e \<Rightarrow> []
      | Inr ps \<Rightarrow> (if ps ! 0 = ''+'' then [rev (drop 1 ps), rev (ps[0 := []])] else [rev ps]))"

lemma pattern_paths_accept:
  assumes q: "valid_and_split_domain d = Inr qs" "qs ! 0 \<noteq> []"
  shows "(\<exists>p\<in>set (pattern_paths pat). path_accepts p (rev qs)) \<longleftrightarrow> domain_accepts pat d"
proof (cases "valid_and_split_domain pat")
  case (Inr ps)
  note pf = valid_split_facts [OF Inr] and qf = valid_split_facts [OF q(1)]
  have qs: "[] \<notin> set qs" using q(2) qf(1,2) by (cases qs) auto
  obtain x rest where ps: "ps = x # rest" using pf(1) by (cases ps) auto
  have rest: "[] \<notin> set rest" using pf(2) ps by simp
  have dot: "path_accepts (rev rest @ [[]]) (rev qs) \<longleftrightarrow>
      length rest < length qs \<and> list_all2 label_match rest (drop (length qs - length rest) qs)"
    using path_accepts_dot [of "rev rest" "rev qs"] rest qs list_all2_rev_take [of rest qs label_match] by auto
  have plain: "path_accepts (rev xs) (rev qs) \<longleftrightarrow> list_all2 label_match xs qs" if "[] \<notin> set xs" for xs
    using path_accepts_labels [of "rev xs" "rev qs"] that by simp
  have longer: "length rest \<le> length qs \<and> list_all2 label_match rest (drop (length qs - length rest) qs) \<longleftrightarrow>
      list_all2 label_match rest qs \<or>
      length rest < length qs \<and> list_all2 label_match rest (drop (length qs - length rest) qs)"
    by (cases "length rest = length qs") (auto dest: list_all2_lengthD)
  show ?thesis
    using Inr q ps rest dot plain [of rest] plain [of ps] longer
    by (auto simp: pattern_paths_def domain_accepts_def pattern_accepts_def Let_def)
qed (simp add: pattern_paths_def domain_accepts_def)

subsection \<open>Tries built by insertion\<close>

definition insert_or_skip :: "'a node \<Rightarrow> string \<times> 'a \<Rightarrow> 'a node" where
  "insert_or_skip t kv = (case domain_insert t (fst kv) (snd kv) of Inl e \<Rightarrow> t | Inr t' \<Rightarrow> t')"

definition trie_of :: "(string \<times> 'a) list \<Rightarrow> 'a node" where
  "trie_of kvs = foldl insert_or_skip new_node kvs"

definition store :: "(string list \<Rightarrow> 'a option) \<Rightarrow> string \<times> 'a \<Rightarrow> string list \<Rightarrow> 'a option" where
  "store E kv = (\<lambda>p. if p \<in> set (pattern_paths (fst kv)) then Some (snd kv) else E p)"

definition stored :: "(string \<times> 'a) list \<Rightarrow> string list \<Rightarrow> 'a option" where
  "stored kvs = foldl store (\<lambda>_. None) kvs"

lemma lookup_insert_or_skip: "lookup_path (insert_or_skip t kv) = store (lookup_path t) kv"
  by (rule ext)
    (auto simp: insert_or_skip_def domain_insert_def store_def pattern_paths_def insert_parts_def
      lookup_insert_path split: sum.splits)

lemma lookup_trie_of: "lookup_path (trie_of kvs) = stored kvs"
proof -
  have "lookup_path (foldl insert_or_skip t kvs) = foldl store (lookup_path t) kvs" for t
    by (induction kvs arbitrary: t) (simp_all add: lookup_insert_or_skip)
  then show ?thesis by (simp add: trie_of_def stored_def lookup_path_new_eq)
qed

lemma stored_Some_iff: "stored kvs p \<noteq> None \<longleftrightarrow> (\<exists>kv\<in>set kvs. p \<in> set (pattern_paths (fst kv)))"
proof -
  have "foldl store E kvs p \<noteq> None \<longleftrightarrow> E p \<noteq> None \<or> (\<exists>kv\<in>set kvs. p \<in> set (pattern_paths (fst kv)))" for E
    by (induction kvs arbitrary: E) (auto simp: store_def)
  then show ?thesis by (simp add: stored_def)
qed

definition search_data :: "'a node \<Rightarrow> string \<Rightarrow> 'a option" where
  "search_data t d = result_data (domain_search t d)"

lemma search_data_best:
  "search_data t d =
     (case valid_and_split_domain d of
        Inl e \<Rightarrow> None
      | Inr qs \<Rightarrow> if qs ! 0 = [] then None else best_match (lookup_path t) (rev qs))"
  by (simp add: search_data_def domain_search_def Let_def is_empty_node_iff search_path_best
      split: sum.split) (simp add: result_data_def)

lemma domain_search_None_iff: "domain_search t d = None \<longleftrightarrow> search_data t d = None"
  by (auto simp: search_data_def domain_search_def Let_def is_empty_node_iff result_data_def split: sum.splits)

text \<open>
  C1: the trie refines a map from patterns to values. After any sequence of insertions (patterns
  that do not parse are rejected, later values replace earlier ones), searching a domain gives
  the value of the best stored entry: at each label, from the top-level one down, the exact
  label is preferred to \<open>*\<close>, and both to a suffix pattern that ends there.
\<close>

theorem trie_search_refines_map:
  "search_data (trie_of kvs) d =
     (case valid_and_split_domain d of
        Inl e \<Rightarrow> None
      | Inr qs \<Rightarrow> if qs ! 0 = [] then None else best_match (stored kvs) (rev qs))"
  by (simp add: search_data_best lookup_trie_of split: sum.split)

lemma trie_finds: "search_data (trie_of kvs) d \<noteq> None \<longleftrightarrow> (\<exists>kv\<in>set kvs. domain_accepts (fst kv) d)"
proof (cases "valid_and_split_domain d")
  case (Inr qs)
  show ?thesis
  proof (cases "qs ! 0 = []")
    case False
    have "search_data (trie_of kvs) d \<noteq> None \<longleftrightarrow>
        (\<exists>p. stored kvs p \<noteq> None \<and> path_accepts p (rev qs))"
      using Inr False by (simp add: search_data_best lookup_trie_of best_match_Some_iff del: not_None_eq)
    then show ?thesis using pattern_paths_accept [OF Inr False] stored_Some_iff by metis
  qed (use Inr in \<open>simp add: search_data_best domain_accepts_def split: sum.split\<close>)
qed (simp add: search_data_best domain_accepts_def split: sum.split)

text \<open>
  C1: a search finds something exactly when one of the inserted patterns accepts the domain:
  \<open>*\<close> stands for one label, a leading dot for one or more labels before the rest, a leading \<open>+\<close> for
  none or more, any other label for itself.
\<close>

theorem trie_search_finds:
  "domain_search (trie_of kvs) d \<noteq> None \<longleftrightarrow> (\<exists>kv\<in>set kvs. domain_accepts (fst kv) d)"
  by (simp add: domain_search_None_iff trie_finds del: not_None_eq)

subsection \<open>Optimize\<close>

fun wf_node :: "'a node \<Rightarrow> bool" where
  "wf_node (Node m cn d) =
     ((m \<noteq> None \<longrightarrow> cn = None) \<and> pred_option (\<lambda>(k, c). wf_node c) cn \<and>
      pred_option (\<lambda>kvs. kvs \<noteq> [] \<and> distinct (map fst kvs) \<and> list_all (\<lambda>(k, c). wf_node c) kvs) m)"

lemma wf_new_node [simp]: "wf_node new_node"
  by (simp add: new_node_def)

lemma wf_get_child: "wf_node n \<Longrightarrow> get_child n s = Some c \<Longrightarrow> wf_node c"
  by (cases n) (auto simp: get_child_def list_all_iff split: option.splits if_splits dest!: map_of_SomeD)

lemma update_not_Nil [simp]: "AList.update k v kvs \<noteq> []"
  by (cases kvs) (auto simp: AList.update.simps split: prod.splits)

lemma wf_update:
  "wf_node c \<Longrightarrow> list_all (\<lambda>(k, c). wf_node c) kvs \<Longrightarrow> list_all (\<lambda>(k, c). wf_node c) (AList.update s c kvs)"
  by (induction kvs) auto

lemma wf_put_child: "wf_node n \<Longrightarrow> wf_node c \<Longrightarrow> wf_node (put_child n s c)"
  by (cases n) (auto simp: put_child_def add_child_def distinct_update wf_update split: option.splits)

lemma wf_insert_path: "wf_node n \<Longrightarrow> wf_node (insert_path n ps d)"
proof (induction n ps d rule: insert_path.induct)
  case (1 n data)
  then show ?case by (cases n) (simp add: set_data_def)
next
  case (2 n p ps data)
  have "wf_node (get_or_new_child n p)"
    using 2(2) wf_get_child by (auto simp: get_or_new_child_def split: option.split)
  then show ?case using 2 wf_put_child by auto
qed

lemma wf_trie_of: "wf_node (trie_of kvs)"
proof -
  have "wf_node t \<Longrightarrow> wf_node (insert_or_skip t kv)" for t and kv :: "string \<times> 'a"
    by (auto simp: insert_or_skip_def domain_insert_def insert_parts_def wf_insert_path split: sum.splits if_splits)
  then have "wf_node t \<Longrightarrow> wf_node (foldl insert_or_skip t kvs)" for t
    by (induction kvs arbitrary: t) simp_all
  then show ?thesis by (simp add: trie_of_def)
qed

lemma node_data_optimize [simp]: "node_data (optimize n) = node_data n"
  by (cases n) (auto simp: Let_def split: option.splits)

lemma map_of_optimize: "map_of (map (\<lambda>(k, c). (k, f c)) kvs) s = map_option f (map_of kvs s)"
  by (induction kvs) auto

lemma get_child_optimize: "wf_node n \<Longrightarrow> get_child (optimize n) s = map_option optimize (get_child n s)"
proof (cases n)
  case (Node m cn d)
  assume wf: "wf_node n"
  show ?thesis
  proof (cases m)
    case None
    then show ?thesis using Node by (auto simp: get_child_def split: option.splits)
  next
    case (Some kvs)
    then consider kc where "kvs = [kc]" | "length kvs > 1"
      using wf Node by (cases kvs; cases "tl kvs") auto
    then show ?thesis
      using wf Node Some by cases (auto simp: get_child_def map_of_optimize)
  qed
qed

lemma lookup_optimize: "wf_node n \<Longrightarrow> lookup_path (optimize n) ps = lookup_path n ps"
  by (induction ps arbitrary: n) (auto simp: get_child_optimize dest: wf_get_child split: option.split)

lemma search_data_optimize: "wf_node t \<Longrightarrow> search_data (domain_optimize t) d = search_data t d"
proof -
  assume "wf_node t"
  then have "lookup_path (optimize t) = lookup_path t" by (intro ext lookup_optimize)
  then show ?thesis by (simp add: search_data_best domain_optimize_def split: sum.split)
qed

text \<open>Compacting the trie after it was filled changes no search.\<close>

theorem optimize_preserves_search:
  "search_data (domain_optimize (trie_of kvs)) d = search_data (trie_of kvs) d"
  by (rule search_data_optimize [OF wf_trie_of])

subsection \<open>The interface the clients use\<close>

text \<open>
  What a client of the trie relies on: a table filled by \<open>put\<close> finds a domain exactly when one of
  the patterns put accepts it, and what it finds was put under such a pattern.
\<close>

locale domain_index =
  fixes empty_index :: "'t" and put :: "'t \<Rightarrow> string \<times> 'v \<Rightarrow> 't" and find :: "'t \<Rightarrow> string \<Rightarrow> 'v option"
  assumes found_iff: "find (foldl put empty_index kvs) d \<noteq> None \<longleftrightarrow> (\<exists>kv\<in>set kvs. domain_accepts (fst kv) d)"
    and found_value: "find (foldl put empty_index kvs) d = Some v \<Longrightarrow>
      \<exists>k. (k, v) \<in> set kvs \<and> domain_accepts k d"
begin

lemma found_from_put:
  assumes "find (foldl put empty_index kvs) d = Some v" and "\<forall>kv\<in>set kvs. P (snd kv)"
  shows "P v"
  using found_value [OF assms(1)] assms(2) by force

lemma not_found: "(\<And>kv. kv \<in> set kvs \<Longrightarrow> \<not> domain_accepts (fst kv) d) \<Longrightarrow> find (foldl put empty_index kvs) d = None"
  using found_iff by blast

end

lemma best_match_value: "best_match E ds = Some v \<Longrightarrow> \<exists>p. E p = Some v \<and> path_accepts p ds"
proof (induction ds arbitrary: E)
  case Nil
  then show ?case by (auto intro: exI [of _ "[]"])
next
  case (Cons d ds)
  have wild: "\<exists>p. E p = Some v \<and> path_accepts p (d # ds)"
    if "best_match (\<lambda>p. E (x # p)) ds = Some v" "label_match x d" for x
    using Cons.IH [OF that(1)] that(2) by (auto intro: exI [of _ "x # _"])
  show ?case
    using Cons.prems wild [of d] wild [of "''*''"]
    by (auto simp: label_match_def split: option.splits intro: exI [of _ "[[]]"])
qed

lemma stored_value: "stored kvs p = Some v \<Longrightarrow> \<exists>k. (k, v) \<in> set kvs \<and> p \<in> set (pattern_paths k)"
proof -
  have "foldl store E kvs p = Some v \<Longrightarrow> E p = Some v \<or> (\<exists>k. (k, v) \<in> set kvs \<and> p \<in> set (pattern_paths k))" for E
  proof (induction kvs arbitrary: E)
    case (Cons kv kvs)
    obtain k w where kv: "kv = (k, w)" by (cases kv)
    have "foldl store (store E kv) kvs p = Some v" using Cons.prems by simp
    from Cons.IH [OF this] show ?case by (auto simp: kv store_def split: if_splits)
  qed simp
  from this [of "\<lambda>_. None"] show "stored kvs p = Some v \<Longrightarrow> ?thesis" by (simp add: stored_def)
qed

lemma trie_value: "search_data (trie_of kvs) d = Some v \<Longrightarrow> \<exists>k. (k, v) \<in> set kvs \<and> domain_accepts k d"
proof (cases "valid_and_split_domain d")
  case (Inr qs)
  assume found: "search_data (trie_of kvs) d = Some v"
  then have q: "qs ! 0 \<noteq> []" and "best_match (stored kvs) (rev qs) = Some v"
    using Inr by (auto simp: search_data_best lookup_trie_of split: if_splits)
  from best_match_value [OF this(2)] obtain p where p: "stored kvs p = Some v" "path_accepts p (rev qs)" by auto
  from stored_value [OF p(1)] obtain k where "(k, v) \<in> set kvs" "p \<in> set (pattern_paths k)" by auto
  with p(2) pattern_paths_accept [OF Inr q, of k] show ?thesis by auto
qed (simp add: search_data_best)

interpretation trie: domain_index new_node insert_or_skip search_data
  by unfold_locales (simp_all add: trie_of_def [symmetric] trie_finds trie_value del: not_None_eq)

end
