(* ===== verification/Hosts.thy ===== *)
theory Hosts
  imports Domain_Trie Net_Addr
begin

text \<open>
  The static hosts table (\<open>component/resolver/host.go\<close>) and the section of the configuration that
  fills it (\<open>parseHosts\<close> of \<open>config/config.go\<close>). \<open>netip.ParseAddr\<close>, the hosts file of the system and
  the addresses of the network interfaces are the fields of \<open>hosts_env\<close>. Both loops follow a chain
  of domain values; the model of each is a partial function whose value is \<open>None\<close> when it does not
  end.
\<close>

record host_value =
  hv_is_domain :: bool
  hv_ips :: "addr list"
  hv_domain :: string

record hosts_env =
  he_parse_addr :: "string \<Rightarrow> addr option"
  he_system :: "(string \<Rightarrow> string list) option"
  he_lan :: "string list option"

subsection \<open>Host values\<close>

definition new_host_value_by_ips :: "addr list \<Rightarrow> string + host_value" where
  "new_host_value_by_ips ips =
     (if length ips = 0 then Inl ''ip list is empty''
      else Inr \<lparr>hv_is_domain = False, hv_ips = ips, hv_domain = []\<rparr>)"

definition new_host_value_by_domain :: "string \<Rightarrow> string + host_value" where
  "new_host_value_by_domain domain0 =
     (let domain = str_trim (\<lambda>c. c = CHR ''.'') domain0; item = str_split CHR ''.'' domain in
      if length item < 2 then Inl ''invalid domain''
      else Inr \<lparr>hv_is_domain = True, hv_ips = [], hv_domain = domain\<rparr>)"

fun parse_addrs :: "(string \<Rightarrow> addr option) \<Rightarrow> string list \<Rightarrow> string + addr list" where
  "parse_addrs parse [] = Inr []"
| "parse_addrs parse (s # ss) =
     (case parse s of
        None \<Rightarrow> Inl (''ParseAddr('' @ s @ ''): unable to parse IP'')
      | Some ip \<Rightarrow> map_sum id (\<lambda>ips. addr_unmap ip # ips) (parse_addrs parse ss))"

definition new_host_value :: "hosts_env \<Rightarrow> string list \<Rightarrow> string + host_value" where
  "new_host_value env value =
     (case value of
        [] \<Rightarrow> Inl ''value is empty''
      | [host] \<Rightarrow> (case he_parse_addr env host of
                    Some ip \<Rightarrow> new_host_value_by_ips [addr_unmap ip]
                  | None \<Rightarrow> new_host_value_by_domain host)
      | _ \<Rightarrow> (case parse_addrs (he_parse_addr env) value of
                Inl e \<Rightarrow> Inl e
              | Inr ips \<Rightarrow> new_host_value_by_ips ips))"

text \<open>\<open>randv2.IntN\<close> is the argument \<open>i\<close>, an index below the number of addresses.\<close>

definition rand_ip :: "nat \<Rightarrow> host_value \<Rightarrow> addr \<times> string option" where
  "rand_ip i hv =
     (if hv_is_domain hv then (NoAddr, Some ''value type is error'') else (hv_ips hv ! i, None))"

subsection \<open>Search\<close>

partial_function (option) host_chain ::
  "(string \<Rightarrow> host_value option) \<Rightarrow> bool \<Rightarrow> host_value \<Rightarrow> (host_value option \<times> bool) option" where
  "host_chain look is_domain hv =
     (if is_domain \<and> hv_is_domain hv then Some (Some hv, True)
      else (case look (hv_domain hv) of
              Some hv' \<Rightarrow> host_chain look is_domain hv'
            | None \<Rightarrow> Some (Some hv, is_domain = hv_is_domain hv)))"

definition hosts_search ::
  "hosts_env \<Rightarrow> host_value node \<Rightarrow> string \<Rightarrow> bool \<Rightarrow> (host_value option \<times> bool) option" where
  "hosts_search env tree domain is_domain =
     (case search_data tree domain of
        Some hv \<Rightarrow> host_chain (search_data tree) is_domain hv
      | None \<Rightarrow>
          (case (is_domain, he_system env) of
             (False, Some lookup_static) \<Rightarrow>
               (case new_host_value env (lookup_static domain) of
                  Inr hv \<Rightarrow> Some (Some hv, True)
                | Inl e \<Rightarrow> Some (None, False))
           | _ \<Rightarrow> Some (None, False)))"

subsection \<open>parseHosts\<close>

partial_function (option) hosts_cycle ::
  "(string \<Rightarrow> host_value option) \<Rightarrow> string \<Rightarrow> string \<Rightarrow> bool option" where
  "hosts_cycle look domain name =
     (case look name of
        None \<Rightarrow> Some False
      | Some hv \<Rightarrow>
          (if \<not> hv_is_domain hv then Some False
           else if hv_domain hv = domain then Some True
           else hosts_cycle look domain (hv_domain hv)))"

definition expand_lan :: "hosts_env \<Rightarrow> string list \<Rightarrow> string list" where
  "expand_lan env hosts =
     (if hosts = [''lan''] then (case he_lan env of Some addrs \<Rightarrow> addrs | None \<Rightarrow> hosts) else hosts)"

fun parse_host_entries ::
  "hosts_env \<Rightarrow> host_value node \<Rightarrow> (string \<times> string list) list \<Rightarrow> (string + host_value node) option" where
  "parse_host_entries env tree [] = Some (Inr tree)"
| "parse_host_entries env tree ((domain, hosts) # rest) =
     (case new_host_value env (expand_lan env hosts) of
        Inl e \<Rightarrow> Some (Inl (str_join hosts '' '' @ '' is not a valid value''))
      | Inr v \<Rightarrow>
          (case (if hv_is_domain v then hosts_cycle (search_data tree) domain (hv_domain v) else Some False) of
             None \<Rightarrow> None
           | Some True \<Rightarrow> Some (Inl (domain @ '', there is a cycle in domain name mapping''))
           | Some False \<Rightarrow> parse_host_entries env (insert_or_skip tree (domain, v)) rest))"

definition local_host :: host_value where
  "local_host = \<lparr>hv_is_domain = False, hv_ips = [V4 0x7F000001], hv_domain = []\<rparr>"

definition parse_hosts :: "hosts_env \<Rightarrow> (string \<times> string list) list \<Rightarrow> (string + host_value node) option" where
  "parse_hosts env cfg =
     (case parse_host_entries env (insert_or_skip new_node (''localhost'', local_host)) cfg of
        None \<Rightarrow> None
      | Some (Inl e) \<Rightarrow> Some (Inl e)
      | Some (Inr tree) \<Rightarrow> Some (Inr (domain_optimize tree)))"

subsection \<open>Following a chain\<close>

primrec chain_at :: "(string \<Rightarrow> host_value option) \<Rightarrow> host_value \<Rightarrow> nat \<Rightarrow> host_value option" where
  "chain_at look hv 0 = Some hv"
| "chain_at look hv (Suc k) = Option.bind (chain_at look hv k) (\<lambda>h. look (hv_domain h))"

lemma chain_at_shift:
  "chain_at look hv (Suc k) = Option.bind (look (hv_domain hv)) (\<lambda>h. chain_at look h k)"
proof (induction k)
  case (Suc k)
  have "chain_at look hv (Suc (Suc k)) = Option.bind (chain_at look hv (Suc k)) (\<lambda>h. look (hv_domain h))"
    by simp
  also have "\<dots> = Option.bind (look (hv_domain hv)) (\<lambda>h. chain_at look h (Suc k))"
    unfolding Suc.IH by simp
  finally show ?case .
qed simp

definition chain_end :: "(string \<Rightarrow> host_value option) \<Rightarrow> host_value \<Rightarrow> nat \<Rightarrow> host_value \<Rightarrow> bool" where
  "chain_end look hv k last_hv \<longleftrightarrow> chain_at look hv k = Some last_hv \<and> look (hv_domain last_hv) = None"

lemma chain_end_step:
  "look (hv_domain hv) = Some hv' \<Longrightarrow> chain_end look hv (Suc k) v \<longleftrightarrow> chain_end look hv' k v"
  unfolding chain_end_def chain_at_shift by simp

lemma host_chain_ends:
  "host_chain look b hv = Some r \<Longrightarrow> \<not> b \<Longrightarrow> \<exists>k v. chain_end look hv k v \<and> r = (Some v, \<not> hv_is_domain v)"
proof (induction look b hv r rule: host_chain.raw_induct [rotated, consumes 1, case_names 1])
  case (1 f look b hv r)
  show ?case
  proof (cases "look (hv_domain hv)")
    case None
    then have "chain_end look hv 0 hv" by (simp add: chain_end_def)
    with 1 None show ?thesis by auto
  next
    case (Some hv')
    with 1 have "f look b hv' = Some r" by simp
    from 1(1) [OF this 1(3)] Some show ?thesis using chain_end_step by blast
  qed
qed

lemma chain_end_host_chain: "chain_end look hv k v \<Longrightarrow> host_chain look False hv = Some (Some v, \<not> hv_is_domain v)"
proof (induction k arbitrary: hv)
  case 0
  then show ?case by (simp add: chain_end_def host_chain.simps)
next
  case (Suc k)
  then obtain hv' where "look (hv_domain hv) = Some hv'"
    by (auto simp: chain_end_def chain_at_shift simp del: chain_at.simps split: Option.bind_splits)
  with Suc show ?case by (subst host_chain.simps) (simp add: chain_end_step)
qed

subsection \<open>The tables a configuration builds\<close>

definition hv_ok :: "host_value \<Rightarrow> bool" where
  "hv_ok hv \<longleftrightarrow> hv_is_domain hv \<or> hv_domain hv = []"

lemma new_host_value_ok: "new_host_value env value = Inr hv \<Longrightarrow> hv_ok hv"
  by (auto simp: new_host_value_def new_host_value_by_ips_def new_host_value_by_domain_def hv_ok_def Let_def
      split: list.splits option.splits sum.splits if_splits)

lemma parse_host_entries_trie:
  "parse_host_entries env (trie_of kvs) cfg = Some (Inr t) \<Longrightarrow> \<forall>kv\<in>set kvs. hv_ok (snd kv) \<Longrightarrow>
   \<exists>kvs'. t = trie_of kvs' \<and> (\<forall>kv\<in>set kvs'. hv_ok (snd kv))"
proof (induction cfg arbitrary: kvs)
  case (Cons e cfg)
  obtain domain hosts where e: "e = (domain, hosts)" by (cases e)
  from Cons.prems(1) obtain v where v: "new_host_value env (expand_lan env hosts) = Inr v"
    and t: "parse_host_entries env (insert_or_skip (trie_of kvs) (domain, v)) cfg = Some (Inr t)"
    by (auto simp: e split: sum.splits option.splits bool.splits)
  have "insert_or_skip (trie_of kvs) (domain, v) = trie_of (kvs @ [(domain, v)])" by (simp add: trie_of_def)
  with t Cons.IH [of "kvs @ [(domain, v)]"] Cons.prems(2) new_host_value_ok [OF v] show ?case by auto
qed auto

lemma parse_hosts_trie:
  assumes "parse_hosts env cfg = Some (Inr tree)"
  shows "\<exists>kvs. search_data tree = search_data (trie_of kvs) \<and> (\<forall>kv\<in>set kvs. hv_ok (snd kv))"
proof -
  obtain t where t: "parse_host_entries env (insert_or_skip new_node (''localhost'', local_host)) cfg = Some (Inr t)"
    and tree: "tree = domain_optimize t"
    using assms by (auto simp: parse_hosts_def split: option.splits sum.splits)
  have "insert_or_skip new_node (''localhost'', local_host) = trie_of [(''localhost'', local_host)]"
    by (simp add: trie_of_def)
  with t parse_host_entries_trie [of env "[(''localhost'', local_host)]" cfg t]
  obtain kvs where "t = trie_of kvs" "\<forall>kv\<in>set kvs. hv_ok (snd kv)"
    by (auto simp: hv_ok_def local_host_def)
  then show ?thesis using tree search_data_optimize [OF wf_trie_of] by (auto intro!: exI [of _ kvs] ext)
qed

lemma search_empty_name [simp]: "search_data tree [] = None"
  by (simp add: search_data_best valid_and_split_domain_def)

text \<open>
  With a hosts section the configuration accepts, asking for an alias (isDomain) always
  returns, and a positive answer is an alias.
\<close>

theorem alias_search_returns:
  assumes "parse_hosts env cfg = Some (Inr tree)"
  shows "\<exists>hv ok. hosts_search env tree d True = Some (hv, ok) \<and>
    (ok \<longrightarrow> (\<exists>v. hv = Some v \<and> hv_is_domain v))"
proof (cases "search_data tree d")
  case (Some v)
  obtain kvs where kvs: "search_data tree = search_data (trie_of kvs)" "\<forall>kv\<in>set kvs. hv_ok (snd kv)"
    using parse_hosts_trie [OF assms] by blast
  have "hv_ok v"
    using Some kvs trie.found_from_put [of kvs d v hv_ok] by (simp add: trie_of_def)
  then show ?thesis
    using Some by (cases "hv_is_domain v") (auto simp: hosts_search_def host_chain.simps hv_ok_def)
qed (auto simp: hosts_search_def)

definition demo_hosts_env :: hosts_env where
  "demo_hosts_env = \<lparr>he_parse_addr = (\<lambda>s. if s = ''10.0.0.1'' then Some (V4 0x0A000001) else None),
     he_system = None, he_lan = None\<rparr>"

definition demo_hosts :: "host_value node" where
  "demo_hosts = domain_optimize (trie_of [(''localhost'', local_host),
     (''a.b'', \<lparr>hv_is_domain = False, hv_ips = [V4 0x0A000001], hv_domain = []\<rparr>)])"

lemma demo_hosts_parse: "parse_hosts demo_hosts_env [(''a.b'', [''10.0.0.1''])] = Some (Inr demo_hosts)"
  by (simp add: parse_hosts_def demo_hosts_def new_host_value_def expand_lan_def demo_hosts_env_def
      new_host_value_by_ips_def trie_of_def)

theorem alias_search_returns_witness: "hosts_search demo_hosts_env demo_hosts ''a.b'' True \<noteq> None"
  using alias_search_returns [OF demo_hosts_parse, of "''a.b''"] by auto

text \<open>
  C8: asking for the addresses of a name the table holds follows the chain of aliases: it returns
  exactly when the chain ends, with the last value of the chain, and succeeds when that value
  holds addresses.
\<close>

theorem address_search_follows_chain:
  assumes "search_data tree d = Some hv"
  shows "hosts_search env tree d False = Some r \<longleftrightarrow>
    (\<exists>k v. chain_end (search_data tree) hv k v \<and> r = (Some v, \<not> hv_is_domain v))"
proof -
  have "hosts_search env tree d False = host_chain (search_data tree) False hv"
    using assms by (simp add: hosts_search_def)
  then show ?thesis
    using host_chain_ends [of "search_data tree" False hv r] chain_end_host_chain [of "search_data tree" hv] by auto
qed

theorem address_search_follows_chain_witness:
  "hosts_search demo_hosts_env demo_hosts ''a.b'' False =
     Some (Some \<lparr>hv_is_domain = False, hv_ips = [V4 0x0A000001], hv_domain = []\<rparr>, True)"
proof -
  let ?v = "\<lparr>hv_is_domain = False, hv_ips = [V4 0x0A000001], hv_domain = []\<rparr>"
  have f: "search_data demo_hosts ''a.b'' = Some ?v" by code_simp
  have "chain_end (search_data demo_hosts) ?v 0 ?v" by (simp add: chain_end_def)
  then show ?thesis using address_search_follows_chain [OF f] by force
qed

text \<open>
  C7: the check for cycles only looks at what was inserted before, so an alias of a name to
  itself is accepted, and asking for its addresses never returns.
\<close>

theorem self_alias_accepted_but_hangs:
  assumes "he_parse_addr env ''a.b'' = None"
  shows "\<exists>tree. parse_hosts env [(''a.b'', [''a.b''])] = Some (Inr tree) \<and>
    hosts_search env tree ''a.b'' False = None"
proof -
  define v where "v = \<lparr>hv_is_domain = True, hv_ips = [], hv_domain = ''a.b''\<rparr>"
  define tree where "tree = domain_optimize (trie_of [(''localhost'', local_host), (''a.b'', v)])"
  have nv: "new_host_value env [''a.b''] = Inr v"
    using assms by (simp add: new_host_value_def new_host_value_by_domain_def str_trim_def v_def)
  have "search_data (trie_of [(''localhost'', local_host)]) ''a.b'' = None" by code_simp
  then have "hosts_cycle (search_data (trie_of [(''localhost'', local_host)])) ''a.b'' ''a.b'' = Some False"
    by (simp add: hosts_cycle.simps)
  then have p: "parse_hosts env [(''a.b'', [''a.b''])] = Some (Inr tree)"
    using nv by (simp add: parse_hosts_def expand_lan_def v_def tree_def trie_of_def)
  have f: "search_data tree ''a.b'' = Some v" unfolding tree_def v_def by code_simp
  have "chain_at (search_data tree) v k = Some v" for k
    by (induction k) (use f in \<open>simp_all add: v_def\<close>)
  then have no_end: "\<not> chain_end (search_data tree) v k w" for k w
    using f by (auto simp: chain_end_def v_def)
  have "hosts_search env tree ''a.b'' False = host_chain (search_data tree) False v"
    using f by (simp add: hosts_search_def)
  then have "hosts_search env tree ''a.b'' False = None"
    using host_chain_ends [of "search_data tree" False v] no_end by (cases "host_chain (search_data tree) False v") auto
  with p show ?thesis by blast
qed

theorem self_alias_accepted_but_hangs_witness:
  "\<exists>tree. parse_hosts demo_hosts_env [(''a.b'', [''a.b''])] = Some (Inr tree) \<and>
    hosts_search demo_hosts_env tree ''a.b'' False = None"
  by (rule self_alias_accepted_but_hangs) (simp add: demo_hosts_env_def)

end
