(* ===== verification/Lru_Cache.thy ===== *)
theory Lru_Cache
  imports Go_Prelude
begin

text \<open>
  The least-recently-used cache (\<open>common/lru/lrucache.go\<close>). The doubly linked list, front first, is
  a list of elements with an identity each; the index maps a key to the identity of its element,
  as the source maps it to a pointer. The clock is read through the argument \<open>now\<close>, in seconds;
  calls of \<open>onEvict\<close> are logged in their order in \<open>l_evicted\<close>. The mutex makes every operation one
  step. \<open>CloneTo\<close> shares the entries of the two caches in the source; here it copies them.
\<close>

subsection \<open>State and operations\<close>

record ('k, 'v) entry =
  e_key :: 'k
  e_value :: 'v
  e_expires :: int

record ('k, 'v) lru =
  l_max_age :: int
  l_max_size :: int
  l_cache :: "'k \<Rightarrow> nat option"
  l_list :: "(nat \<times> ('k, 'v) entry) list"
  l_next :: nat
  l_update_age :: bool
  l_stale :: bool
  l_evicted :: "('k \<times> 'v) list"

definition lru_new :: "int \<Rightarrow> int \<Rightarrow> bool \<Rightarrow> bool \<Rightarrow> ('k, 'v) lru" where
  "lru_new max_age max_size update_age stale =
     \<lparr>l_max_age = max_age, l_max_size = max_size, l_cache = (\<lambda>_. None), l_list = [], l_next = 0,
      l_update_age = update_age, l_stale = stale, l_evicted = []\<rparr>"

definition lru_clear :: "('k, 'v) lru \<Rightarrow> ('k, 'v) lru" where
  "lru_clear c = c\<lparr>l_list := [], l_cache := (\<lambda>_. None)\<rparr>"

definition list_remove :: "nat \<Rightarrow> (nat \<times> 'e) list \<Rightarrow> (nat \<times> 'e) list" where
  "list_remove i l = filter (\<lambda>x. fst x \<noteq> i) l"

definition move_to_back :: "nat \<Rightarrow> (nat \<times> 'e) list \<Rightarrow> (nat \<times> 'e) list" where
  "move_to_back i l = list_remove i l @ filter (\<lambda>x. fst x = i) l"

definition change_element :: "nat \<Rightarrow> ('e \<Rightarrow> 'e) \<Rightarrow> (nat \<times> 'e) list \<Rightarrow> (nat \<times> 'e) list" where
  "change_element i f l = map (\<lambda>(j, e). (j, if j = i then f e else e)) l"

definition delete_element :: "nat \<Rightarrow> ('k, 'v) lru \<Rightarrow> ('k, 'v) lru" where
  "delete_element i c =
     (case map_of (l_list c) i of
        None \<Rightarrow> c
      | Some e \<Rightarrow>
          c\<lparr>l_list := list_remove i (l_list c), l_cache := (l_cache c)(e_key e := None),
            l_evicted := l_evicted c @ [(e_key e, e_value e)]\<rparr>)"

function delete_expired :: "int \<Rightarrow> ('k, 'v) lru \<Rightarrow> ('k, 'v) lru" where
  "delete_expired now c =
     (case l_list c of
        [] \<Rightarrow> c
      | (i, e) # _ \<Rightarrow> (if e_expires e \<le> now then delete_expired now (delete_element i c) else c))"
  by pat_completeness auto
termination
  by (relation "measure (\<lambda>(now, c). length (l_list c))")
    (auto simp: delete_element_def list_remove_def intro: le_imp_less_Suc)

declare delete_expired.simps [simp del]

definition maybe_delete_oldest :: "int \<Rightarrow> ('k, 'v) lru \<Rightarrow> ('k, 'v) lru" where
  "maybe_delete_oldest now c =
     (if \<not> l_stale c \<and> l_max_age c > 0 then delete_expired now c else c)"

definition lru_find :: "int \<Rightarrow> 'k \<Rightarrow> ('k, 'v) lru \<Rightarrow> ('k, 'v) entry option \<times> ('k, 'v) lru" where
  "lru_find now key c =
     (case l_cache c key of
        None \<Rightarrow> (None, c)
      | Some i \<Rightarrow>
          (case map_of (l_list c) i of
             None \<Rightarrow> (None, c)
           | Some e \<Rightarrow>
               (if \<not> l_stale c \<and> l_max_age c > 0 \<and> e_expires e \<le> now then
                  (None, maybe_delete_oldest now (delete_element i c))
                else
                  (let f = (if l_max_age c > 0 \<and> l_update_age c
                            then e_expires_update (\<lambda>_. now + l_max_age c) else id) in
                   (Some (f e), c\<lparr>l_list := change_element i f (move_to_back i (l_list c))\<rparr>)))))"

definition set_with_expire :: "int \<Rightarrow> 'k \<Rightarrow> 'v \<Rightarrow> int \<Rightarrow> ('k, 'v) lru \<Rightarrow> ('k, 'v) lru" where
  "set_with_expire now key v expires c =
     maybe_delete_oldest now
       (case l_cache c key of
          Some i \<Rightarrow>
            c\<lparr>l_list := change_element i (\<lambda>e. e\<lparr>e_value := v, e_expires := expires\<rparr>)
                         (move_to_back i (l_list c))\<rparr>
        | None \<Rightarrow>
            (let c1 = c\<lparr>l_list := l_list c @ [(l_next c, \<lparr>e_key = key, e_value = v, e_expires = expires\<rparr>)],
                        l_cache := (l_cache c)(key \<mapsto> l_next c), l_next := Suc (l_next c)\<rparr> in
             if l_max_size c > 0 \<and> int (length (l_list c1)) > l_max_size c
             then delete_element (fst (hd (l_list c1))) c1 else c1))"

definition lru_set :: "int \<Rightarrow> 'k \<Rightarrow> 'v \<Rightarrow> ('k, 'v) lru \<Rightarrow> ('k, 'v) lru" where
  "lru_set now key v c =
     set_with_expire now key v (if l_max_age c > 0 then now + l_max_age c else 0) c"

definition lru_get :: "int \<Rightarrow> 'k \<Rightarrow> ('k, 'v) lru \<Rightarrow> 'v option \<times> ('k, 'v) lru" where
  "lru_get now key c = (case lru_find now key c of (el, c') \<Rightarrow> (map_option e_value el, c'))"

definition lru_get_with_expire :: "int \<Rightarrow> 'k \<Rightarrow> ('k, 'v) lru \<Rightarrow> ('v \<times> int) option \<times> ('k, 'v) lru" where
  "lru_get_with_expire now key c =
     (case lru_find now key c of (el, c') \<Rightarrow> (map_option (\<lambda>e. (e_value e, e_expires e)) el, c'))"

definition lru_get_or_store :: "int \<Rightarrow> 'k \<Rightarrow> 'v \<Rightarrow> ('k, 'v) lru \<Rightarrow> ('v \<times> bool) \<times> ('k, 'v) lru" where
  "lru_get_or_store now key v c =
     (case lru_find now key c of
        (None, c') \<Rightarrow> ((v, False), lru_set now key v c')
      | (Some e, c') \<Rightarrow> ((e_value e, True), c'))"

definition lru_exist :: "'k \<Rightarrow> ('k, 'v) lru \<Rightarrow> bool" where
  "lru_exist key c = (l_cache c key \<noteq> None)"

definition lru_delete :: "'k \<Rightarrow> ('k, 'v) lru \<Rightarrow> ('k, 'v) lru" where
  "lru_delete key c = (case l_cache c key of None \<Rightarrow> c | Some i \<Rightarrow> delete_element i c)"

text \<open>\<open>valueFn\<close> gives the new value, or \<open>None\<close> to delete.\<close>

definition lru_compute ::
  "int \<Rightarrow> 'k \<Rightarrow> ('v option \<Rightarrow> 'v option) \<Rightarrow> ('k, 'v) lru \<Rightarrow> 'v option \<times> ('k, 'v) lru" where
  "lru_compute now key value_fn c =
     (case lru_get now key c of
        (old, c') \<Rightarrow>
          (case value_fn old of
             None \<Rightarrow> (None, if old \<noteq> None then lru_delete key c' else c')
           | Some v \<Rightarrow> (Some v, lru_set now key v c')))"

definition lru_clone_to :: "('k, 'v) lru \<Rightarrow> ('k, 'v) lru \<Rightarrow> ('k, 'v) lru" where
  "lru_clone_to c n =
     (let l = map (\<lambda>(i, x). (l_next n + i, snd x)) (enumerate 0 (l_list c)) in
      n\<lparr>l_list := l, l_next := l_next n + length l,
        l_cache := foldl (\<lambda>m (i, e). m(e_key e \<mapsto> i)) (\<lambda>_. None) l\<rparr>)"

subsection \<open>The index and the list agree\<close>

definition keys_of :: "(nat \<times> ('k, 'v) entry) list \<Rightarrow> 'k list" where
  "keys_of l = map (\<lambda>x. e_key (snd x)) l"

definition lru_idx :: "('k, 'v) lru \<Rightarrow> bool" where
  "lru_idx c \<longleftrightarrow> distinct (map fst (l_list c)) \<and> distinct (keys_of (l_list c)) \<and>
     (\<forall>i\<in>set (map fst (l_list c)). i < l_next c) \<and>
     (\<forall>k i. l_cache c k = Some i \<longleftrightarrow> (\<exists>e. (i, e) \<in> set (l_list c) \<and> e_key e = k))"

definition lru_bounded :: "('k, 'v) lru \<Rightarrow> bool" where
  "lru_bounded c \<longleftrightarrow> (l_max_size c > 0 \<longrightarrow> int (length (l_list c)) \<le> l_max_size c)"

definition lru_ok :: "('k, 'v) lru \<Rightarrow> bool" where
  "lru_ok c \<longleftrightarrow> lru_idx c \<and> lru_bounded c"

lemma lru_idx_new: "lru_idx (lru_new a s u st)"
  by (simp add: lru_idx_def lru_new_def keys_of_def)

lemma lru_idx_clear: "lru_idx c \<Longrightarrow> lru_idx (lru_clear c)"
  by (simp add: lru_idx_def lru_clear_def keys_of_def)

lemma distinct_keys_filter: "distinct (keys_of l) \<Longrightarrow> distinct (keys_of (filter P l))"
  by (induction l) (auto simp: keys_of_def)

lemma same_key_same_element:
  "distinct (keys_of l) \<Longrightarrow> (i, e) \<in> set l \<Longrightarrow> (j, f) \<in> set l \<Longrightarrow> e_key e = e_key f \<Longrightarrow> i = j \<and> e = f"
  by (induction l) (auto simp: keys_of_def image_iff)

lemma lru_idx_delete_element:
  assumes "lru_idx c"
  shows "lru_idx (delete_element i c)"
proof (cases "map_of (l_list c) i")
  case (Some e)
  then have mem: "(i, e) \<in> set (l_list c)" by (rule map_of_SomeD)
  have d: "distinct (map fst (l_list c))" "distinct (keys_of (l_list c))" using assms by (auto simp: lru_idx_def)
  have "((l_cache c)(e_key e := None)) k = Some j \<longleftrightarrow> (\<exists>f. (j, f) \<in> set (list_remove i (l_list c)) \<and> e_key f = k)" for k j
  proof -
    have "j = i" if "(j, f) \<in> set (l_list c)" "e_key f = e_key e" for f
      using same_key_same_element [OF d(2) that(1) mem that(2)] by simp
    moreover have "f = e" if "(i, f) \<in> set (l_list c)" for f
      using map_of_is_SomeI [OF d(1) that] Some by simp
    ultimately show ?thesis using assms by (auto simp: lru_idx_def list_remove_def)
  qed
  then show ?thesis
    using assms Some distinct_keys_filter [OF d(2)]
    by (auto simp: lru_idx_def delete_element_def list_remove_def distinct_map_filter)
qed (use assms in \<open>simp add: delete_element_def\<close>)

lemma lru_idx_delete_expired: "lru_idx c \<Longrightarrow> lru_idx (delete_expired now c)"
proof (induction now c rule: delete_expired.induct)
  case (1 now c)
  then show ?case
    by (subst delete_expired.simps) (auto simp: lru_idx_delete_element split: list.split)
qed

lemma lru_idx_maybe_delete: "lru_idx c \<Longrightarrow> lru_idx (maybe_delete_oldest now c)"
  by (simp add: maybe_delete_oldest_def lru_idx_delete_expired)

lemma map_of_element: "lru_idx c \<Longrightarrow> l_cache c k = Some i \<Longrightarrow> \<exists>e. map_of (l_list c) i = Some e \<and> e_key e = k"
proof -
  assume ok: "lru_idx c" and "l_cache c k = Some i"
  then obtain e where "(i, e) \<in> set (l_list c)" "e_key e = k" by (auto simp: lru_idx_def)
  with ok show ?thesis by (auto simp: lru_idx_def intro!: exI [of _ e] map_of_is_SomeI)
qed

lemma keys_change:
  "(\<And>e. e_key (f e) = e_key e) \<Longrightarrow> keys_of (change_element i f l) = keys_of l"
  by (induction l) (auto simp: keys_of_def change_element_def)

lemma ids_change [simp]: "map fst (change_element i f l) = map fst l"
  by (induction l) (auto simp: change_element_def)

lemma set_move_to_back [simp]: "set (move_to_back i l) = set l"
  by (auto simp: move_to_back_def list_remove_def)

lemma length_move_to_back [simp]: "length (move_to_back i l) = length l"
  using sum_length_filter_compl [of "\<lambda>x. fst x = i" l] by (simp add: move_to_back_def list_remove_def)

lemma distinct_move_to_back:
  assumes "distinct (map f l)"
  shows "distinct (map f (move_to_back i l))"
proof -
  have inj: "inj_on f (set l)" using assms by (simp add: distinct_map)
  have "f x \<noteq> f y" if "x \<in> set l" "y \<in> set l" "fst x \<noteq> i" "fst y = i" for x y
    using inj_onD [OF inj _ that(1,2)] that(3,4) by auto
  then have "f ` {x \<in> set l. fst x \<noteq> i} \<inter> f ` {x \<in> set l. fst x = i} = {}" by blast
  then show ?thesis
    using assms by (simp add: move_to_back_def list_remove_def distinct_map_filter)
qed

lemma lru_idx_touch:
  assumes "lru_idx c" and f: "\<And>e. e_key (f e) = e_key e"
  shows "lru_idx (c\<lparr>l_list := change_element i f (move_to_back i (l_list c))\<rparr>)"
proof -
  let ?l = "change_element i f (move_to_back i (l_list c))"
  have "(\<exists>e. (j, e) \<in> set ?l \<and> e_key e = k) \<longleftrightarrow> (\<exists>e. (j, e) \<in> set (l_list c) \<and> e_key e = k)" for j k
    using f by (force simp: change_element_def image_iff)
  moreover have "keys_of ?l = keys_of (move_to_back i (l_list c))" by (rule keys_change) (rule f)
  ultimately show ?thesis
    using assms(1) distinct_move_to_back [of fst "l_list c" i]
      distinct_move_to_back [of "\<lambda>x. e_key (snd x)" "l_list c" i]
    by (simp add: lru_idx_def keys_of_def)
qed

lemma lru_idx_find: "lru_idx c \<Longrightarrow> lru_idx (snd (lru_find now k c))"
  by (auto simp: lru_find_def Let_def lru_idx_touch lru_idx_maybe_delete lru_idx_delete_element
      split: option.split)

lemma lru_idx_push:
  assumes ok: "lru_idx c" and free: "l_cache c k = None" and key: "e_key e = k"
  shows "lru_idx (c\<lparr>l_list := l_list c @ [(l_next c, e)], l_cache := (l_cache c)(k \<mapsto> l_next c), l_next := Suc (l_next c)\<rparr>)"
proof -
  have fresh: "j < l_next c \<and> e_key f \<noteq> k" if "(j, f) \<in> set (l_list c)" for j f
    using ok free that unfolding lru_idx_def by (metis fst_conv image_eqI list.set_map option.distinct(1))
  have "((l_cache c)(k \<mapsto> l_next c)) k' = Some i \<longleftrightarrow>
      (\<exists>f. (i, f) \<in> set (l_list c @ [(l_next c, e)]) \<and> e_key f = k')" for k' i
    using ok fresh key by (cases "k' = k") (auto simp: lru_idx_def)
  moreover have "l_next c \<notin> fst ` set (l_list c)" "k \<notin> set (keys_of (l_list c))"
    using fresh unfolding keys_of_def by (metis imageE less_irrefl prod.collapse, metis (no_types, lifting) fresh image_iff list.set_map prod.collapse)
  ultimately show ?thesis
    using ok key fresh by (simp add: lru_idx_def keys_of_def) force
qed

subsection \<open>The size stays within its bound\<close>

lemma delete_element_simps [simp]:
  "l_max_size (delete_element i c) = l_max_size c" "l_max_age (delete_element i c) = l_max_age c"
  "l_update_age (delete_element i c) = l_update_age c" "l_stale (delete_element i c) = l_stale c"
  by (simp_all add: delete_element_def split: option.split)

lemma length_delete_element: "length (l_list (delete_element i c)) \<le> length (l_list c)"
  by (simp add: delete_element_def list_remove_def split: option.split)

lemma length_delete_front:
  "l_list c = x # xs \<Longrightarrow> length (l_list (delete_element (fst x) c)) \<le> length xs"
  by (cases x) (auto simp: delete_element_def list_remove_def)

lemma delete_expired_bounds:
  "l_max_size (delete_expired now c) = l_max_size c \<and> l_max_age (delete_expired now c) = l_max_age c \<and>
   l_stale (delete_expired now c) = l_stale c \<and>
   length (l_list (delete_expired now c)) \<le> length (l_list c)"
proof (induction now c rule: delete_expired.induct)
  case (1 now c)
  show ?case
  proof (cases "\<exists>i e es. l_list c = (i, e) # es \<and> e_expires e \<le> now")
    case True
    then obtain i e es where l: "l_list c = (i, e) # es" "e_expires e \<le> now" by blast
    then have "delete_expired now c = delete_expired now (delete_element i c)"
      by (subst delete_expired.simps) simp
    then show ?thesis using 1 [OF l(1) refl l(2)] length_delete_element [of i c] by simp
  next
    case False
    then have "delete_expired now c = c" by (subst delete_expired.simps) (auto split: list.split)
    then show ?thesis by simp
  qed
qed

lemma maybe_delete_bounds:
  "l_max_size (maybe_delete_oldest now c) = l_max_size c" "l_max_age (maybe_delete_oldest now c) = l_max_age c"
  "l_stale (maybe_delete_oldest now c) = l_stale c"
  "length (l_list (maybe_delete_oldest now c)) \<le> length (l_list c)"
  using delete_expired_bounds [of now c] by (simp_all add: maybe_delete_oldest_def)

lemma bounded_shorter:
  "lru_bounded c \<Longrightarrow> l_max_size c' = l_max_size c \<Longrightarrow> length (l_list c') \<le> length (l_list c) \<Longrightarrow> lru_bounded c'"
  by (auto simp: lru_bounded_def)

lemma length_change [simp]: "length (change_element i f l) = length l"
  by (simp add: change_element_def)

lemma bounded_delete_element: "lru_bounded c \<Longrightarrow> lru_bounded (delete_element i c)"
  by (rule bounded_shorter [of c]) (simp_all add: length_delete_element)

lemma bounded_maybe_delete: "lru_bounded c \<Longrightarrow> lru_bounded (maybe_delete_oldest now c)"
  by (rule bounded_shorter [of c]) (simp_all add: maybe_delete_bounds)

lemma lru_ok_maybe_delete: "lru_ok c \<Longrightarrow> lru_ok (maybe_delete_oldest now c)"
  by (simp add: lru_ok_def lru_idx_maybe_delete bounded_maybe_delete)

lemma lru_ok_delete_element: "lru_ok c \<Longrightarrow> lru_ok (delete_element i c)"
  by (simp add: lru_ok_def lru_idx_delete_element bounded_delete_element)

lemma lru_ok_touch:
  "lru_ok c \<Longrightarrow> (\<And>e. e_key (f e) = e_key e) \<Longrightarrow>
   lru_ok (c\<lparr>l_list := change_element i f (move_to_back i (l_list c))\<rparr>)"
  using lru_idx_touch [of c f] by (simp add: lru_ok_def lru_bounded_def)

lemma lru_ok_find: "lru_ok c \<Longrightarrow> lru_ok (snd (lru_find now k c))"
  by (auto simp: lru_find_def Let_def lru_ok_touch lru_ok_maybe_delete lru_ok_delete_element
      split: option.split)

lemma lru_ok_set_with_expire:
  assumes ok: "lru_ok c"
  shows "lru_ok (set_with_expire now k v ex c)"
proof -
  define c1 where "c1 = c\<lparr>l_list := l_list c @ [(l_next c, \<lparr>e_key = k, e_value = v, e_expires = ex\<rparr>)],
    l_cache := (l_cache c)(k \<mapsto> l_next c), l_next := Suc (l_next c)\<rparr>"
  define c2 where "c2 = (case l_cache c k of
      Some i \<Rightarrow> c\<lparr>l_list := change_element i (\<lambda>e. e\<lparr>e_value := v, e_expires := ex\<rparr>) (move_to_back i (l_list c))\<rparr>
    | None \<Rightarrow> if l_max_size c > 0 \<and> int (length (l_list c1)) > l_max_size c
              then delete_element (fst (hd (l_list c1))) c1 else c1)"
  have "lru_ok c2"
  proof (cases "l_cache c k")
    case (Some i)
    then show ?thesis using ok by (simp add: c2_def lru_ok_touch)
  next
    case None
    have idx: "lru_idx c1" unfolding c1_def using ok None by (intro lru_idx_push) (simp_all add: lru_ok_def)
    show ?thesis
    proof (cases "l_max_size c > 0 \<and> int (length (l_list c1)) > l_max_size c")
      case True
      obtain x xs where l: "l_list c1 = x # xs" by (cases "l_list c1") (auto simp: c1_def)
      have "length (l_list c1) = Suc (length (l_list c))" by (simp add: c1_def)
      then have "length xs = length (l_list c)" using l by simp
      then have "length (l_list (delete_element (fst x) c1)) \<le> length (l_list c)"
        using length_delete_front [OF l] by simp
      moreover have "l_max_size (delete_element (fst x) c1) = l_max_size c" by (simp add: c1_def)
      ultimately show ?thesis
        using True None l ok idx bounded_shorter [of c "delete_element (fst x) c1"]
        by (simp add: c2_def lru_ok_def lru_idx_delete_element)
    next
      case False
      then show ?thesis using None idx by (auto simp: c2_def lru_ok_def lru_bounded_def c1_def)
    qed
  qed
  moreover have "set_with_expire now k v ex c = maybe_delete_oldest now c2"
    by (simp add: set_with_expire_def c2_def c1_def Let_def split: option.split)
  ultimately show ?thesis by (simp add: lru_ok_maybe_delete)
qed

lemma lru_ok_delete: "lru_ok c \<Longrightarrow> lru_ok (lru_delete k c)"
  by (simp add: lru_delete_def lru_ok_delete_element split: option.split)

subsection \<open>What the cache holds\<close>

text \<open>
  The contents, least recent first. For a cache without ageing the operations act on them as
  below: a read moves its key to the back, a write replaces the key and drops the front when
  the bound is exceeded.
\<close>

definition lru_view :: "('k, 'v) lru \<Rightarrow> ('k \<times> 'v) list" where
  "lru_view c = map (\<lambda>x. (e_key (snd x), e_value (snd x))) (l_list c)"

definition touch :: "'k \<Rightarrow> ('k \<times> 'v) list \<Rightarrow> ('k \<times> 'v) list" where
  "touch k xs = filter (\<lambda>x. fst x \<noteq> k) xs @ filter (\<lambda>x. fst x = k) xs"

definition drop_key :: "'k \<Rightarrow> ('k \<times> 'v) list \<Rightarrow> ('k \<times> 'v) list" where
  "drop_key k xs = filter (\<lambda>x. fst x \<noteq> k) xs"

definition trim_front :: "int \<Rightarrow> 'a list \<Rightarrow> 'a list" where
  "trim_front m xs = (if m > 0 \<and> int (length xs) > m then tl xs else xs)"

lemma keys_view: "map fst (lru_view c) = keys_of (l_list c)"
  by (simp add: lru_view_def keys_of_def)

lemma distinct_view: "lru_ok c \<Longrightarrow> distinct (map fst (lru_view c))"
  by (simp add: keys_view lru_ok_def lru_idx_def)

lemma element_of_key:
  assumes "lru_ok c" and "l_cache c k = Some i" and "x \<in> set (l_list c)"
  shows "fst x = i \<longleftrightarrow> e_key (snd x) = k"
proof -
  obtain e where e: "(i, e) \<in> set (l_list c)" "e_key e = k"
    using assms(1,2) by (auto simp: lru_ok_def lru_idx_def)
  have d: "distinct (map fst (l_list c))" "distinct (keys_of (l_list c))"
    using assms(1) by (auto simp: lru_ok_def lru_idx_def)
  have x: "(fst x, snd x) \<in> set (l_list c)" using assms(3) by simp
  show ?thesis
  proof
    assume "fst x = i"
    then have "snd x = e" using x eq_key_imp_eq_value [OF d(1) _ e(1)] by simp
    then show "e_key (snd x) = k" using e(2) by simp
  next
    assume "e_key (snd x) = k"
    then show "fst x = i" using same_key_same_element [OF d(2) x e(1)] e(2) by simp
  qed
qed

lemma view_filter:
  "(\<And>x. x \<in> set l \<Longrightarrow> P x \<longleftrightarrow> Q (e_key (snd x), e_value (snd x))) \<Longrightarrow>
   map (\<lambda>x. (e_key (snd x), e_value (snd x))) (filter P l) =
   filter Q (map (\<lambda>x. (e_key (snd x), e_value (snd x))) l)"
  by (induction l) auto

lemma view_list_remove:
  assumes "lru_ok c" and "l_cache c k = Some i"
  shows "map (\<lambda>x. (e_key (snd x), e_value (snd x))) (list_remove i (l_list c)) = drop_key k (lru_view c)"
  unfolding list_remove_def drop_key_def lru_view_def
  by (rule view_filter) (simp add: element_of_key [OF assms])

lemma view_move:
  assumes "lru_ok c" and "l_cache c k = Some i"
  shows "map (\<lambda>x. (e_key (snd x), e_value (snd x))) (move_to_back i (l_list c)) = touch k (lru_view c)"
  unfolding move_to_back_def list_remove_def touch_def lru_view_def map_append
  by (intro arg_cong2 [of _ _ _ _ append] view_filter) (simp_all add: element_of_key [OF assms])

lemma change_element_id: "change_element i id l = l"
  by (induction l) (auto simp: change_element_def)

lemma cache_None_view: "lru_ok c \<Longrightarrow> l_cache c k = None \<longleftrightarrow> k \<notin> fst ` set (lru_view c)"
proof -
  assume "lru_ok c"
  then have "l_cache c k \<noteq> None \<longleftrightarrow> (\<exists>i e. (i, e) \<in> set (l_list c) \<and> e_key e = k)"
    by (simp add: lru_ok_def lru_idx_def)
  also have "\<dots> \<longleftrightarrow> k \<in> fst ` set (lru_view c)" by (force simp: lru_view_def)
  finally show ?thesis by blast
qed

lemma touch_missing: "k \<notin> fst ` set xs \<Longrightarrow> touch k xs = xs"
  by (induction xs) (auto simp: touch_def)

lemma drop_key_missing: "k \<notin> fst ` set xs \<Longrightarrow> drop_key k xs = xs"
  by (induction xs) (auto simp: drop_key_def)

lemma map_of_view:
  assumes "lru_ok c" and "l_cache c k = Some i" and "map_of (l_list c) i = Some e"
  shows "map_of (lru_view c) k = Some (e_value e)"
proof -
  have mem: "(i, e) \<in> set (l_list c)" using assms(3) by (rule map_of_SomeD)
  then have "e_key e = k" using element_of_key [OF assms(1,2) mem] by simp
  with mem have "(k, e_value e) \<in> set (lru_view c)" by (force simp: lru_view_def)
  then show ?thesis using distinct_view [OF assms(1)] by (simp add: map_of_is_SomeI)
qed

lemma view_get:
  assumes "lru_ok c" and "l_max_age c \<le> 0"
  shows "fst (lru_get now k c) = map_of (lru_view c) k \<and> lru_view (snd (lru_get now k c)) = touch k (lru_view c)"
proof (cases "l_cache c k")
  case None
  then have "k \<notin> fst ` set (lru_view c)" using cache_None_view [OF assms(1)] by blast
  then show ?thesis
    using None by (simp add: lru_get_def lru_find_def touch_missing map_of_eq_None_iff [symmetric] eq_commute)
next
  case (Some i)
  then obtain e where e: "map_of (l_list c) i = Some e"
    using map_of_element [of c k i] assms(1) by (auto simp: lru_ok_def)
  then show ?thesis
    using Some assms map_of_view [OF assms(1) Some e] view_move [OF assms(1) Some]
    by (simp add: lru_get_def lru_find_def Let_def change_element_id) (simp add: lru_view_def)
qed

lemma view_delete:
  assumes "lru_ok c"
  shows "lru_view (lru_delete k c) = drop_key k (lru_view c)"
proof (cases "l_cache c k")
  case None
  then show ?thesis
    using cache_None_view [OF assms] drop_key_missing by (metis lru_delete_def option.case(1))
next
  case (Some i)
  then obtain e where "map_of (l_list c) i = Some e"
    using map_of_element [of c k i] assms by (auto simp: lru_ok_def)
  then show ?thesis
    using Some view_list_remove [OF assms Some] by (simp add: lru_delete_def delete_element_def lru_view_def)
qed

lemma list_remove_missing: "i \<notin> fst ` set l \<Longrightarrow> list_remove i l = l"
  by (induction l) (auto simp: list_remove_def)

lemma view_delete_front:
  assumes "lru_idx c" and "l_list c = x # xs"
  shows "lru_view (delete_element (fst x) c) = tl (lru_view c)"
proof -
  have "fst x \<notin> fst ` set xs" using assms by (simp add: lru_idx_def)
  then have "list_remove (fst x) xs = xs" by (rule list_remove_missing)
  then show ?thesis
    using assms(2) by (cases x) (simp add: lru_view_def delete_element_def list_remove_def)
qed

lemma drop_key_touch: "distinct (map fst xs) \<Longrightarrow> k \<in> fst ` set xs \<Longrightarrow>
    map (\<lambda>x. if fst x = k then (k, v) else x) (touch k xs) = drop_key k xs @ [(k, v)]"
proof (induction xs)
  case (Cons x xs)
  show ?case
  proof (cases "fst x = k")
    case True
    then have "k \<notin> fst ` set xs" using Cons.prems by auto
    then have "filter (\<lambda>x. fst x \<noteq> k) xs = xs" "filter (\<lambda>x. fst x = k) xs = []"
      by (auto simp: filter_id_conv filter_empty_conv)
    moreover have "map (\<lambda>x. if fst x = k then (k, v) else x) xs = xs"
      using \<open>k \<notin> fst ` set xs\<close> by (induction xs) auto
    ultimately show ?thesis using True by (simp add: touch_def drop_key_def)
  next
    case False
    then show ?thesis using Cons by (simp add: touch_def drop_key_def)
  qed
qed simp

lemma view_set_with_expire:
  assumes "lru_ok c" and "l_max_age c \<le> 0"
  shows "lru_view (set_with_expire now k v ex c) = trim_front (l_max_size c) (drop_key k (lru_view c) @ [(k, v)])"
proof (cases "l_cache c k")
  case (Some i)
  let ?l = "move_to_back i (l_list c)"
  have key: "fst x = i \<longleftrightarrow> e_key (snd x) = k" if "x \<in> set ?l" for x
    using element_of_key [OF assms(1) Some] that by simp
  have "map (\<lambda>x. (e_key (snd x), e_value (snd x)))
      (change_element i (\<lambda>e. e\<lparr>e_value := v, e_expires := ex\<rparr>) ?l) =
      map (\<lambda>x. if fst x = k then (k, v) else x) (map (\<lambda>x. (e_key (snd x), e_value (snd x))) ?l)" for ex
    using key by (auto simp: change_element_def)
  also have "\<dots> = drop_key k (lru_view c) @ [(k, v)]"
    unfolding view_move [OF assms(1) Some]
    using distinct_view [OF assms(1)] cache_None_view [OF assms(1), of k] Some by (intro drop_key_touch) auto
  finally have eq: "map (\<lambda>x. (e_key (snd x), e_value (snd x)))
      (change_element i (\<lambda>e. e\<lparr>e_value := v, e_expires := ex\<rparr>) ?l) = drop_key k (lru_view c) @ [(k, v)]" for ex .
  have "length (drop_key k (lru_view c) @ [(k, v)]) = length (l_list c)"
    unfolding eq [of 0, symmetric] by simp
  then have "trim_front (l_max_size c) (drop_key k (lru_view c) @ [(k, v)]) = drop_key k (lru_view c) @ [(k, v)]"
    using assms(1) unfolding trim_front_def lru_ok_def lru_bounded_def by (metis not_le)
  then show ?thesis
    using Some assms(2) eq by (simp add: set_with_expire_def maybe_delete_oldest_def lru_view_def)
next
  case None
  define c1 where "c1 = c\<lparr>l_list := l_list c @ [(l_next c, \<lparr>e_key = k, e_value = v, e_expires = ex\<rparr>)],
    l_cache := (l_cache c)(k \<mapsto> l_next c), l_next := Suc (l_next c)\<rparr>"
  have idx: "lru_idx c1" unfolding c1_def using assms(1) None by (intro lru_idx_push) (simp_all add: lru_ok_def)
  have "k \<notin> fst ` set (lru_view c)" using None cache_None_view [OF assms(1)] by blast
  then have v1: "lru_view c1 = drop_key k (lru_view c) @ [(k, v)]"
    by (simp add: drop_key_missing) (simp add: lru_view_def c1_def)
  then have len: "length (drop_key k (lru_view c) @ [(k, v)]) = length (l_list c1)"
    by (metis length_map lru_view_def)
  obtain x xs where l: "l_list c1 = x # xs" by (cases "l_list c1") (auto simp: c1_def)
  show ?thesis
    using None assms(2) v1 len l view_delete_front [OF idx l]
    by (simp add: set_with_expire_def maybe_delete_oldest_def Let_def c1_def [symmetric] trim_front_def)
      (auto simp: c1_def)
qed

lemma view_set:
  assumes "lru_ok c" and "l_max_age c \<le> 0"
  shows "lru_view (lru_set now k v c) = trim_front (l_max_size c) (drop_key k (lru_view c) @ [(k, v)])"
  unfolding lru_set_def by (rule view_set_with_expire [OF assms])

lemma settings_find [simp]:
  "l_max_age (snd (lru_find now k c)) = l_max_age c" "l_max_size (snd (lru_find now k c)) = l_max_size c"
  by (auto simp: lru_find_def Let_def maybe_delete_bounds split: option.split)

lemma settings_get [simp]:
  "l_max_age (snd (lru_get now k c)) = l_max_age c" "l_max_size (snd (lru_get now k c)) = l_max_size c"
  using settings_find [of now k c] by (simp_all add: lru_get_def case_prod_unfold)

lemma settings_set_with_expire [simp]:
  "l_max_age (set_with_expire now k v ex c) = l_max_age c" "l_max_size (set_with_expire now k v ex c) = l_max_size c"
  by (auto simp: set_with_expire_def Let_def maybe_delete_bounds split: option.split)

lemma settings_set [simp]:
  "l_max_age (lru_set now k v c) = l_max_age c" "l_max_size (lru_set now k v c) = l_max_size c"
  by (auto simp: lru_set_def set_with_expire_def Let_def maybe_delete_bounds split: option.split)

lemma settings_delete [simp]:
  "l_max_age (lru_delete k c) = l_max_age c" "l_max_size (lru_delete k c) = l_max_size c"
  by (simp_all add: lru_delete_def split: option.split)

lemma lru_ok_get: "lru_ok c \<Longrightarrow> lru_ok (snd (lru_get now k c))"
  using lru_ok_find [of c now k] by (simp add: lru_get_def case_prod_unfold)

lemma lru_ok_set: "lru_ok c \<Longrightarrow> lru_ok (lru_set now k v c)"
  by (simp add: lru_set_def lru_ok_set_with_expire)

lemma find_member:
  assumes "lru_ok c" and "l_max_age c \<le> 0" and "(i, e) \<in> set (l_list c)"
  shows "fst (lru_find now (e_key e) c) = Some e"
proof -
  have "l_cache c (e_key e) = Some i" using assms(1,3) by (auto simp: lru_ok_def lru_idx_def)
  moreover have "map_of (l_list c) i = Some e" using assms(1,3) by (simp add: lru_ok_def lru_idx_def)
  ultimately show ?thesis using assms(2) by (simp add: lru_find_def Let_def)
qed

lemma set_with_expire_member:
  assumes ok: "lru_ok c" and age: "l_max_age c \<le> 0"
  shows "\<exists>i. (i, \<lparr>e_key = k, e_value = v, e_expires = ex\<rparr>) \<in> set (l_list (set_with_expire now k v ex c))"
proof (cases "l_cache c k")
  case (Some i)
  then obtain e where e: "(i, e) \<in> set (l_list c)" "e_key e = k" using ok by (auto simp: lru_ok_def lru_idx_def)
  then have "e\<lparr>e_value := v, e_expires := ex\<rparr> = \<lparr>e_key = k, e_value = v, e_expires = ex\<rparr>" by simp
  then show ?thesis
    using Some age e by (force simp: set_with_expire_def maybe_delete_oldest_def change_element_def move_to_back_def)
next
  case None
  define e where "e = \<lparr>e_key = k, e_value = v, e_expires = ex\<rparr>"
  show ?thesis
  proof (cases "l_list c")
    case Nil
    then show ?thesis using None age by (auto simp: set_with_expire_def maybe_delete_oldest_def Let_def e_def [symmetric])
  next
    case (Cons x xs)
    then have "fst x \<noteq> l_next c" using ok by (auto simp: lru_ok_def lru_idx_def)
    then show ?thesis
      using None age Cons
      by (auto simp: set_with_expire_def maybe_delete_oldest_def Let_def delete_element_def list_remove_def
          e_def [symmetric] split: option.split)
  qed
qed

lemma get_after_set_with_expire:
  assumes "lru_ok c" and "l_max_age c \<le> 0"
  shows "fst (lru_get_with_expire now' k (set_with_expire now k v ex c)) = Some (v, ex)"
proof -
  let ?c = "set_with_expire now k v ex c"
  obtain i where i: "(i, \<lparr>e_key = k, e_value = v, e_expires = ex\<rparr>) \<in> set (l_list ?c)"
    using set_with_expire_member [OF assms] by blast
  then show ?thesis
    using find_member [OF lru_ok_set_with_expire [OF assms(1)] _ i, of now'] assms(2) by (simp add: lru_get_with_expire_def case_prod_unfold)
qed

text \<open>With ageing an entry stays until it expires.\<close>

lemma delete_expired_keeps:
  "distinct (map fst (l_list c)) \<Longrightarrow> (i, e) \<in> set (l_list c) \<Longrightarrow> now < e_expires e \<Longrightarrow>
    (i, e) \<in> set (l_list (delete_expired now c))"
proof (induction now c rule: delete_expired.induct)
  case (1 now c)
  show ?case
  proof (cases "\<exists>j x es. l_list c = (j, x) # es \<and> e_expires x \<le> now")
    case True
    then obtain j x es where l: "l_list c = (j, x) # es" "e_expires x \<le> now" by blast
    then have step: "delete_expired now c = delete_expired now (delete_element j c)"
      by (subst delete_expired.simps) simp
    have del: "l_list (delete_element j c) = es"
      using l 1(2) by (auto simp: delete_element_def list_remove_def filter_id_conv image_iff)
    have "(i, e) \<in> set es" using 1(3,4) l by auto
    then show ?thesis unfolding step using 1(1) [OF l(1) refl l(2)] 1(2,4) l(1) del by simp
  next
    case False
    then have "delete_expired now c = c" by (subst delete_expired.simps) (auto split: list.split)
    then show ?thesis using 1(3) by simp
  qed
qed

lemma set_fresh_member:
  assumes ok: "lru_ok c" and ex: "now < ex"
  shows "\<exists>i. (i, \<lparr>e_key = k, e_value = v, e_expires = ex\<rparr>) \<in> set (l_list (set_with_expire now k v ex c))"
proof -
  define e where "e = \<lparr>e_key = k, e_value = v, e_expires = ex\<rparr>"
  have kept: "\<exists>i. (i, e) \<in> set (l_list (maybe_delete_oldest now c'))"
    if "distinct (map fst (l_list c'))" "(i, e) \<in> set (l_list c')" for c' i
    using delete_expired_keeps [OF that, of now] ex that(2) by (auto simp: maybe_delete_oldest_def e_def)
  show ?thesis
  proof (cases "l_cache c k")
    case (Some i)
    then obtain x where x: "(i, x) \<in> set (l_list c)" "e_key x = k" using ok by (auto simp: lru_ok_def lru_idx_def)
    let ?l = "change_element i (\<lambda>e. e\<lparr>e_value := v, e_expires := ex\<rparr>) (move_to_back i (l_list c))"
    have "x\<lparr>e_value := v, e_expires := ex\<rparr> = e" using x(2) by (simp add: e_def)
    then have "(i, e) \<in> set ?l" using x(1) by (force simp: change_element_def move_to_back_def)
    moreover have "distinct (map fst ?l)" using ok by (simp add: lru_ok_def lru_idx_def distinct_move_to_back)
    ultimately show ?thesis
      using kept [of "c\<lparr>l_list := ?l\<rparr>" i] Some by (simp add: set_with_expire_def e_def)
  next
    case None
    let ?c1 = "c\<lparr>l_list := l_list c @ [(l_next c, e)], l_cache := (l_cache c)(k \<mapsto> l_next c), l_next := Suc (l_next c)\<rparr>"
    have d: "distinct (map fst (l_list ?c1))" using ok by (auto simp: lru_ok_def lru_idx_def)
    show ?thesis
    proof (cases "l_max_size c > 0 \<and> int (length (l_list ?c1)) > l_max_size c")
      case False
      then have "set_with_expire now k v ex c = maybe_delete_oldest now ?c1"
        using None unfolding set_with_expire_def Let_def e_def by auto
      then show ?thesis using kept [OF d, of "l_next c"] by (auto simp: e_def)
    next
      case True
      then have "l_list c \<noteq> []" by auto
      then obtain j x xs where xs: "l_list c = (j, x) # xs" by (cases "l_list c") auto
      let ?c2 = "delete_element j ?c1"
      have "l_list ?c2 = filter (\<lambda>y. fst y \<noteq> j) (l_list ?c1)" by (simp add: delete_element_def list_remove_def xs)
      then have "distinct (map fst (l_list ?c2))" "(l_next c, e) \<in> set (l_list ?c2)"
        using d xs by (auto simp: distinct_map_filter)
      then have "\<exists>i. (i, e) \<in> set (l_list (maybe_delete_oldest now ?c2))" by (rule kept)
      moreover have "set_with_expire now k v ex c = maybe_delete_oldest now ?c2"
        using None True xs unfolding set_with_expire_def Let_def e_def by auto
      ultimately show ?thesis by (simp add: e_def)
    qed
  qed
qed

lemma find_fresh_member:
  assumes "lru_ok c" and "(i, e) \<in> set (l_list c)" and "later < e_expires e"
  shows "map_option e_value (fst (lru_find later (e_key e) c)) = Some (e_value e)"
proof -
  have "l_cache c (e_key e) = Some i" using assms(1,2) by (auto simp: lru_ok_def lru_idx_def)
  moreover have "map_of (l_list c) i = Some e" using assms(1,2) by (simp add: lru_ok_def lru_idx_def)
  ultimately show ?thesis using assms(3) by (simp add: lru_find_def Let_def)
qed

lemma get_after_set:
  assumes "lru_ok c" and "0 < l_max_age c" and "now \<le> later" and "later < now + l_max_age c"
  shows "fst (lru_get later k (lru_set now k v c)) = Some v"
proof -
  obtain i where "(i, \<lparr>e_key = k, e_value = v, e_expires = now + l_max_age c\<rparr>) \<in> set (l_list (lru_set now k v c))"
    using set_fresh_member [OF assms(1), of now "now + l_max_age c" k v] assms(2) by (auto simp: lru_set_def)
  from find_fresh_member [OF lru_ok_set [OF assms(1)] this, of later] assms(4) show ?thesis
    by (simp add: lru_get_def case_prod_unfold)
qed

lemma trim_front_subset: "set (trim_front m xs) \<subseteq> set xs"
  by (cases xs) (auto simp: trim_front_def)

subsection \<open>The interface of a bounded cache\<close>

locale keyed_cache =
  fixes ok :: "'c \<Rightarrow> bool" and contents :: "'c \<Rightarrow> ('k \<times> 'v) list" and bound :: "'c \<Rightarrow> int"
    and get :: "'k \<Rightarrow> 'c \<Rightarrow> 'v option \<times> 'c" and put :: "'k \<Rightarrow> 'v \<Rightarrow> 'c \<Rightarrow> 'c" and del :: "'k \<Rightarrow> 'c \<Rightarrow> 'c"
  assumes distinct_keys: "ok c \<Longrightarrow> distinct (map fst (contents c))"
    and get_value: "ok c \<Longrightarrow> fst (get k c) = map_of (contents c) k"
    and get_contents: "ok c \<Longrightarrow> contents (snd (get k c)) = touch k (contents c)"
    and put_contents: "ok c \<Longrightarrow> contents (put k v c) = trim_front (bound c) (drop_key k (contents c) @ [(k, v)])"
    and del_contents: "ok c \<Longrightarrow> contents (del k c) = drop_key k (contents c)"
    and get_ok: "ok c \<Longrightarrow> ok (snd (get k c))" and put_ok: "ok c \<Longrightarrow> ok (put k v c)" and del_ok: "ok c \<Longrightarrow> ok (del k c)"
    and get_bound: "bound (snd (get k c)) = bound c" and put_bound: "bound (put k v c) = bound c"
    and del_bound: "bound (del k c) = bound c"
begin

lemma put_keeps_last: "ok c \<Longrightarrow> (k, v) \<in> set (contents (put k v c))"
  by (cases "drop_key k (contents c)") (auto simp: put_contents trim_front_def)

lemma get_put: "ok c \<Longrightarrow> fst (get k (put k v c)) = Some v"
  by (simp add: get_value put_ok distinct_keys put_keeps_last map_of_is_SomeI)

lemma put_other: "ok c \<Longrightarrow> (k', v') \<in> set (contents (put k v c)) \<Longrightarrow> k' \<noteq> k \<Longrightarrow> (k', v') \<in> set (contents c)"
  using trim_front_subset by (fastforce simp: put_contents drop_key_def)

lemma get_del: "ok c \<Longrightarrow> fst (get k (del k c)) = None"
  by (simp add: get_value del_ok del_contents drop_key_def map_of_eq_None_iff image_iff)

end

definition lru_plain :: "('k, 'v) lru \<Rightarrow> bool" where
  "lru_plain c \<longleftrightarrow> lru_ok c \<and> l_max_age c \<le> 0"

interpretation lru: keyed_cache lru_plain lru_view l_max_size "lru_get now" "lru_set now" lru_delete for now
  by unfold_locales
    (simp_all add: lru_plain_def distinct_view view_get view_set view_delete lru_ok_get lru_ok_set lru_ok_delete)

subsection \<open>Properties\<close>

datatype ('k, 'v) lru_op =
    OpGet int 'k
  | OpSet int 'k 'v
  | OpSetWithExpire int 'k 'v int
  | OpGetOrStore int 'k 'v
  | OpCompute int 'k "'v option \<Rightarrow> 'v option"
  | OpDelete 'k
  | OpClear

fun lru_step :: "('k, 'v) lru \<Rightarrow> ('k, 'v) lru_op \<Rightarrow> ('k, 'v) lru" where
  "lru_step c (OpGet now k) = snd (lru_get now k c)"
| "lru_step c (OpSet now k v) = lru_set now k v c"
| "lru_step c (OpSetWithExpire now k v ex) = set_with_expire now k v ex c"
| "lru_step c (OpGetOrStore now k v) = snd (lru_get_or_store now k v c)"
| "lru_step c (OpCompute now k f) = snd (lru_compute now k f c)"
| "lru_step c (OpDelete k) = lru_delete k c"
| "lru_step c OpClear = lru_clear c"

lemma lru_ok_clear: "lru_ok c \<Longrightarrow> lru_ok (lru_clear c)"
  using lru_idx_clear [of c] by (simp add: lru_ok_def lru_bounded_def) (simp add: lru_clear_def)

lemma lru_ok_new: "lru_ok (lru_new max_age max_size update_age stale)"
  by (simp add: lru_ok_def lru_idx_new lru_bounded_def) (simp add: lru_new_def)

lemma lru_ok_step: "lru_ok c \<Longrightarrow> lru_ok (lru_step c op)"
proof (cases op)
  case (OpGetOrStore now k v)
  assume "lru_ok c"
  with lru_ok_find [of c now k] OpGetOrStore show ?thesis
    by (auto simp: lru_get_or_store_def lru_ok_set split: prod.split option.split)
next
  case (OpCompute now k f)
  assume "lru_ok c"
  with lru_ok_get [of c now k] OpCompute show ?thesis
    by (auto simp: lru_compute_def lru_ok_set lru_ok_delete split: prod.split option.split)
qed (simp_all add: lru_ok_get lru_ok_set lru_ok_set_with_expire lru_ok_delete lru_ok_clear)


text \<open>
  C32: without ageing the cache is a map with an order of use. A read returns the value stored
  last under the key and makes the key the most recent; a write replaces the value, makes the
  key the most recent and, past the bound, evicts the least recent key; a deletion removes
  exactly its key.
\<close>

theorem lru_refines_recency_list:
  assumes "lru_ok c" and "l_max_age c \<le> 0"
  shows "fst (lru_get now k c) = map_of (lru_view c) k \<and>
    lru_view (snd (lru_get now k c)) = touch k (lru_view c) \<and>
    lru_view (lru_set now k v c) = trim_front (l_max_size c) (drop_key k (lru_view c) @ [(k, v)]) \<and>
    lru_view (lru_delete k c) = drop_key k (lru_view c)"
  using assms by (simp add: view_get view_set view_delete)

theorem lru_refines_recency_list_witness:
  "lru_view (lru_set 0 ''c'' 3 (lru_set 0 ''b'' 2 (lru_set 0 ''a'' (1::nat) (lru_new 0 2 False False)))) =
     [(''b'', 2), (''c'', 3)]"
proof -
  let ?c = "lru_set 0 ''b'' 2 (lru_set 0 ''a'' (1::nat) (lru_new 0 2 False False))"
  have ok: "lru_ok ?c"
    by (intro lru_ok_set) (simp add: lru_ok_def lru_idx_new lru_bounded_def, simp add: lru_new_def)
  have age: "l_max_age ?c \<le> 0" by (simp add: lru_new_def)
  have "lru_view ?c = [(''a'', 1), (''b'', 2)]" by code_simp
  then show ?thesis
    using lru_refines_recency_list [OF ok age, of 0 "''c''" 3]
    by (simp add: drop_key_def trim_front_def) (simp add: lru_new_def)
qed

text \<open>
  A cache with ageing never answers with an entry whose time has come, unless it was told to
  serve stale entries.
\<close>

theorem lru_get_is_fresh:
  assumes "lru_ok c" and "fst (lru_get now k c) = Some v" and "l_max_age c > 0" and "\<not> l_stale c"
  shows "\<exists>i e. (i, e) \<in> set (l_list c) \<and> e_key e = k \<and> e_value e = v \<and> e_expires e > now"
proof -
  obtain i e where i: "l_cache c k = Some i" "map_of (l_list c) i = Some e" "e_expires e > now" "e_value e = v"
    using assms(2-4) by (auto simp: lru_get_def lru_find_def Let_def split: option.splits if_splits)
  moreover have "e_key e = k" using map_of_element [of c k i] i assms(1) by (auto simp: lru_ok_def)
  ultimately show ?thesis by (auto dest: map_of_SomeD)
qed

theorem lru_get_is_fresh_witness:
  "\<exists>i e. (i, e) \<in> set (l_list (lru_set 100 ''a'' (1::nat) (lru_new 10 0 False False))) \<and>
     e_key e = ''a'' \<and> e_value e = 1 \<and> e_expires e > 109"
proof (rule lru_get_is_fresh)
  show "lru_ok (lru_set 100 ''a'' (1::nat) (lru_new 10 0 False False))"
    by (intro lru_ok_set) (simp add: lru_ok_def lru_idx_new lru_bounded_def, simp add: lru_new_def)
  show "fst (lru_get 109 ''a'' (lru_set 100 ''a'' (1::nat) (lru_new 10 0 False False))) = Some 1" by code_simp
qed (code_simp, code_simp)

text \<open>\<open>GetWithExpire\<close> does drop an entry whose age is over.\<close>

lemma get_with_expire_checks_age:
  "lru_get_with_expire 10 ''a'' (set_with_expire 0 ''a'' (1::nat) 5 (lru_new 3 0 False False)) =
   (None, (lru_new 3 0 False False)\<lparr>l_next := 1, l_evicted := [(''a'', 1)]\<rparr>)"
  by (simp add: lru_get_with_expire_def lru_find_def set_with_expire_def lru_new_def delete_element_def
      list_remove_def maybe_delete_oldest_def delete_expired.simps fun_eq_iff)

end
