(* ===== verification/Dns_Client.thy ===== *)
theory Dns_Client
  imports Dns_Message Hosts Lru_Cache
begin

text \<open>
  The clients of name servers and the resolver over them (\<open>dns/util.go\<close>, \<open>dns/rcode.go\<close>,
  \<open>dns/policy.go\<close>, \<open>dns/resolver.go\<close>, \<open>common/picker\<close>). What a transport answers is a parameter; of
  the goroutines that ask several servers at once the model keeps the order in which they finish,
  another parameter. Times are nanoseconds, the expiry of a cache entry is in seconds.
\<close>

subsection \<open>Clients\<close>

text \<open>A transport is known by its number: clients with one number share a connection.\<close>

datatype dns_client =
    RCode int
  | Transport nat
  | Edns0Subnet net_prefix bool dns_client
  | DisableTypes "16 word list" dns_client

record client_env =
  ce_wire :: "nat \<Rightarrow> dns_msg \<Rightarrow> string + dns_msg"
  ce_set_rcode :: "dns_msg \<Rightarrow> dns_msg \<Rightarrow> int \<Rightarrow> dns_msg"
  ce_parse_prefix :: "string \<Rightarrow> net_prefix option"
  ce_parse_addr :: "string \<Rightarrow> addr option"
  ce_known_type :: "16 word \<Rightarrow> bool"
  ce_question_text :: "question \<Rightarrow> string"

definition rcode_of :: "string \<Rightarrow> int option" where
  "rcode_of addr =
     (if addr = ''success'' then Some 0
      else if addr = ''format_error'' then Some 1
      else if addr = ''server_failure'' then Some rcode_server_failure
      else if addr = ''name_error'' then Some 3
      else if addr = ''not_implemented'' then Some 4
      else if addr = ''refused'' then Some rcode_refused
      else None)"

definition rcode_answer :: "int \<Rightarrow> dns_msg \<Rightarrow> dns_msg" where
  "rcode_answer code m = m\<lparr>dm_response := True, dm_rcode := code\<rparr>"

definition drop_types :: "16 word list \<Rightarrow> dns_msg \<Rightarrow> dns_msg" where
  "drop_types ts m =
     (let keep = filter (\<lambda>r. rr_type r \<notin> set ts) in
      m\<lparr>dm_answer := keep (dm_answer m), dm_ns := keep (dm_ns m), dm_extra := keep (dm_extra m)\<rparr>)"

fun client_exchange :: "client_env \<Rightarrow> dns_client \<Rightarrow> dns_msg \<Rightarrow> string + dns_msg" where
  "client_exchange env (RCode code) m = Inr (rcode_answer code m)"
| "client_exchange env (Transport i) m = ce_wire env i m"
| "client_exchange env (Edns0Subnet p override c) m = client_exchange env c (fst (set_edns0_subnet p override m))"
| "client_exchange env (DisableTypes ts c) m =
     (if list_ex (\<lambda>q. q_type q \<in> set ts) (dm_question m) then Inr (empty_answer (ce_set_rcode env) m)
      else attempt (client_exchange env c m) (\<lambda>r. Inr (drop_types ts r)))"

fun unwrap_client :: "dns_client \<Rightarrow> dns_client" where
  "unwrap_client (Edns0Subnet p override c) = unwrap_client c"
| "unwrap_client (DisableTypes ts c) = unwrap_client c"
| "unwrap_client c = c"

type_synonym params = "(string \<times> string) list"

definition is_disable_types_param :: "string \<Rightarrow> bool" where
  "is_disable_types_param key =
     (key = ''disable-ipv4'' \<or> key = ''disable-ipv6'' \<or> has_prefix key ''disable-qtype-'')"

definition is_edns0_subnet_param :: "string \<Rightarrow> bool" where
  "is_edns0_subnet_param key = (key = ''ecs'' \<or> key = ''ecs-override'')"

definition is_wrapper_only_param :: "string \<Rightarrow> bool" where
  "is_wrapper_only_param key = (is_disable_types_param key \<or> is_edns0_subnet_param key)"

definition disabled_types :: "client_env \<Rightarrow> params \<Rightarrow> 16 word list" where
  "disabled_types env ps =
     (if map_of ps ''disable-ipv4'' = Some ''true'' then [type_A] else [])
     @ (if map_of ps ''disable-ipv6'' = Some ''true'' then [type_AAAA] else [])
     @ concat (map (\<lambda>(key, v).
         if has_prefix key ''disable-qtype-'' \<and> v = ''true'' then
           (case parse_uint64 (drop 14 key) of
              None \<Rightarrow> []
            | Some n \<Rightarrow> if n < 65536 \<and> ce_known_type env (of_nat n) then [of_nat n] else [])
         else []) ps)"

definition wrap_disable_types :: "client_env \<Rightarrow> params \<Rightarrow> dns_client \<Rightarrow> dns_client" where
  "wrap_disable_types env ps c = (let ts = disabled_types env ps in if ts \<noteq> [] then DisableTypes ts c else c)"

definition ecs_prefix :: "client_env \<Rightarrow> params \<Rightarrow> net_prefix" where
  "ecs_prefix env ps =
     (case map_of ps ''ecs'' of
        None \<Rightarrow> NoPrefix
      | Some ecs \<Rightarrow>
          (if ecs = [] then NoPrefix
           else
             (case ce_parse_prefix env ecs of
                Some p \<Rightarrow> p
              | None \<Rightarrow>
                  (case ce_parse_addr env ecs of
                     Some a \<Rightarrow> Pfx a (addr_bitlen a)
                   | None \<Rightarrow> NoPrefix))))"

definition wrap_edns0_subnet :: "client_env \<Rightarrow> params \<Rightarrow> dns_client \<Rightarrow> dns_client" where
  "wrap_edns0_subnet env ps c =
     (let p = ecs_prefix env ps in
      if prefix_valid p then Edns0Subnet p (map_of ps ''ecs-override'' = Some ''true'') c else c)"

definition rewrap_client :: "client_env \<Rightarrow> params \<Rightarrow> dns_client \<Rightarrow> dns_client" where
  "rewrap_client env ps c = wrap_disable_types env ps (wrap_edns0_subnet env ps (unwrap_client c))"

subsection \<open>Name servers\<close>

text \<open>The proxy adapter of a name server is an interface value, compared by identity.\<close>

record name_server =
  ns_net :: string
  ns_addr :: string
  ns_adapter :: "nat option"
  ns_proxy_name :: string
  ns_params :: params
  ns_prefer_h3 :: bool

definition params_equal :: "params \<Rightarrow> params \<Rightarrow> bool" where
  "params_equal ps qs = (length ps = length qs \<and> list_all (\<lambda>(k, v). map_of qs k = Some v) ps)"

definition params_agree :: "params \<Rightarrow> params \<Rightarrow> bool" where
  "params_agree ps qs = list_all (\<lambda>(k, v). is_wrapper_only_param k \<or> map_of qs k = Some v) ps"

definition same_server :: "name_server \<Rightarrow> name_server \<Rightarrow> bool" where
  "same_server a b =
     (ns_net a = ns_net b \<and> ns_addr a = ns_addr b \<and> ns_adapter a = ns_adapter b \<and>
      ns_proxy_name a = ns_proxy_name b \<and> ns_prefer_h3 a = ns_prefer_h3 b)"

definition ns_equal :: "name_server \<Rightarrow> name_server \<Rightarrow> bool" where
  "ns_equal a b = (same_server a b \<and> params_equal (ns_params a) (ns_params b))"

definition transport_equal :: "name_server \<Rightarrow> name_server \<Rightarrow> bool" where
  "transport_equal a b =
     (same_server a b \<and> params_agree (ns_params a) (ns_params b) \<and> params_agree (ns_params b) (ns_params a))"

text \<open>
  \<open>transform\<close> for one server, with the number for a new transport; \<open>None\<close> is the panic of an unknown
  reply code.
\<close>

definition new_client :: "client_env \<Rightarrow> nat \<Rightarrow> name_server \<Rightarrow> dns_client option" where
  "new_client env n ns =
     map_option (rewrap_client env (ns_params ns))
       (if ns_net ns = ''rcode'' then map_option RCode (rcode_of (ns_addr ns)) else Some (Transport n))"

record server_cache =
  sc_next :: nat
  sc_built :: "(name_server \<times> dns_client) list"

fun find_client :: "name_server \<Rightarrow> (name_server \<times> dns_client) list \<Rightarrow> dns_client option \<Rightarrow> dns_client + dns_client option" where
  "find_client ns [] shared = Inr shared"
| "find_client ns ((other, c) # rest) shared =
     (if ns_equal other ns then Inl c
      else find_client ns rest (if shared = None \<and> transport_equal other ns then Some c else shared))"

definition cached_client :: "client_env \<Rightarrow> name_server \<Rightarrow> server_cache \<Rightarrow> (dns_client \<times> server_cache) option" where
  "cached_client env ns st =
     (case find_client ns (sc_built st) None of
        Inl c \<Rightarrow> Some (c, st)
      | Inr (Some c) \<Rightarrow>
          (let c' = rewrap_client env (ns_params ns) c in
           Some (c', st\<lparr>sc_built := sc_built st @ [(ns, c')]\<rparr>))
      | Inr None \<Rightarrow>
          map_option (\<lambda>c. (c, \<lparr>sc_next = Suc (sc_next st), sc_built = sc_built st @ [(ns, c)]\<rparr>))
            (new_client env (sc_next st) ns))"

fun cache_transform ::
  "client_env \<Rightarrow> name_server list \<Rightarrow> server_cache \<Rightarrow> (dns_client list \<times> server_cache) option" where
  "cache_transform env [] st = Some ([], st)"
| "cache_transform env (ns # rest) st =
     Option.bind (cached_client env ns st) (\<lambda>(c, st1).
       map_option (map_prod (\<lambda>cs. c # cs) id) (cache_transform env rest st1))"

subsection \<open>Policies\<close>

datatype dns_policy =
    TriePolicy "dns_client list node"
  | MatcherPolicy "string \<Rightarrow> bool" "dns_client list"

fun policy_match :: "dns_policy \<Rightarrow> string \<Rightarrow> dns_client list" where
  "policy_match (TriePolicy t) domain = (case search_data t domain of Some cs \<Rightarrow> cs | None \<Rightarrow> [])"
| "policy_match (MatcherPolicy matcher cs) domain = (if matcher domain then cs else [])"

record policy_config =
  pc_domain :: string
  pc_matcher :: "(string \<Rightarrow> bool) option"
  pc_servers :: "name_server list"

definition flush_trie :: "dns_client list node option \<Rightarrow> dns_policy list" where
  "flush_trie t = (case t of None \<Rightarrow> [] | Some t \<Rightarrow> [TriePolicy (domain_optimize t)])"

fun make_policy ::
  "client_env \<Rightarrow> policy_config list \<Rightarrow> dns_client list node option \<Rightarrow> server_cache \<Rightarrow>
    (dns_policy list \<times> server_cache) option" where
  "make_policy env [] trie st = Some (flush_trie trie, st)"
| "make_policy env (p # ps) trie st =
     Option.bind (cache_transform env (pc_servers p) st) (\<lambda>(cs, st1).
       case pc_matcher p of
         Some matcher \<Rightarrow>
           map_option (map_prod (\<lambda>rest. flush_trie trie @ MatcherPolicy matcher cs # rest) id) (make_policy env ps None st1)
       | None \<Rightarrow>
           (let t = (case trie of Some t \<Rightarrow> t | None \<Rightarrow> new_node) in
            make_policy env ps (Some (case domain_insert t (pc_domain p) cs of Inr t' \<Rightarrow> t' | Inl _ \<Rightarrow> t)) st1))"

subsection \<open>Asking several servers\<close>

text \<open>
  The picker takes the first success in the order in which the goroutines finish; it waits for all.
\<close>

fun pick_first :: "(string + 'a) list \<Rightarrow> string + 'a" where
  "pick_first [] = Inl ''all DNS requests failed''"
| "pick_first (Inr x # rs) = Inr x"
| "pick_first (Inl e # rs) = pick_first rs"

definition usable_answer :: "dns_msg \<Rightarrow> string + dns_msg" where
  "usable_answer m =
     (if dm_rcode m = rcode_server_failure \<or> dm_rcode m = rcode_refused then Inl ''server failure: '' else Inr m)"

fun first_rcode :: "dns_client list \<Rightarrow> int option" where
  "first_rcode [] = None"
| "first_rcode (RCode code # cs) = Some code"
| "first_rcode (c # cs) = first_rcode cs"

text \<open>The result, and whether it may be cached. The argument \<open>order\<close> lists the clients as they finish.\<close>

definition batch_exchange ::
  "client_env \<Rightarrow> (dns_client list \<Rightarrow> dns_msg \<Rightarrow> nat list) \<Rightarrow> dns_client list \<Rightarrow> dns_msg \<Rightarrow> (string + dns_msg) \<times> bool" where
  "batch_exchange env order clients m =
     (case first_rcode clients of
        Some code \<Rightarrow> (Inr (rcode_answer code m), False)
      | None \<Rightarrow>
          (pick_first (map (\<lambda>i. attempt (client_exchange env (clients ! i) m) usable_answer) (order clients m)), True))"

subsection \<open>The resolver\<close>

record resolver =
  rv_main :: "dns_client list"
  rv_fallback :: "dns_client list option"
  rv_domain_filters :: "(string \<Rightarrow> bool) list"
  rv_ip_filters :: "(addr \<Rightarrow> bool) list"
  rv_policy :: "dns_policy list"

fun first_nonempty :: "'a list list \<Rightarrow> 'a list" where
  "first_nonempty [] = []"
| "first_nonempty (xs # xss) = (if xs \<noteq> [] then xs else first_nonempty xss)"

definition match_policy :: "resolver \<Rightarrow> dns_msg \<Rightarrow> dns_client list" where
  "match_policy r m =
     (let domain = msg_to_domain m in
      if domain = [] then [] else first_nonempty (map (\<lambda>p. policy_match p domain) (rv_policy r)))"

definition should_only_query_fallback :: "resolver \<Rightarrow> dns_msg \<Rightarrow> bool" where
  "should_only_query_fallback r m =
     (rv_fallback r \<noteq> None \<and> rv_domain_filters r \<noteq> [] \<and> msg_to_domain m \<noteq> [] \<and>
      list_ex (\<lambda>f. f (msg_to_domain m)) (rv_domain_filters r))"

definition should_ip_fallback :: "resolver \<Rightarrow> addr \<Rightarrow> bool" where
  "should_ip_fallback r ip = list_ex (\<lambda>f. f ip) (rv_ip_filters r)"

definition ip_exchange ::
  "client_env \<Rightarrow> (dns_client list \<Rightarrow> dns_msg \<Rightarrow> nat list) \<Rightarrow> resolver \<Rightarrow> dns_msg \<Rightarrow> string + dns_msg" where
  "ip_exchange env order r m =
     (let matched = match_policy r m; ask = (\<lambda>cs. fst (batch_exchange env order cs m)) in
      if matched \<noteq> [] then ask matched
      else
        (case rv_fallback r of
           None \<Rightarrow> ask (rv_main r)
         | Some fallback \<Rightarrow>
             (if should_only_query_fallback r m then ask fallback
              else
                (case ask (rv_main r) of
                   Inl e \<Rightarrow> ask fallback
                 | Inr res \<Rightarrow>
                     (let ips = msg_to_ip res in
                      if ips \<noteq> [] \<and> list_all (\<lambda>ip. \<not> should_ip_fallback r ip) ips then Inr res
                      else ask fallback)))))"

text \<open>The reply and whether it may be cached.\<close>

definition fetch ::
  "client_env \<Rightarrow> (dns_client list \<Rightarrow> dns_msg \<Rightarrow> nat list) \<Rightarrow> resolver \<Rightarrow> dns_msg \<Rightarrow> (string + dns_msg) \<times> bool" where
  "fetch env order r m =
     (if is_ip_request (hd (dm_question m)) then (ip_exchange env order r m, True)
      else
        (let matched = match_policy r m in
         batch_exchange env order (if matched \<noteq> [] then matched else rv_main r) m))"

type_synonym dns_cache = "(string, dns_msg) lru"

definition unix_time :: "int \<Rightarrow> int" where
  "unix_time ns = ns div 1000000000"

definition put_msg_to_cache :: "client_env \<Rightarrow> int \<Rightarrow> question \<Rightarrow> dns_msg \<Rightarrow> dns_cache \<Rightarrow> dns_cache" where
  "put_msg_to_cache env now q m cache =
     (case cacheable q m of
        None \<Rightarrow> cache
      | Some (m', ttl) \<Rightarrow>
          set_with_expire (unix_time now) (ce_question_text env q) m'
            (unix_time (now + 1000000000 * int (unat ttl))) cache)"

definition exchange_without_cache ::
  "client_env \<Rightarrow> (dns_client list \<Rightarrow> dns_msg \<Rightarrow> nat list) \<Rightarrow> int \<Rightarrow> resolver \<Rightarrow> dns_msg \<Rightarrow> dns_cache \<Rightarrow>
    (string + dns_msg) \<times> dns_cache" where
  "exchange_without_cache env order now r m cache =
     (case fetch env order r m of
        (Inl e, _) \<Rightarrow> (Inl e, cache)
      | (Inr res, may_cache) \<Rightarrow>
          (Inr res, if may_cache then put_msg_to_cache env now (hd (dm_question m)) res cache else cache))"

text \<open>
  \<open>ExchangeContext\<close>; the third result says whether the code goes on to fetch a fresh reply in the
  background (\<open>exchange_without_cache\<close> again, for its effect on the cache).
\<close>

definition exchange_context ::
  "client_env \<Rightarrow> (dns_client list \<Rightarrow> dns_msg \<Rightarrow> nat list) \<Rightarrow> int \<Rightarrow> resolver \<Rightarrow> dns_msg \<Rightarrow> dns_cache \<Rightarrow>
    (string + dns_msg) \<times> dns_cache \<times> bool" where
  "exchange_context env order now r m cache =
     (case dm_question m of
        [] \<Rightarrow> (Inl ''should have one question at least'', cache, False)
      | q # _ \<Rightarrow>
          (case lru_get_with_expire (unix_time now) (ce_question_text env q) cache of
             (Some (res, expires), cache1) \<Rightarrow>
               (if 1000000000 * expires < now then (Inr (set_msg_ttl 1 res), cache1, True)
                else (Inr (update_msg_ttl (of_int (unix_time (1000000000 * expires - now))) res), cache1, False))
           | (None, cache1) \<Rightarrow>
               (case exchange_without_cache env order now r m cache1 of (res, cache2) \<Rightarrow> (res, cache2, False))))"

definition lookup_ip ::
  "client_env \<Rightarrow> (string \<Rightarrow> 16 word \<Rightarrow> dns_msg) \<Rightarrow> (dns_msg \<Rightarrow> string + dns_msg) \<Rightarrow> string \<Rightarrow> 16 word \<Rightarrow> string + addr list" where
  "lookup_ip env query exchange host dns_type =
     (case ce_parse_addr env host of
        Some a \<Rightarrow>
          (let ip = addr_unmap a in
           if dns_type = type_AAAA \<and> \<not> addr_is4 ip then Inr [ip]
           else if dns_type = type_A \<and> addr_is4 ip then Inr [ip]
           else Inl ''ip version error'')
      | None \<Rightarrow>
          attempt (exchange (query host dns_type)) (\<lambda>m.
            let ips = msg_to_ip m in if ips = [] then Inl ''couldn't find ip'' else Inr ips))"

text \<open>
  The two lookups run at once: \<open>LookupIP\<close> waits for the second one until a timer fires,
  \<open>LookupIPPrimaryIPv4\<close> only when the first one failed.
\<close>

definition join_lookups :: "bool \<Rightarrow> string + addr list \<Rightarrow> string + addr list \<Rightarrow> string + addr list" where
  "join_lookups in_time v4 v6 =
     (let ips = (case v4 of Inr ips \<Rightarrow> ips | Inl _ \<Rightarrow> []) in
      if \<not> in_time then Inr ips
      else
        (case v6 of
           Inr ipv6s \<Rightarrow> Inr (ips @ ipv6s)
         | Inl _ \<Rightarrow> (case v4 of Inl _ \<Rightarrow> Inl ''couldn't find ip'' | Inr _ \<Rightarrow> Inr ips)))"

definition primary_lookup :: "string + addr list \<Rightarrow> string + addr list \<Rightarrow> string + addr list" where
  "primary_lookup v4 v6 =
     (case v4 of
        Inr ips \<Rightarrow> Inr ips
      | Inl _ \<Rightarrow> (case v6 of Inr ips \<Rightarrow> Inr ips | Inl _ \<Rightarrow> Inl ''couldn't find ip''))"

definition resolve_ech :: "(dns_msg \<Rightarrow> string + dns_msg) \<Rightarrow> dns_msg \<Rightarrow> string + 8 word list" where
  "resolve_ech exchange query =
     attempt (exchange query) (\<lambda>m.
       case concat (map (\<lambda>r. case rr_data r of
           DHttps vs \<Rightarrow> concat (map (\<lambda>v. case v of SvcbEch b \<Rightarrow> [b] | _ \<Rightarrow> []) vs)
         | _ \<Rightarrow> []) (dm_answer m)) of
         [] \<Rightarrow> Inl ''no ECH config found in DNS records''
       | b # _ \<Rightarrow> Inr b)"

subsection \<open>Building the resolvers\<close>

text \<open>
  \<open>NewResolver\<close>: the resolver for the servers' own names, the main one, and those for proxies and
  direct connections where the configuration has servers for them. \<open>None\<close> is the panic of an unknown
  reply code. The caches start empty; \<open>rv_invalid\<close> is the test that a resolver has a server.
\<close>

record resolver_config =
  dc_main :: "name_server list"
  dc_fallback :: "name_server list"
  dc_default :: "name_server list"
  dc_proxy_server :: "name_server list"
  dc_direct_server :: "name_server list"
  dc_direct_follow_policy :: bool
  dc_ip_filter :: "(addr \<Rightarrow> bool) list"
  dc_domain_filter :: "(string \<Rightarrow> bool) list"
  dc_policy :: "policy_config list"
  dc_proxy_policy :: "policy_config list"

record resolvers =
  rs_default :: resolver
  rs_main :: resolver
  rs_proxy :: "resolver option"
  rs_direct :: "resolver option"

definition rv_invalid :: "resolver option \<Rightarrow> bool" where
  "rv_invalid r = (case r of None \<Rightarrow> False | Some r \<Rightarrow> length (rv_main r) > 0)"

definition plain_resolver :: "dns_client list \<Rightarrow> dns_policy list \<Rightarrow> resolver" where
  "plain_resolver clients policy =
     \<lparr>rv_main = clients, rv_fallback = None, rv_domain_filters = [], rv_ip_filters = [], rv_policy = policy\<rparr>"

fun transform_servers :: "client_env \<Rightarrow> name_server list \<Rightarrow> nat \<Rightarrow> (dns_client list \<times> nat) option" where
  "transform_servers env [] n = Some ([], n)"
| "transform_servers env (ns # rest) n =
     Option.bind (new_client env n ns) (\<lambda>c.
       map_option (map_prod (\<lambda>cs. c # cs) id) (transform_servers env rest (Suc n)))"

definition build_resolver ::
  "client_env \<Rightarrow> name_server list \<Rightarrow> policy_config list \<Rightarrow> server_cache \<Rightarrow> (resolver \<times> server_cache) option" where
  "build_resolver env servers policies st =
     Option.bind (cache_transform env servers st) (\<lambda>(cs, st1).
       map_option (\<lambda>(ps, st2). (plain_resolver cs ps, st2)) (make_policy env policies None st1))"

definition build_optional ::
  "client_env \<Rightarrow> name_server list \<Rightarrow> policy_config list \<Rightarrow> server_cache \<Rightarrow> (resolver option \<times> server_cache) option" where
  "build_optional env servers policies st =
     (if servers = [] then Some (None, st) else map_option (map_prod Some id) (build_resolver env servers policies st))"

definition new_resolver :: "client_env \<Rightarrow> resolver_config \<Rightarrow> resolvers option" where
  "new_resolver env cfg =
     Option.bind (transform_servers env (dc_default cfg) 0) (\<lambda>(defaults, n).
     Option.bind (build_resolver env (dc_main cfg) (dc_policy cfg) \<lparr>sc_next = n, sc_built = []\<rparr>) (\<lambda>(r, st1).
     Option.bind (build_optional env (dc_proxy_server cfg) (dc_proxy_policy cfg) st1) (\<lambda>(proxy, st2).
     Option.bind (build_optional env (dc_direct_server cfg) [] st2) (\<lambda>(direct, st3).
       let direct' = (if dc_direct_follow_policy cfg then map_option (\<lambda>d. d\<lparr>rv_policy := rv_policy r\<rparr>) direct else direct) in
       if dc_fallback cfg = [] then
         Some \<lparr>rs_default = plain_resolver defaults [], rs_main = r, rs_proxy = proxy, rs_direct = direct'\<rparr>
       else
         map_option (\<lambda>(fallback, st4).
           \<lparr>rs_default = plain_resolver defaults [],
             rs_main = r\<lparr>rv_fallback := Some fallback, rv_ip_filters := dc_ip_filter cfg,
               rv_domain_filters := dc_domain_filter cfg\<rparr>,
             rs_proxy = proxy, rs_direct = direct'\<rparr>) (cache_transform env (dc_fallback cfg) st3)))))"

subsection \<open>Sharing of transports\<close>

lemma unwrap_rewrap [simp]: "unwrap_client (rewrap_client env ps c) = unwrap_client c"
proof -
  have "unwrap_client (unwrap_client c) = unwrap_client c" by (induction c) auto
  then show ?thesis by (simp add: rewrap_client_def wrap_disable_types_def wrap_edns0_subnet_def Let_def)
qed

text \<open>A name server over the network, with one value for every parameter.\<close>

definition network_server :: "name_server \<Rightarrow> bool" where
  "network_server ns \<longleftrightarrow> ns_net ns \<noteq> ''rcode'' \<and> distinct (map fst (ns_params ns))"

lemma params_agree_iff:
  "params_agree ps qs \<longleftrightarrow> (\<forall>k v. (k, v) \<in> set ps \<longrightarrow> \<not> is_wrapper_only_param k \<longrightarrow> map_of qs k = Some v)"
  by (auto simp: params_agree_def list_all_iff)

lemma params_agree_trans: "params_agree ps qs \<Longrightarrow> params_agree qs rs \<Longrightarrow> params_agree ps rs"
  unfolding params_agree_iff by (meson map_of_SomeD)

lemma transport_equal_sym: "transport_equal a b \<Longrightarrow> transport_equal b a"
  by (simp add: transport_equal_def same_server_def)

lemma transport_equal_trans: "transport_equal a b \<Longrightarrow> transport_equal b c \<Longrightarrow> transport_equal a c"
  unfolding transport_equal_def same_server_def using params_agree_trans by metis

lemma transport_equal_refl: "network_server a \<Longrightarrow> transport_equal a a"
  by (simp add: transport_equal_def same_server_def params_agree_iff network_server_def)

lemma params_equal_agree:
  assumes "distinct (map fst ps)" and "distinct (map fst qs)" and "params_equal ps qs"
  shows "params_agree ps qs" and "params_agree qs ps"
proof -
  have sub: "set ps \<subseteq> set qs" using assms(3) by (auto simp: params_equal_def list_all_iff dest: map_of_SomeD)
  have "card (set ps) = card (set qs)"
    using assms by (simp add: params_equal_def distinct_card distinct_map)
  then have "set ps = set qs" using sub card_subset_eq by blast
  then show "params_agree ps qs" "params_agree qs ps" using assms(1,2) by (simp_all add: params_agree_iff)
qed

lemma ns_equal_transport: "network_server a \<Longrightarrow> network_server b \<Longrightarrow> ns_equal a b \<Longrightarrow> transport_equal a b"
  using params_equal_agree [of "ns_params a" "ns_params b"]
  by (simp add: ns_equal_def transport_equal_def network_server_def)

lemma find_client_result:
  "case find_client ns cs shared of
     Inl c \<Rightarrow> \<exists>b. (b, c) \<in> set cs \<and> ns_equal b ns
   | Inr (Some c) \<Rightarrow> shared = Some c \<or> (\<exists>b. (b, c) \<in> set cs \<and> transport_equal b ns)
   | Inr None \<Rightarrow> shared = None \<and> (\<forall>(b, c)\<in>set cs. \<not> transport_equal b ns)"
proof (induction ns cs shared rule: find_client.induct)
  case (2 ns other c rest shared)
  show ?case
  proof (cases "ns_equal other ns")
    case False
    then show ?thesis using 2 by (fastforce split: sum.splits option.splits if_splits)
  qed auto
qed (simp split: option.splits)

definition cache_shares :: "server_cache \<Rightarrow> bool" where
  "cache_shares st \<longleftrightarrow>
     (\<forall>a c. (a, c) \<in> set (sc_built st) \<longrightarrow> network_server a \<and> (\<exists>i. i < sc_next st \<and> unwrap_client c = Transport i)) \<and>
     (\<forall>a c b d. (a, c) \<in> set (sc_built st) \<longrightarrow> (b, d) \<in> set (sc_built st) \<longrightarrow>
        (unwrap_client c = unwrap_client d \<longleftrightarrow> transport_equal a b))"

lemma cache_sharesD:
  assumes "cache_shares st" and "(a, c) \<in> set (sc_built st)"
  shows "network_server a" and "\<exists>i. i < sc_next st \<and> unwrap_client c = Transport i"
    and "(b, d) \<in> set (sc_built st) \<Longrightarrow> unwrap_client c = unwrap_client d \<longleftrightarrow> transport_equal a b"
  using assms unfolding cache_shares_def by blast+

text \<open>Adding a server to the list of those built.\<close>

lemma cache_shares_add:
  assumes st: "cache_shares st" and ns: "network_server ns" and fresh: "n \<ge> sc_next st"
    and i: "unwrap_client c = Transport i" "i < n"
    and share: "\<And>b d. (b, d) \<in> set (sc_built st) \<Longrightarrow> unwrap_client d = unwrap_client c \<longleftrightarrow> transport_equal b ns"
  shows "cache_shares \<lparr>sc_next = n, sc_built = sc_built st @ [(ns, c)]\<rparr>"
proof -
  have 1: "network_server a \<and> (\<exists>j. j < n \<and> unwrap_client d = Transport j)" if "(a, d) \<in> set (sc_built st)" for a d
    using cache_sharesD(1,2) [OF st that] fresh by (meson order.strict_trans2)
  have 2: "unwrap_client c = unwrap_client d \<longleftrightarrow> transport_equal ns b" if "(b, d) \<in> set (sc_built st)" for b d
    using share [OF that] transport_equal_sym by metis
  show ?thesis
    unfolding cache_shares_def using 1 2 share ns i transport_equal_refl [OF ns] cache_sharesD(3) [OF st] by auto
qed

lemma cached_client_shares:
  assumes st: "cache_shares st" and ns: "network_server ns" and c: "cached_client env ns st = Some (c, st')"
  shows "cache_shares st' \<and> set (sc_built st) \<subseteq> set (sc_built st') \<and>
    (\<exists>b. (b, c) \<in> set (sc_built st') \<and> transport_equal b ns)"
proof -
  note found = find_client_result [where ns = ns and cs = "sc_built st" and shared = None]
  consider (exact) "find_client ns (sc_built st) None = Inl c" "st' = st"
    | (shared) d where "find_client ns (sc_built st) None = Inr (Some d)" "c = rewrap_client env (ns_params ns) d"
        "st' = \<lparr>sc_next = sc_next st, sc_built = sc_built st @ [(ns, c)]\<rparr>"
    | (new) "find_client ns (sc_built st) None = Inr None" "unwrap_client c = Transport (sc_next st)"
        "st' = \<lparr>sc_next = Suc (sc_next st), sc_built = sc_built st @ [(ns, c)]\<rparr>"
    using c ns by (cases st) (auto simp: cached_client_def Let_def new_client_def network_server_def split: sum.splits option.splits)
  then show ?thesis
  proof cases
    case exact
    then obtain b where b: "(b, c) \<in> set (sc_built st)" "ns_equal b ns" using found by auto
    then have "transport_equal b ns" using ns_equal_transport cache_sharesD(1) [OF st] ns by blast
    then show ?thesis using st exact b(1) by blast
  next
    case shared
    then obtain b where b: "(b, d) \<in> set (sc_built st)" "transport_equal b ns" using found by auto
    obtain i where i: "i < sc_next st" "unwrap_client d = Transport i" using cache_sharesD(2) [OF st b(1)] by blast
    have "cache_shares st'" unfolding shared(3)
    proof (rule cache_shares_add [OF st ns order_refl, of _ i])
      fix e f assume "(e, f) \<in> set (sc_built st)"
      then have "unwrap_client f = unwrap_client d \<longleftrightarrow> transport_equal e b" using cache_sharesD(3) [OF st] b(1) by blast
      then show "unwrap_client f = unwrap_client c \<longleftrightarrow> transport_equal e ns"
        using b(2) transport_equal_trans transport_equal_sym unfolding shared(2) unwrap_rewrap by blast
    qed (use i shared(2) in simp_all)
    then show ?thesis using shared(3) transport_equal_refl [OF ns] by auto
  next
    case new
    have "cache_shares st'" unfolding new(3)
    proof (rule cache_shares_add [OF st ns _ new(2)])
      fix e f assume ef: "(e, f) \<in> set (sc_built st)"
      obtain i where "i < sc_next st" "unwrap_client f = Transport i" using cache_sharesD(2) [OF st ef] by blast
      moreover have "\<not> transport_equal e ns" using found new(1) ef by auto
      ultimately show "unwrap_client f = unwrap_client c \<longleftrightarrow> transport_equal e ns" using new(2) by auto
    qed simp_all
    then show ?thesis using new(3) transport_equal_refl [OF ns] by auto
  qed
qed

lemma cache_transform_shares:
  "cache_shares st \<Longrightarrow> list_all network_server servers \<Longrightarrow> cache_transform env servers st = Some (cs, st') \<Longrightarrow>
   cache_shares st' \<and> set (sc_built st) \<subseteq> set (sc_built st') \<and>
   list_all2 (\<lambda>ns c. \<exists>b. (b, c) \<in> set (sc_built st') \<and> transport_equal b ns) servers cs"
proof (induction servers arbitrary: st cs)
  case (Cons ns rest)
  then obtain c st1 cs1 where c: "cached_client env ns st = Some (c, st1)"
    and rest: "cache_transform env rest st1 = Some (cs1, st')" and cs: "cs = c # cs1"
    by (auto simp: Option.bind_eq_Some_conv)
  have ns: "network_server ns" using Cons.prems(2) by simp
  note step = cached_client_shares [OF Cons.prems(1) ns c]
  have "cache_shares st' \<and> set (sc_built st1) \<subseteq> set (sc_built st') \<and>
      list_all2 (\<lambda>ns c. \<exists>b. (b, c) \<in> set (sc_built st') \<and> transport_equal b ns) rest cs1"
    by (rule Cons.IH [OF _ _ rest]) (use step Cons.prems(2) in simp_all)
  then show ?case using step cs by auto
qed simp

text \<open>
  C21: of the clients that are built for a list of name servers over the network, two use one
  connection exactly when their servers differ at most in the parameters that wrap the client.
\<close>

theorem transports_are_shared_exactly:
  assumes "cache_transform env servers \<lparr>sc_next = 0, sc_built = []\<rparr> = Some (cs, st)"
    and "list_all network_server servers" and "i < length servers" and "j < length servers"
  shows "unwrap_client (cs ! i) = unwrap_client (cs ! j) \<longleftrightarrow> transport_equal (servers ! i) (servers ! j)"
proof -
  have st: "cache_shares st" and l: "list_all2 (\<lambda>ns c. \<exists>b. (b, c) \<in> set (sc_built st) \<and> transport_equal b ns) servers cs"
    using cache_transform_shares [OF _ assms(2,1)] by (simp_all add: cache_shares_def)
  obtain a where a: "(a, cs ! i) \<in> set (sc_built st)" "transport_equal a (servers ! i)"
    using list_all2_nthD [OF l assms(3)] by blast
  obtain b where b: "(b, cs ! j) \<in> set (sc_built st)" "transport_equal b (servers ! j)"
    using list_all2_nthD [OF l assms(4)] by blast
  have "unwrap_client (cs ! i) = unwrap_client (cs ! j) \<longleftrightarrow> transport_equal a b"
    by (rule cache_sharesD(3) [OF st a(1) b(1)])
  then show ?thesis using a(2) b(2) transport_equal_trans transport_equal_sym by blast
qed

theorem transports_are_shared_exactly_witness:
  "\<exists>cs st. cache_transform \<lparr>ce_wire = \<lambda>_ _. Inl [], ce_set_rcode = \<lambda>m _ _. m, ce_parse_prefix = \<lambda>_. None,
       ce_parse_addr = \<lambda>_. None, ce_known_type = \<lambda>_. True, ce_question_text = q_name\<rparr>
     [\<lparr>ns_net = ''udp'', ns_addr = ''1.1.1.1:53'', ns_adapter = None, ns_proxy_name = [], ns_params = [], ns_prefer_h3 = False\<rparr>,
      \<lparr>ns_net = ''udp'', ns_addr = ''1.1.1.1:53'', ns_adapter = None, ns_proxy_name = [],
        ns_params = [(''disable-ipv6'', ''true'')], ns_prefer_h3 = False\<rparr>]
     \<lparr>sc_next = 0, sc_built = []\<rparr> = Some (cs, st) \<and> unwrap_client (cs ! 0) = unwrap_client (cs ! 1)"
proof -
  let ?env = "\<lparr>ce_wire = \<lambda>_ _. Inl [], ce_set_rcode = \<lambda>m _ _. m, ce_parse_prefix = \<lambda>_. None,
    ce_parse_addr = \<lambda>_. None, ce_known_type = \<lambda>_. True, ce_question_text = q_name\<rparr>"
  let ?a = "\<lparr>ns_net = ''udp'', ns_addr = ''1.1.1.1:53'', ns_adapter = None, ns_proxy_name = [], ns_params = [], ns_prefer_h3 = False\<rparr>"
  let ?b = "\<lparr>ns_net = ''udp'', ns_addr = ''1.1.1.1:53'', ns_adapter = None, ns_proxy_name = [],
    ns_params = [(''disable-ipv6'', ''true'')], ns_prefer_h3 = False\<rparr>"
  let ?st = "\<lparr>sc_next = 1, sc_built = [(?a, Transport 0), (?b, DisableTypes [28] (Transport 0))]\<rparr>"
  have run: "cache_transform ?env [?a, ?b] \<lparr>sc_next = 0, sc_built = []\<rparr> = Some ([Transport 0, DisableTypes [28] (Transport 0)], ?st)"
    by code_simp
  have "transport_equal ?a ?b" by code_simp
  then show ?thesis
    using transports_are_shared_exactly [OF run, of 0 1] run by (simp add: network_server_def)
qed

subsection \<open>Replies from the cache\<close>

lemma cacheable_Some:
  assumes "cacheable q m = Some (m', ttl)"
  shows "dm_answer m' = dm_answer m" and "ttl \<noteq> 0"
    and "dm_rcode m \<noteq> rcode_server_failure \<Longrightarrow> dm_answer m \<noteq> [] \<Longrightarrow> ttl \<le> minimal_ttl (dm_answer m)"
    and "dm_rcode m \<noteq> rcode_server_failure \<Longrightarrow> r \<in> set (dm_answer m) \<Longrightarrow> ttl \<le> rr_ttl r"
proof -
  show "dm_answer m' = dm_answer m" "ttl \<noteq> 0" using assms by (auto simp: cacheable_def Let_def split: if_splits)
  show le: "ttl \<le> rr_ttl r" if "dm_rcode m \<noteq> rcode_server_failure" "r \<in> set (dm_answer m)" for r
    using assms that by (auto simp: cacheable_def Let_def intro!: minimal_ttl_le split: if_splits)
  show "ttl \<le> minimal_ttl (dm_answer m)" if "dm_rcode m \<noteq> rcode_server_failure" "dm_answer m \<noteq> []"
    using le that minimal_ttl_in [of "dm_answer m"] by auto
qed

text \<open>
  a reply with answers that the resolver has fetched and may cache is served from the cache for
  the lifetime of its shortest record. Every record served then has lost the time between the
  shortest lifetime and what is left of it, but keeps at least a second, so no record is served
  for longer than it was given.
\<close>

theorem cached_reply_ages:
  assumes "lru_ok cache" and "l_max_age cache \<le> 0" and "dm_question m = q # qs"
    and "fetch env order r m = (Inr res, True)" and "dm_rcode res \<noteq> rcode_server_failure"
    and "dm_answer res \<noteq> []" and "cacheable q res = Some (kept, ttl)"
    and "expires = unix_time now + int (unat ttl)" and "now \<le> later" and "later \<le> 1000000000 * expires"
    and "left = unix_time (1000000000 * expires - later)"
  shows "\<exists>served cache'.
    exchange_context env order' later r' m (snd (exchange_without_cache env order now r m cache)) = (Inr served, cache', False) \<and>
    dm_answer served = map (\<lambda>x. x\<lparr>rr_ttl := (if rr_ttl x = minimal_ttl (dm_answer res) - word_of_int left then 1
      else rr_ttl x - (minimal_ttl (dm_answer res) - word_of_int left))\<rparr>) (dm_answer res) \<and>
    0 \<le> left \<and> left \<le> int (unat ttl) \<and> ttl \<le> minimal_ttl (dm_answer res)"
proof -
  have put: "snd (exchange_without_cache env order now r m cache) =
      set_with_expire (unix_time now) (ce_question_text env q) kept expires cache"
    using assms(3,4,7,8)
    by (simp add: exchange_without_cache_def put_msg_to_cache_def unix_time_def add.commute [of "uint ttl"])
  obtain cache' where get: "lru_get_with_expire (unix_time later) (ce_question_text env q)
      (set_with_expire (unix_time now) (ce_question_text env q) kept expires cache) = (Some (kept, expires), cache')"
    using get_after_set_with_expire [OF assms(1,2)] by (metis prod.collapse)
  have ttl: "ttl \<le> minimal_ttl (dm_answer res)" using cacheable_Some(3) [OF assms(7,5,6)] .
  have left: "0 \<le> left" using assms(10,11) by (simp add: unix_time_def)
  have "1000000000 * expires - later \<le> 1000000000 * (unix_time now + int (unat ttl)) - now"
    using assms(8,9) by simp
  also have "\<dots> \<le> 1000000000 * int (unat ttl)"
    using mult_div_mod_eq [of 1000000000 now] pos_mod_sign [of 1000000000 now] by (simp add: unix_time_def algebra_simps)
  finally have "(1000000000 * expires - later) div 1000000000 \<le> (1000000000 * int (unat ttl)) div 1000000000"
    by (rule zdiv_mono1) simp
  then have le: "left \<le> int (unat ttl)" by (simp add: assms(11) unix_time_def)
  have "(word_of_int left :: 32 word) \<le> ttl"
  proof -
    have "(word_of_int left :: 32 word) = word_of_nat (nat left)" using left by simp
    moreover have "unat (word_of_nat (nat left) :: 32 word) \<le> nat left" by (simp add: unat_of_nat)
    moreover have "nat left \<le> unat ttl" using nat_mono [OF le] by (simp only: nat_int)
    ultimately show ?thesis unfolding word_le_nat_alt by (metis order.trans)
  qed
  then have "update_ttl (word_of_int left) (dm_answer res) = map (\<lambda>x. x\<lparr>rr_ttl := (if rr_ttl x = minimal_ttl (dm_answer res) - word_of_int left then 1
      else rr_ttl x - (minimal_ttl (dm_answer res) - word_of_int left))\<rparr>) (dm_answer res)"
    using ttl by (intro update_ttl_exact) simp
  then show ?thesis
    using get put assms(3,10,11) left ttl le cacheable_Some(1) [OF assms(7)]
    by (simp add: exchange_context_def update_msg_ttl_def)
qed

definition demo_question :: question where
  "demo_question = \<lparr>q_name = ''a.b.'', q_type = 1, q_class = 1\<rparr>"

definition demo_reply :: dns_msg where
  "demo_reply = empty_msg\<lparr>dm_question := [demo_question],
     dm_answer := [\<lparr>rr_name = ''a.b.'', rr_type = 1, rr_class = 1, rr_ttl = 300, rr_data = DA [1, 2, 3, 4]\<rparr>,
       \<lparr>rr_name = ''a.b.'', rr_type = 1, rr_class = 1, rr_ttl = 60, rr_data = DA [1, 2, 3, 5]\<rparr>]\<rparr>"

definition demo_client_env :: client_env where
  "demo_client_env = \<lparr>ce_wire = \<lambda>_ _. Inr demo_reply, ce_set_rcode = \<lambda>m _ _. m, ce_parse_prefix = \<lambda>_. None,
     ce_parse_addr = \<lambda>_. None, ce_known_type = \<lambda>_. True, ce_question_text = q_name\<rparr>"

definition demo_resolver :: resolver where
  "demo_resolver = \<lparr>rv_main = [Transport 0], rv_fallback = None, rv_domain_filters = [], rv_ip_filters = [], rv_policy = []\<rparr>"

theorem cached_reply_ages_witness:
  "\<exists>served cache'. exchange_context demo_client_env (\<lambda>_ _. [0]) 20000000000 demo_resolver (empty_msg\<lparr>dm_question := [demo_question]\<rparr>)
      (snd (exchange_without_cache demo_client_env (\<lambda>_ _. [0]) 0 demo_resolver (empty_msg\<lparr>dm_question := [demo_question]\<rparr>)
        (lru_new 0 4096 False True))) = (Inr served, cache', False) \<and>
    map rr_ttl (dm_answer served) = [280, 40]"
proof -
  let ?m = "empty_msg\<lparr>dm_question := [demo_question]\<rparr>"
  have "fetch demo_client_env (\<lambda>_ _. [0]) demo_resolver ?m = (Inr demo_reply, True)"
    by (simp add: fetch_def Let_def ip_exchange_def batch_exchange_def demo_resolver_def demo_client_env_def demo_question_def
        is_ip_request_def dns_types match_policy_def usable_answer_def demo_reply_def rcode_server_failure_def
        rcode_refused_def empty_msg_def)
  moreover have "cacheable demo_question demo_reply = Some (demo_reply, 60)" by code_simp
  moreover have "minimal_ttl (dm_answer demo_reply) = 60" by code_simp
  moreover have "lru_ok (lru_new 0 4096 False True :: dns_cache)"
    by (simp add: lru_ok_def lru_idx_new lru_bounded_def) (simp add: lru_new_def)
  ultimately show ?thesis
    using cached_reply_ages [of "lru_new 0 4096 False True" ?m demo_question "[]" demo_client_env "\<lambda>_ _. [0]" demo_resolver
        demo_reply demo_reply 60 60 0 20000000000 40 "\<lambda>_ _. [0]" demo_resolver]
    by (auto simp: lru_new_def unix_time_def demo_reply_def rcode_server_failure_def empty_msg_def)
qed

subsection \<open>Fallback servers\<close>

text \<open>
  C22: with fallback servers and no policy for the name, an address that one of the filters rejects
  is never taken from the main servers: a reply is the one of the fallback servers, or it has
  addresses, all of which pass, and its name is not reserved for the fallback servers.
\<close>

theorem rejected_addresses_need_fallback:
  assumes "ip_exchange env order r m = Inr res" and "match_policy r m = []" and "rv_fallback r = Some fallback"
  shows "fst (batch_exchange env order fallback m) = Inr res \<or>
    (fst (batch_exchange env order (rv_main r) m) = Inr res \<and> \<not> should_only_query_fallback r m \<and>
     msg_to_ip res \<noteq> [] \<and> list_all (\<lambda>ip. \<not> should_ip_fallback r ip) (msg_to_ip res))"
  using assms by (auto simp: ip_exchange_def Let_def split: if_splits sum.splits)

theorem rejected_addresses_need_fallback_witness:
  "list_all (\<lambda>ip. \<not> should_ip_fallback (demo_resolver\<lparr>rv_fallback := Some [RCode 0], rv_ip_filters := [\<lambda>ip. ip = V4 0x0A000001]\<rparr>) ip)
     (msg_to_ip demo_reply)"
proof -
  let ?m = "empty_msg\<lparr>dm_question := [demo_question]\<rparr>"
  let ?r = "demo_resolver\<lparr>rv_fallback := Some [RCode 0], rv_ip_filters := [\<lambda>ip. ip = V4 0x0A000001]\<rparr>"
  have "ip_exchange demo_client_env (\<lambda>_ _. [0]) ?r ?m = Inr demo_reply" by code_simp
  moreover have "match_policy ?r ?m = []" "rv_fallback ?r = Some [RCode 0]" by code_simp+
  moreover have "fst (batch_exchange demo_client_env (\<lambda>_ _. [0]) [RCode 0] ?m) \<noteq> Inr demo_reply" by code_simp
  ultimately show ?thesis
    using rejected_addresses_need_fallback [of demo_client_env "\<lambda>_ _. [0]" ?r ?m demo_reply "[RCode 0]"] by blast
qed

end
