(* ===== verification/Fakeip_Pool.thy ===== *)
theory Fakeip_Pool
  imports Lru_Cache Net_Addr
begin

text \<open>
  The pool of fake addresses (\<open>component/fakeip/pool.go\<close>) and its store in memory
  (\<open>component/fakeip/memory.go\<close>). The interface \<open>store\<close> is the record \<open>store_ops\<close> of its methods, an
  argument of the operations of the pool; \<open>so_persistent\<close> is the type test for the store on disk.
  The caches of the store in memory have no age, so the clock they are given is never read.
\<close>

subsection \<open>The store interface and the store in memory\<close>

record 's store_ops =
  so_get_by_host :: "string \<Rightarrow> 's \<Rightarrow> addr option \<times> 's"
  so_put_by_host :: "string \<Rightarrow> addr \<Rightarrow> 's \<Rightarrow> 's"
  so_get_by_ip :: "addr \<Rightarrow> 's \<Rightarrow> string option \<times> 's"
  so_put_by_ip :: "addr \<Rightarrow> string \<Rightarrow> 's \<Rightarrow> 's"
  so_del_by_ip :: "addr \<Rightarrow> 's \<Rightarrow> 's"
  so_exist :: "addr \<Rightarrow> 's \<Rightarrow> bool"
  so_clone_to :: "'s \<Rightarrow> 's \<Rightarrow> 's"
  so_flush :: "'s \<Rightarrow> 's \<times> string option"
  so_persistent :: bool

record memory_store =
  cache_ip :: "(string, addr) lru"
  cache_host :: "(addr, string) lru"

definition mem_get_by_host :: "string \<Rightarrow> memory_store \<Rightarrow> addr option \<times> memory_store" where
  "mem_get_by_host host m =
     (case lru_get 0 host (cache_ip m) of
        (Some ip, c) \<Rightarrow>
          (Some ip, m\<lparr>cache_ip := c, cache_host := snd (lru_get 0 ip (cache_host m))\<rparr>)
      | (None, c) \<Rightarrow> (None, m\<lparr>cache_ip := c\<rparr>))"

definition mem_put_by_host :: "string \<Rightarrow> addr \<Rightarrow> memory_store \<Rightarrow> memory_store" where
  "mem_put_by_host host ip m = m\<lparr>cache_ip := lru_set 0 host ip (cache_ip m)\<rparr>"

definition mem_get_by_ip :: "addr \<Rightarrow> memory_store \<Rightarrow> string option \<times> memory_store" where
  "mem_get_by_ip ip m =
     (case lru_get 0 ip (cache_host m) of
        (Some host, c) \<Rightarrow>
          (Some host, m\<lparr>cache_host := c, cache_ip := snd (lru_get 0 host (cache_ip m))\<rparr>)
      | (None, c) \<Rightarrow> (None, m\<lparr>cache_host := c\<rparr>))"

definition mem_put_by_ip :: "addr \<Rightarrow> string \<Rightarrow> memory_store \<Rightarrow> memory_store" where
  "mem_put_by_ip ip host m = m\<lparr>cache_host := lru_set 0 ip host (cache_host m)\<rparr>"

definition mem_del_by_ip :: "addr \<Rightarrow> memory_store \<Rightarrow> memory_store" where
  "mem_del_by_ip ip m =
     (let (host, c) = lru_get 0 ip (cache_host m);
          m1 = m\<lparr>cache_host := c\<rparr>;
          m2 = (case host of
                  Some h \<Rightarrow> m1\<lparr>cache_ip := lru_delete h (cache_ip m1)\<rparr>
                | None \<Rightarrow> m1) in
      m2\<lparr>cache_host := lru_delete ip (cache_host m2)\<rparr>)"

definition mem_exist :: "addr \<Rightarrow> memory_store \<Rightarrow> bool" where
  "mem_exist ip m = lru_exist ip (cache_host m)"

definition mem_clone_to :: "memory_store \<Rightarrow> memory_store \<Rightarrow> memory_store" where
  "mem_clone_to m ms =
     ms\<lparr>cache_ip := lru_clone_to (cache_ip m) (cache_ip ms),
        cache_host := lru_clone_to (cache_host m) (cache_host ms)\<rparr>"

definition mem_flush :: "memory_store \<Rightarrow> memory_store \<times> string option" where
  "mem_flush m = (m\<lparr>cache_ip := lru_clear (cache_ip m), cache_host := lru_clear (cache_host m)\<rparr>, None)"

definition new_memory_store :: "int \<Rightarrow> memory_store" where
  "new_memory_store size_limit =
     \<lparr>cache_ip = lru_new 0 size_limit False False, cache_host = lru_new 0 size_limit False False\<rparr>"

definition memory_ops :: "memory_store store_ops" where
  "memory_ops = \<lparr>so_get_by_host = mem_get_by_host, so_put_by_host = mem_put_by_host,
     so_get_by_ip = mem_get_by_ip, so_put_by_ip = mem_put_by_ip, so_del_by_ip = mem_del_by_ip,
     so_exist = mem_exist, so_clone_to = mem_clone_to, so_flush = mem_flush, so_persistent = False\<rparr>"

subsection \<open>The pool\<close>

record 's pool =
  p_gateway :: addr
  p_first :: addr
  p_last :: addr
  p_offset :: addr
  p_cycle :: bool
  p_ipnet :: net_prefix
  p_store :: 's

definition offset_key :: string where
  "offset_key = ''key-offset-fake-ip''"

definition cycle_key :: string where
  "cycle_key = ''key-cycle-fake-ip''"

definition pool_get :: "'s store_ops \<Rightarrow> string \<Rightarrow> 's pool \<Rightarrow> addr \<times> 's pool" where
  "pool_get ops host p0 =
     (let p1 = p0\<lparr>p_offset := addr_next (p_offset p0)\<rparr>;
          p2 = (if \<not> addr_less (p_offset p1) (p_last p1)
                then p1\<lparr>p_cycle := True, p_offset := p_first p1\<rparr> else p1);
          p3 = (if p_cycle p2 \<or> so_exist ops (p_offset p2) (p_store p2)
                then p2\<lparr>p_store := so_del_by_ip ops (p_offset p2) (p_store p2)\<rparr> else p2) in
      (p_offset p3, p3\<lparr>p_store := so_put_by_ip ops (p_offset p3) host (p_store p3)\<rparr>))"

definition pool_lookup :: "'s store_ops \<Rightarrow> string \<Rightarrow> 's pool \<Rightarrow> addr \<times> 's pool" where
  "pool_lookup ops host0 p =
     (let host = to_lower host0 in
      case so_get_by_host ops host (p_store p) of
        (Some ip, s) \<Rightarrow> (ip, p\<lparr>p_store := s\<rparr>)
      | (None, s) \<Rightarrow>
          (let (ip, p1) = pool_get ops host (p\<lparr>p_store := s\<rparr>) in
           (ip, p1\<lparr>p_store := so_put_by_host ops host ip (p_store p1)\<rparr>)))"

definition pool_look_back :: "'s store_ops \<Rightarrow> addr \<Rightarrow> 's pool \<Rightarrow> string option \<times> 's pool" where
  "pool_look_back ops ip p =
     (let (host, s) = so_get_by_ip ops ip (p_store p) in (host, p\<lparr>p_store := s\<rparr>))"

definition pool_exist :: "'s store_ops \<Rightarrow> addr \<Rightarrow> 's pool \<Rightarrow> bool" where
  "pool_exist ops ip p = so_exist ops ip (p_store p)"

definition pool_clone_from :: "'s store_ops \<Rightarrow> 's pool \<Rightarrow> 's pool \<Rightarrow> 's pool" where
  "pool_clone_from ops o_pool p =
     (let p1 = p\<lparr>p_store := so_clone_to ops (p_store o_pool) (p_store p)\<rparr> in
      if p_first o_pool = p_first p \<and> p_last o_pool = p_last p
      then p1\<lparr>p_offset := p_offset o_pool, p_cycle := p_cycle o_pool\<rparr> else p1)"

definition pool_flush :: "'s store_ops \<Rightarrow> 's pool \<Rightarrow> 's pool \<times> string option" where
  "pool_flush ops p =
     (let (s, err) = so_flush ops (p_store p); p1 = p\<lparr>p_store := s\<rparr> in
      if err = None then (p1\<lparr>p_cycle := False, p_offset := addr_prev (p_first p1)\<rparr>, None)
      else (p1, err))"

definition pool_store_state :: "'s store_ops \<Rightarrow> 's pool \<Rightarrow> 's pool" where
  "pool_store_state ops p =
     (if so_persistent ops then
        (let s1 = so_put_by_host ops offset_key (p_offset p) (p_store p) in
         p\<lparr>p_store := if p_cycle p then so_put_by_host ops cycle_key (p_offset p) s1 else s1\<rparr>)
      else p)"

definition pool_restore_state :: "'s store_ops \<Rightarrow> 's pool \<Rightarrow> 's pool" where
  "pool_restore_state ops p =
     (if so_persistent ops then
        (let (cyc, s1) = so_get_by_host ops cycle_key (p_store p);
             p1 = p\<lparr>p_store := s1, p_cycle := (if cyc \<noteq> None then True else p_cycle p)\<rparr>;
             (off, s2) = so_get_by_host ops offset_key (p_store p1);
             p2 = p1\<lparr>p_store := s2\<rparr> in
         case off of
           Some offset \<Rightarrow>
             (if prefix_contains (p_ipnet p2) offset then p2\<lparr>p_offset := offset\<rparr>
              else fst (pool_flush ops p2))
         | None \<Rightarrow> (if so_exist ops (p_first p2) (p_store p2) then fst (pool_flush ops p2) else p2))
      else p)"

text \<open>
  \<open>New\<close>; the argument \<open>last_ip\<close> is \<open>netipx.PrefixLastIP\<close>, the last address of a prefix.
\<close>

definition new_pool :: "'s store_ops \<Rightarrow> 's \<Rightarrow> (net_prefix \<Rightarrow> addr) \<Rightarrow> net_prefix \<Rightarrow> string + 's pool" where
  "new_pool ops store last_ip ipnet =
     (let gateway = addr_next (prefix_addr (prefix_masked ipnet));
          first = addr_next (addr_next (addr_next gateway));
          last_addr = last_ip ipnet in
      if \<not> prefix_valid ipnet \<or> \<not> addr_valid first \<or> \<not> addr_less first last_addr
      then Inl ''ipnet don't have valid ip''
      else Inr (pool_restore_state ops
                  \<lparr>p_gateway = gateway, p_first = first, p_last = last_addr, p_offset = addr_prev first,
                   p_cycle = False, p_ipnet = ipnet, p_store = store\<rparr>))"

subsection \<open>The contract of a store\<close>

locale fake_store =
  fixes ops :: "'s store_ops" and ok :: "'s \<Rightarrow> bool" and names :: "'s \<Rightarrow> (string \<times> addr) set"
  assumes one_address: "ok s \<Longrightarrow> (h, a) \<in> names s \<Longrightarrow> (h, b) \<in> names s \<Longrightarrow> a = b"
    and one_name: "ok s \<Longrightarrow> (g, a) \<in> names s \<Longrightarrow> (h, a) \<in> names s \<Longrightarrow> g = h"
    and get_host: "ok s \<Longrightarrow> fst (so_get_by_host ops h s) = Some a \<longleftrightarrow> (h, a) \<in> names s"
    and get_host_ok: "ok s \<Longrightarrow> ok (snd (so_get_by_host ops h s))"
    and get_host_names: "ok s \<Longrightarrow> names (snd (so_get_by_host ops h s)) = names s"
    and get_ip: "ok s \<Longrightarrow> fst (so_get_by_ip ops a s) = Some h \<longleftrightarrow> (h, a) \<in> names s"
    and get_ip_ok: "ok s \<Longrightarrow> ok (snd (so_get_by_ip ops a s))"
    and get_ip_names: "ok s \<Longrightarrow> names (snd (so_get_by_ip ops a s)) = names s"
    and exist: "ok s \<Longrightarrow> so_exist ops a s \<longleftrightarrow> (\<exists>h. (h, a) \<in> names s)"
    and del_ok: "ok s \<Longrightarrow> ok (so_del_by_ip ops a s)"
    and del_names: "ok s \<Longrightarrow> names (so_del_by_ip ops a s) = {(h, b). (h, b) \<in> names s \<and> b \<noteq> a}"
    and bind_ok: "ok s \<Longrightarrow> \<forall>b. (h, b) \<notin> names s \<Longrightarrow> \<forall>g. (g, a) \<notin> names s \<Longrightarrow>
      ok (so_put_by_host ops h a (so_put_by_ip ops a h s))"
    and bind_new: "ok s \<Longrightarrow> \<forall>b. (h, b) \<notin> names s \<Longrightarrow> \<forall>g. (g, a) \<notin> names s \<Longrightarrow>
      (h, a) \<in> names (so_put_by_host ops h a (so_put_by_ip ops a h s))"
    and bind_old: "ok s \<Longrightarrow> \<forall>b. (h, b) \<notin> names s \<Longrightarrow> \<forall>g. (g, a) \<notin> names s \<Longrightarrow>
      names (so_put_by_host ops h a (so_put_by_ip ops a h s)) \<subseteq> insert (h, a) (names s)"
    and flush_ok: "ok s \<Longrightarrow> snd (so_flush ops s) = None \<Longrightarrow> ok (fst (so_flush ops s))"
    and flush_names: "ok s \<Longrightarrow> snd (so_flush ops s) = None \<Longrightarrow> names (fst (so_flush ops s)) = {}"
    and flush_failed: "ok s \<Longrightarrow> snd (so_flush ops s) \<noteq> None \<Longrightarrow> fst (so_flush ops s) = s"

subsection \<open>The range of a pool\<close>

text \<open>The addresses from the first one up to, not including, the last.\<close>

fun in_range :: "addr \<Rightarrow> addr \<Rightarrow> addr \<Rightarrow> bool" where
  "in_range (V4 f) (V4 l) (V4 a) = (f \<le> a \<and> a < l)"
| "in_range (V6 f y) (V6 l z) (V6 a x) = (f \<le> a \<and> a < l \<and> x = [] \<and> y = [] \<and> z = [])"
| "in_range _ _ _ = False"

fun range_shape :: "addr \<Rightarrow> addr \<Rightarrow> bool" where
  "range_shape (V4 f) (V4 l) = (0 < f \<and> f < l)"
| "range_shape (V6 f y) (V6 l z) = (0 < f \<and> f < l \<and> y = [] \<and> z = [])"
| "range_shape _ _ = False"

definition pool_shape :: "'s pool \<Rightarrow> bool" where
  "pool_shape p \<longleftrightarrow> range_shape (p_first p) (p_last p) \<and>
     (p_offset p = addr_prev (p_first p) \<or> in_range (p_first p) (p_last p) (p_offset p))"

definition next_offset :: "'s pool \<Rightarrow> addr" where
  "next_offset p =
     (if addr_less (addr_next (p_offset p)) (p_last p) then addr_next (p_offset p) else p_first p)"

lemma first_in_range: "range_shape f l \<Longrightarrow> in_range f l f"
  by (cases "(f, l)" rule: range_shape.cases) auto

lemma word_next: "f \<le> (a::'a::len word) \<Longrightarrow> a < l \<Longrightarrow> a \<noteq> - 1 \<and> f \<le> a + 1 \<and> (a + 1 < l \<or> a + 1 = l)"
proof -
  assume a: "f \<le> a" "a < l"
  have "l \<le> - 1" by (rule word_n1_ge)
  then have ne: "a \<noteq> - 1" using a(2) by auto
  then have "1 + a \<noteq> 0" by (metis add.commute eq_neg_iff_add_eq_0)
  then have up: "unat (a + 1) = Suc (unat a)" by (metis add.commute unatSuc)
  have "f \<le> a + 1" using a(1) up by (simp add: word_le_nat_alt)
  moreover have "a + 1 \<le> l" using a(2) up by (simp add: word_le_nat_alt word_less_nat_alt)
  ultimately show ?thesis using ne by auto
qed

lemma next_offset_in_range:
  assumes "pool_shape p"
  shows "in_range (p_first p) (p_last p) (next_offset p)"
proof -
  let ?f = "p_first p" and ?l = "p_last p" and ?o = "p_offset p"
  have shape: "range_shape ?f ?l" and off: "?o = addr_prev ?f \<or> in_range ?f ?l ?o"
    using assms by (auto simp: pool_shape_def)
  from shape consider (v4) f l where "?f = V4 f" "?l = V4 l" "0 < f" "f < l"
    | (v6) f l where "?f = V6 f []" "?l = V6 l []" "0 < f" "f < l"
    by (cases "(?f, ?l)" rule: range_shape.cases) auto
  then show ?thesis
  proof cases
    case v4
    then have pos: "f \<noteq> 0" by auto
    then have "f - 1 \<noteq> - 1" by (metis add.right_neutral diff_add_cancel eq_neg_iff_add_eq_0)
    then show ?thesis
      using off v4 pos word_next [of f _ l]
      by (cases ?o) (auto simp: next_offset_def)
  next
    case v6
    then have pos: "f \<noteq> 0" by auto
    then have "f - 1 \<noteq> - 1" by (metis add.right_neutral diff_add_cancel eq_neg_iff_add_eq_0)
    then show ?thesis
      using off v6 pos word_next [of f _ l]
      by (cases ?o) (auto simp: next_offset_def)
  qed
qed

definition pool_ok :: "('s \<Rightarrow> bool) \<Rightarrow> ('s \<Rightarrow> (string \<times> addr) set) \<Rightarrow> 's pool \<Rightarrow> bool" where
  "pool_ok ok names p \<longleftrightarrow> pool_shape p \<and> ok (p_store p) \<and>
     (\<forall>h a. (h, a) \<in> names (p_store p) \<longrightarrow> in_range (p_first p) (p_last p) a \<and> to_lower h = h)"

subsection \<open>Allocation under the contract\<close>

lemma pool_get_eq:
  "pool_get ops host p =
     (let a = next_offset p; cyc = p_cycle p \<or> \<not> addr_less (addr_next (p_offset p)) (p_last p);
          s = (if cyc \<or> so_exist ops a (p_store p) then so_del_by_ip ops a (p_store p) else p_store p) in
      (a, p\<lparr>p_offset := a, p_cycle := cyc, p_store := so_put_by_ip ops a host s\<rparr>))"
  by (auto simp: pool_get_def next_offset_def Let_def)

text \<open>What the other components do with a pool, one call at a time.\<close>

inductive pool_step :: "'s store_ops \<Rightarrow> 's pool \<Rightarrow> 's pool \<Rightarrow> bool" for ops where
  Lookup: "pool_step ops p (snd (pool_lookup ops h p))"
| LookBack: "pool_step ops p (snd (pool_look_back ops a p))"
| Flush: "pool_step ops p (fst (pool_flush ops p))"

inductive_cases pool_stepE: "pool_step ops p p'"

context fake_store
begin

lemma freed:
  assumes "ok s" and "s' = (if c \<or> so_exist ops a s then so_del_by_ip ops a s else s)"
  shows "ok s'" and "names s' \<subseteq> names s" and "(g, a) \<notin> names s'"
  using assms del_ok [of s a] del_names [of s a] exist [of s a] by auto

lemma lookup_hit:
  assumes "ok (p_store p)" and "(to_lower h, a) \<in> names (p_store p)"
  shows "pool_lookup ops h p = (a, p\<lparr>p_store := snd (so_get_by_host ops (to_lower h) (p_store p))\<rparr>)"
  using get_host [of "p_store p" "to_lower h" a] assms
  by (cases "so_get_by_host ops (to_lower h) (p_store p)") (simp add: pool_lookup_def Let_def)

lemma lookup_miss:
  assumes ok: "ok (p_store p)" and miss: "\<forall>a. (to_lower h, a) \<notin> names (p_store p)"
  shows "\<exists>s. pool_lookup ops h p = (next_offset p, p\<lparr>p_offset := next_offset p,
      p_cycle := p_cycle p \<or> \<not> addr_less (addr_next (p_offset p)) (p_last p), p_store := s\<rparr>) \<and>
    ok s \<and> (to_lower h, next_offset p) \<in> names s \<and> names s \<subseteq> insert (to_lower h, next_offset p) (names (p_store p))"
proof -
  let ?h = "to_lower h" and ?a = "next_offset p"
  let ?c = "p_cycle p \<or> \<not> addr_less (addr_next (p_offset p)) (p_last p)"
  define s0 where "s0 = snd (so_get_by_host ops ?h (p_store p))"
  have s0: "ok s0" "names s0 = names (p_store p)"
    using get_host_ok get_host_names ok by (auto simp: s0_def)
  have get: "so_get_by_host ops ?h (p_store p) = (None, s0)"
  proof (cases "fst (so_get_by_host ops ?h (p_store p))")
    case None
    then show ?thesis by (simp add: s0_def prod_eq_iff)
  next
    case (Some a)
    then show ?thesis using get_host [OF ok, of ?h a] miss by simp
  qed
  define s1 where "s1 = (if ?c \<or> so_exist ops ?a s0 then so_del_by_ip ops ?a s0 else s0)"
  have s1: "ok s1" "names s1 \<subseteq> names (p_store p)" "\<forall>g. (g, ?a) \<notin> names s1"
    using freed [OF s0(1) s1_def] s0(2) by auto
  then have free: "\<forall>b. (?h, b) \<notin> names s1" using miss by blast
  define s2 where "s2 = so_put_by_host ops ?h ?a (so_put_by_ip ops ?a ?h s1)"
  have "next_offset (p\<lparr>p_store := s0\<rparr>) = ?a" by (simp add: next_offset_def)
  then have "pool_lookup ops h p = (?a, p\<lparr>p_offset := ?a, p_cycle := ?c, p_store := s2\<rparr>)"
    by (simp add: pool_lookup_def get pool_get_eq Let_def s1_def s2_def)
  then show ?thesis
    using bind_ok [OF s1(1) free s1(3)] bind_new [OF s1(1) free s1(3)] bind_old [OF s1(1) free s1(3)] s1(2)
    by (auto simp: s2_def)
qed

lemma lookup_ok:
  assumes "pool_ok ok names p" and "pool_lookup ops h p = (a, p')"
  shows "pool_ok ok names p' \<and> p_first p' = p_first p \<and> p_last p' = p_last p \<and>
    (to_lower h, a) \<in> names (p_store p')"
proof -
  have okp: "ok (p_store p)" using assms(1) by (simp add: pool_ok_def)
  show ?thesis
  proof (cases "\<exists>b. (to_lower h, b) \<in> names (p_store p)")
    case True
    then obtain b where b: "(to_lower h, b) \<in> names (p_store p)" by blast
    show ?thesis
      using lookup_hit [OF okp b] assms b get_host_ok [OF okp] get_host_names [OF okp]
      by (auto simp: pool_ok_def pool_shape_def)
  next
    case False
    then obtain s where "pool_lookup ops h p = (next_offset p, p\<lparr>p_offset := next_offset p,
        p_cycle := p_cycle p \<or> \<not> addr_less (addr_next (p_offset p)) (p_last p), p_store := s\<rparr>)"
      and "ok s" "(to_lower h, next_offset p) \<in> names s"
      "names s \<subseteq> insert (to_lower h, next_offset p) (names (p_store p))"
      using lookup_miss [OF okp] by blast
    moreover have "in_range (p_first p) (p_last p) (next_offset p)"
      using assms(1) by (intro next_offset_in_range) (simp add: pool_ok_def)
    ultimately show ?thesis using assms by (auto simp: pool_ok_def pool_shape_def)
  qed
qed

lemma look_back_ok:
  "pool_ok ok names p \<Longrightarrow> pool_ok ok names (snd (pool_look_back ops a p)) \<and>
   names (p_store (snd (pool_look_back ops a p))) = names (p_store p)"
  using get_ip_ok [of "p_store p" a] get_ip_names [of "p_store p" a]
  by (auto simp: pool_look_back_def pool_ok_def pool_shape_def split: prod.split)

lemma look_back_iff:
  "pool_ok ok names p \<Longrightarrow> fst (pool_look_back ops a p) = Some h \<longleftrightarrow> (h, a) \<in> names (p_store p)"
  using get_ip [of "p_store p" a h] by (simp add: pool_look_back_def pool_ok_def case_prod_unfold Let_def)

lemma flush_pool_ok:
  "pool_ok ok names p \<Longrightarrow> pool_ok ok names (fst (pool_flush ops p))"
  using flush_ok [of "p_store p"] flush_names [of "p_store p"] flush_failed [of "p_store p"]
  by (auto simp: pool_flush_def pool_ok_def pool_shape_def Let_def split: prod.split)

lemma step_ok:
  assumes "pool_step ops p p'" and "pool_ok ok names p"
  shows "pool_ok ok names p' \<and> p_first p' = p_first p \<and> p_last p' = p_last p"
proof -
  consider (look) h where "p' = snd (pool_lookup ops h p)" | (look_back) a where "p' = snd (pool_look_back ops a p)"
    | (empty) "p' = fst (pool_flush ops p)"
    using assms(1) by (elim pool_stepE) auto
  then show ?thesis
  proof cases
    case look
    then show ?thesis using lookup_ok [OF assms(2), of h] by (cases "pool_lookup ops h p") simp
  next
    case look_back
    then show ?thesis
      using look_back_ok [OF assms(2), of a] by (auto simp: pool_look_back_def split: prod.split)
  next
    case empty
    then show ?thesis
      using flush_pool_ok [OF assms(2)] by (auto simp: pool_flush_def Let_def split: prod.split)
  qed
qed

lemma steps_ok:
  assumes "(pool_step ops)\<^sup>*\<^sup>* p p'" and "pool_ok ok names p"
  shows "pool_ok ok names p' \<and> p_first p' = p_first p \<and> p_last p' = p_last p"
  using assms by (induction rule: rtranclp_induct) (use step_ok in force)+

lemma lookup_answers:
  assumes "pool_ok ok names p" and "pool_lookup ops h p = (a, p')"
  shows "in_range (p_first p) (p_last p) a \<and> fst (pool_look_back ops a p') = Some (to_lower h) \<and>
    fst (pool_lookup ops h p') = a"
proof -
  have ok': "pool_ok ok names p'" and mem: "(to_lower h, a) \<in> names (p_store p')"
    and "p_first p' = p_first p" "p_last p' = p_last p"
    using lookup_ok [OF assms] by auto
  moreover have "in_range (p_first p') (p_last p') a" using ok' mem by (auto simp: pool_ok_def)
  moreover have "fst (pool_lookup ops h p') = a"
    using lookup_hit [of p' h a] ok' mem by (simp add: pool_ok_def)
  ultimately show ?thesis using look_back_iff [OF ok'] by simp
qed

lemma look_back_then_lookup:
  assumes "pool_ok ok names p" and "fst (pool_look_back ops a p) = Some h"
  shows "fst (pool_lookup ops h p) = a \<and> to_lower h = h \<and> in_range (p_first p) (p_last p) a"
proof -
  have "(h, a) \<in> names (p_store p)" using assms look_back_iff by blast
  moreover from this have "to_lower h = h" "in_range (p_first p) (p_last p) a" using assms(1) by (auto simp: pool_ok_def)
  ultimately show ?thesis using lookup_hit [of p h a] assms(1) by (simp add: pool_ok_def)
qed

end

subsection \<open>The store in memory keeps the contract\<close>

text \<open>The two caches hold the same pairs, mirrored and in the same order of use.\<close>

definition swap_pair :: "'a \<times> 'b \<Rightarrow> 'b \<times> 'a" where
  "swap_pair x = (snd x, fst x)"

definition mem_ok :: "memory_store \<Rightarrow> bool" where
  "mem_ok m \<longleftrightarrow> lru_plain (cache_ip m) \<and> lru_plain (cache_host m) \<and>
     l_max_size (cache_ip m) = l_max_size (cache_host m) \<and>
     lru_view (cache_host m) = map swap_pair (lru_view (cache_ip m))"

definition mem_names :: "memory_store \<Rightarrow> (string \<times> addr) set" where
  "mem_names m = set (lru_view (cache_ip m))"

lemma swap_pair_simps [simp]: "fst (swap_pair x) = snd x" "snd (swap_pair x) = fst x" "swap_pair (a, b) = (b, a)"
  by (simp_all add: swap_pair_def)

lemma swap_in_set [simp]: "(a, h) \<in> swap_pair ` S \<longleftrightarrow> (h, a) \<in> S"
  by (force simp: swap_pair_def)

lemma mem_distinct:
  assumes "mem_ok m"
  shows "distinct (map fst (lru_view (cache_ip m)))" and "distinct (map snd (lru_view (cache_ip m)))"
proof -
  have "distinct (map fst (lru_view (cache_host m)))"
    using assms lru.distinct_keys [of "cache_host m"] by (simp add: mem_ok_def)
  then show "distinct (map snd (lru_view (cache_ip m)))"
    using assms by (simp add: mem_ok_def o_def)
qed (use assms lru.distinct_keys [of "cache_ip m"] in \<open>simp add: mem_ok_def\<close>)

lemma mem_one:
  assumes "mem_ok m" and "(h, a) \<in> mem_names m" and "(g, b) \<in> mem_names m"
  shows "h = g \<longleftrightarrow> a = b"
proof -
  note d = mem_distinct [OF assms(1)]
  have "inj_on fst (set (lru_view (cache_ip m)))" "inj_on snd (set (lru_view (cache_ip m)))"
    using d by (simp_all add: distinct_map)
  from inj_onD [OF this(1), of "(h, a)" "(g, b)"] inj_onD [OF this(2), of "(h, a)" "(g, b)"] show ?thesis
    using assms(2,3) by (auto simp: mem_names_def)
qed

lemma filter_mirror:
  assumes "mem_ok m" and "(h, a) \<in> mem_names m" and "x \<in> set (lru_view (cache_ip m))"
  shows "fst x = h \<longleftrightarrow> snd x = a"
  using mem_one [OF assms(1,2), of "fst x" "snd x"] assms(3) by (auto simp: mem_names_def)

lemma touch_mirror:
  assumes "mem_ok m" and "(h, a) \<in> mem_names m"
  shows "touch a (map swap_pair (lru_view (cache_ip m))) = map swap_pair (touch h (lru_view (cache_ip m)))"
proof -
  have "filter (\<lambda>x. snd x = a) (lru_view (cache_ip m)) = filter (\<lambda>x. fst x = h) (lru_view (cache_ip m))"
    "filter (\<lambda>x. snd x \<noteq> a) (lru_view (cache_ip m)) = filter (\<lambda>x. fst x \<noteq> h) (lru_view (cache_ip m))"
    by (rule filter_cong [OF refl]; use filter_mirror [OF assms] in blast)+
  then show ?thesis by (simp add: touch_def filter_map o_def)
qed

lemma set_touch [simp]: "set (touch k xs) = set xs"
  by (auto simp: touch_def)

lemma view_ip_iff: "mem_ok m \<Longrightarrow> map_of (lru_view (cache_ip m)) h = Some a \<longleftrightarrow> (h, a) \<in> mem_names m"
  using mem_distinct(1) [of m] by (simp add: mem_names_def)

lemma view_host_iff: "mem_ok m \<Longrightarrow> map_of (lru_view (cache_host m)) a = Some h \<longleftrightarrow> (h, a) \<in> mem_names m"
  using mem_distinct(2) [of m] by (simp add: mem_names_def mem_ok_def o_def)

lemma mem_get_host_facts:
  assumes "mem_ok m"
  shows "(fst (mem_get_by_host h m) = Some a \<longleftrightarrow> (h, a) \<in> mem_names m) \<and>
    mem_ok (snd (mem_get_by_host h m)) \<and> mem_names (snd (mem_get_by_host h m)) = mem_names m"
proof -
  obtain r c where g: "lru_get 0 h (cache_ip m) = (r, c)" by (cases "lru_get 0 h (cache_ip m)")
  have ci: "lru_plain (cache_ip m)" and ch: "lru_plain (cache_host m)" using assms by (auto simp: mem_ok_def)
  have r: "r = map_of (lru_view (cache_ip m)) h" and vc: "lru_view c = touch h (lru_view (cache_ip m))"
    and c: "lru_plain c" and b: "l_max_size c = l_max_size (cache_ip m)"
    using lru.get_value [OF ci, of 0 h] lru.get_contents [OF ci, of 0 h] lru.get_ok [OF ci, of 0 h]
      lru.get_bound [of 0 h "cache_ip m"] g by simp_all
  show ?thesis
  proof (cases r)
    case None
    then have "touch h (lru_view (cache_ip m)) = lru_view (cache_ip m)"
      using r by (intro touch_missing) (simp add: map_of_eq_None_iff [symmetric] eq_commute)
    then show ?thesis
      using assms None g r vc c b view_ip_iff [OF assms, of h a] by (simp add: mem_get_by_host_def mem_ok_def mem_names_def)
  next
    case (Some ip)
    then have mem: "(h, ip) \<in> mem_names m" using r view_ip_iff [OF assms] by simp
    show ?thesis
      using assms Some g r vc c b view_ip_iff [OF assms, of h a] touch_mirror [OF assms mem]
        lru.get_contents [OF ch, of 0 ip] lru.get_ok [OF ch, of 0 ip] lru.get_bound [of 0 ip "cache_host m"]
      by (simp add: mem_get_by_host_def mem_ok_def mem_names_def)
  qed
qed

lemma mem_get_ip_facts:
  assumes "mem_ok m"
  shows "(fst (mem_get_by_ip a m) = Some h \<longleftrightarrow> (h, a) \<in> mem_names m) \<and>
    mem_ok (snd (mem_get_by_ip a m)) \<and> mem_names (snd (mem_get_by_ip a m)) = mem_names m"
proof -
  obtain r c where g: "lru_get 0 a (cache_host m) = (r, c)" by (cases "lru_get 0 a (cache_host m)")
  have ci: "lru_plain (cache_ip m)" and ch: "lru_plain (cache_host m)" using assms by (auto simp: mem_ok_def)
  have r: "r = map_of (lru_view (cache_host m)) a" and vc: "lru_view c = touch a (lru_view (cache_host m))"
    and c: "lru_plain c" and b: "l_max_size c = l_max_size (cache_host m)"
    using lru.get_value [OF ch, of 0 a] lru.get_contents [OF ch, of 0 a] lru.get_ok [OF ch, of 0 a]
      lru.get_bound [of 0 a "cache_host m"] g by simp_all
  show ?thesis
  proof (cases r)
    case None
    then have "touch a (lru_view (cache_host m)) = lru_view (cache_host m)"
      using r by (intro touch_missing) (simp add: map_of_eq_None_iff [symmetric] eq_commute)
    then show ?thesis
      using assms None g r vc c b view_host_iff [OF assms, of a h] by (simp add: mem_get_by_ip_def mem_ok_def mem_names_def)
  next
    case (Some host)
    then have mem: "(host, a) \<in> mem_names m" using r view_host_iff [OF assms] by simp
    show ?thesis
      using assms Some g r vc c b view_host_iff [OF assms, of a h] touch_mirror [OF assms mem]
        lru.get_contents [OF ci, of 0 host] lru.get_ok [OF ci, of 0 host] lru.get_bound [of 0 host "cache_ip m"]
      by (simp add: mem_get_by_ip_def mem_ok_def mem_names_def)
  qed
qed

lemma drop_mirror:
  assumes "mem_ok m" and "(h, a) \<in> mem_names m"
  shows "drop_key a (map swap_pair (lru_view (cache_ip m))) = map swap_pair (drop_key h (lru_view (cache_ip m)))"
proof -
  have "filter (\<lambda>x. snd x \<noteq> a) (lru_view (cache_ip m)) = filter (\<lambda>x. fst x \<noteq> h) (lru_view (cache_ip m))"
    by (rule filter_cong [OF refl]; use filter_mirror [OF assms] in blast)
  then show ?thesis by (simp add: drop_key_def filter_map o_def)
qed

lemma drop_touch: "drop_key k (touch k xs) = drop_key k xs"
  by (simp add: drop_key_def touch_def filter_empty_conv)

lemma mem_del_facts:
  assumes "mem_ok m"
  shows "mem_ok (mem_del_by_ip a m) \<and>
    mem_names (mem_del_by_ip a m) = {(h, b). (h, b) \<in> mem_names m \<and> b \<noteq> a}"
proof -
  obtain r c where g: "lru_get 0 a (cache_host m) = (r, c)" by (cases "lru_get 0 a (cache_host m)")
  have ci: "lru_plain (cache_ip m)" and ch: "lru_plain (cache_host m)" using assms by (auto simp: mem_ok_def)
  have r: "r = map_of (lru_view (cache_host m)) a" and vc: "lru_view c = touch a (lru_view (cache_host m))"
    and c: "lru_plain c" and b: "l_max_size c = l_max_size (cache_host m)"
    using lru.get_value [OF ch, of 0 a] lru.get_contents [OF ch, of 0 a] lru.get_ok [OF ch, of 0 a]
      lru.get_bound [of 0 a "cache_host m"] g by simp_all
  have view_c: "lru_view (lru_delete a c) = drop_key a (map swap_pair (lru_view (cache_ip m)))"
    using lru.del_contents [OF c, of a] vc assms by (simp add: drop_touch mem_ok_def)
  show ?thesis
  proof (cases r)
    case None
    then have none: "(h, a) \<notin> mem_names m" for h using r view_host_iff [OF assms, of a h] by simp
    then have "a \<notin> fst ` set (map swap_pair (lru_view (cache_ip m)))" by (force simp: mem_names_def)
    then have "drop_key a (map swap_pair (lru_view (cache_ip m))) = map swap_pair (lru_view (cache_ip m))"
      by (rule drop_key_missing)
    then show ?thesis
      using assms None g view_c c b none lru.del_ok [OF c, of a] lru.del_bound [of a c]
      by (auto simp: mem_del_by_ip_def mem_ok_def mem_names_def)
  next
    case (Some host)
    then have mem: "(host, a) \<in> mem_names m" using r view_host_iff [OF assms, of a host] by simp
    have "filter (\<lambda>x. fst x \<noteq> host) (lru_view (cache_ip m)) = filter (\<lambda>x. snd x \<noteq> a) (lru_view (cache_ip m))"
      by (rule filter_cong [OF refl]; use filter_mirror [OF assms mem] in blast)
    then have names: "set (drop_key host (lru_view (cache_ip m))) = {(h, b). (h, b) \<in> mem_names m \<and> b \<noteq> a}"
      by (auto simp: drop_key_def mem_names_def)
    show ?thesis
      using assms Some g view_c c b drop_mirror [OF assms mem] names
        lru.del_ok [OF c, of a] lru.del_bound [of a c] lru.del_ok [OF ci, of host]
        lru.del_contents [OF ci, of host] lru.del_bound [of host "cache_ip m"]
      by (simp add: mem_del_by_ip_def mem_ok_def mem_names_def)
  qed
qed

lemma trim_front_map: "trim_front n (map f xs) = map f (trim_front n xs)"
  by (simp add: trim_front_def map_tl)

lemma mem_bind_facts:
  assumes "mem_ok m" and "\<forall>b. (h, b) \<notin> mem_names m" and "\<forall>g. (g, a) \<notin> mem_names m"
  defines "m' \<equiv> mem_put_by_host h a (mem_put_by_ip a h m)"
  shows "mem_ok m' \<and> (h, a) \<in> mem_names m' \<and> mem_names m' \<subseteq> insert (h, a) (mem_names m)"
proof -
  have ci: "lru_plain (cache_ip m)" and ch: "lru_plain (cache_host m)" using assms(1) by (auto simp: mem_ok_def)
  have "h \<notin> fst ` set (lru_view (cache_ip m))" using assms(2) by (force simp: mem_names_def)
  then have vi: "lru_view (lru_set 0 h a (cache_ip m)) = trim_front (l_max_size (cache_ip m)) (lru_view (cache_ip m) @ [(h, a)])"
    using lru.put_contents [OF ci, of 0 h a] by (simp add: drop_key_missing)
  have "a \<notin> fst ` set (lru_view (cache_host m))" using assms(1,3) by (force simp: mem_names_def mem_ok_def)
  then have vh: "lru_view (lru_set 0 a h (cache_host m)) = trim_front (l_max_size (cache_host m)) (lru_view (cache_host m) @ [(a, h)])"
    using lru.put_contents [OF ch, of 0 a h] by (simp add: drop_key_missing)
  have "mem_ok m'"
    using assms(1) vi vh lru.put_ok [OF ci, of 0 h a] lru.put_ok [OF ch, of 0 a h]
      lru.put_bound [of 0 h a "cache_ip m"] lru.put_bound [of 0 a h "cache_host m"]
      trim_front_map [of "l_max_size (cache_host m)" swap_pair "lru_view (cache_ip m) @ [(h, a)]"]
    by (simp add: m'_def mem_ok_def mem_put_by_host_def mem_put_by_ip_def)
  moreover have "(h, a) \<in> mem_names m'"
    using lru.put_keeps_last [OF ci, of h a 0] by (simp add: m'_def mem_names_def mem_put_by_host_def mem_put_by_ip_def)
  moreover have "mem_names m' \<subseteq> insert (h, a) (mem_names m)"
    using vi trim_front_subset [of "l_max_size (cache_ip m)" "lru_view (cache_ip m) @ [(h, a)]"]
    by (simp add: m'_def mem_names_def mem_put_by_host_def mem_put_by_ip_def)
  ultimately show ?thesis by blast
qed

lemma lru_plain_clear: "lru_plain c \<Longrightarrow> lru_plain (lru_clear c) \<and> lru_view (lru_clear c) = []"
  using lru_ok_clear [of c] by (simp add: lru_plain_def lru_view_def) (simp add: lru_clear_def)

lemma lru_clear_bound: "l_max_size (lru_clear c) = l_max_size c"
  by (simp add: lru_clear_def)

lemma mem_exist_iff: "mem_ok m \<Longrightarrow> mem_exist a m \<longleftrightarrow> (\<exists>h. (h, a) \<in> mem_names m)"
proof -
  assume ok: "mem_ok m"
  then have "lru_exist a (cache_host m) \<longleftrightarrow> a \<in> fst ` set (lru_view (cache_host m))"
    using cache_None_view [of "cache_host m" a] by (simp add: lru_exist_def mem_ok_def lru_plain_def)
  also have "\<dots> \<longleftrightarrow> (\<exists>h. (h, a) \<in> mem_names m)" using ok by (force simp: mem_ok_def mem_names_def)
  finally show ?thesis by (simp add: mem_exist_def)
qed

interpretation mem: fake_store memory_ops mem_ok mem_names
proof (unfold_locales, goal_cases)
  case (1 s h a b)
  then show ?case using mem_one by blast
next
  case (2 s g a h)
  then show ?case using mem_one by blast
next
  case (15 s)
  then show ?case
    using lru_plain_clear [of "cache_ip s"] lru_plain_clear [of "cache_host s"]
      lru_clear_bound [of "cache_ip s"] lru_clear_bound [of "cache_host s"]
    by (simp add: memory_ops_def mem_flush_def mem_ok_def)
next
  case (16 s)
  then show ?case
    using lru_plain_clear [of "cache_ip s"] by (simp add: memory_ops_def mem_flush_def mem_ok_def mem_names_def)
qed (simp_all add: memory_ops_def mem_get_host_facts mem_get_ip_facts mem_del_facts mem_bind_facts mem_exist_iff mem_flush_def)

subsection \<open>The pool over the store in memory\<close>

lemma word_next_pos: "w \<noteq> - 1 \<Longrightarrow> 0 < w + (1 :: 'a::len word)"
  by (metis add_eq_0_iff2 word_neq_0_conv)

lemma next_shape:
  assumes "addr_valid (addr_next a)" and "addr_less (addr_next a) l"
    and "addr_zone a = []" and "addr_zone l = []" and "addr_bitlen l = addr_bitlen a"
  shows "range_shape (addr_next a) l"
  using assms by (cases "(a, l)" rule: range_shape.cases) (auto split: if_splits intro: word_next_pos)

lemma addr_next_keeps:
  "addr_valid (addr_next a) \<Longrightarrow> addr_zone (addr_next a) = addr_zone a \<and> addr_bitlen (addr_next a) = addr_bitlen a \<and> addr_valid a"
  by (cases a) (auto split: if_splits)

lemma masked_keeps:
  "prefix_valid n \<Longrightarrow> addr_zone (prefix_addr (prefix_masked n)) = [] \<and>
    addr_bitlen (prefix_addr (prefix_masked n)) = addr_bitlen (prefix_addr n)"
  by (cases n rule: prefix_masked.cases) auto

lemma new_pool_fields:
  assumes "new_pool memory_ops (new_memory_store n) last_ip ipnet = Inr p"
  shows "p_first p = addr_next (addr_next (addr_next (addr_next (prefix_addr (prefix_masked ipnet)))))"
    and "p_last p = last_ip ipnet" and "p_offset p = addr_prev (p_first p)" and "p_cycle p = False"
    and "p_store p = new_memory_store n" and "prefix_valid ipnet" and "addr_valid (p_first p)"
    and "addr_less (p_first p) (p_last p)"
  using assms by (auto simp: new_pool_def pool_restore_state_def memory_ops_def Let_def split: if_splits)

lemma new_memory_store_ok: "mem_ok (new_memory_store n)" and new_memory_store_names: "mem_names (new_memory_store n) = {}"
  by (auto simp: new_memory_store_def mem_ok_def mem_names_def lru_plain_def lru_view_def lru_ok_new) (simp_all add: lru_new_def)

lemma new_pool_ok:
  assumes "new_pool memory_ops (new_memory_store n) last_ip ipnet = Inr p"
    and "addr_bitlen (last_ip ipnet) = addr_bitlen (prefix_addr ipnet)" and "addr_zone (last_ip ipnet) = []"
  shows "pool_ok mem_ok mem_names p"
proof -
  note f = new_pool_fields [OF assms(1)]
  define a where "a = addr_next (addr_next (addr_next (prefix_addr (prefix_masked ipnet))))"
  have "p_first p = addr_next a" using f(1) by (simp add: a_def)
  moreover have "addr_zone a = []" "addr_bitlen a = addr_bitlen (last_ip ipnet)"
    using f(1,7) assms(2) masked_keeps [OF f(6)] addr_next_keeps unfolding a_def by metis+
  ultimately have "range_shape (p_first p) (p_last p)"
    using f(2,7,8) assms(3) next_shape [of a "p_last p"] by simp
  then show ?thesis
    using f(3,5) by (simp add: pool_ok_def pool_shape_def new_memory_store_ok new_memory_store_names)
qed


definition demo_last_ip :: "net_prefix \<Rightarrow> addr" where
  "demo_last_ip _ = V4 0xc612000f"

definition demo_pool :: "memory_store pool" where
  "demo_pool = \<lparr>p_gateway = V4 0xc6120001, p_first = V4 0xc6120004, p_last = V4 0xc612000f,
     p_offset = V4 0xc6120003, p_cycle = False, p_ipnet = Pfx (V4 0xc6120000) 28,
     p_store = new_memory_store 100\<rparr>"

lemma demo_new_pool:
  "new_pool memory_ops (new_memory_store 100) demo_last_ip (Pfx (V4 0xc6120000) 28) = Inr demo_pool"
proof -
  have "keep_top 32 28 (0xc6120000 :: 32 word) = 0xc6120000" by code_simp
  then show ?thesis
    by (simp add: new_pool_def demo_last_ip_def demo_pool_def pool_restore_state_def memory_ops_def)
qed




subsection \<open>Taking over the entries of another pool\<close>

text \<open>
  \<open>CloneFrom\<close> copies the entries even when the ranges differ: a name of the old pool then keeps an
  address that is outside the range of the new one.
\<close>

definition demo_other_pool :: "memory_store pool" where
  "demo_other_pool = \<lparr>p_gateway = V4 0x0a000001, p_first = V4 0x0a000004, p_last = V4 0x0a00000f,
     p_offset = V4 0x0a000003, p_cycle = False, p_ipnet = Pfx (V4 0x0a000000) 28,
     p_store = new_memory_store 100\<rparr>"

lemma cloned_entry_out_of_range:
  "let p = pool_clone_from memory_ops (snd (pool_lookup memory_ops ''a.com'' demo_pool)) demo_other_pool in
   \<not> in_range (p_first p) (p_last p) (fst (pool_lookup memory_ops ''a.com'' p)) \<and>
   \<not> prefix_contains (p_ipnet p) (fst (pool_lookup memory_ops ''a.com'' p))"
  by code_simp

end
