(* ===== verification/Enums.thy ===== *)
theory Enums
  imports Go_Prelude
begin

text \<open>
  The enumerations of the kernel and their text forms: inbound types, networks and address types
  (\<open>constant/metadata.go\<close>), rule types (\<open>constant/rule.go\<close>), adapter types
  (\<open>constant/adapters.go\<close>), DNS, filter and preference modes (\<open>constant/dns.go\<close>), the tunnel's
  mode and status (\<open>tunnel/mode.go\<close>, \<open>tunnel/status.go\<close>) and the process lookup mode
  (\<open>component/process/find_process_mode.go\<close>). A Go enumeration is an integer type; the model has
  the named values only, so the \<open>default\<close> branches of the \<open>String\<close> methods have no case here unless
  a named value reaches them.
\<close>

subsection \<open>constant/metadata.go\<close>

datatype addr_type =
    AtypIPv4
  | AtypDomainName
  | AtypIPv6

fun addr_type_string :: "addr_type \<Rightarrow> string" where
  "addr_type_string AtypIPv4 = ''IPv4''"
| "addr_type_string AtypDomainName = ''DomainName''"
| "addr_type_string AtypIPv6 = ''IPv6''"

datatype network =
    TCP
  | UDP
  | ALLNet
  | InvalidNet

fun network_string :: "network \<Rightarrow> string" where
  "network_string TCP = ''tcp''"
| "network_string UDP = ''udp''"
| "network_string ALLNet = ''all''"
| "network_string InvalidNet = ''invalid''"

datatype in_type =
    TYPE_HTTP
  | TYPE_HTTPS
  | TYPE_SOCKS4
  | TYPE_SOCKS5
  | TYPE_SHADOWSOCKS
  | TYPE_SNELL
  | TYPE_VMESS
  | TYPE_VLESS
  | TYPE_REDIR
  | TYPE_TPROXY
  | TYPE_TROJAN
  | TYPE_TUNNEL
  | TYPE_TUN
  | TYPE_TUIC
  | TYPE_HYSTERIA2
  | TYPE_ANYTLS
  | TYPE_MIERU
  | TYPE_SUDOKU
  | TYPE_TRUSTTUNNEL
  | TYPE_SHADOWQUIC
  | TYPE_INNER

fun type_string :: "in_type \<Rightarrow> string" where
  "type_string TYPE_HTTP = ''HTTP''"
| "type_string TYPE_HTTPS = ''HTTPS''"
| "type_string TYPE_SOCKS4 = ''Socks4''"
| "type_string TYPE_SOCKS5 = ''Socks5''"
| "type_string TYPE_SHADOWSOCKS = ''ShadowSocks''"
| "type_string TYPE_SNELL = ''Snell''"
| "type_string TYPE_VMESS = ''Vmess''"
| "type_string TYPE_VLESS = ''Vless''"
| "type_string TYPE_REDIR = ''Redir''"
| "type_string TYPE_TPROXY = ''TProxy''"
| "type_string TYPE_TROJAN = ''Trojan''"
| "type_string TYPE_TUNNEL = ''Tunnel''"
| "type_string TYPE_TUN = ''Tun''"
| "type_string TYPE_TUIC = ''Tuic''"
| "type_string TYPE_HYSTERIA2 = ''Hysteria2''"
| "type_string TYPE_ANYTLS = ''AnyTLS''"
| "type_string TYPE_MIERU = ''Mieru''"
| "type_string TYPE_SUDOKU = ''Sudoku''"
| "type_string TYPE_TRUSTTUNNEL = ''TrustTunnel''"
| "type_string TYPE_SHADOWQUIC = ''ShadowQuic''"
| "type_string TYPE_INNER = ''Inner''"

definition parse_type :: "string \<Rightarrow> string + in_type" where
  "parse_type t =
     (if t = ''HTTP'' then Inr TYPE_HTTP
      else if t = ''HTTPS'' then Inr TYPE_HTTPS
      else if t = ''SOCKS4'' then Inr TYPE_SOCKS4
      else if t = ''SOCKS5'' then Inr TYPE_SOCKS5
      else if t = ''SHADOWSOCKS'' then Inr TYPE_SHADOWSOCKS
      else if t = ''SNELL'' then Inr TYPE_SNELL
      else if t = ''VMESS'' then Inr TYPE_VMESS
      else if t = ''VLESS'' then Inr TYPE_VLESS
      else if t = ''REDIR'' then Inr TYPE_REDIR
      else if t = ''TPROXY'' then Inr TYPE_TPROXY
      else if t = ''TROJAN'' then Inr TYPE_TROJAN
      else if t = ''TUNNEL'' then Inr TYPE_TUNNEL
      else if t = ''TUN'' then Inr TYPE_TUN
      else if t = ''TUIC'' then Inr TYPE_TUIC
      else if t = ''HYSTERIA2'' then Inr TYPE_HYSTERIA2
      else if t = ''ANYTLS'' then Inr TYPE_ANYTLS
      else if t = ''MIERU'' then Inr TYPE_MIERU
      else if t = ''SUDOKU'' then Inr TYPE_SUDOKU
      else if t = ''TRUSTTUNNEL'' then Inr TYPE_TRUSTTUNNEL
      else if t = ''SHADOWQUIC'' then Inr TYPE_SHADOWQUIC
      else if t = ''INNER'' then Inr TYPE_INNER
      else Inl (''unknown type: '' @ t))"

subsection \<open>constant/rule.go\<close>

datatype rule_type =
    RT_Domain
  | RT_DomainSuffix
  | RT_DomainKeyword
  | RT_DomainRegex
  | RT_DomainWildcard
  | RT_GEOSITE
  | RT_GEOIP
  | RT_SrcGEOIP
  | RT_IPASN
  | RT_SrcIPASN
  | RT_IPCIDR
  | RT_SrcIPCIDR
  | RT_IPSuffix
  | RT_SrcIPSuffix
  | RT_SrcPort
  | RT_DstPort
  | RT_InPort
  | RT_DSCP
  | RT_InUser
  | RT_InName
  | RT_InType
  | RT_ProcessName
  | RT_ProcessPath
  | RT_ProcessNameRegex
  | RT_ProcessPathRegex
  | RT_ProcessNameWildcard
  | RT_ProcessPathWildcard
  | RT_RematchName
  | RT_RuleSet
  | RT_Network
  | RT_Uid
  | RT_SubRules
  | RT_MATCH
  | RT_AND
  | RT_OR
  | RT_NOT

fun rule_type_string :: "rule_type \<Rightarrow> string" where
  "rule_type_string RT_Domain = ''Domain''"
| "rule_type_string RT_DomainSuffix = ''DomainSuffix''"
| "rule_type_string RT_DomainKeyword = ''DomainKeyword''"
| "rule_type_string RT_DomainRegex = ''DomainRegex''"
| "rule_type_string RT_DomainWildcard = ''DomainWildcard''"
| "rule_type_string RT_GEOSITE = ''GeoSite''"
| "rule_type_string RT_GEOIP = ''GeoIP''"
| "rule_type_string RT_SrcGEOIP = ''SrcGeoIP''"
| "rule_type_string RT_IPASN = ''IPASN''"
| "rule_type_string RT_SrcIPASN = ''SrcIPASN''"
| "rule_type_string RT_IPCIDR = ''IPCIDR''"
| "rule_type_string RT_SrcIPCIDR = ''SrcIPCIDR''"
| "rule_type_string RT_IPSuffix = ''IPSuffix''"
| "rule_type_string RT_SrcIPSuffix = ''SrcIPSuffix''"
| "rule_type_string RT_SrcPort = ''SrcPort''"
| "rule_type_string RT_DstPort = ''DstPort''"
| "rule_type_string RT_InPort = ''InPort''"
| "rule_type_string RT_DSCP = ''DSCP''"
| "rule_type_string RT_InUser = ''InUser''"
| "rule_type_string RT_InName = ''InName''"
| "rule_type_string RT_InType = ''InType''"
| "rule_type_string RT_ProcessName = ''ProcessName''"
| "rule_type_string RT_ProcessPath = ''ProcessPath''"
| "rule_type_string RT_ProcessNameRegex = ''ProcessNameRegex''"
| "rule_type_string RT_ProcessPathRegex = ''ProcessPathRegex''"
| "rule_type_string RT_ProcessNameWildcard = ''ProcessNameWildcard''"
| "rule_type_string RT_ProcessPathWildcard = ''ProcessPathWildcard''"
| "rule_type_string RT_RematchName = ''RematchName''"
| "rule_type_string RT_RuleSet = ''RuleSet''"
| "rule_type_string RT_Network = ''Network''"
| "rule_type_string RT_Uid = ''Uid''"
| "rule_type_string RT_SubRules = ''SubRules''"
| "rule_type_string RT_MATCH = ''Match''"
| "rule_type_string RT_AND = ''AND''"
| "rule_type_string RT_OR = ''OR''"
| "rule_type_string RT_NOT = ''NOT''"

subsection \<open>constant/adapters.go\<close>

datatype adapter_type =
    AT_Direct
  | AT_Reject
  | AT_RejectDrop
  | AT_Compatible
  | AT_Pass
  | AT_PassRule
  | AT_Rematch
  | AT_Dns
  | AT_Relay
  | AT_Selector
  | AT_Fallback
  | AT_URLTest
  | AT_LoadBalance
  | AT_Shadowsocks
  | AT_ShadowsocksR
  | AT_Snell
  | AT_Socks5
  | AT_Http
  | AT_Vmess
  | AT_Vless
  | AT_Trojan
  | AT_Hysteria
  | AT_Hysteria2
  | AT_WireGuard
  | AT_Tuic
  | AT_Ssh
  | AT_Mieru
  | AT_AnyTLS
  | AT_Sudoku
  | AT_Masque
  | AT_TrustTunnel
  | AT_ShadowQuic
  | AT_OpenVPN
  | AT_Tailscale
  | AT_ZeroTier
  | AT_EasyTier
  | AT_GostRelay

fun adapter_type_string :: "adapter_type \<Rightarrow> string" where
  "adapter_type_string AT_Direct = ''Direct''"
| "adapter_type_string AT_Reject = ''Reject''"
| "adapter_type_string AT_RejectDrop = ''RejectDrop''"
| "adapter_type_string AT_Compatible = ''Compatible''"
| "adapter_type_string AT_Pass = ''Pass''"
| "adapter_type_string AT_PassRule = ''PassRule''"
| "adapter_type_string AT_Rematch = ''Rematch''"
| "adapter_type_string AT_Dns = ''Dns''"
| "adapter_type_string AT_Relay = ''Relay''"
| "adapter_type_string AT_Selector = ''Selector''"
| "adapter_type_string AT_Fallback = ''Fallback''"
| "adapter_type_string AT_URLTest = ''URLTest''"
| "adapter_type_string AT_LoadBalance = ''LoadBalance''"
| "adapter_type_string AT_Shadowsocks = ''Shadowsocks''"
| "adapter_type_string AT_ShadowsocksR = ''ShadowsocksR''"
| "adapter_type_string AT_Snell = ''Snell''"
| "adapter_type_string AT_Socks5 = ''Socks5''"
| "adapter_type_string AT_Http = ''Http''"
| "adapter_type_string AT_Vmess = ''Vmess''"
| "adapter_type_string AT_Vless = ''Vless''"
| "adapter_type_string AT_Trojan = ''Trojan''"
| "adapter_type_string AT_Hysteria = ''Hysteria''"
| "adapter_type_string AT_Hysteria2 = ''Hysteria2''"
| "adapter_type_string AT_WireGuard = ''WireGuard''"
| "adapter_type_string AT_Tuic = ''Tuic''"
| "adapter_type_string AT_Ssh = ''Ssh''"
| "adapter_type_string AT_Mieru = ''Mieru''"
| "adapter_type_string AT_AnyTLS = ''AnyTLS''"
| "adapter_type_string AT_Sudoku = ''Sudoku''"
| "adapter_type_string AT_Masque = ''Masque''"
| "adapter_type_string AT_TrustTunnel = ''TrustTunnel''"
| "adapter_type_string AT_ShadowQuic = ''ShadowQuic''"
| "adapter_type_string AT_OpenVPN = ''OpenVPN''"
| "adapter_type_string AT_Tailscale = ''Tailscale''"
| "adapter_type_string AT_ZeroTier = ''ZeroTier''"
| "adapter_type_string AT_EasyTier = ''EasyTier''"
| "adapter_type_string AT_GostRelay = ''GostRelay''"

subsection \<open>constant/dns.go\<close>

datatype dns_mode =
    DNSNormal
  | DNSFakeIP
  | DNSMapping
  | DNSHosts

fun dns_mode_string :: "dns_mode \<Rightarrow> string" where
  "dns_mode_string DNSNormal = ''normal''"
| "dns_mode_string DNSFakeIP = ''fake-ip''"
| "dns_mode_string DNSMapping = ''redir-host''"
| "dns_mode_string DNSHosts = ''hosts''"

definition dns_mode_unmarshal :: "string \<Rightarrow> string + dns_mode" where
  "dns_mode_unmarshal data =
     (case map_of (map (\<lambda>m. (dns_mode_string m, m)) [DNSNormal, DNSFakeIP, DNSMapping]) (to_lower data) of
        None \<Rightarrow> Inl ''invalid mode''
      | Some m \<Rightarrow> Inr m)"

datatype dns_prefer =
    DualStack
  | IPv4Only
  | IPv6Only
  | IPv4Prefer
  | IPv6Prefer

fun dns_prefer_string :: "dns_prefer \<Rightarrow> string" where
  "dns_prefer_string DualStack = ''dual''"
| "dns_prefer_string IPv4Only = ''ipv4''"
| "dns_prefer_string IPv6Only = ''ipv6''"
| "dns_prefer_string IPv4Prefer = ''ipv4-prefer''"
| "dns_prefer_string IPv6Prefer = ''ipv6-prefer''"

definition dns_prefer_unmarshal :: "string \<Rightarrow> string + dns_prefer" where
  "dns_prefer_unmarshal data =
     (case map_of (map (\<lambda>m. (dns_prefer_string m, m)) [DualStack, IPv4Only, IPv6Only, IPv4Prefer, IPv6Prefer]) (to_lower data) of
        None \<Rightarrow> Inr DualStack
      | Some m \<Rightarrow> Inr m)"

datatype filter_mode =
    FilterBlackList
  | FilterWhiteList
  | FilterRule

fun filter_mode_string :: "filter_mode \<Rightarrow> string" where
  "filter_mode_string FilterBlackList = ''blacklist''"
| "filter_mode_string FilterWhiteList = ''whitelist''"
| "filter_mode_string FilterRule = ''rule''"

definition filter_mode_unmarshal :: "string \<Rightarrow> string + filter_mode" where
  "filter_mode_unmarshal data =
     (case map_of (map (\<lambda>m. (filter_mode_string m, m)) [FilterBlackList, FilterWhiteList, FilterRule]) (to_lower data) of
        None \<Rightarrow> Inl ''invalid mode''
      | Some m \<Rightarrow> Inr m)"

subsection \<open>tunnel/mode.go, tunnel/status.go\<close>

datatype tunnel_mode =
    Mode_Global
  | Mode_Rule
  | Mode_Direct

fun tunnel_mode_string :: "tunnel_mode \<Rightarrow> string" where
  "tunnel_mode_string Mode_Global = ''global''"
| "tunnel_mode_string Mode_Rule = ''rule''"
| "tunnel_mode_string Mode_Direct = ''direct''"

definition tunnel_mode_unmarshal :: "string \<Rightarrow> string + tunnel_mode" where
  "tunnel_mode_unmarshal data =
     (case map_of (map (\<lambda>m. (tunnel_mode_string m, m)) [Mode_Global, Mode_Rule, Mode_Direct]) (to_lower data) of
        None \<Rightarrow> Inl ''invalid mode''
      | Some m \<Rightarrow> Inr m)"

datatype tunnel_status =
    Suspend
  | Inner
  | Running

fun tunnel_status_string :: "tunnel_status \<Rightarrow> string" where
  "tunnel_status_string Suspend = ''suspend''"
| "tunnel_status_string Inner = ''inner''"
| "tunnel_status_string Running = ''running''"

definition tunnel_status_unmarshal :: "string \<Rightarrow> string + tunnel_status" where
  "tunnel_status_unmarshal data =
     (case map_of (map (\<lambda>m. (tunnel_status_string m, m)) [Suspend, Inner, Running]) (to_lower data) of
        None \<Rightarrow> Inl ''invalid status''
      | Some m \<Rightarrow> Inr m)"

subsection \<open>component/process/find\_process\_mode.go\<close>

datatype find_process_mode =
    FindProcessStrict
  | FindProcessAlways
  | FindProcessOff

fun find_process_mode_string :: "find_process_mode \<Rightarrow> string" where
  "find_process_mode_string FindProcessStrict = ''strict''"
| "find_process_mode_string FindProcessAlways = ''always''"
| "find_process_mode_string FindProcessOff = ''off''"

definition find_process_mode_set :: "string \<Rightarrow> string + find_process_mode" where
  "find_process_mode_set data =
     (case map_of (map (\<lambda>m. (find_process_mode_string m, m)) [FindProcessStrict, FindProcessAlways, FindProcessOff]) (to_lower data) of
        None \<Rightarrow> Inl ''invalid find process mode''
      | Some m \<Rightarrow> Inr m)"

subsection \<open>Facts\<close>

text \<open>No two rule types, and no two inbound types, render alike.\<close>

lemma rule_type_string_inj: "rule_type_string a = rule_type_string b \<Longrightarrow> a = b"
  by (cases a; cases b; simp)

lemma type_string_inj: "type_string a = type_string b \<Longrightarrow> a = b"
  by (cases a; cases b) simp_all

lemma map_of_strings_Some:
  "inj f \<Longrightarrow> map_of (map (\<lambda>m. (f m, m)) ms) k = Some v \<longleftrightarrow> v \<in> set ms \<and> k = f v"
  by (induction ms) (auto dest: injD)

lemma mode_string_inj:
  "inj tunnel_mode_string" "inj tunnel_status_string" "inj find_process_mode_string"
  "inj filter_mode_string" "inj dns_mode_string" "inj dns_prefer_string"
proof -
  show "inj tunnel_mode_string" by (rule injI) (case_tac x; case_tac y; simp)
  show "inj tunnel_status_string" by (rule injI) (case_tac x; case_tac y; simp)
  show "inj find_process_mode_string" by (rule injI) (case_tac x; case_tac y; simp)
  show "inj filter_mode_string" by (rule injI) (case_tac x; case_tac y; simp)
  show "inj dns_mode_string" by (rule injI) (case_tac x; case_tac y; simp)
  show "inj dns_prefer_string" by (rule injI) (case_tac x; case_tac y; simp)
qed

lemma all_modes:
  "m \<in> set [Mode_Global, Mode_Rule, Mode_Direct]"
  "s \<in> set [Suspend, Inner, Running]"
  "q \<in> set [FindProcessStrict, FindProcessAlways, FindProcessOff]"
  "f \<in> set [FilterBlackList, FilterWhiteList, FilterRule]"
  "d \<in> set [DNSNormal, DNSFakeIP, DNSMapping] \<longleftrightarrow> d \<noteq> DNSHosts"
proof -
  show "m \<in> set [Mode_Global, Mode_Rule, Mode_Direct]" by (cases m) simp_all
  show "s \<in> set [Suspend, Inner, Running]" by (cases s) simp_all
  show "q \<in> set [FindProcessStrict, FindProcessAlways, FindProcessOff]" by (cases q) simp_all
  show "f \<in> set [FilterBlackList, FilterWhiteList, FilterRule]" by (cases f) simp_all
  show "d \<in> set [DNSNormal, DNSFakeIP, DNSMapping] \<longleftrightarrow> d \<noteq> DNSHosts" by (cases d) simp_all
qed

text \<open>
  C3: a text is read as a mode exactly when, lower-cased, it is that mode's own text form, for the
  tunnel's mode and status, the process lookup mode and the DNS filter mode. The DNS mode
  \<open>hosts\<close> is the one value that is written but never read back.
\<close>

theorem mode_text_exact:
  "(tunnel_mode_unmarshal t = Inr m \<longleftrightarrow> to_lower t = tunnel_mode_string m) \<and>
   (tunnel_status_unmarshal t = Inr s \<longleftrightarrow> to_lower t = tunnel_status_string s) \<and>
   (find_process_mode_set t = Inr q \<longleftrightarrow> to_lower t = find_process_mode_string q) \<and>
   (filter_mode_unmarshal t = Inr f \<longleftrightarrow> to_lower t = filter_mode_string f) \<and>
   (dns_mode_unmarshal t = Inr d \<longleftrightarrow> to_lower t = dns_mode_string d \<and> d \<noteq> DNSHosts)"
proof -
  have case_iff: "(case x of None \<Rightarrow> Inl e | Some v \<Rightarrow> Inr v) = Inr w \<longleftrightarrow> x = Some w"
    for x and e :: string and w by (cases x) auto
  note defs = tunnel_mode_unmarshal_def tunnel_status_unmarshal_def find_process_mode_set_def
    filter_mode_unmarshal_def dns_mode_unmarshal_def
  show ?thesis
    unfolding defs case_iff map_of_strings_Some [OF mode_string_inj(1)]
      map_of_strings_Some [OF mode_string_inj(2)] map_of_strings_Some [OF mode_string_inj(3)]
      map_of_strings_Some [OF mode_string_inj(4)] map_of_strings_Some [OF mode_string_inj(5)]
    using all_modes by auto
qed

end
