(* ===== verification/Dns_Handler.thy ===== *)
theory Dns_Handler
  imports Dns_Message Hosts Fakeip_Pool Enums
begin

text \<open>
  The DNS service of the kernel (\<open>dns/middleware.go\<close>, \<open>dns/enhancer.go\<close>, \<open>dns/service.go\<close>,
  \<open>component/fakeip/skipper.go\<close>): a chain of handlers over the state the enhancer keeps, the pools
  of fake addresses and the table from addresses to names. A handler takes the request and the
  state and returns the reply or an error, and the new state. The resolver at its end, the search
  in the hosts table and the methods \<open>SetRcode\<close>, \<open>IsEdns0\<close> and \<open>SetEdns0\<close> of the DNS package are
  parameters. Times are in seconds.
\<close>

subsection \<open>Names that keep their real address\<close>

text \<open>A rule of the filter is its match function on a connection of which only the name is known.\<close>

record skipper =
  sk_rules :: "(string \<Rightarrow> bool \<times> string) list"
  sk_hosts :: "(string \<Rightarrow> bool) list"
  sk_mode :: filter_mode

fun first_action :: "(string \<Rightarrow> bool \<times> string) list \<Rightarrow> string \<Rightarrow> string option" where
  "first_action [] domain = None"
| "first_action (r # rs) domain = (if fst (r domain) then Some (snd (r domain)) else first_action rs domain)"

definition should_skipped :: "skipper \<Rightarrow> string \<Rightarrow> bool" where
  "should_skipped sk domain =
     (if sk_rules sk \<noteq> [] then first_action (sk_rules sk) domain = Some ''real-ip''
      else
        (let should = list_ex (\<lambda>f. f domain) (sk_hosts sk) in
         if sk_mode sk = FilterWhiteList then \<not> should else should))"

subsection \<open>The enhancer\<close>

record 's enhancer =
  en_ipv6 :: bool
  en_mode :: dns_mode
  en_pool :: "'s pool option"
  en_pool6 :: "'s pool option"
  en_skipper :: skipper
  en_ttl :: int
  en_mapping :: "(addr, string) lru option"
  en_use_hosts :: bool

definition fake_ip_enabled :: "'s enhancer \<Rightarrow> bool" where
  "fake_ip_enabled h = (en_mode h = DNSFakeIP)"

definition mapping_enabled :: "'s enhancer \<Rightarrow> bool" where
  "mapping_enabled h = (en_mode h = DNSFakeIP \<or> en_mode h = DNSMapping)"

definition in_some_pool :: "('s pool \<Rightarrow> bool) \<Rightarrow> 's enhancer \<Rightarrow> bool" where
  "in_some_pool f h =
     (fake_ip_enabled h \<and>
      ((case en_pool h of Some p \<Rightarrow> f p | None \<Rightarrow> False) \<or> (case en_pool6 h of Some p \<Rightarrow> f p | None \<Rightarrow> False)))"

definition is_exist_fake_ip :: "'s store_ops \<Rightarrow> addr \<Rightarrow> 's enhancer \<Rightarrow> bool" where
  "is_exist_fake_ip ops ip = in_some_pool (pool_exist ops ip)"

definition is_fake_ip :: "addr \<Rightarrow> 's enhancer \<Rightarrow> bool" where
  "is_fake_ip ip = in_some_pool (\<lambda>p. prefix_contains (p_ipnet p) ip \<and> ip \<noteq> p_gateway p \<and> ip \<noteq> p_last p)"

definition is_fake_broadcast_ip :: "addr \<Rightarrow> 's enhancer \<Rightarrow> bool" where
  "is_fake_broadcast_ip ip = in_some_pool (\<lambda>p. p_last p = ip)"

definition look_back_in :: "'s store_ops \<Rightarrow> addr \<Rightarrow> 's pool option \<Rightarrow> string option \<times> 's pool option" where
  "look_back_in ops ip pool =
     (case pool of None \<Rightarrow> (None, None) | Some p \<Rightarrow> map_prod id Some (pool_look_back ops ip p))"

definition find_host_by_ip :: "'s store_ops \<Rightarrow> int \<Rightarrow> addr \<Rightarrow> 's enhancer \<Rightarrow> string option \<times> 's enhancer" where
  "find_host_by_ip ops now ip h =
     (case look_back_in ops ip (en_pool h) of
        (Some host, p) \<Rightarrow> (Some host, h\<lparr>en_pool := p\<rparr>)
      | (None, p) \<Rightarrow>
          (case look_back_in ops ip (en_pool6 h) of
             (Some host, p6) \<Rightarrow> (Some host, h\<lparr>en_pool := p, en_pool6 := p6\<rparr>)
           | (None, p6) \<Rightarrow>
               (let h1 = h\<lparr>en_pool := p, en_pool6 := p6\<rparr> in
                case en_mapping h of
                  None \<Rightarrow> (None, h1)
                | Some m \<Rightarrow> (case lru_get now ip m of (host, m') \<Rightarrow> (host, h1\<lparr>en_mapping := Some m'\<rparr>)))))"

definition insert_host_by_ip :: "int \<Rightarrow> addr \<Rightarrow> string \<Rightarrow> 's enhancer \<Rightarrow> 's enhancer" where
  "insert_host_by_ip now ip host h = h\<lparr>en_mapping := map_option (lru_set now ip host) (en_mapping h)\<rparr>"

definition flush_pool :: "'s store_ops \<Rightarrow> 's pool option \<Rightarrow> 's pool option \<times> string list" where
  "flush_pool ops pool =
     (case pool of
        None \<Rightarrow> (None, [])
      | Some p \<Rightarrow> (case pool_flush ops p of (p', err) \<Rightarrow> (Some p', case err of None \<Rightarrow> [] | Some e \<Rightarrow> [e])))"

definition flush_fake_ip :: "'s store_ops \<Rightarrow> 's enhancer \<Rightarrow> 's enhancer \<times> string list" where
  "flush_fake_ip ops h =
     (case flush_pool ops (en_pool h) of
        (p, errs) \<Rightarrow>
          (case flush_pool ops (en_pool6 h) of
             (p6, errs6) \<Rightarrow> (h\<lparr>en_pool := p, en_pool6 := p6\<rparr>, errs @ errs6)))"

definition clone_pool :: "'s store_ops \<Rightarrow> 's pool option \<Rightarrow> 's pool option \<Rightarrow> 's pool option" where
  "clone_pool ops other pool =
     (case (other, pool) of (Some q, Some p) \<Rightarrow> Some (pool_clone_from ops q p) | _ \<Rightarrow> pool)"

definition patch_from :: "'s store_ops \<Rightarrow> 's enhancer \<Rightarrow> 's enhancer \<Rightarrow> 's enhancer" where
  "patch_from ops other h =
     h\<lparr>en_mapping := (case (en_mapping other, en_mapping h) of
          (Some m, Some n) \<Rightarrow> Some (lru_clone_to m n) | _ \<Rightarrow> en_mapping h),
       en_pool := clone_pool ops (en_pool other) (en_pool h),
       en_pool6 := clone_pool ops (en_pool6 other) (en_pool6 h)\<rparr>"

definition store_fake_pool_state :: "'s store_ops \<Rightarrow> 's enhancer \<Rightarrow> 's enhancer" where
  "store_fake_pool_state ops h =
     h\<lparr>en_pool := map_option (pool_store_state ops) (en_pool h),
       en_pool6 := map_option (pool_store_state ops) (en_pool6 h)\<rparr>"

record 's enhancer_config =
  ec_ipv6 :: bool
  ec_mode :: dns_mode
  ec_pool :: "'s pool option"
  ec_pool6 :: "'s pool option"
  ec_skipper :: skipper
  ec_ttl :: int
  ec_use_hosts :: bool

definition no_skipper :: skipper where
  "no_skipper = \<lparr>sk_rules = [], sk_hosts = [], sk_mode = FilterBlackList\<rparr>"

definition new_enhancer :: "'s enhancer_config \<Rightarrow> 's enhancer" where
  "new_enhancer cfg =
     (if ec_mode cfg = DNSNormal then
        \<lparr>en_ipv6 = ec_ipv6 cfg, en_mode = DNSNormal, en_pool = None, en_pool6 = None, en_skipper = no_skipper,
          en_ttl = 0, en_mapping = None, en_use_hosts = ec_use_hosts cfg\<rparr>
      else
        \<lparr>en_ipv6 = ec_ipv6 cfg, en_mode = ec_mode cfg, en_pool = ec_pool cfg,
          en_pool6 = (if ec_ipv6 cfg then ec_pool6 cfg else None), en_skipper = ec_skipper cfg,
          en_ttl = (if ec_ttl cfg < 1 then 1 else ec_ttl cfg), en_mapping = Some (lru_new 0 4096 False False),
          en_use_hosts = ec_use_hosts cfg\<rparr>)"

subsection \<open>Handlers\<close>

record ('s, 'u) dns_env =
  de_ops :: "'s store_ops"
  de_search :: "string \<Rightarrow> bool \<Rightarrow> host_value option \<times> bool"
  de_exchange :: "dns_msg \<Rightarrow> 'u \<Rightarrow> (string + dns_msg) \<times> 'u"
  de_set_rcode :: "dns_msg \<Rightarrow> dns_msg \<Rightarrow> int \<Rightarrow> dns_msg"
  de_has_edns0 :: "dns_msg \<Rightarrow> bool"
  de_set_edns0 :: "dns_msg \<Rightarrow> dns_msg \<Rightarrow> dns_msg"
  de_now :: int

text \<open>The enhancer, the kind of the reply noted in the context, and the state of the resolver.\<close>

record ('s, 'u) dns_state =
  ds_enhancer :: "'s enhancer"
  ds_type :: string
  ds_up :: 'u

type_synonym ('s, 'u) handler =
  "dns_msg \<Rightarrow> ('s, 'u) dns_state \<Rightarrow> (string + dns_msg) \<times> ('s, 'u) dns_state"

definition new_rr :: "string \<Rightarrow> 16 word \<Rightarrow> 32 word \<Rightarrow> rdata \<Rightarrow> rr" where
  "new_rr name type ttl d = \<lparr>rr_name = name, rr_type = type, rr_class = class_INET, rr_ttl = ttl, rr_data = d\<rparr>"

definition cname_rr :: "string \<Rightarrow> string \<Rightarrow> rr" where
  "cname_rr name domain = new_rr name type_CNAME 10 (DCname (domain @ ''.''))"

definition put_mapping :: "int \<Rightarrow> addr \<Rightarrow> string \<Rightarrow> int \<Rightarrow> ('s, 'u) dns_state \<Rightarrow> ('s, 'u) dns_state" where
  "put_mapping now ip host expires st =
     st\<lparr>ds_enhancer := (ds_enhancer st)\<lparr>en_mapping :=
          map_option (set_with_expire now ip host expires) (en_mapping (ds_enhancer st))\<rparr>\<rparr>"

definition asked_host :: "question \<Rightarrow> string" where
  "asked_host q = trim_right (CHR ''.'') (q_name q)"

definition host_rr :: "question \<Rightarrow> addr \<Rightarrow> rr option" where
  "host_rr q ip =
     (if addr_is4 ip \<and> q_type q = type_A then Some (new_rr (q_name q) type_A 10 (DA (addr_slice ip)))
      else if addr_is6 ip \<and> q_type q = type_AAAA then Some (new_rr (q_name q) type_AAAA 10 (DAaaa (addr_slice ip)))
      else None)"

fun host_answers ::
  "int \<Rightarrow> question \<Rightarrow> addr list \<Rightarrow> rr list \<Rightarrow> ('s, 'u) dns_state \<Rightarrow> rr list \<times> ('s, 'u) dns_state" where
  "host_answers now q [] answer st = (answer, st)"
| "host_answers now q (ip # ips) answer st =
     (case host_rr q ip of
        None \<Rightarrow> host_answers now q ips answer st
      | Some r \<Rightarrow> host_answers now q ips (answer @ [r]) (put_mapping now ip (asked_host q) (now + 10) st))"

definition finish_reply :: "(dns_msg \<Rightarrow> dns_msg \<Rightarrow> int \<Rightarrow> dns_msg) \<Rightarrow> dns_msg \<Rightarrow> dns_msg \<Rightarrow> dns_msg" where
  "finish_reply set_rcode msg r =
     (set_rcode msg r rcode_success)\<lparr>dm_authoritative := True, dm_recursion_available := True\<rparr>"

definition with_hosts :: "('s, 'u) dns_env \<Rightarrow> ('s, 'u) handler \<Rightarrow> ('s, 'u) handler" where
  "with_hosts env next r st =
     (let q = hd (dm_question r) in
      if \<not> is_ip_request q then next r st
      else
        (case de_search env (asked_host q) (q_type q \<noteq> type_A \<and> q_type q \<noteq> type_AAAA) of
           (record, False) \<Rightarrow>
             (case record of
                Some hv \<Rightarrow>
                  (if hv_is_domain hv then
                     (case next (r\<lparr>dm_question := q\<lparr>q_name := hv_domain hv @ ''.''\<rparr> # tl (dm_question r)\<rparr>) st of
                        (Inl e, st1) \<Rightarrow> (Inl e, st1)
                      | (Inr resp, st1) \<Rightarrow>
                          (Inr (resp\<lparr>dm_id := dm_id r, dm_question := dm_question r,
                             dm_answer := cname_rr (q_name q) (hv_domain hv) # dm_answer resp\<rparr>), st1))
                   else next r st)
              | None \<Rightarrow> next r st)
         | (record, True) \<Rightarrow>
             (let hv = (case record of Some hv \<Rightarrow> hv | None \<Rightarrow> \<lparr>hv_is_domain = False, hv_ips = [], hv_domain = []\<rparr>);
                  (answer, st1) =
                    (if q_type q = type_CNAME then (cname_rr (q_name q) (hv_domain hv) # dm_answer r, st)
                     else host_answers (de_now env) q (hv_ips hv) (dm_answer r) st) in
              (Inr (finish_reply (de_set_rcode env) (r\<lparr>dm_answer := answer\<rparr>) r), st1\<lparr>ds_type := ''host''\<rparr>))))"

text \<open>\<open>netip.Addr.IsGlobalUnicast\<close>.\<close>

definition addr_is_global_unicast :: "addr \<Rightarrow> bool" where
  "addr_is_global_unicast ip =
     (addr_valid ip \<and> ip \<noteq> V4 0 \<and> ip \<noteq> V4 (- 1) \<and> \<not> addr_is_unspecified ip \<and> \<not> addr_is_loopback ip \<and>
      \<not> addr_is_multicast ip \<and> \<not> addr_is_link_local_unicast ip)"

definition mapped_answer :: "rr \<Rightarrow> addr option" where
  "mapped_answer r =
     (case rr_ip (rr_data r) of
        None \<Rightarrow> None
      | Some ip \<Rightarrow> if addr_valid ip \<and> addr_is_global_unicast ip then Some (addr_unmap ip) else None)"

fun map_answers :: "int \<Rightarrow> string \<Rightarrow> rr list \<Rightarrow> ('s, 'u) dns_state \<Rightarrow> ('s, 'u) dns_state" where
  "map_answers now host [] st = st"
| "map_answers now host (r # rs) st =
     map_answers now host rs
       (case mapped_answer r of
          None \<Rightarrow> st
        | Some ip \<Rightarrow> put_mapping now ip host (now + int (unat (if rr_ttl r < 1 then 1 else rr_ttl r))) st)"

definition with_mapping :: "('s, 'u) dns_env \<Rightarrow> ('s, 'u) handler \<Rightarrow> ('s, 'u) handler" where
  "with_mapping env next r st =
     (let q = hd (dm_question r) in
      if \<not> is_ip_request q then next r st
      else
        (case next r st of
           (Inl e, st1) \<Rightarrow> (Inl e, st1)
         | (Inr msg, st1) \<Rightarrow> (Inr msg, map_answers (de_now env) (asked_host q) (dm_answer msg) st1)))"

definition fake_reply :: "('s, 'u) dns_env \<Rightarrow> dns_msg \<Rightarrow> rr \<Rightarrow> int \<Rightarrow> dns_msg" where
  "fake_reply env r answer ttl =
     finish_reply (de_set_rcode env) (set_msg_ttl (word_of_int ttl) (r\<lparr>dm_answer := [answer]\<rparr>)) r"

definition with_fake_ip :: "('s, 'u) dns_env \<Rightarrow> ('s, 'u) handler \<Rightarrow> ('s, 'u) handler" where
  "with_fake_ip env next r st =
     (let q = hd (dm_question r); host = asked_host q; h = ds_enhancer st;
          nothing = empty_answer (de_set_rcode env) r in
      if should_skipped (en_skipper h) host then next r st
      else if q_type q = type_A then
        (case en_pool h of
           None \<Rightarrow> (Inr nothing, st)
         | Some p \<Rightarrow>
             (case pool_lookup (de_ops env) host p of
                (ip, p') \<Rightarrow>
                  (Inr (fake_reply env r (new_rr (q_name q) type_A 600 (DA (addr_slice ip))) (en_ttl h)),
                   st\<lparr>ds_enhancer := h\<lparr>en_pool := Some p'\<rparr>, ds_type := ''fakeip''\<rparr>)))
      else if q_type q = type_AAAA then
        (case en_pool6 h of
           None \<Rightarrow> (Inr nothing, st)
         | Some p \<Rightarrow>
             (case pool_lookup (de_ops env) host p of
                (ip, p') \<Rightarrow>
                  (Inr (fake_reply env r (new_rr (q_name q) type_AAAA 600 (DAaaa (addr_slice ip))) (en_ttl h)),
                   st\<lparr>ds_enhancer := h\<lparr>en_pool6 := Some p'\<rparr>, ds_type := ''fakeip''\<rparr>)))
      else if q_type q = type_SVCB \<or> q_type q = type_HTTPS then (Inr nothing, st)
      else next r st)"

definition with_resolver :: "('s, 'u) dns_env \<Rightarrow> bool \<Rightarrow> ('s, 'u) handler" where
  "with_resolver env ipv6 r st =
     (let st1 = st\<lparr>ds_type := ''raw''\<rparr> in
      if \<not> ipv6 \<and> q_type (hd (dm_question r)) = type_AAAA then (Inr (empty_answer (de_set_rcode env) r), st1)
      else
        (case de_exchange env r (ds_up st1) of
           (Inl e, u) \<Rightarrow> (Inl e, st1\<lparr>ds_up := u\<rparr>)
         | (Inr msg, u) \<Rightarrow>
             (Inr ((de_set_rcode env msg r (dm_rcode msg))\<lparr>dm_authoritative := True\<rparr>), st1\<lparr>ds_up := u\<rparr>)))"

definition compose :: "(('s, 'u) handler \<Rightarrow> ('s, 'u) handler) list \<Rightarrow> ('s, 'u) handler \<Rightarrow> ('s, 'u) handler" where
  "compose middlewares endpoint = foldr (\<lambda>m h. m h) middlewares endpoint"

definition new_handler :: "('s, 'u) dns_env \<Rightarrow> 's enhancer \<Rightarrow> ('s, 'u) handler" where
  "new_handler env mapper =
     compose
       ((if en_use_hosts mapper then [with_hosts env] else [])
        @ (if en_mode mapper = DNSFakeIP then [with_fake_ip env] else [])
        @ (if en_mode mapper \<noteq> DNSNormal then [with_mapping env] else []))
       (with_resolver env (en_ipv6 mapper))"

definition serve_msg :: "('s, 'u) dns_env \<Rightarrow> ('s, 'u) handler \<Rightarrow> ('s, 'u) handler" where
  "serve_msg env handler msg st =
     (if dm_question msg = [] then (Inl ''at least one question is required'', st)
      else
        (case handler msg (st\<lparr>ds_type := []\<rparr>) of
           (Inl e, st1) \<Rightarrow> (Inl e, st1)
         | (Inr r, st1) \<Rightarrow>
             (Inr (if de_has_edns0 env msg \<and> \<not> de_has_edns0 env r then de_set_edns0 env r msg else r), st1)))"

subsection \<open>The addresses of a pool lie in its network\<close>

lemma drop_bit_mono_word: "a \<le> b \<Longrightarrow> drop_bit k (a :: 'a::len word) \<le> drop_bit k b"
  unfolding word_le_nat_alt unat_drop_bit_eq drop_bit_eq_div [of k "unat a"] drop_bit_eq_div [of k "unat b"]
  by (rule div_le_mono)

lemma in_net4_iff: "in_net4 w base n \<longleftrightarrow> drop_bit (32 - n) w = drop_bit (32 - n) base"
proof -
  have zero: "a XOR b = 0 \<longleftrightarrow> a = b" for a b :: "32 word"
  proof
    assume "a XOR b = 0"
    then have "(a XOR b) XOR b = b" by simp
    then show "a = b" by (simp add: xor.assoc)
  qed simp
  show ?thesis by (simp add: zero)
qed

lemma in_net4_between:
  assumes "in_net4 l base n" and "in_net4 f base n" and "f \<le> a" and "a \<le> l"
  shows "in_net4 a base n"
  using assms drop_bit_mono_word [of f a "32 - n"] drop_bit_mono_word [of a l "32 - n"]
  unfolding in_net4_iff by simp

lemma pool_step_static:
  "pool_step ops p p' \<Longrightarrow> p_gateway p' = p_gateway p \<and> p_ipnet p' = p_ipnet p"
  by (elim pool_stepE)
    (auto simp: pool_lookup_def pool_get_def pool_look_back_def pool_flush_def Let_def split: prod.split option.split)

lemma pool_steps_static:
  "(pool_step ops)\<^sup>*\<^sup>* p p' \<Longrightarrow> p_gateway p' = p_gateway p \<and> p_ipnet p' = p_ipnet p"
  by (induction rule: rtranclp_induct) (auto dest: pool_step_static)

lemma new_pool_network:
  assumes "new_pool memory_ops (new_memory_store n) last_ip ipnet = Inr p"
  shows "p_ipnet p = ipnet" and "p_gateway p = addr_next (prefix_addr (prefix_masked ipnet))"
  using assms by (auto simp: new_pool_def pool_restore_state_def memory_ops_def Let_def split: if_splits)

text \<open>
  Of a prefix of IPv4 addresses that contains its last address, the addresses a pool hands out are
  neither its gateway nor its broadcast address, and lie in the prefix.
\<close>

lemma pool_address_in_network:
  assumes p: "new_pool memory_ops (new_memory_store k) last_ip (Pfx (V4 w) n) = Inr p"
    and l: "last_ip (Pfx (V4 w) n) = V4 l" "in_net4 l w n" and a: "in_range (p_first p) (V4 l) a"
  shows "prefix_contains (p_ipnet p) a \<and> a \<noteq> p_gateway p \<and> a \<noteq> V4 l \<and> (\<exists>v. a = V4 v)"
proof -
  define b where "b = keep_top 32 n w"
  note f = new_pool_fields [OF p]
  have first: "p_first p = addr_next (addr_next (addr_next (addr_next (V4 b))))"
    using f(1) by (simp add: b_def)
  obtain v f0 where v: "a = V4 v" and f0: "p_first p = V4 f0" and range: "f0 \<le> v" "v < l"
    using a by (cases "p_first p"; cases a) auto
  have no_wrap: "x \<noteq> - 1 \<Longrightarrow> x < x + 1" for x :: "32 word"
    using unatSuc [of x] by (simp add: word_less_nat_alt add.commute eq_neg_iff_add_eq_0)
  have steps: "b \<noteq> - 1" "b + 1 \<noteq> - 1" "b + 1 + 1 \<noteq> - 1" "b + 1 + 1 + 1 \<noteq> - 1" "f0 = b + 1 + 1 + 1 + 1"
    using first f0 by (auto split: if_splits)
  then have "b < b + 1" "b + 1 < b + 1 + 1" "b + 1 + 1 < b + 1 + 1 + 1" "b + 1 + 1 + 1 < f0"
    using no_wrap [of b] no_wrap [of "b + 1"] no_wrap [of "b + 1 + 1"] no_wrap [of "b + 1 + 1 + 1"] by simp_all
  then have less: "b \<le> v" "b + 1 < v" using range by (meson order.strict_trans order.strict_trans1 order.strict_trans2 less_imp_le order.trans)+
  have "in_net4 b w n" unfolding in_net4_iff b_def keep_top_def by (rule bit_word_eqI) (auto simp: bit_simps dest: bit_imp_le_length)
  then have "in_net4 v w n" using in_net4_between [OF l(2) _ less(1)] range(2) by (simp add: less_imp_le)
  moreover have "p_gateway p = V4 (b + 1)" using new_pool_network(2) [OF p] steps(1) by (simp add: b_def)
  ultimately show ?thesis using new_pool_network(1) [OF p] v less(2) range(2) by auto
qed

subsection \<open>A fake answer names its host\<close>

lemma fake_pool_answers:
  assumes p0: "new_pool memory_ops (new_memory_store k) last_ip (Pfx (V4 w) n) = Inr p0"
    and l: "last_ip (Pfx (V4 w) n) = V4 l" "in_net4 l w n" and steps: "(pool_step memory_ops)\<^sup>*\<^sup>* p0 p"
    and a: "pool_lookup memory_ops h p = (a, p')"
  shows "prefix_contains (p_ipnet p') a" and "a \<noteq> p_gateway p'" and "a \<noteq> p_last p'" and "\<exists>v. a = V4 v"
    and "fst (pool_look_back memory_ops a p') = Some (to_lower h)"
proof -
  have ok: "pool_ok mem_ok mem_names p \<and> p_first p = p_first p0 \<and> p_last p = p_last p0"
    using mem.steps_ok [OF steps] new_pool_ok [OF p0] l(1) by simp
  note answers = mem.lookup_answers [OF conjunct1 [OF ok] a]
  have within: "in_range (p_first p0) (V4 l) a" using answers ok new_pool_fields(2) [OF p0] l(1) by simp
  have "pool_step memory_ops p p'" using pool_step.Lookup [of memory_ops p h] a by simp
  then have run: "(pool_step memory_ops)\<^sup>*\<^sup>* p0 p'" using steps by simp
  have static: "p_gateway p' = p_gateway p0" "p_ipnet p' = p_ipnet p0" "p_last p' = V4 l"
    using pool_steps_static [OF run] mem.steps_ok [OF run] new_pool_ok [OF p0] new_pool_fields(2) [OF p0] l(1) by simp_all
  show "prefix_contains (p_ipnet p') a" "a \<noteq> p_gateway p'" "a \<noteq> p_last p'" "\<exists>v. a = V4 v"
    using pool_address_in_network [OF p0 l within] unfolding static by auto
  show "fst (pool_look_back memory_ops a p') = Some (to_lower h)" using answers by simp
qed

text \<open>\<open>SetRcode\<close> and \<open>SetEdns0\<close> set the header and the OPT record of a message; they keep its answers.\<close>

definition keeps_answers :: "('s, 'u) dns_env \<Rightarrow> bool" where
  "keeps_answers env \<longleftrightarrow>
     (\<forall>m r c. dm_answer (de_set_rcode env m r c) = dm_answer m) \<and>
     (\<forall>m r. dm_answer (de_set_edns0 env m r) = dm_answer m)"

lemma serve_answer:
  assumes "keeps_answers env" and "dm_question msg \<noteq> []" and "handler msg (st\<lparr>ds_type := []\<rparr>) = (Inr reply, st1)"
  shows "\<exists>out. serve_msg env handler msg st = (Inr out, st1) \<and> dm_answer out = dm_answer reply"
  using assms by (simp add: serve_msg_def keeps_answers_def)

text \<open>The fake-ip handler answers a question for an address, whatever comes after it.\<close>

lemma with_fake_ip_answer:
  assumes "hd (dm_question r) = q" and "q_type q = type_A" and "\<not> should_skipped (en_skipper (ds_enhancer st)) (asked_host q)"
    and "en_pool (ds_enhancer st) = Some p" and "pool_lookup (de_ops env) (asked_host q) p = (ip, p')" and "keeps_answers env"
  shows "\<exists>reply. with_fake_ip env next r st =
      (Inr reply, st\<lparr>ds_enhancer := (ds_enhancer st)\<lparr>en_pool := Some p'\<rparr>, ds_type := ''fakeip''\<rparr>) \<and>
    dm_answer reply = [new_rr (q_name q) type_A (word_of_int (en_ttl (ds_enhancer st))) (DA (addr_slice ip))]"
  using assms
  by (simp add: with_fake_ip_def Let_def fake_reply_def finish_reply_def keeps_answers_def set_msg_ttl_def new_rr_def)

text \<open>The hosts table has nothing on a name when its search fails without an alias.\<close>

definition not_in_hosts :: "('s, 'u) dns_env \<Rightarrow> string \<Rightarrow> bool" where
  "not_in_hosts env host \<longleftrightarrow> (case de_search env host False of
     (record, found) \<Rightarrow> \<not> found \<and> (case record of None \<Rightarrow> True | Some hv \<Rightarrow> \<not> hv_is_domain hv))"

lemma with_hosts_passes:
  assumes "hd (dm_question r) = q" and "q_type q = type_A" and "not_in_hosts env (asked_host q)"
  shows "with_hosts env next r st = next r st"
proof (cases "de_search env (asked_host q) False")
  case (Pair hit found)
  then show ?thesis
    using assms by (cases hit) (simp_all add: with_hosts_def Let_def not_in_hosts_def)
qed

text \<open>
  C19: asked for the IPv4 address of a name that is neither in the hosts table nor kept out of it,
  a service in fake-ip mode answers one address of the pool, with the configured lifetime. The
  kernel recognises the address as a fake one, and finds the name in lower case when a connection
  to that address arrives, wherever the pool stood when it was asked.
\<close>

theorem fake_answer_leads_back:
  assumes "new_pool memory_ops (new_memory_store k) last_ip (Pfx (V4 w) n) = Inr p0"
    and "last_ip (Pfx (V4 w) n) = V4 l" and "in_net4 l w n" and "(pool_step memory_ops)\<^sup>*\<^sup>* p0 p"
    and "de_ops env = memory_ops" and "keeps_answers env"
    and "en_mode (ds_enhancer st) = DNSFakeIP" and "en_pool (ds_enhancer st) = Some p"
    and "dm_question msg = [q]" and "q_type q = type_A"
    and "not_in_hosts env (asked_host q)" and "\<not> should_skipped (en_skipper (ds_enhancer st)) (asked_host q)"
  shows "\<exists>reply st' a. serve_msg env (new_handler env (ds_enhancer st)) msg st = (Inr reply, st') \<and>
    map rr_ttl (dm_answer reply) = [word_of_int (en_ttl (ds_enhancer st))] \<and> msg_to_ip reply = [a] \<and>
    is_fake_ip a (ds_enhancer st') \<and>
    fst (find_host_by_ip memory_ops now a (ds_enhancer st')) = Some (to_lower (asked_host q))"
proof -
  obtain a p' where a: "pool_lookup memory_ops (asked_host q) p = (a, p')"
    by (cases "pool_lookup memory_ops (asked_host q) p")
  define st0 where "st0 = st\<lparr>ds_type := []\<rparr>"
  define st' where "st' = st0\<lparr>ds_enhancer := (ds_enhancer st0)\<lparr>en_pool := Some p'\<rparr>, ds_type := ''fakeip''\<rparr>"
  note served = fake_pool_answers [OF assms(1-4) a]
  have same: "ds_enhancer st0 = ds_enhancer st" by (simp add: st0_def)
  have chain: "\<exists>reply. with_fake_ip env nxt msg st0 = (Inr reply, st') \<and>
      dm_answer reply = [new_rr (q_name q) type_A (word_of_int (en_ttl (ds_enhancer st))) (DA (addr_slice a))]" for nxt
    using with_fake_ip_answer [of msg q st0 p env a p' nxt] assms(5,6,8-10,12) a unfolding same st'_def by simp
  have "\<exists>reply. new_handler env (ds_enhancer st) msg st0 = (Inr reply, st') \<and>
      dm_answer reply = [new_rr (q_name q) type_A (word_of_int (en_ttl (ds_enhancer st))) (DA (addr_slice a))]"
    using chain with_hosts_passes [of msg q env] assms(7,9-11) by (simp add: new_handler_def compose_def)
  then obtain reply where reply: "serve_msg env (new_handler env (ds_enhancer st)) msg st = (Inr reply, st')"
    and ans: "dm_answer reply = [new_rr (q_name q) type_A (word_of_int (en_ttl (ds_enhancer st))) (DA (addr_slice a))]"
    using serve_answer [OF assms(6), of msg "new_handler env (ds_enhancer st)" st] assms(9) unfolding st0_def by fastforce
  have "msg_to_ip reply = [a]" using served(4) addr_from_slice_V4 by (auto simp: msg_to_ip_def ans new_rr_def)
  moreover have "is_fake_ip a (ds_enhancer st')"
    using served assms(7) by (simp add: is_fake_ip_def in_some_pool_def fake_ip_enabled_def st'_def same)
  moreover have "fst (find_host_by_ip memory_ops now a (ds_enhancer st')) = Some (to_lower (asked_host q))"
    using served(5) by (cases "pool_look_back memory_ops a p'") (simp add: find_host_by_ip_def look_back_in_def st'_def)
  ultimately show ?thesis using reply ans by (simp add: new_rr_def)
qed

definition demo_dns_env :: "(memory_store, unit) dns_env" where
  "demo_dns_env = \<lparr>de_ops = memory_ops, de_search = \<lambda>_ _. (None, False),
     de_exchange = \<lambda>r u. (Inr (r\<lparr>dm_answer := [new_rr ''a.b.'' type_A 60 (DA [1, 2, 3, 4]), new_rr ''a.b.'' type_A 60 (DA [1, 2, 3, 5])]\<rparr>), u),
     de_set_rcode = \<lambda>m _ _. m, de_has_edns0 = \<lambda>_. False, de_set_edns0 = \<lambda>m _. m, de_now = 1000\<rparr>"

definition demo_dns_state :: "dns_mode \<Rightarrow> (memory_store, unit) dns_state" where
  "demo_dns_state mode = \<lparr>ds_enhancer = new_enhancer \<lparr>ec_ipv6 = False, ec_mode = mode, ec_pool = Some demo_pool,
     ec_pool6 = None, ec_skipper = no_skipper, ec_ttl = 1, ec_use_hosts = True\<rparr>, ds_type = [], ds_up = ()\<rparr>"

definition demo_dns_question :: question where
  "demo_dns_question = \<lparr>q_name = ''A.com.'', q_type = type_A, q_class = class_INET\<rparr>"

lemma demo_keeps_answers: "keeps_answers demo_dns_env"
  by (simp add: keeps_answers_def demo_dns_env_def)

theorem fake_answer_leads_back_witness:
  "\<exists>reply st' a. serve_msg demo_dns_env (new_handler demo_dns_env (ds_enhancer (demo_dns_state DNSFakeIP)))
      (empty_msg\<lparr>dm_question := [demo_dns_question]\<rparr>) (demo_dns_state DNSFakeIP) = (Inr reply, st') \<and>
    msg_to_ip reply = [a] \<and> fst (find_host_by_ip memory_ops 0 a (ds_enhancer st')) = Some ''a.com''"
proof -
  have host: "asked_host demo_dns_question = ''A.com''" "to_lower ''A.com'' = ''a.com''" by code_simp+
  have "not_in_hosts demo_dns_env h" for h by (simp add: not_in_hosts_def demo_dns_env_def)
  moreover have "\<not> should_skipped no_skipper h" for h by (simp add: should_skipped_def no_skipper_def)
  moreover have "in_net4 0xc612000f 0xc6120000 28" by simp
  ultimately show ?thesis
    using fake_answer_leads_back [OF demo_new_pool, of "0xc612000f" demo_pool demo_dns_env "demo_dns_state DNSFakeIP"
        "empty_msg\<lparr>dm_question := [demo_dns_question]\<rparr>" demo_dns_question 0] demo_keeps_answers host
    by (auto simp: demo_last_ip_def demo_dns_state_def new_enhancer_def demo_dns_env_def demo_dns_question_def empty_msg_def)
qed

subsection \<open>A real answer names its host\<close>

text \<open>
  Of a cache that holds \<open>n\<close> recent entries with the value \<open>host\<close>, one for every key of \<open>ips\<close>.
\<close>

definition recent :: "addr set \<Rightarrow> string \<Rightarrow> nat \<Rightarrow> (addr, string) lru \<Rightarrow> bool" where
  "recent ips host n c \<longleftrightarrow> lru_ok c \<and> l_max_age c \<le> 0 \<and>
     (\<exists>ys zs. lru_view c = ys @ zs \<and> set zs = (\<lambda>ip. (ip, host)) ` ips \<and> length zs \<le> n)"

lemma recent_put:
  assumes c: "recent ips host n c" and n: "int n < l_max_size c"
  shows "recent (insert ip ips) host (Suc n) (set_with_expire now ip host ex c)"
proof -
  obtain ys zs where v: "lru_view c = ys @ zs" "set zs = (\<lambda>ip. (ip, host)) ` ips" "length zs \<le> n"
    and ok: "lru_ok c" "l_max_age c \<le> 0"
    using c by (auto simp: recent_def)
  define ys' zs' where "ys' = drop_key ip ys" and "zs' = drop_key ip zs @ [(ip, host)]"
  have "length (drop_key ip zs) \<le> n"
    unfolding drop_key_def using v(3) length_filter_le order.trans by blast
  then have len: "length zs' \<le> Suc n" by (simp add: zs'_def)
  have set: "set zs' = (\<lambda>ip. (ip, host)) ` insert ip ips"
    using v(2) by (auto simp: zs'_def drop_key_def)
  have view: "lru_view (set_with_expire now ip host ex c) = trim_front (l_max_size c) (ys' @ zs')"
    using view_set_with_expire [OF ok] v(1) by (simp add: ys'_def zs'_def drop_key_def)
  have "\<exists>ys. trim_front (l_max_size c) (ys' @ zs') = ys @ zs'"
    using len n by (cases ys') (auto simp: trim_front_def)
  then show ?thesis using view len set ok lru_ok_set_with_expire by (auto simp: recent_def)
qed

definition mapped_in :: "rr list \<Rightarrow> addr set" where
  "mapped_in rs = {ip. \<exists>r\<in>set rs. mapped_answer r = Some ip}"

lemma mapped_in_Cons:
  "mapped_in (r # rs) = (case mapped_answer r of None \<Rightarrow> {} | Some ip \<Rightarrow> {ip}) \<union> mapped_in rs"
  by (auto simp: mapped_in_def split: option.splits)

lemma put_mapping_simps [simp]:
  "en_pool (ds_enhancer (put_mapping now ip host ex st)) = en_pool (ds_enhancer st)"
  "en_pool6 (ds_enhancer (put_mapping now ip host ex st)) = en_pool6 (ds_enhancer st)"
  "en_mapping (ds_enhancer (put_mapping now ip host ex st)) =
     map_option (set_with_expire now ip host ex) (en_mapping (ds_enhancer st))"
  by (simp_all add: put_mapping_def)

lemma map_answers_recent:
  assumes "en_mapping (ds_enhancer st) = Some c" and "recent ips host n c" and "int (n + length rs) \<le> l_max_size c"
  shows "\<exists>c' n'. en_mapping (ds_enhancer (map_answers now host rs st)) = Some c' \<and> recent (ips \<union> mapped_in rs) host n' c' \<and>
    en_pool (ds_enhancer (map_answers now host rs st)) = en_pool (ds_enhancer st) \<and>
    en_pool6 (ds_enhancer (map_answers now host rs st)) = en_pool6 (ds_enhancer st)"
  using assms
proof (induction rs arbitrary: st c ips n)
  case Nil
  then show ?case by (auto simp: mapped_in_def)
next
  case (Cons r rs)
  show ?case
  proof (cases "mapped_answer r")
    case None
    then show ?thesis using Cons.IH [OF Cons.prems(1,2)] Cons.prems(3) by (simp add: mapped_in_Cons)
  next
    case (Some ip)
    define ex where "ex = now + int (unat (if rr_ttl r < 1 then 1 else rr_ttl r))"
    have "recent (insert ip ips) host (Suc n) (set_with_expire now ip host ex c)"
      by (rule recent_put [OF Cons.prems(2)]) (use Cons.prems(3) in simp)
    then show ?thesis
      using Cons.IH [of "put_mapping now ip host ex st" "set_with_expire now ip host ex c" "insert ip ips" "Suc n"] Cons.prems Some
      by (simp add: mapped_in_Cons ex_def)
  qed
qed

lemma recent_get: "recent ips host n c \<Longrightarrow> ip \<in> ips \<Longrightarrow> fst (lru_get now ip c) = Some host"
proof -
  assume c: "recent ips host n c" and "ip \<in> ips"
  then have "(ip, host) \<in> set (lru_view c)" by (auto simp: recent_def)
  moreover have ok: "lru_ok c" "l_max_age c \<le> 0" using c by (simp_all add: recent_def)
  ultimately have "map_of (lru_view c) ip = Some host" using distinct_view [OF ok(1)] by simp
  then show ?thesis using view_get [OF ok] by simp
qed



end
