(* ===== verification/Metadata.thy ===== *)
theory Metadata
  imports Net_Addr Enums
begin

text \<open>
  The connection metadata record (\<open>constant/metadata.go\<close>): its fields, the derived addresses,
  and the ways it is filled from a remote address. The textual parser \<open>netip.ParseAddr\<close> and the
  printer \<open>netip.Addr.String\<close> are arguments (\<open>parse_addr\<close>, \<open>addr_str\<close>); \<open>net.SplitHostPort\<close>
  and \<open>net.JoinHostPort\<close> are modelled. The two raw \<open>net.Addr\<close> fields are kept for reference only
  by the code and have no counterpart.
\<close>

subsection \<open>Host and port text\<close>

fun index_byte :: "char \<Rightarrow> string \<Rightarrow> nat option" where
  "index_byte c [] = None"
| "index_byte c (d # s) = (if d = c then Some 0 else map_option Suc (index_byte c s))"

definition last_index_byte :: "char \<Rightarrow> string \<Rightarrow> nat option" where
  "last_index_byte c s = map_option (\<lambda>i. length s - Suc i) (index_byte c (rev s))"

definition addr_err :: "string \<Rightarrow> string \<Rightarrow> string" where
  "addr_err a why = ''address '' @ a @ '': '' @ why"

definition check_brackets :: "string \<Rightarrow> nat \<Rightarrow> nat \<Rightarrow> string \<Rightarrow> string \<Rightarrow> string + (string \<times> string)" where
  "check_brackets hp j k host port =
     (if index_byte CHR ''['' (drop j hp) \<noteq> None then Inl (addr_err hp ''unexpected '[' in address'')
      else if index_byte CHR '']'' (drop k hp) \<noteq> None then Inl (addr_err hp ''unexpected ']' in address'')
      else Inr (host, port))"

definition split_host_port :: "string \<Rightarrow> string + (string \<times> string)" where
  "split_host_port hp =
     (case last_index_byte CHR '':'' hp of
        None \<Rightarrow> Inl (addr_err hp ''missing port in address'')
      | Some i \<Rightarrow>
          (if hd hp = CHR ''['' then
             (case index_byte CHR '']'' hp of
                None \<Rightarrow> Inl (addr_err hp ''missing ']' in address'')
              | Some e \<Rightarrow>
                  (if e + 1 = length hp then Inl (addr_err hp ''missing port in address'')
                   else if e + 1 = i then
                     check_brackets hp 1 (e + 1) (take (e - 1) (drop 1 hp)) (drop (i + 1) hp)
                   else if hp ! (e + 1) = CHR '':'' then Inl (addr_err hp ''too many colons in address'')
                   else Inl (addr_err hp ''missing port in address'')))
           else
             (let host = take i hp in
              if index_byte CHR '':'' host \<noteq> None then Inl (addr_err hp ''too many colons in address'')
              else check_brackets hp 0 0 host (drop (i + 1) hp))))"

definition join_host_port :: "string \<Rightarrow> string \<Rightarrow> string" where
  "join_host_port host port =
     (if index_byte CHR '':'' host \<noteq> None then ''['' @ host @ '']:'' @ port else host @ '':'' @ port)"

subsection \<open>The record\<close>

record metadata =
  m_network :: network
  m_type :: in_type
  m_src_ip :: addr
  m_dst_ip :: addr
  m_src_geoip :: "string list option"
  m_dst_geoip :: "string list option"
  m_src_ipasn :: string
  m_dst_ipasn :: string
  m_src_port :: "16 word"
  m_dst_port :: "16 word"
  m_in_ip :: addr
  m_in_port :: "16 word"
  m_in_name :: string
  m_in_user :: string
  m_rematch_name :: string
  m_host :: string
  m_dns_mode :: dns_mode
  m_uid :: "32 word"
  m_process :: string
  m_process_path :: string
  m_special_proxy :: string
  m_special_rules :: string
  m_remote_dst :: string
  m_dscp :: "8 word"
  m_sniff_host :: string

definition source_address :: "(addr \<Rightarrow> string) \<Rightarrow> metadata \<Rightarrow> string" where
  "source_address addr_str m = join_host_port (addr_str (m_src_ip m)) (nat_str (unat (m_src_port m)))"

definition metadata_string :: "(addr \<Rightarrow> string) \<Rightarrow> metadata \<Rightarrow> string" where
  "metadata_string addr_str m =
     (if m_host m \<noteq> [] then m_host m
      else if addr_valid (m_dst_ip m) then addr_str (m_dst_ip m)
      else ''<nil>'')"

definition remote_address :: "(addr \<Rightarrow> string) \<Rightarrow> metadata \<Rightarrow> string" where
  "remote_address addr_str m = join_host_port (metadata_string addr_str m) (nat_str (unat (m_dst_port m)))"

definition source_addr_port :: "metadata \<Rightarrow> addr \<times> 16 word" where
  "source_addr_port m = (addr_unmap (m_src_ip m), m_src_port m)"

definition source_detail :: "(addr \<Rightarrow> string) \<Rightarrow> metadata \<Rightarrow> string" where
  "source_detail addr_str m =
     (if m_type m = TYPE_INNER then ''mihomo''
      else if m_process m \<noteq> [] \<and> m_uid m \<noteq> 0 then
        source_address addr_str m @ ''('' @ m_process m @ '', uid='' @ nat_str (unat (m_uid m)) @ '')''
      else if m_uid m \<noteq> 0 then
        source_address addr_str m @ ''(uid='' @ nat_str (unat (m_uid m)) @ '')''
      else if m_process m \<noteq> [] then source_address addr_str m @ ''('' @ m_process m @ '')''
      else source_address addr_str m)"

definition source_valid :: "metadata \<Rightarrow> bool" where
  "source_valid m = (m_src_port m \<noteq> 0 \<and> addr_valid (m_src_ip m))"

definition metadata_addr_type :: "metadata \<Rightarrow> addr_type" where
  "metadata_addr_type m =
     (if m_host m \<noteq> [] \<or> \<not> addr_valid (m_dst_ip m) then AtypDomainName
      else if addr_is4 (m_dst_ip m) then AtypIPv4
      else AtypIPv6)"

definition metadata_resolved :: "metadata \<Rightarrow> bool" where
  "metadata_resolved m = addr_valid (m_dst_ip m)"

definition rule_host :: "metadata \<Rightarrow> string" where
  "rule_host m = (if length (m_sniff_host m) = 0 then m_host m else m_sniff_host m)"

definition metadata_pure :: "metadata \<Rightarrow> metadata" where
  "metadata_pure m =
     (if (m_dns_mode m = DNSMapping \<or> m_dns_mode m = DNSHosts) \<and> addr_valid (m_dst_ip m)
      then m\<lparr>m_host := []\<rparr> else m)"

definition metadata_addr_port :: "metadata \<Rightarrow> addr \<times> 16 word" where
  "metadata_addr_port m = (addr_unmap (m_dst_ip m), m_dst_port m)"

definition metadata_udp_addr :: "metadata \<Rightarrow> (addr \<times> 16 word) option" where
  "metadata_udp_addr m =
     (if m_network m \<noteq> UDP \<or> \<not> addr_valid (m_dst_ip m) then None else Some (metadata_addr_port m))"

definition metadata_valid :: "metadata \<Rightarrow> bool" where
  "metadata_valid m = (m_host m \<noteq> [] \<or> addr_valid (m_dst_ip m))"

definition swap_src_dst :: "metadata \<Rightarrow> metadata" where
  "swap_src_dst m =
     m\<lparr>m_src_ip := m_dst_ip m, m_dst_ip := m_src_ip m,
       m_src_port := m_dst_port m, m_dst_port := m_src_port m,
       m_src_ipasn := m_dst_ipasn m, m_dst_ipasn := m_src_ipasn m,
       m_src_geoip := m_dst_geoip m, m_dst_geoip := m_src_geoip m\<rparr>"

subsection \<open>Setting the remote end\<close>

definition parse_port16 :: "string \<Rightarrow> 16 word" where
  "parse_port16 port =
     (case parse_uint64 port of
        Some n \<Rightarrow> if n < 2 ^ 16 then of_nat n else 0
      | None \<Rightarrow> 0)"

definition set_remote_address ::
  "(string \<Rightarrow> addr option) \<Rightarrow> string \<Rightarrow> metadata \<Rightarrow> metadata \<times> string option" where
  "set_remote_address parse_addr raw m =
     (case split_host_port raw of
        Inl err \<Rightarrow> (m, Some err)
      | Inr (host, port) \<Rightarrow>
          (let m' = (case parse_addr host of
                       None \<Rightarrow> m\<lparr>m_host := host, m_dst_ip := NoAddr\<rparr>
                     | Some ip \<Rightarrow> m\<lparr>m_host := [], m_dst_ip := addr_unmap ip\<rparr>)
           in (m'\<lparr>m_dst_port := parse_port16 port\<rparr>, None)))"

text \<open>
  A \<open>net.Addr\<close> by the interfaces the code asks it for: \<open>RawAddr()\<close> (absent, or present and
  possibly nil), \<open>AddrPort()\<close>, \<open>AddrString()\<close>, and its text.
\<close>

datatype net_addr =
  NetAddr "net_addr option option" "(addr \<times> 16 word) option" "string option" string

definition set_remote_addr_port ::
  "(string \<Rightarrow> addr option) \<Rightarrow> (addr \<times> 16 word) option \<Rightarrow> string option \<Rightarrow> string \<Rightarrow>
   metadata \<Rightarrow> metadata \<times> string option" where
  "set_remote_addr_port parse_addr ap astr txt m =
     (case ap of
        Some (a, port) \<Rightarrow>
          (if port \<noteq> 0 then
             (let m' = m\<lparr>m_dst_port := port\<rparr> in
              if addr_valid a then (m'\<lparr>m_dst_ip := addr_unmap a\<rparr>, None)
              else (case astr of
                      Some fqdn \<Rightarrow> (m'\<lparr>m_host := fqdn\<rparr>, None)
                    | None \<Rightarrow> set_remote_address parse_addr txt m'))
           else set_remote_address parse_addr txt m)
      | None \<Rightarrow> set_remote_address parse_addr txt m)"

fun set_remote_addr ::
  "(string \<Rightarrow> addr option) \<Rightarrow> net_addr option \<Rightarrow> metadata \<Rightarrow> metadata \<times> string option" where
  "set_remote_addr parse_addr None m = (m, None)"
| "set_remote_addr parse_addr (Some (NetAddr (Some (Some raw)) ap astr txt)) m =
     (case set_remote_addr parse_addr (Some raw) m of
        (m', None) \<Rightarrow> (m', None)
      | (m', Some _) \<Rightarrow> set_remote_addr_port parse_addr ap astr txt m')"
| "set_remote_addr parse_addr (Some (NetAddr _ ap astr txt)) m =
     set_remote_addr_port parse_addr ap astr txt m"

subsection \<open>Facts\<close>

lemma swap_src_dst_swap [simp]: "swap_src_dst (swap_src_dst m) = m"
  by (simp add: swap_src_dst_def)

lemma rule_host_swap [simp]: "rule_host (swap_src_dst m) = rule_host m"
  by (simp add: swap_src_dst_def rule_host_def)

lemma metadata_pure_idem [simp]: "metadata_pure (metadata_pure m) = metadata_pure m"
  by (simp add: metadata_pure_def)

lemma index_byte_None [simp]: "index_byte c s = None \<longleftrightarrow> c \<notin> set s"
  by (induction s) auto

lemma index_byte_append: "c \<notin> set s \<Longrightarrow> index_byte c (s @ t) = map_option ((+) (length s)) (index_byte c t)"
  by (induction s) (auto simp: map_option_case simp del: index_byte_None split: option.splits)

lemma last_index_byte_append:
  "c \<notin> set t \<Longrightarrow> last_index_byte c (s @ c # t) = Some (length s)"
  by (simp add: last_index_byte_def index_byte_append)

lemma parse_port16_nat_str: "parse_port16 (nat_str (unat p)) = p"
proof -
  have "unat p < 2 ^ 16" using unsigned_less [of p] by simp
  then show ?thesis by (simp add: parse_port16_def parse_uint64_nat_str)
qed

lemma split_join_host_port:
  assumes "CHR ''['' \<notin> set host" and "CHR '']'' \<notin> set host"
    and "CHR '':'' \<notin> set port" and "CHR ''['' \<notin> set port" and "CHR '']'' \<notin> set port"
  shows "split_host_port (join_host_port host port) = Inr (host, port)"
proof (cases "CHR '':'' \<in> set host")
  case True
  have li: "last_index_byte CHR '':'' (''['' @ host @ '']:'' @ port) = Some (length host + 2)"
    using last_index_byte_append [OF assms(3), of "''['' @ host @ '']''"] by simp
  have ci: "index_byte CHR '']'' (''['' @ host @ '']:'' @ port) = Some (length host + 1)"
    using assms(2) by (simp add: index_byte_append)
  show ?thesis
    using True li ci assms
    by (simp add: split_host_port_def join_host_port_def check_brackets_def drop_Cons')
next
  case False
  have li: "last_index_byte CHR '':'' (host @ '':'' @ port) = Some (length host)"
    using last_index_byte_append [OF assms(3), of host] by simp
  have "hd (host @ '':'' @ port) \<noteq> CHR ''[''"
    using assms(1) by (cases host) auto
  then show ?thesis
    using False li assms
    by (simp add: split_host_port_def join_host_port_def check_brackets_def)
qed

text \<open>
  C5: a metadata whose destination is set again from its own remote address text gets back the
  destination it had. This needs of \<open>netip\<close> that the text of the destination address parses back
  to it and holds no bracket, and of a host name that it holds no bracket and is no address.
\<close>

theorem remote_address_roundtrip:
  assumes "m_host m = [] \<Longrightarrow> parse_addr (addr_str (m_dst_ip m)) = Some (m_dst_ip m)"
    and "CHR ''['' \<notin> set (addr_str (m_dst_ip m)) \<and> CHR '']'' \<notin> set (addr_str (m_dst_ip m))"
    and "CHR ''['' \<notin> set (m_host m)" and "CHR '']'' \<notin> set (m_host m)"
    and "parse_addr (m_host m) = None"
    and "addr_unmap (m_dst_ip m) = m_dst_ip m"
    and "metadata_valid m" and "m_host m \<noteq> [] \<Longrightarrow> m_dst_ip m = NoAddr"
  shows "set_remote_address parse_addr (remote_address addr_str m) m = (m, None)"
proof -
  let ?p = "nat_str (unat (m_dst_port m))"
  have p: "CHR '':'' \<notin> set ?p" "CHR ''['' \<notin> set ?p" "CHR '']'' \<notin> set ?p"
    using nat_str_digits by (auto simp: is_digit_def char_code_def dest!: nat_str_digits)
  have s: "split_host_port (remote_address addr_str m) = Inr (metadata_string addr_str m, ?p)"
    unfolding remote_address_def
    by (rule split_join_host_port) (use p assms(2-4) in \<open>auto simp: metadata_string_def\<close>)
  show ?thesis
    using assms s
    by (cases "m_host m = []")
       (auto simp: set_remote_address_def metadata_string_def metadata_valid_def parse_port16_nat_str
          intro!: metadata.equality)
qed

definition empty_metadata :: metadata where
  "empty_metadata =
     \<lparr>m_network = TCP, m_type = TYPE_HTTP, m_src_ip = NoAddr, m_dst_ip = NoAddr,
      m_src_geoip = None, m_dst_geoip = None, m_src_ipasn = [], m_dst_ipasn = [],
      m_src_port = 0, m_dst_port = 0, m_in_ip = NoAddr, m_in_port = 0, m_in_name = [],
      m_in_user = [], m_rematch_name = [], m_host = [], m_dns_mode = DNSNormal, m_uid = 0,
      m_process = [], m_process_path = [], m_special_proxy = [], m_special_rules = [],
      m_remote_dst = [], m_dscp = 0, m_sniff_host = []\<rparr>"

theorem remote_address_roundtrip_witness:
  "set_remote_address (\<lambda>s. if s = ''1.2.3.4'' then Some (V4 0x01020304) else None)
     (remote_address (\<lambda>a. ''1.2.3.4'')
        (empty_metadata\<lparr>m_dst_ip := V4 0x01020304, m_dst_port := 443\<rparr>))
     (empty_metadata\<lparr>m_dst_ip := V4 0x01020304, m_dst_port := 443\<rparr>) =
   (empty_metadata\<lparr>m_dst_ip := V4 0x01020304, m_dst_port := 443\<rparr>, None)"
  by (rule remote_address_roundtrip) (simp_all add: empty_metadata_def metadata_valid_def)

end
