(* ===== verification/Raw_Config.thy ===== *)
theory Raw_Config
  imports Override_Apply Metadata
begin

text \<open>
  The configuration as it is read (\<open>config/config.go\<close>: \<open>RawConfig\<close> and its sections) and its default.
  A section has the fields the models of its readers use; a Go map is the list of its entries, and
  the decoder of the files is not modelled.
\<close>

record raw_fallback_filter =
  rf_geoip :: bool
  rf_geoip_code :: string
  rf_ipcidr :: "string list"
  rf_domain :: "string list"
  rf_geosite :: "string list"

record raw_dns =
  rd_enable :: bool
  rd_prefer_h3 :: bool
  rd_ipv6 :: bool
  rd_ipv6_timeout :: int
  rd_use_hosts :: bool
  rd_use_system_hosts :: bool
  rd_respect_rules :: bool
  rd_name_server :: "string list"
  rd_fallback :: "string list"
  rd_fallback_filter :: raw_fallback_filter
  rd_fallback_lazy_query :: bool
  rd_listen :: string
  rd_listen_routing_mark :: int
  rd_enhanced_mode :: dns_mode
  rd_fake_ip_range :: string
  rd_fake_ip_range6 :: string
  rd_fake_ip_filter :: "string list"
  rd_fake_ip_filter_mode :: filter_mode
  rd_fake_ip_ttl :: int
  rd_default_nameserver :: "string list"
  rd_cache_algorithm :: string
  rd_cache_max_size :: int
  rd_name_server_policy :: mapping
  rd_proxy_server_nameserver :: "string list"
  rd_proxy_server_policy :: mapping
  rd_direct_name_server :: "string list"
  rd_direct_follow_policy :: bool

record raw_ntp =
  rn_enable :: bool
  rn_server :: string
  rn_port :: int
  rn_interval :: int
  rn_dialer_proxy :: string
  rn_write_to_system :: bool

record raw_tun =
  rt_enable :: bool
  rt_auto_route :: bool
  rt_auto_detect_interface :: bool
  rt_inet6_address :: "net_prefix list"

record raw_tuic_server =
  ru_enable :: bool
  ru_listen :: string
  ru_token :: "string list"
  ru_users :: "(string \<times> string) list"
  ru_certificate :: string
  ru_private_key :: string
  ru_congestion_controller :: string
  ru_max_idle_time :: int
  ru_authentication_timeout :: int
  ru_alpn :: "string list"
  ru_max_udp_relay_packet_size :: int
  ru_cwnd :: int

record raw_iptables =
  ri_enable :: bool
  ri_inbound_interface :: string
  ri_bypass :: "string list"
  ri_dns_redirect :: bool

record raw_profile =
  rp_store_selected :: bool
  rp_store_fake_ip :: bool

record raw_geox_url =
  rg_geoip :: string
  rg_mmdb :: string
  rg_asn :: string
  rg_geosite :: string

record raw_tls =
  rl_certificate :: string
  rl_private_key :: string
  rl_client_auth_type :: string
  rl_client_auth_cert :: string
  rl_ech_key :: string
  rl_custom_trust_cert :: "string list"

record raw_android =
  ra_append_system_dns :: bool
  ra_ui_subtitle_pattern :: string

record raw_tunnel =
  tn_network :: "string list"
  tn_address :: string
  tn_target :: string
  tn_proxy :: string

text \<open>The controller: the fields of \<open>RawConfig\<close> that open the control interface.\<close>

record raw_controller =
  rk_controller :: string
  rk_pipe :: string
  rk_unix :: string
  rk_tls :: string
  rk_ui :: string
  rk_ui_url :: string
  rk_ui_name :: string
  rk_doh_server :: string
  rk_secret :: string

record raw_config =
  rc_port :: int
  rc_socks_port :: int
  rc_redir_port :: int
  rc_tproxy_port :: int
  rc_mixed_port :: int
  rc_ss_config :: string
  rc_vmess_config :: string
  rc_authentication :: "string list"
  rc_allow_lan :: bool
  rc_bind_address :: string
  rc_mode :: tunnel_mode
  rc_ipv6 :: bool
  rc_controller :: raw_controller
  rc_interface :: string
  rc_routing_mark :: int
  rc_tunnels :: "raw_tunnel list"
  rc_proxy_provider :: "(string \<times> mapping) list"
  rc_rule_provider :: "(string \<times> mapping) list"
  rc_proxy :: "mapping list"
  rc_proxy_group :: "mapping list"
  rc_rule :: "string list"
  rc_sub_rules :: "(string \<times> string list) list"
  rc_listeners :: "mapping list"
  rc_hosts :: mapping
  rc_dns :: raw_dns
  rc_ntp :: raw_ntp
  rc_tun :: raw_tun
  rc_tuic_server :: raw_tuic_server
  rc_iptables :: raw_iptables
  rc_profile :: raw_profile
  rc_geox_url :: raw_geox_url
  rc_tls :: raw_tls
  rc_android :: raw_android

subsection \<open>DefaultRawConfig\<close>

definition default_raw_dns :: raw_dns where
  "default_raw_dns =
     \<lparr>rd_enable = False, rd_prefer_h3 = False, rd_ipv6 = False, rd_ipv6_timeout = 100, rd_use_hosts = True,
      rd_use_system_hosts = True, rd_respect_rules = False,
      rd_name_server = [''https://doh.pub/dns-query'', ''tls://223.5.5.5:853''], rd_fallback = [],
      rd_fallback_filter = \<lparr>rf_geoip = True, rf_geoip_code = ''CN'', rf_ipcidr = [], rf_domain = [], rf_geosite = []\<rparr>,
      rd_fallback_lazy_query = False, rd_listen = [], rd_listen_routing_mark = 0, rd_enhanced_mode = DNSMapping,
      rd_fake_ip_range = ''198.18.0.1/16'', rd_fake_ip_range6 = [],
      rd_fake_ip_filter = [''dns.msftnsci.com'', ''www.msftnsci.com'', ''www.msftconnecttest.com''],
      rd_fake_ip_filter_mode = FilterBlackList, rd_fake_ip_ttl = 1,
      rd_default_nameserver = [''114.114.114.114'', ''223.5.5.5'', ''8.8.8.8'', ''1.0.0.1''],
      rd_cache_algorithm = [], rd_cache_max_size = 0, rd_name_server_policy = [], rd_proxy_server_nameserver = [],
      rd_proxy_server_policy = [], rd_direct_name_server = [], rd_direct_follow_policy = False\<rparr>"

definition default_raw_ntp :: raw_ntp where
  "default_raw_ntp = \<lparr>rn_enable = False, rn_server = ''time.apple.com'', rn_port = 123, rn_interval = 30,
     rn_dialer_proxy = [], rn_write_to_system = False\<rparr>"

definition default_raw_geox_url :: raw_geox_url where
  "default_raw_geox_url =
     (let site = ''https://github.com/MetaCubeX/meta-rules-dat/releases/download/latest/'' in
      \<lparr>rg_geoip = site @ ''geoip.dat'', rg_mmdb = site @ ''geoip.metadb'', rg_asn = site @ ''GeoLite2-ASN.mmdb'',
       rg_geosite = site @ ''geosite.dat''\<rparr>)"

text \<open>The zero values of the structs that a patch resets.\<close>

definition zero_tuic_server :: raw_tuic_server where
  "zero_tuic_server = \<lparr>ru_enable = False, ru_listen = [], ru_token = [], ru_users = [], ru_certificate = [], ru_private_key = [],
     ru_congestion_controller = [], ru_max_idle_time = 0, ru_authentication_timeout = 0, ru_alpn = [],
     ru_max_udp_relay_packet_size = 0, ru_cwnd = 0\<rparr>"

definition zero_iptables :: raw_iptables where
  "zero_iptables = \<lparr>ri_enable = False, ri_inbound_interface = [], ri_bypass = [], ri_dns_redirect = False\<rparr>"

definition zero_tls :: raw_tls where
  "zero_tls = \<lparr>rl_certificate = [], rl_private_key = [], rl_client_auth_type = [], rl_client_auth_cert = [], rl_ech_key = [],
     rl_custom_trust_cert = []\<rparr>"

definition default_raw_config :: raw_config where
  "default_raw_config =
     \<lparr>rc_port = 0, rc_socks_port = 0, rc_redir_port = 0, rc_tproxy_port = 0, rc_mixed_port = 0, rc_ss_config = [],
      rc_vmess_config = [], rc_authentication = [], rc_allow_lan = False, rc_bind_address = ''*'', rc_mode = Mode_Rule,
      rc_ipv6 = True,
      rc_controller = \<lparr>rk_controller = [], rk_pipe = [], rk_unix = [], rk_tls = [], rk_ui = [],
        rk_ui_url = ''https://github.com/MetaCubeX/metacubexd/archive/refs/heads/gh-pages.zip'', rk_ui_name = [],
        rk_doh_server = [], rk_secret = []\<rparr>,
      rc_interface = [], rc_routing_mark = 0, rc_tunnels = [], rc_proxy_provider = [], rc_rule_provider = [], rc_proxy = [],
      rc_proxy_group = [], rc_rule = [], rc_sub_rules = [], rc_listeners = [], rc_hosts = [], rc_dns = default_raw_dns,
      rc_ntp = default_raw_ntp,
      rc_tun = \<lparr>rt_enable = False, rt_auto_route = True, rt_auto_detect_interface = True,
        rt_inet6_address = [Pfx (V6 0xfdfedcba987600000000000000000001 []) 126]\<rparr>,
      rc_tuic_server = zero_tuic_server\<lparr>ru_max_idle_time := 15000, ru_authentication_timeout := 1000, ru_alpn := [''h3''],
        ru_max_udp_relay_packet_size := 1500\<rparr>,
      rc_iptables = zero_iptables\<lparr>ri_inbound_interface := ''lo'', ri_dns_redirect := True\<rparr>,
      rc_profile = \<lparr>rp_store_selected = True, rp_store_fake_ip = False\<rparr>, rc_geox_url = default_raw_geox_url, rc_tls = zero_tls,
      rc_android = \<lparr>ra_append_system_dns = False, ra_ui_subtitle_pattern = []\<rparr>\<rparr>"

end
