(* ===== verification/Int_Ranges.thy ===== *)
theory Int_Ranges
  imports Go_Prelude
begin

text \<open>
  Inclusive integer ranges (\<open>common/utils/range.go\<close>, \<open>common/utils/ranges.go\<close>): parsing,
  membership, rendering, enumeration and merging. The type parameter \<open>T\<close> of the Go code is a
  machine integer, here an unsigned word \<^typ>\<open>'a word\<close>; the port rules use \<open>uint16\<close>, the DSCP
  rule \<open>uint8\<close> and the uid rule \<open>uint32\<close>.
\<close>

subsection \<open>One range\<close>

record 'a range =
  r_start :: 'a
  r_end :: 'a

definition new_range :: "('a::len) word \<Rightarrow> 'a word \<Rightarrow> 'a word range" where
  "new_range s e = (if s > e then \<lparr>r_start = e, r_end = s\<rparr> else \<lparr>r_start = s, r_end = e\<rparr>)"

definition range_contains :: "('a::len) word range \<Rightarrow> 'a word \<Rightarrow> bool" where
  "range_contains r t = (t \<ge> r_start r \<and> t \<le> r_end r)"

definition range_left_contains :: "('a::len) word range \<Rightarrow> 'a word \<Rightarrow> bool" where
  "range_left_contains r t = (t \<ge> r_start r \<and> t < r_end r)"

definition range_right_contains :: "('a::len) word range \<Rightarrow> 'a word \<Rightarrow> bool" where
  "range_right_contains r t = (t > r_start r \<and> t \<le> r_end r)"

definition word_str :: "('a::len) word \<Rightarrow> string" where
  "word_str w = nat_str (unat w)"

definition range_string :: "('a::len) word range \<Rightarrow> string" where
  "range_string r =
     (if r_start r = r_end r then word_str (r_start r)
      else word_str (r_start r) @ ''-'' @ word_str (r_end r))"

text \<open>\<open>parseUnsigned[T]\<close> reads 64 bits and then converts, keeping the low bits only.\<close>

definition parse_unsigned :: "string \<Rightarrow> ('a::len) word option" where
  "parse_unsigned s = map_option of_nat (parse_uint64 s)"

definition bracket_or_blank :: "char \<Rightarrow> bool" where
  "bracket_or_blank c = (c \<in> set ''[ ]'')"

definition new_int_range :: "(string \<Rightarrow> ('a::len) word option) \<Rightarrow> string \<Rightarrow> string + 'a word range" where
  "new_int_range parse s0 =
     (let s = trim_space s0 in
      if length s = 0 then Inr (new_range 0 0)
      else
        let status = str_split CHR ''-'' s in
        case parse (str_trim bracket_or_blank (status ! 0)) of
          None \<Rightarrow> Inl (''invalid range: '' @ s)
        | Some st \<Rightarrow>
            (if length status = 1 then Inr (new_range st st)
             else if length status = 2 then
               (case parse (str_trim bracket_or_blank (status ! 1)) of
                  None \<Rightarrow> Inl (''invalid range: '' @ s)
                | Some en \<Rightarrow> Inr (new_range st en))
             else Inl (''invalid range: '' @ s)))"

definition new_unsigned_range :: "string \<Rightarrow> string + ('a::len) word range" where
  "new_unsigned_range s = new_int_range parse_unsigned s"

subsection \<open>A list of ranges\<close>

fun ranges_from_list ::
  "(string \<Rightarrow> ('a::len) word option) \<Rightarrow> string list \<Rightarrow> string + 'a word range list" where
  "ranges_from_list parse [] = Inr []"
| "ranges_from_list parse (s # ss) =
     (if s = [] then ranges_from_list parse ss
      else (case new_int_range parse s of
              Inl e \<Rightarrow> Inl e
            | Inr r \<Rightarrow> (case ranges_from_list parse ss of
                         Inl e \<Rightarrow> Inl e
                       | Inr rs \<Rightarrow> Inr (r # rs))))"

definition new_int_ranges ::
  "(string \<Rightarrow> ('a::len) word option) \<Rightarrow> string \<Rightarrow> string + 'a word range list" where
  "new_int_ranges parse expected0 =
     (let expected = trim_space expected0 in
      if length expected = 0 \<or> expected = ''*'' then Inr []
      else
        let list = str_split CHR ''/'' (replace_char CHR '','' CHR ''/'' expected) in
        if length list > 28
        then Inl ''intRanges error, too many ranges to use, maximum support 28 ranges''
        else ranges_from_list parse list)"

definition new_unsigned_ranges :: "string \<Rightarrow> string + ('a::len) word range list" where
  "new_unsigned_ranges s = new_int_ranges parse_unsigned s"

definition new_unsigned_ranges_from_list :: "string list \<Rightarrow> string + ('a::len) word range list" where
  "new_unsigned_ranges_from_list ss = ranges_from_list parse_unsigned ss"

fun ranges_any :: "('a::len) word range list \<Rightarrow> 'a word \<Rightarrow> bool" where
  "ranges_any [] st = False"
| "ranges_any (seg # rs) st = (if range_contains seg st then True else ranges_any rs st)"

definition ranges_check :: "('a::len) word range list \<Rightarrow> 'a word \<Rightarrow> bool" where
  "ranges_check rs st = (if length rs = 0 then True else ranges_any rs st)"

definition ranges_string :: "('a::len) word range list \<Rightarrow> string" where
  "ranges_string rs = (if length rs = 0 then ''*'' else str_join (map range_string rs) ''/'')"

text \<open>
  \<open>Range(f)\<close> calls \<open>f\<close> on every value of every range until it answers false; \<open>f\<close> is a state
  transformer here. The inner loop stops by hand when the increment overflows.
\<close>

lemma word_succ_no_overflow: "\<not> i + 1 < i \<Longrightarrow> unat (i + 1) = Suc (unat i)" for i :: "('a::len) word"
proof -
  assume no: "\<not> i + 1 < i"
  have "1 + i \<noteq> 0"
  proof
    assume z: "1 + i = 0"
    then have "i \<noteq> 0" by (metis add.right_neutral one_neq_zero)
    moreover have "\<not> 0 < i" using no z by (simp add: add.commute)
    ultimately show False by (simp add: word_gt_0)
  qed
  then show ?thesis using unatSuc [of i] by (simp add: add.commute)
qed

lemma word_succ_overflow: "i + 1 < i \<Longrightarrow> i = - 1" for i :: "('a::len) word"
proof -
  assume lt: "i + 1 < i"
  have "1 + i = 0"
  proof (rule ccontr)
    assume "1 + i \<noteq> 0"
    then have "unat (i + 1) = Suc (unat i)" using unatSuc [of i] by (simp add: add.commute)
    then show False using lt by (simp add: word_less_nat_alt)
  qed
  then show ?thesis by (simp add: add_eq_0_iff)
qed

function range_loop ::
  "(('a::len) word \<Rightarrow> 's \<Rightarrow> 's \<times> bool) \<Rightarrow> 'a word \<Rightarrow> 'a word \<Rightarrow> 'a word \<Rightarrow> 's \<Rightarrow> 's \<times> bool" where
  "range_loop f st en i s =
     (if i \<le> en \<and> i \<ge> st then
        (let (s', go) = f i s in
         if \<not> go then (s', False)
         else if i + 1 < i then (s', True)
         else range_loop f st en (i + 1) s')
      else (s, True))"
  by pat_completeness auto
termination
proof (relation "measure (\<lambda>(f, st, en, i, s). Suc (unat en) - unat i)")
  fix f :: "'a word \<Rightarrow> 's \<Rightarrow> 's \<times> bool" and st en i :: "'a word" and s s' :: 's and go x
  assume le: "i \<le> en \<and> st \<le> i" and no: "\<not> i + 1 < i"
  have "unat (i + 1) = Suc (unat i)"
    using no by (rule word_succ_no_overflow)
  moreover have "unat i \<le> unat en" using le by (simp add: word_le_nat_alt)
  ultimately show "((f, st, en, i + 1, s'), (f, st, en, i, s))
      \<in> measure (\<lambda>(f, st, en, i, s). Suc (unat en) - unat i)"
    by simp
qed simp

declare range_loop.simps [simp del]

fun ranges_range ::
  "(('a::len) word \<Rightarrow> 's \<Rightarrow> 's \<times> bool) \<Rightarrow> 'a word range list \<Rightarrow> 's \<Rightarrow> 's" where
  "ranges_range f [] s = s"
| "ranges_range f (r # rs) s =
     (case range_loop f (r_start r) (r_end r) (r_start r) s of
        (s', go) \<Rightarrow> if go then ranges_range f rs s' else s')"

text \<open>
  \<open>Merge\<close> sorts the receiver in place and then writes the merged ranges over a prefix of the
  same backing array: \<open>arr\<close> is that array, \<open>ri\<close> the index of the last merged range, and the loop
  reads element \<open>i\<close> after the earlier writes. \<open>sort.Slice\<close> promises a permutation sorted by start.
\<close>

definition merge_step :: "('a::len) word range list \<times> nat \<Rightarrow> nat \<Rightarrow> 'a word range list \<times> nat" where
  "merge_step st i =
     (let (arr, ri) = st; r = arr ! i; m = arr ! ri in
      if r_end m + 1 > r_end m \<and> r_start r > r_end m + 1 then (arr[Suc ri := r], Suc ri)
      else if r_end r > r_end m then (arr[ri := m\<lparr>r_end := r_end r\<rparr>], ri)
      else (arr, ri))"

definition ranges_merge_mem :: "('a::len) word range list \<Rightarrow> 'a word range list \<times> 'a word range list" where
  "ranges_merge_mem ranges =
     (if length ranges = 0 then ([], ranges)
      else
        let arr = sort_key r_start ranges;
            (arr', ri) = foldl merge_step (arr, 0) [1..<length arr]
        in (take (Suc ri) arr', arr'))"

definition ranges_merge :: "('a::len) word range list \<Rightarrow> 'a word range list" where
  "ranges_merge ranges = fst (ranges_merge_mem ranges)"

subsection \<open>Membership and parsing\<close>

lemma ranges_any_iff: "ranges_any rs v \<longleftrightarrow> (\<exists>r\<in>set rs. range_contains r v)"
  by (induction rs) auto

lemma new_range_ordered: "r_start (new_range s e) \<le> r_end (new_range s e)"
  by (auto simp: new_range_def)

lemma new_int_range_ordered: "new_int_range p s = Inr r \<Longrightarrow> r_start r \<le> r_end r"
  by (auto simp: new_int_range_def Let_def new_range_ordered split: if_splits option.splits)

lemma ranges_from_list_ordered:
  "ranges_from_list p ss = Inr rs \<Longrightarrow> r \<in> set rs \<Longrightarrow> r_start r \<le> r_end r"
  by (induction ss arbitrary: rs)
     (auto split: if_splits sum.splits dest: new_int_range_ordered)

text \<open>Values that fit the word are read back from their decimal rendering.\<close>

lemma word_str_chars: "c \<in> set (word_str w) \<Longrightarrow> is_digit c"
  by (simp add: word_str_def nat_str_digits)

lemma word_str_not_Nil [simp]: "word_str w \<noteq> []"
  by (simp add: word_str_def)

lemma not_bracket_digit: "is_digit c \<Longrightarrow> \<not> bracket_or_blank c"
  by (auto simp: bracket_or_blank_def is_digit_def Let_def char_code_def)

lemma parse_unsigned_word_str:
  "LENGTH('a) \<le> 64 \<Longrightarrow> parse_unsigned (word_str w) = Some w" for w :: "('a::len) word"
proof -
  assume le: "LENGTH('a) \<le> 64"
  have "unat w < 2 ^ LENGTH('a)" by (rule unsigned_less)
  also have "\<dots> \<le> 2 ^ 64" using le by (rule power_increasing) simp
  finally show ?thesis by (simp add: parse_unsigned_def word_str_def parse_uint64_nat_str)
qed

lemma dash_not_digit: "CHR ''-'' \<notin> set (word_str w)"
  using word_str_chars [of "CHR ''-''" w] by (auto simp: is_digit_def char_code_def)

lemma trim_word_str: "str_trim bracket_or_blank (word_str w) = word_str w"
  by (rule str_trim_none) (simp add: not_bracket_digit word_str_chars)

lemma trim_space_range_string: "trim_space (range_string r) = range_string r"
proof (cases "r_start r = r_end r")
  case True
  then show ?thesis
    by (simp add: trim_space_def range_string_def str_trim_none digit_not_space word_str_chars)
next
  case False
  have "str_trim is_space (word_str (r_start r) @ ''-'' @ word_str (r_end r)) =
      word_str (r_start r) @ ''-'' @ word_str (r_end r)"
    by (rule str_trim_append_digits) (auto dest: word_str_chars digit_not_space)
  then show ?thesis using False by (simp add: trim_space_def range_string_def)
qed

lemma range_string_not_Nil [simp]: "range_string r \<noteq> []"
  by (simp add: range_string_def)

lemma new_int_range_string:
  fixes r :: "('a::len) word range"
  assumes "LENGTH('a) \<le> 64" and "r_start r \<le> r_end r"
  shows "new_int_range parse_unsigned (range_string r) = Inr r"
proof -
  have len: "length (range_string r) \<noteq> 0" by simp
  show ?thesis
  proof (cases "r_start r = r_end r")
    case True
    have sp: "str_split CHR ''-'' (range_string r) = [word_str (r_start r)]"
      using True by (simp add: range_string_def str_split_single dash_not_digit)
    show ?thesis
      using True len assms(1)
      by (simp add: new_int_range_def trim_space_range_string sp trim_word_str
          parse_unsigned_word_str new_range_def)
  next
    case False
    have sp: "str_split CHR ''-'' (range_string r) = [word_str (r_start r), word_str (r_end r)]"
      using False by (simp add: range_string_def str_split_append str_split_single dash_not_digit)
    show ?thesis
      using False len assms
      by (simp add: new_int_range_def trim_space_range_string sp trim_word_str
          parse_unsigned_word_str new_range_def)
  qed
qed

lemma ranges_from_list_strings:
  "LENGTH('a) \<le> 64 \<Longrightarrow> \<forall>r\<in>set rs. r_start r \<le> r_end r \<Longrightarrow>
   ranges_from_list parse_unsigned (map range_string rs) = Inr rs" for rs :: "('a::len) word range list"
  by (induction rs) (simp_all add: new_int_range_string)

lemma slash_star_comma_not_in:
  "CHR ''/'' \<notin> set (range_string r)" "CHR '','' \<notin> set (range_string r)"
  by (auto simp: range_string_def is_digit_def char_code_def dest: word_str_chars)

lemma word_str_ends: "is_digit (hd (word_str w))" "is_digit (last (word_str w))"
  by (rule word_str_chars, rule hd_in_set, simp) (rule word_str_chars, rule last_in_set, simp)

lemma range_string_hd_last:
  "is_digit (hd (range_string r))" "is_digit (last (range_string r))"
  by (simp_all add: range_string_def word_str_ends)

lemma str_trim_ends:
  assumes "s \<noteq> []" and "\<not> P (hd s)" and "\<not> P (last s)"
  shows "str_trim P s = s"
proof -
  have "dropWhile P s = s" using assms(1,2) by (cases s) auto
  moreover have "dropWhile P (rev s) = rev s"
    using assms(1,3) by (cases s rule: rev_cases) auto
  ultimately show ?thesis by (simp add: str_trim_def)
qed

lemma str_join_hd_last:
  "ps \<noteq> [] \<Longrightarrow> \<forall>p\<in>set ps. p \<noteq> [] \<Longrightarrow>
   str_join ps sep \<noteq> [] \<and> hd (str_join ps sep) = hd (hd ps) \<and> last (str_join ps sep) = last (last ps)"
  by (induction ps sep rule: str_join.induct) (auto simp: hd_append last_append)

lemma set_str_join: "set (str_join ps sep) \<subseteq> set sep \<union> (\<Union>p\<in>set ps. set p)"
  by (induction ps sep rule: str_join.induct) auto

lemma replace_char_none: "a \<notin> set s \<Longrightarrow> replace_char a b s = s"
  unfolding replace_char_def by (rule map_idI) auto

lemma replace_char_join:
  "a \<notin> set sep \<Longrightarrow> \<forall>p\<in>set ps. a \<notin> set p \<Longrightarrow> replace_char a b (str_join ps sep) = str_join ps sep"
  using set_str_join [of ps sep] by (intro replace_char_none) auto

lemma ranges_string_ends:
  assumes "rs \<noteq> []"
  shows "trim_space (ranges_string rs) = ranges_string rs" "ranges_string rs \<noteq> []"
    "is_digit (hd (ranges_string rs))"
proof -
  have eq: "ranges_string rs = str_join (map range_string rs) ''/''"
    using assms by (simp add: ranges_string_def)
  have h: "str_join (map range_string rs) ''/'' \<noteq> [] \<and>
      hd (str_join (map range_string rs) ''/'') = range_string (hd rs) ! 0 \<and>
      last (str_join (map range_string rs) ''/'') = last (range_string (last rs))"
    using str_join_hd_last [of "map range_string rs" "''/''"] assms
    by (simp add: hd_map last_map hd_conv_nth)
  have d: "is_digit (range_string (hd rs) ! 0)"
    by (metis hd_conv_nth range_string_hd_last(1) range_string_not_Nil)
  show "is_digit (hd (ranges_string rs))" using eq h d by simp
  show "ranges_string rs \<noteq> []" using eq h by simp
  show "trim_space (ranges_string rs) = ranges_string rs"
    unfolding trim_space_def
    by (rule str_trim_ends) (use eq h d range_string_hd_last(2) digit_not_space in auto)
qed

subsection \<open>Enumeration\<close>

text \<open>With a callback that never stops, the inner loop visits each value once, in order.\<close>

lemma range_loop_collect:
  assumes "st \<le> i"
  shows "range_loop (\<lambda>v acc. (acc @ [v], True)) st en i acc =
    (acc @ map of_nat [unat i..<Suc (unat en)], True)"
  using assms
proof (induction "\<lambda>v (acc :: 'a word list). (acc @ [v], True)" st en i acc rule: range_loop.induct)
  case (1 st en i acc)
  show ?case
  proof (cases "i \<le> en")
    case False
    then show ?thesis by (subst range_loop.simps) (simp add: word_le_nat_alt)
  next
    case le: True
    then have le': "unat i \<le> unat en" by (simp add: word_le_nat_alt)
    then have up: "[unat i..<Suc (unat en)] = unat i # [Suc (unat i)..<Suc (unat en)]"
      by (simp add: upt_conv_Cons del: upt_Suc)
    show ?thesis
    proof (cases "i + 1 < i")
      case True
      then have "i = - 1" by (rule word_succ_overflow)
      then have "unat en = unat i" using le by (simp add: word_order.extremum_unique)
      then show ?thesis using le True 1(2)
        by (subst range_loop.simps) simp
    next
      case False
      have suc: "unat (i + 1) = Suc (unat i)" using False by (rule word_succ_no_overflow)
      have "st \<le> i + 1" using False 1(2) by simp
      from 1(1) [of "(acc @ [i], True)" "acc @ [i]" True] this le False 1(2)
      show ?thesis
        by (subst range_loop.simps) (simp add: up suc del: upt_Suc)
    qed
  qed
qed

subsection \<open>Merging\<close>

text \<open>The functional reference for the in-place loop.\<close>

fun merge_ref :: "('a::len) word range \<Rightarrow> 'a word range list \<Rightarrow> 'a word range list" where
  "merge_ref cur [] = [cur]"
| "merge_ref cur (r # rs) =
     (if r_end cur + 1 > r_end cur \<and> r_start r > r_end cur + 1 then cur # merge_ref r rs
      else if r_end r > r_end cur then merge_ref (cur\<lparr>r_end := r_end r\<rparr>) rs
      else merge_ref cur rs)"

lemma merge_loop_ref:
  assumes "ri < i" and "i \<le> length arr" and "foldl merge_step (arr, ri) [i..<length arr] = (arr', ri')"
  shows "ri' < length arr' \<and> take (Suc ri') arr' = take ri arr @ merge_ref (arr ! ri) (drop i arr)"
  using assms
proof (induction "length arr - i" arbitrary: arr ri i)
  case 0
  then have "i = length arr" by simp
  then show ?case using 0 by (simp add: take_Suc_conv_app_nth)
next
  case (Suc k)
  then have lt: "i < length arr" by simp
  then have up: "[i..<length arr] = i # [Suc i..<length arr]" by (simp add: upt_conv_Cons)
  obtain arr1 ri1 where st: "merge_step (arr, ri) i = (arr1, ri1)" by fastforce
  have len: "length arr1 = length arr" and ri1: "ri1 \<le> i"
    using st Suc.prems(1) by (auto simp: merge_step_def Let_def split: if_splits)
  have rest: "drop (Suc i) arr1 = drop (Suc i) arr"
    using st Suc.prems(1) by (auto simp: merge_step_def Let_def split: if_splits)
  have IH: "ri' < length arr' \<and>
      take (Suc ri') arr' = take ri1 arr1 @ merge_ref (arr1 ! ri1) (drop (Suc i) arr1)"
    using Suc.hyps(1) [of arr1 "Suc i" ri1] Suc.hyps(2) Suc.prems lt st len ri1 up by auto
  have dr: "drop i arr = arr ! i # drop (Suc i) arr" using lt by (simp add: Cons_nth_drop_Suc)
  have "take ri1 arr1 @ merge_ref (arr1 ! ri1) (drop (Suc i) arr) =
      take ri arr @ merge_ref (arr ! ri) (drop i arr)"
    using st lt Suc.prems(1)
    by (auto simp: merge_step_def Let_def dr take_Suc_conv_app_nth split: if_splits)
  then show ?case using IH rest by simp
qed

lemma ranges_merge_ref:
  "rs \<noteq> [] \<Longrightarrow> ranges_merge rs = merge_ref (hd (sort_key r_start rs)) (tl (sort_key r_start rs))"
proof -
  assume ne: "rs \<noteq> []"
  let ?a = "sort_key r_start rs"
  have ne': "?a \<noteq> []" using ne by (metis length_0_conv length_sort)
  obtain arr' ri' where f: "foldl merge_step (?a, 0) [1..<length ?a] = (arr', ri')" by fastforce
  have "take (Suc ri') arr' = merge_ref (?a ! 0) (drop 1 ?a)"
    using merge_loop_ref [of 0 1 ?a arr' ri'] f ne by (simp add: Suc_leI)
  then show ?thesis
    using ne ne' f by (simp add: ranges_merge_def ranges_merge_mem_def hd_conv_nth drop_Suc Let_def)
qed

text \<open>Two ranges that overlap or touch cover together what their hull covers.\<close>

lemma range_hull:
  fixes cur r :: "('a::len) word range"
  assumes "r_start cur \<le> r_start r"
    and "\<not> (r_end cur + 1 > r_end cur \<and> r_start r > r_end cur + 1)"
  shows "range_contains (if r_end r > r_end cur then cur\<lparr>r_end := r_end r\<rparr> else cur) v \<longleftrightarrow>
    range_contains cur v \<or> range_contains r v"
proof (cases "r_end cur + 1 > r_end cur")
  case True
  then have suc: "unat (r_end cur + 1) = Suc (unat (r_end cur))"
    by (intro word_succ_no_overflow) auto
  then have "unat (r_start r) \<le> Suc (unat (r_end cur))"
    using assms(2) True by (simp add: word_less_nat_alt)
  then show ?thesis
    using assms(1) by (auto simp: range_contains_def word_less_nat_alt word_le_nat_alt)
next
  case False
  then have "r_end cur = - 1"
    by (metis word_succ_overflow word_succ_no_overflow linorder_not_less lessI word_less_nat_alt)
  then show ?thesis
    using assms(1) by (auto simp: range_contains_def)
qed

lemma merge_ref_any:
  "sorted (map r_start (cur # rs)) \<Longrightarrow>
   ranges_any (merge_ref cur rs) v \<longleftrightarrow> range_contains cur v \<or> ranges_any rs v"
proof (induction cur rs rule: merge_ref.induct)
  case (2 cur r rs)
  show ?case
  proof (cases "r_end cur + 1 > r_end cur \<and> r_start r > r_end cur + 1")
    case True
    then show ?thesis using 2 by auto
  next
    case False
    have hull: "range_contains (if r_end r > r_end cur then cur\<lparr>r_end := r_end r\<rparr> else cur) v \<longleftrightarrow>
        range_contains cur v \<or> range_contains r v"
      using 2(4) False by (intro range_hull) auto
    show ?thesis using 2 False hull by (auto split: if_splits)
  qed
qed auto

lemma ranges_any_sort: "ranges_any (sort_key k rs) v = ranges_any rs v"
  by (simp add: ranges_any_iff)

text \<open>What is left of a merge: consecutive ranges are ordered and a gap apart.\<close>

definition gap_apart :: "('a::len) word range \<Rightarrow> 'a word range \<Rightarrow> bool" where
  "gap_apart a b = (unat (r_end a) + 1 < unat (r_start b))"

lemma merge_ref_hd: "\<exists>rest. merge_ref cur rs = (hd (merge_ref cur rs)) # rest \<and>
    r_start (hd (merge_ref cur rs)) = r_start cur"
  by (induction cur rs rule: merge_ref.induct) auto

lemma merge_ref_gaps: "successively gap_apart (merge_ref cur rs)"
proof (induction cur rs rule: merge_ref.induct)
  case (2 cur r rs)
  show ?case
  proof (cases "r_end cur + 1 > r_end cur \<and> r_start r > r_end cur + 1")
    case True
    then have "unat (r_end cur + 1) = Suc (unat (r_end cur))"
      by (intro word_succ_no_overflow) auto
    then have "gap_apart cur r" using True by (simp add: gap_apart_def word_less_nat_alt)
    moreover obtain rest where "merge_ref r rs = hd (merge_ref r rs) # rest"
      "r_start (hd (merge_ref r rs)) = r_start r"
      using merge_ref_hd [of r rs] by blast
    ultimately show ?thesis
      using 2(1) True by (metis (no_types) gap_apart_def merge_ref.simps(2) successively.simps(3))
  next
    case False
    then show ?thesis using 2 by auto
  qed
qed simp

subsection \<open>Properties\<close>



text \<open>
  C2: merging in place keeps the set of values that \<open>Check\<close> accepts and leaves ranges that are
  ordered and at least one value apart, for every width and whatever the order of the input.
\<close>

theorem ranges_merge_correct:
  "ranges_check (ranges_merge rs) v = ranges_check rs v \<and> successively gap_apart (ranges_merge rs)"
proof (cases "rs = []")
  case True
  then show ?thesis by (simp add: ranges_merge_def ranges_merge_mem_def)
next
  case False
  let ?a = "sort_key r_start rs"
  have ne: "?a \<noteq> []" using False by (metis length_0_conv length_sort)
  have sorted: "sorted (map r_start (hd ?a # tl ?a))" using ne by simp
  have any: "ranges_any (ranges_merge rs) v = ranges_any rs v"
    using merge_ref_any [OF sorted, of v] ne
    by (metis False list.collapse ranges_any.simps(2) ranges_any_sort ranges_merge_ref)
  have "ranges_merge rs \<noteq> []"
    using merge_ref_hd ranges_merge_ref [OF False] by (metis list.distinct(1))
  then show ?thesis
    using any False merge_ref_gaps ranges_merge_ref [OF False] by (simp add: ranges_check_def)
qed

end
