(* ===== verification/Proxy_Health.thy ===== *)
theory Proxy_Health
  imports Metadata Int_Ranges Results
begin

text \<open>
  The health of a proxy (\<open>adapter/adapter.go\<close>): the records of its last tests, in general and for
  every test address (\<open>common/queue\<close>). A test asks the outside world through the record
  \<open>probe_env\<close>: the parsed address, dialing, the replies of the HTTP client and the clock, in
  nanoseconds.
\<close>

subsection \<open>Queue\<close>

definition queue_put :: "'a list \<Rightarrow> 'a list \<Rightarrow> 'a list" where
  "queue_put items q = q @ items"

definition queue_pop :: "'a list \<Rightarrow> 'a option \<times> 'a list" where
  "queue_pop q = (case q of [] \<Rightarrow> (None, []) | x # xs \<Rightarrow> (Some x, xs))"

definition queue_last :: "'a \<Rightarrow> 'a list \<Rightarrow> 'a" where
  "queue_last zero q = (if q = [] then zero else q ! (length q - 1))"

subsection \<open>State of a proxy\<close>

record delay_history =
  dh_time :: int
  dh_delay :: "16 word"

record proxy_state =
  ps_alive :: bool
  ps_history :: "delay_history list"

record proxy_health =
  ph_alive :: bool
  ph_history :: "delay_history list"
  ph_extra :: "string \<Rightarrow> proxy_state option"

definition default_histories_num :: nat where
  "default_histories_num = 10"

definition new_proxy :: proxy_health where
  "new_proxy = \<lparr>ph_alive = True, ph_history = [], ph_extra = (\<lambda>_. None)\<rparr>"

definition alive_for_test_url :: "string \<Rightarrow> proxy_health \<Rightarrow> bool" where
  "alive_for_test_url url p = (case ph_extra p url of Some st \<Rightarrow> ps_alive st | None \<Rightarrow> ph_alive p)"

definition delay_history_for :: "string \<Rightarrow> proxy_health \<Rightarrow> delay_history list" where
  "delay_history_for url p = (case ph_extra p url of Some st \<Rightarrow> ps_history st | None \<Rightarrow> [])"

definition last_delay_for_test_url :: "string \<Rightarrow> proxy_health \<Rightarrow> 16 word" where
  "last_delay_for_test_url url p =
     (let (alive, delay) =
        (case ph_extra p url of
           Some st \<Rightarrow> (ps_alive st, dh_delay (queue_last \<lparr>dh_time = 0, dh_delay = 0\<rparr> (ps_history st)))
         | None \<Rightarrow> (False, 0)) in
      if \<not> alive \<or> delay = 0 then 0xffff else delay)"

subsection \<open>A test\<close>

record probe_env =
  pe_parse_url :: "string \<Rightarrow> string + (string \<times> string \<times> string)"
  pe_parse_addr :: "string \<Rightarrow> addr option"
  pe_dial :: "metadata \<Rightarrow> string + unit"
  pe_new_request :: "string \<Rightarrow> string + unit"
  pe_tls_config :: "string + unit"
  pe_head :: "nat \<Rightarrow> string + int"
  pe_start :: int
  pe_second :: int
  pe_end :: int
  pe_unified_delay :: bool

text \<open>The parts of an address are scheme, host name and port.\<close>

definition url_to_metadata :: "probe_env \<Rightarrow> string \<Rightarrow> string + metadata" where
  "url_to_metadata env raw =
     attempt (pe_parse_url env raw) (\<lambda>(scheme, hostname, port).
       attempt
         (if port \<noteq> [] then Inr port
          else if scheme = ''https'' then Inr ''443''
          else if scheme = ''http'' then Inr ''80''
          else Inl (raw @ '' scheme not Support''))
         (\<lambda>port. case set_remote_address (pe_parse_addr env) (join_host_port hostname port) empty_metadata of
            (addr, None) \<Rightarrow> Inr addr | (addr, Some err) \<Rightarrow> Inl err))"

definition test_delay :: "int \<Rightarrow> 16 word" where
  "test_delay elapsed = (let t = word_of_int (elapsed div 1000000) in if t = 0 then 1 else t)"

definition probe :: "probe_env \<Rightarrow> string \<Rightarrow> 16 word range list option \<Rightarrow> string + bool \<times> 16 word" where
  "probe env url expected =
     attempt (url_to_metadata env url) (\<lambda>addr.
     attempt (pe_dial env addr) (\<lambda>_.
     attempt (pe_new_request env url) (\<lambda>_.
     attempt (pe_tls_config env) (\<lambda>_.
     attempt (pe_head env 0) (\<lambda>code.
       let (code', start) =
         (if pe_unified_delay env then
            (case pe_head env 1 of Inr second \<Rightarrow> (second, pe_second env) | Inl _ \<Rightarrow> (code, pe_start env))
          else (code, pe_start env));
         satisfied = (case expected of None \<Rightarrow> True | Some rs \<Rightarrow> ranges_check rs (word_of_int code')) in
       Inr (satisfied, test_delay (pe_end env - start)))))))"

definition put_history :: "delay_history \<Rightarrow> delay_history list \<Rightarrow> delay_history list" where
  "put_history r q =
     (let q' = queue_put [r] q in if length q' > default_histories_num then snd (queue_pop q') else q')"

text \<open>The deferred part of \<open>URLTest\<close>, for the outcome of the test.\<close>

definition record_test :: "int \<Rightarrow> string \<Rightarrow> string + bool \<times> 16 word \<Rightarrow> proxy_health \<Rightarrow> proxy_health" where
  "record_test now url outcome p =
     (let alive = (case outcome of Inr _ \<Rightarrow> True | Inl _ \<Rightarrow> False);
          satisfied = (case outcome of Inr (s, _) \<Rightarrow> s | Inl _ \<Rightarrow> False);
          r = \<lparr>dh_time = now, dh_delay = (case outcome of Inr (_, t) \<Rightarrow> t | Inl _ \<Rightarrow> 0)\<rparr>;
          st = (case ph_extra p url of Some st \<Rightarrow> st | None \<Rightarrow> \<lparr>ps_alive = True, ps_history = []\<rparr>);
          r' = (if satisfied then r else r\<lparr>dh_delay := 0\<rparr>) in
      p\<lparr>ph_alive := alive, ph_history := put_history r (ph_history p),
        ph_extra := (ph_extra p)(url \<mapsto>
          \<lparr>ps_alive = (satisfied \<and> alive), ps_history = put_history r' (ps_history st)\<rparr>)\<rparr>)"

definition url_test ::
  "probe_env \<Rightarrow> int \<Rightarrow> string \<Rightarrow> 16 word range list option \<Rightarrow> proxy_health \<Rightarrow> (string + 16 word) \<times> proxy_health" where
  "url_test env now url expected p =
     (let outcome = probe env url expected in
      (case outcome of Inl e \<Rightarrow> Inl e | Inr (_, t) \<Rightarrow> Inr t, record_test now url outcome p))"

subsection \<open>What the records say\<close>

inductive health_step :: "proxy_health \<Rightarrow> proxy_health \<Rightarrow> bool" where
  tested: "health_step p (snd (url_test env now url expected p))"

inductive_cases health_step_cases: "health_step p p'"

definition history_ok :: "delay_history list \<Rightarrow> bool" where
  "history_ok q \<longleftrightarrow> length q \<le> default_histories_num"

definition proxy_state_ok :: "proxy_state \<Rightarrow> bool" where
  "proxy_state_ok st \<longleftrightarrow> history_ok (ps_history st) \<and> ps_history st \<noteq> [] \<and>
     (ps_alive st \<longleftrightarrow> dh_delay (last (ps_history st)) \<noteq> 0)"

definition health_ok :: "proxy_health \<Rightarrow> bool" where
  "health_ok p \<longleftrightarrow> history_ok (ph_history p) \<and>
     (ph_history p \<noteq> [] \<longrightarrow> (ph_alive p \<longleftrightarrow> dh_delay (last (ph_history p)) \<noteq> 0)) \<and>
     (\<forall>url st. ph_extra p url = Some st \<longrightarrow> proxy_state_ok st)"

lemma test_delay_nonzero: "test_delay elapsed \<noteq> 0"
  by (simp add: test_delay_def Let_def)

lemma put_history_simps:
  "history_ok q \<Longrightarrow> history_ok (put_history r q)" "put_history r q \<noteq> []" "last (put_history r q) = r"
  by (cases q; auto simp: history_ok_def put_history_def queue_put_def queue_pop_def default_histories_num_def Let_def)+

lemma probe_delay_nonzero: "probe env url expected = Inr (s, t) \<Longrightarrow> t \<noteq> 0"
  by (auto simp: probe_def attempt_Inr_iff Let_def test_delay_nonzero case_prod_unfold)

text \<open>The records a test leaves behind: in general, and for its address.\<close>

lemma record_test_fields:
  fixes p :: proxy_health
  defines "good \<equiv> \<lambda>outcome. \<exists>t. outcome = Inr (True, t :: 16 word)"
  obtains q r where "record_test now url outcome p =
      \<lparr>ph_alive = (\<exists>x. outcome = Inr x), ph_history = put_history r (ph_history p),
        ph_extra = (ph_extra p)(url \<mapsto> \<lparr>ps_alive = good outcome, ps_history = put_history q
          (case ph_extra p url of Some st \<Rightarrow> ps_history st | None \<Rightarrow> [])\<rparr>)\<rparr>"
    and "dh_delay r = (case outcome of Inr (_, t) \<Rightarrow> t | Inl _ \<Rightarrow> 0)"
    and "dh_delay q = (case outcome of Inr (True, t) \<Rightarrow> t | _ \<Rightarrow> 0)"
proof (cases outcome)
  case (Inl e)
  show ?thesis
    by (rule that [of "\<lparr>dh_time = now, dh_delay = 0\<rparr>" "\<lparr>dh_time = now, dh_delay = 0\<rparr>"])
      (simp_all add: Inl record_test_def Let_def good_def split: option.split)
next
  case (Inr x)
  then show ?thesis
    by (intro that [of "\<lparr>dh_time = now, dh_delay = snd x\<rparr>" "\<lparr>dh_time = now, dh_delay = if fst x then snd x else 0\<rparr>"])
      (auto simp: record_test_def Let_def good_def split: option.split prod.split bool.split)
qed

lemma record_test_ok:
  assumes "health_ok p" and "\<And>s t. outcome = Inr (s, t) \<Longrightarrow> t \<noteq> 0"
  shows "health_ok (record_test now url outcome p)"
proof -
  have old: "history_ok (case ph_extra p url of Some st \<Rightarrow> ps_history st | None \<Rightarrow> [])"
    using assms(1) by (auto simp: health_ok_def proxy_state_ok_def history_ok_def split: option.split)
  have nz: "(case outcome of Inr (True, t) \<Rightarrow> t | _ \<Rightarrow> 0) \<noteq> 0 \<longleftrightarrow> (\<exists>t. outcome = Inr (True, t))"
    "(case outcome of Inr (_, t) \<Rightarrow> t | Inl _ \<Rightarrow> 0) \<noteq> 0 \<longleftrightarrow> (\<exists>x. outcome = Inr x)"
    using assms(2) by (auto split: sum.splits bool.splits)
  show ?thesis
    by (rule record_test_fields [of now url outcome p])
      (use assms(1) old nz in \<open>auto simp: health_ok_def proxy_state_ok_def put_history_simps\<close>)
qed

lemma health_ok_step: "health_step p p' \<Longrightarrow> health_ok p \<Longrightarrow> health_ok p'"
  by (auto elim!: health_step_cases simp: url_test_def Let_def intro!: record_test_ok dest: probe_delay_nonzero)

lemma health_ok_reachable: "health_step\<^sup>*\<^sup>* new_proxy p \<Longrightarrow> health_ok p"
proof (induction rule: rtranclp_induct)
  case base
  then show ?case by (simp add: health_ok_def new_proxy_def history_ok_def)
next
  case (step p q)
  then show ?case using health_ok_step by blast
qed

lemma last_delay_of:
  assumes "health_ok p" and "ph_extra p url = Some st"
  shows "last_delay_for_test_url url p = (if ps_alive st then dh_delay (last (ps_history st)) else 0xffff)"
  using assms by (auto simp: last_delay_for_test_url_def queue_last_def last_conv_nth health_ok_def proxy_state_ok_def)

lemma last_delay_untested: "ph_extra p url = None \<Longrightarrow> last_delay_for_test_url url p = 0xffff"
  by (simp add: last_delay_for_test_url_def)

lemma last_delay_positive: "health_ok p \<Longrightarrow> last_delay_for_test_url url p \<noteq> 0"
  by (cases "ph_extra p url") (auto simp: last_delay_untested last_delay_of health_ok_def proxy_state_ok_def)

text \<open>
  C26: after any sequence of tests no history holds more than ten records, a proxy is alive for an
  address exactly when the last record for it has a delay, and the delay it then reports is that of
  the last test, which succeeded; the delay of a proxy that is not alive is the greatest one.
\<close>

theorem health_is_last_test:
  assumes "health_step\<^sup>*\<^sup>* new_proxy p" and "url_test env now url expected p = (answer, p')"
  shows "alive_for_test_url url p' = (\<exists>t. probe env url expected = Inr (True, t)) \<and>
    last_delay_for_test_url url p' =
      (case probe env url expected of Inr (True, t) \<Rightarrow> t | _ \<Rightarrow> 0xffff) \<and>
    length (ph_history p') \<le> 10 \<and> length (delay_history_for url p') \<le> 10"
proof -
  have ok: "health_ok p'"
    using health_ok_step [OF tested [of p env now url expected] health_ok_reachable [OF assms(1)]] assms(2) by simp
  have p': "p' = record_test now url (probe env url expected) p" using assms(2) by (simp add: url_test_def Let_def)
  obtain st where st: "ph_extra p' url = Some st"
    and alive: "ps_alive st = (\<exists>t. probe env url expected = Inr (True, t))"
    and delay: "\<And>t. probe env url expected = Inr (True, t) \<Longrightarrow> dh_delay (last (ps_history st)) = t"
    unfolding p' by (rule record_test_fields [of now url "probe env url expected" p]) (simp add: put_history_simps)
  have "length (ph_history p') \<le> 10 \<and> length (delay_history_for url p') \<le> 10"
    using ok st by (auto simp: health_ok_def proxy_state_ok_def history_ok_def default_histories_num_def delay_history_for_def)
  moreover have "last_delay_for_test_url url p' = (case probe env url expected of Inr (True, t) \<Rightarrow> t | _ \<Rightarrow> 0xffff)"
    using last_delay_of [OF ok st] alive delay by (auto split: sum.splits prod.splits bool.splits)
  ultimately show ?thesis using alive st by (simp add: alive_for_test_url_def)
qed

definition demo_probe :: probe_env where
  "demo_probe = \<lparr>pe_parse_url = (\<lambda>_. Inr (''http'', ''a.b'', [])), pe_parse_addr = (\<lambda>_. None), pe_dial = (\<lambda>_. Inr ()),
     pe_new_request = (\<lambda>_. Inr ()), pe_tls_config = Inr (), pe_head = (\<lambda>_. Inr 204), pe_start = 0, pe_second = 0,
     pe_end = 42000000, pe_unified_delay = False\<rparr>"

theorem health_is_last_test_witness:
  "last_delay_for_test_url ''u'' (snd (url_test demo_probe 5 ''u'' None new_proxy)) = 42"
proof -
  have "split_host_port ''a.b:80'' = Inr (''a.b'', ''80'')" by code_simp
  then have "\<exists>m. url_to_metadata demo_probe ''u'' = Inr m"
    by (simp add: url_to_metadata_def demo_probe_def set_remote_address_def join_host_port_def)
  then have p: "probe demo_probe ''u'' None = Inr (True, 42)"
    by (auto simp: probe_def) (simp add: demo_probe_def test_delay_def)
  obtain answer p' where run: "url_test demo_probe 5 ''u'' None new_proxy = (answer, p')"
    by (cases "url_test demo_probe 5 ''u'' None new_proxy")
  have "last_delay_for_test_url ''u'' p' = 42"
    using health_is_last_test [OF rtranclp.rtrancl_refl run] unfolding p by simp
  then show ?thesis unfolding run by simp
qed

end
