(* ===== verification/Proxy_Groups.thy ===== *)
theory Proxy_Groups
  imports Proxy_Health Enums
begin

text \<open>
  Groups of proxies (\<open>adapter/outboundgroup\<close>: \<open>groupbase.go\<close>, \<open>selector.go\<close>, \<open>fallback.go\<close>,
  \<open>urltest.go\<close>, with \<open>common/singledo\<close> and the versions of \<open>adapter/provider/provider.go\<close>). A
  member of a group is known by a number, as the code knows it by its pointer; its health is read
  from the current state of the proxy with that number. Compiled filters are functions on names.
\<close>

subsection \<open>Members and providers\<close>

record member =
  mb_id :: nat
  mb_name :: string
  mb_type :: adapter_type

record base_provider =
  bp_compatible :: bool
  bp_proxies :: "member list"
  bp_version :: "32 word"
  bp_touched :: int

definition provider_touch :: "int \<Rightarrow> base_provider \<Rightarrow> base_provider" where
  "provider_touch now pd = pd\<lparr>bp_touched := now\<rparr>"

definition provider_set_proxies :: "member list \<Rightarrow> base_provider \<Rightarrow> base_provider" where
  "provider_set_proxies ps pd = pd\<lparr>bp_proxies := ps, bp_version := bp_version pd + 1\<rparr>"

subsection \<open>The members of a group\<close>

record group_base =
  gb_filters :: "(string \<Rightarrow> bool) list"
  gb_exclude :: "(string \<Rightarrow> bool) list"
  gb_exclude_types :: "string list"
  gb_empty_fallback :: member
  gb_test_timeout :: int
  gb_max_failed_times :: int
  gb_failed_times :: int
  gb_failed_time :: int
  gb_failed_testing :: bool
  gb_versions :: "32 word list"
  gb_proxies :: "member list"

definition split_or_none :: "char \<Rightarrow> string \<Rightarrow> string list" where
  "split_or_none c s = (if s = [] then [] else str_split c s)"

definition new_group_base ::
  "(string \<Rightarrow> string \<Rightarrow> bool) \<Rightarrow> string \<Rightarrow> string \<Rightarrow> string \<Rightarrow> int \<Rightarrow> int \<Rightarrow> member \<Rightarrow> group_base" where
  "new_group_base compile filters excludes exclude_types timeout max_failed fallback =
     \<lparr>gb_filters = map compile (split_or_none CHR ''`'' filters),
      gb_exclude = map compile (split_or_none CHR ''`'' excludes),
      gb_exclude_types = split_or_none CHR ''|'' exclude_types, gb_empty_fallback = fallback,
      gb_test_timeout = (if timeout = 0 then 5000 else timeout),
      gb_max_failed_times = (if max_failed = 0 then 5 else max_failed),
      gb_failed_times = 0, gb_failed_time = 0, gb_failed_testing = False, gb_versions = [], gb_proxies = []\<rparr>"

text \<open>\<open>proxiesSet\<close> holds the names of the members kept so far.\<close>

fun add_matching :: "(string \<Rightarrow> bool) \<Rightarrow> member list \<Rightarrow> member list \<Rightarrow> member list" where
  "add_matching f [] acc = acc"
| "add_matching f (p # ps) acc =
     add_matching f ps (if f (mb_name p) \<and> mb_name p \<notin> set (map mb_name acc) then acc @ [p] else acc)"

definition filter_members :: "(string \<Rightarrow> bool) list \<Rightarrow> member list \<Rightarrow> member list" where
  "filter_members fs ps = fold (\<lambda>f. add_matching f ps) fs []"

definition excluded_type :: "string list \<Rightarrow> member \<Rightarrow> bool" where
  "excluded_type types p = list_ex (\<lambda>t. to_lower (adapter_type_string (mb_type p)) = to_lower t) types"

definition compute_proxies :: "group_base \<Rightarrow> base_provider list \<Rightarrow> member list" where
  "compute_proxies gb pds =
     (let fs = gb_filters gb;
          collected = concat (map (\<lambda>pd. if fs = [] \<or> bp_compatible pd then bp_proxies pd
            else filter_members fs (bp_proxies pd)) pds);
          ordered = (if length pds > 1 \<and> length fs > 1
            then add_matching (\<lambda>_. True) collected (filter_members fs collected) else collected);
          admitted = filter (\<lambda>p. \<not> list_ex (\<lambda>f. f (mb_name p)) (gb_exclude gb)) ordered in
      filter (\<lambda>p. \<not> excluded_type (gb_exclude_types gb) p) admitted)"

definition get_proxies ::
  "bool \<Rightarrow> int \<Rightarrow> group_base \<Rightarrow> base_provider list \<Rightarrow> member list \<times> group_base \<times> base_provider list" where
  "get_proxies touch now gb pds =
     (let pds' = (if touch then map (provider_touch now) pds else pds);
          versions = map bp_version pds' in
      if versions = gb_versions gb then (gb_proxies gb, gb, pds')
      else
        (let ps = compute_proxies gb pds' in
         if length ps = 0 then ([gb_empty_fallback gb], gb, pds')
         else (ps, gb\<lparr>gb_versions := versions, gb_proxies := ps\<rparr>, pds')))"

subsection \<open>Counting failed dials\<close>

text \<open>
  \<open>onDialFailed\<close> for the type of the proxy, whether the error is \<open>ErrNotSupport\<close>, and its text: the
  first result says whether it calls the health check.
\<close>

definition not_counted :: "adapter_type \<Rightarrow> bool" where
  "not_counted t \<longleftrightarrow> t = AT_Direct \<or> t = AT_Compatible \<or> t = AT_Reject \<or> t = AT_Pass \<or> t = AT_RejectDrop"

definition on_dial_failed :: "int \<Rightarrow> adapter_type \<Rightarrow> bool \<Rightarrow> string \<Rightarrow> group_base \<Rightarrow> bool \<times> group_base" where
  "on_dial_failed now t not_support err gb =
     (if not_counted t \<or> not_support then (False, gb)
      else if str_contains err ''connection refused'' then (True, gb)
      else
        (let n = gb_failed_times gb + 1 in
         if n = 1 then (False, gb\<lparr>gb_failed_times := n, gb_failed_time := now\<rparr>)
         else if now - gb_failed_time gb > gb_test_timeout gb * 1000000 then (False, gb\<lparr>gb_failed_times := 0\<rparr>)
         else (n \<ge> gb_max_failed_times gb, gb\<lparr>gb_failed_times := n\<rparr>)))"

definition on_dial_success :: "group_base \<Rightarrow> group_base" where
  "on_dial_success gb = (if gb_failed_testing gb then gb else gb\<lparr>gb_failed_times := 0\<rparr>)"

text \<open>\<open>healthCheck\<close>: before the providers are tested, and after; \<open>None\<close> when a check is running.\<close>

definition health_check_start :: "group_base \<Rightarrow> group_base option" where
  "health_check_start gb = (if gb_failed_testing gb then None else Some (gb\<lparr>gb_failed_testing := True\<rparr>))"

definition health_check_finish :: "group_base \<Rightarrow> group_base" where
  "health_check_finish gb = gb\<lparr>gb_failed_testing := False, gb_failed_times := 0\<rparr>"

subsection \<open>Selector\<close>

definition has_member :: "string \<Rightarrow> member list \<Rightarrow> bool" where
  "has_member name ps = list_ex (\<lambda>p. mb_name p = name) ps"

definition selected_proxy :: "string \<Rightarrow> member list \<Rightarrow> member" where
  "selected_proxy selected ps =
     (case List.find (\<lambda>p. mb_name p = selected) ps of Some p \<Rightarrow> p | None \<Rightarrow> ps ! 0)"

definition selector_set :: "string \<Rightarrow> member list \<Rightarrow> string \<Rightarrow> string + string" where
  "selector_set name ps selected = (if has_member name ps then Inr name else Inl ''proxy not exist'')"

subsection \<open>Fallback\<close>

fun fallback_scan :: "(member \<Rightarrow> bool) \<Rightarrow> string \<Rightarrow> member list \<Rightarrow> member option \<times> string" where
  "fallback_scan alive selected [] = (None, selected)"
| "fallback_scan alive selected (p # ps) =
     (if length selected = 0 then (if alive p then (Some p, selected) else fallback_scan alive selected ps)
      else if mb_name p = selected then
        (if alive p then (Some p, selected) else fallback_scan alive [] ps)
      else fallback_scan alive selected ps)"

definition find_alive_proxy :: "(member \<Rightarrow> bool) \<Rightarrow> string \<Rightarrow> member list \<Rightarrow> member \<times> string" where
  "find_alive_proxy alive selected ps =
     (case fallback_scan alive selected ps of (Some p, s) \<Rightarrow> (p, s) | (None, s) \<Rightarrow> (ps ! 0, s))"

text \<open>\<open>Set\<close>: the new selection, and the member to test at once when it is not alive.\<close>

definition fallback_set :: "(member \<Rightarrow> bool) \<Rightarrow> string \<Rightarrow> member list \<Rightarrow> string + string \<times> member option" where
  "fallback_set alive name ps =
     (case List.find (\<lambda>p. mb_name p = name) ps of
        None \<Rightarrow> Inl ''proxy not exist''
      | Some p \<Rightarrow> Inr (name, if alive p then None else Some p))"

subsection \<open>Results that are kept for a time\<close>

record 'v single =
  sg_wait :: int
  sg_result :: "('v \<times> int) option"

definition single_cached :: "int \<Rightarrow> 'v single \<Rightarrow> 'v option" where
  "single_cached now s =
     (case sg_result s of Some (v, t) \<Rightarrow> (if now - t < sg_wait s then Some v else None) | None \<Rightarrow> None)"

definition single_reset :: "'v single \<Rightarrow> 'v single" where
  "single_reset s = s\<lparr>sg_result := None\<rparr>"

text \<open>\<open>Do\<close>: the value, whether it is an old one, the state after, and what the function returned besides.\<close>

definition single_do :: "int \<Rightarrow> int \<Rightarrow> ('s \<Rightarrow> 'v \<times> 's) \<Rightarrow> 'v single \<Rightarrow> 's \<Rightarrow> 'v \<times> bool \<times> 'v single \<times> 's" where
  "single_do now done fn s st =
     (case single_cached now s of
        Some v \<Rightarrow> (v, True, s, st)
      | None \<Rightarrow> (case fn st of (v, st') \<Rightarrow> (v, False, s\<lparr>sg_result := Some (v, done)\<rparr>, st')))"

subsection \<open>The fastest proxy\<close>

record url_test_group =
  ut_selected :: string
  ut_fast_node :: "member option"
  ut_tolerance :: "16 word"

text \<open>The loop over all members but the first: the fastest so far, its delay, and whether the last choice is gone.\<close>

fun fastest_scan ::
  "(member \<Rightarrow> bool) \<Rightarrow> (member \<Rightarrow> 16 word) \<Rightarrow> member option \<Rightarrow> member list \<Rightarrow> member \<Rightarrow> 16 word \<Rightarrow> bool \<Rightarrow> member \<times> bool" where
  "fastest_scan alive delay node [] best min_delay gone = (best, gone)"
| "fastest_scan alive delay node (p # ps) best min_delay gone =
     (let gone' = (if (case node of Some q \<Rightarrow> mb_name p = mb_name q | None \<Rightarrow> False) then False else gone) in
      if \<not> alive p then fastest_scan alive delay node ps best min_delay gone'
      else if delay p < min_delay then fastest_scan alive delay node ps p (delay p) gone'
      else fastest_scan alive delay node ps best min_delay gone')"

definition choose_fast ::
  "(member \<Rightarrow> bool) \<Rightarrow> (member \<Rightarrow> 16 word) \<Rightarrow> member list \<Rightarrow> url_test_group \<Rightarrow> member \<times> url_test_group" where
  "choose_fast alive delay ps u =
     (case (if ut_selected u \<noteq> [] then List.find (\<lambda>p. alive p \<and> mb_name p = ut_selected u) ps else None) of
        Some p \<Rightarrow> (p, u\<lparr>ut_fast_node := Some p\<rparr>)
      | None \<Rightarrow>
          (let (best, gone) = fastest_scan alive delay (ut_fast_node u) (tl ps) (hd ps) (delay (hd ps)) True in
           case ut_fast_node u of
             None \<Rightarrow> (best, u\<lparr>ut_fast_node := Some best\<rparr>)
           | Some node \<Rightarrow>
               (if gone \<or> \<not> alive node \<or> delay node > delay best + ut_tolerance u
                then (best, u\<lparr>ut_fast_node := Some best\<rparr>) else (node, u))))"

text \<open>\<open>fast\<close>, with the members of the group and the ten seconds for which a choice is kept.\<close>

definition urltest_fast ::
  "(nat \<Rightarrow> proxy_health) \<Rightarrow> string \<Rightarrow> bool \<Rightarrow> int \<Rightarrow> member single \<Rightarrow> group_base \<times> base_provider list \<times> url_test_group \<Rightarrow>
    member \<times> member single \<times> group_base \<times> base_provider list \<times> url_test_group" where
  "urltest_fast heap url touch now s st =
     (let (p, shared, s', gb, pds, u) =
        single_do now now (\<lambda>(gb, pds, u).
          case get_proxies touch now gb pds of
            (ps, gb', pds') \<Rightarrow>
              (case choose_fast (\<lambda>p. alive_for_test_url url (heap (mb_id p)))
                  (\<lambda>p. last_delay_for_test_url url (heap (mb_id p))) ps u of
                 (p, u') \<Rightarrow> (p, gb', pds', u'))) s st in
      (p, s', gb, if shared \<and> touch then map (provider_touch now) pds else pds, u))"

definition urltest_force_set :: "string \<Rightarrow> url_test_group \<times> member single \<Rightarrow> url_test_group \<times> member single" where
  "urltest_force_set name = map_prod (\<lambda>u. u\<lparr>ut_selected := name\<rparr>) single_reset"

definition urltest_set ::
  "string \<Rightarrow> member list \<Rightarrow> url_test_group \<times> member single \<Rightarrow> string option \<times> url_test_group \<times> member single" where
  "urltest_set name ps u =
     (if has_member name ps then (None, urltest_force_set name u) else (Some ''proxy not exist'', u))"

subsection \<open>What a group selects from\<close>

lemma add_matching_names:
  "mb_name ` set (add_matching f ps acc) = mb_name ` set acc \<union> {n \<in> mb_name ` set ps. f n}"
  by (induction f ps acc rule: add_matching.induct) auto

lemma add_matching_subset: "set acc \<subseteq> set (add_matching f ps acc)" "set (add_matching f ps acc) \<subseteq> set acc \<union> {p \<in> set ps. f (mb_name p)}"
  by (induction f ps acc rule: add_matching.induct) auto

lemma filter_members_names: "mb_name ` set (filter_members fs ps) = {n \<in> mb_name ` set ps. \<exists>f\<in>set fs. f n}"
proof -
  have "mb_name ` set (fold (\<lambda>f. add_matching f ps) fs acc) = mb_name ` set acc \<union> {n \<in> mb_name ` set ps. \<exists>f\<in>set fs. f n}"
    for acc by (induction fs arbitrary: acc) (auto simp: add_matching_names)
  then show ?thesis by (simp add: filter_members_def)
qed

lemma filter_members_subset: "set (filter_members fs ps) \<subseteq> set ps"
proof -
  have "set (fold (\<lambda>f. add_matching f ps) fs acc) \<subseteq> set acc \<union> set ps" for acc
  proof (induction fs arbitrary: acc)
    case (Cons f fs)
    have "set (add_matching f ps acc) \<subseteq> set acc \<union> set ps" using add_matching_subset(2) by blast
    then show ?case using Cons.IH [of "add_matching f ps acc"] by auto
  qed simp
  then show ?thesis by (simp add: filter_members_def) (metis Un_empty_left list.set(1))
qed

definition offered :: "group_base \<Rightarrow> base_provider list \<Rightarrow> member set" where
  "offered gb pds = {p. \<exists>pd\<in>set pds. p \<in> set (bp_proxies pd) \<and>
     (gb_filters gb = [] \<or> bp_compatible pd \<or> (\<exists>f\<in>set (gb_filters gb). f (mb_name p)))}"

definition kept :: "group_base \<Rightarrow> member \<Rightarrow> bool" where
  "kept gb p \<longleftrightarrow> (\<forall>f\<in>set (gb_exclude gb). \<not> f (mb_name p)) \<and> \<not> excluded_type (gb_exclude_types gb) p"

lemma collected_names:
  fixes gb :: group_base and pds :: "base_provider list"
  defines "fs \<equiv> gb_filters gb"
  defines "col \<equiv> concat (map (\<lambda>pd. if fs = [] \<or> bp_compatible pd then bp_proxies pd else filter_members fs (bp_proxies pd)) pds)"
  shows "mb_name ` set col = mb_name ` offered gb pds" "set col \<subseteq> (\<Union>pd\<in>set pds. set (bp_proxies pd))"
proof -
  have each: "mb_name ` set (if fs = [] \<or> bp_compatible pd then bp_proxies pd else filter_members fs (bp_proxies pd)) =
      mb_name ` {p \<in> set (bp_proxies pd). fs = [] \<or> bp_compatible pd \<or> (\<exists>f\<in>set fs. f (mb_name p))}" for pd
    by (auto simp: filter_members_names)
  have "mb_name ` set col = (\<Union>pd\<in>set pds. mb_name ` {p \<in> set (bp_proxies pd). fs = [] \<or> bp_compatible pd \<or> (\<exists>f\<in>set fs. f (mb_name p))})"
    by (simp only: col_def set_concat set_map image_UN SUP_image comp_def each)
  also have "\<dots> = mb_name ` offered gb pds" by (auto simp: offered_def fs_def)
  finally show "mb_name ` set col = mb_name ` offered gb pds" .
  show "set col \<subseteq> (\<Union>pd\<in>set pds. set (bp_proxies pd))"
    using filter_members_subset by (auto simp: col_def split: if_splits)
qed

definition collect_proxies :: "group_base \<Rightarrow> base_provider list \<Rightarrow> member list" where
  "collect_proxies gb pds = concat (map (\<lambda>pd. if gb_filters gb = [] \<or> bp_compatible pd then bp_proxies pd
     else filter_members (gb_filters gb) (bp_proxies pd)) pds)"

definition order_proxies :: "group_base \<Rightarrow> base_provider list \<Rightarrow> member list" where
  "order_proxies gb pds =
     (if length pds > 1 \<and> length (gb_filters gb) > 1
      then add_matching (\<lambda>_. True) (collect_proxies gb pds) (filter_members (gb_filters gb) (collect_proxies gb pds))
      else collect_proxies gb pds)"

lemma compute_proxies_shape: "compute_proxies gb pds = filter (kept gb) (order_proxies gb pds)"
proof -
  have kept_eq: "kept gb = (\<lambda>p. \<not> list_ex (\<lambda>f. f (mb_name p)) (gb_exclude gb) \<and> \<not> excluded_type (gb_exclude_types gb) p)"
    by (rule ext) (auto simp: kept_def list_ex_iff)
  show ?thesis
    unfolding kept_eq compute_proxies_def Let_def order_proxies_def collect_proxies_def filter_filter by (rule refl)
qed

lemma ordered_names: "mb_name ` set (order_proxies gb pds) = mb_name ` offered gb pds"
proof -
  have "mb_name ` set (order_proxies gb pds) = mb_name ` set (collect_proxies gb pds)"
    by (auto simp: order_proxies_def add_matching_names filter_members_names)
  then show ?thesis using collected_names(1) [of gb pds] by (simp add: collect_proxies_def)
qed

lemma ordered_subset: "set (order_proxies gb pds) \<subseteq> (\<Union>pd\<in>set pds. set (bp_proxies pd))"
proof -
  have "set (order_proxies gb pds) \<subseteq> set (collect_proxies gb pds)"
    using filter_members_subset [of "gb_filters gb" "collect_proxies gb pds"]
      add_matching_subset(2) [of "\<lambda>_. True" "collect_proxies gb pds" "filter_members (gb_filters gb) (collect_proxies gb pds)"]
    by (auto simp: order_proxies_def)
  also have "\<dots> \<subseteq> (\<Union>pd\<in>set pds. set (bp_proxies pd))"
    unfolding collect_proxies_def by (rule collected_names(2))
  finally show ?thesis .
qed

lemma image_filter_cong:
  assumes "g ` A = g ` B" and "\<And>x y. x \<in> A \<Longrightarrow> y \<in> B \<Longrightarrow> g x = g y \<Longrightarrow> P x \<longleftrightarrow> P y"
  shows "g ` {x \<in> A. P x} = g ` {x \<in> B. P x}"
proof -
  have "\<exists>y\<in>B. P y \<and> g y = g x" if "x \<in> A" "P x" for x
    using that assms by (metis imageE imageI)
  moreover have "\<exists>y\<in>A. P y \<and> g y = g x" if "x \<in> B" "P x" for x
    using that assms by (metis imageE imageI)
  ultimately show ?thesis by (auto simp: image_iff) metis+
qed

text \<open>
  C27: the members of a group are exactly, by name, the proxies its providers offer that match a
  filter, or come from the group's own list, and that no exclusion by name or type covers; names are
  taken to decide the type.
\<close>

theorem group_members_exact:
  assumes "\<And>p q. p \<in> (\<Union>pd\<in>set pds. set (bp_proxies pd)) \<Longrightarrow> q \<in> (\<Union>pd\<in>set pds. set (bp_proxies pd)) \<Longrightarrow>
    mb_name p = mb_name q \<Longrightarrow> mb_type p = mb_type q"
  shows "mb_name ` set (compute_proxies gb pds) = mb_name ` {p \<in> offered gb pds. kept gb p}"
proof -
  have off: "offered gb pds \<subseteq> (\<Union>pd\<in>set pds. set (bp_proxies pd))" by (auto simp: offered_def)
  have "kept gb p \<longleftrightarrow> kept gb q" if "p \<in> set (order_proxies gb pds)" "q \<in> offered gb pds" "mb_name p = mb_name q" for p q
    using assms [OF subsetD [OF ordered_subset that(1)] subsetD [OF off that(2)] that(3)] that(3)
    by (simp add: kept_def excluded_type_def)
  then show ?thesis
    using image_filter_cong [OF ordered_names, where P = "kept gb"] by (simp add: compute_proxies_shape)
qed

subsection \<open>The kept list of members is the current one\<close>

inductive group_step :: "group_base \<times> base_provider list \<Rightarrow> group_base \<times> base_provider list \<Rightarrow> bool" where
  read: "get_proxies touch now gb pds = (ps, gb', pds') \<Longrightarrow> group_step (gb, pds) (gb', pds')"
| update: "i < length pds \<Longrightarrow> bp_version (pds ! i) \<noteq> - 1 \<Longrightarrow>
    group_step (gb, pds) (gb, pds[i := provider_set_proxies ps (pds ! i)])"
| failed: "group_step (gb, pds) (snd (on_dial_failed now t not_support err gb), pds)"
| succeeded: "group_step (gb, pds) (on_dial_success gb, pds)"

inductive_cases group_step_cases: "group_step st st'"

definition versions_current :: "group_base \<times> base_provider list \<Rightarrow> bool" where
  "versions_current st \<longleftrightarrow> (case st of (gb, pds) \<Rightarrow> pds \<noteq> [] \<and>
     (gb_versions gb = [] \<or> list_all2 (\<lambda>v pd. v \<le> bp_version pd) (gb_versions gb) pds) \<and>
     (gb_versions gb = map bp_version pds \<longrightarrow> gb_proxies gb = compute_proxies gb pds \<and> gb_proxies gb \<noteq> []))"

lemma touch_simps [simp]:
  "bp_version (provider_touch now pd) = bp_version pd" "bp_proxies (provider_touch now pd) = bp_proxies pd"
  "bp_compatible (provider_touch now pd) = bp_compatible pd"
  by (simp_all add: provider_touch_def)

lemma map_touch [simp]: "map bp_version (map (provider_touch now) pds) = map bp_version pds" "bp_version \<circ> provider_touch now = bp_version"
  by (simp_all add: fun_eq_iff)

lemma compute_proxies_touch [simp]: "compute_proxies gb (map (provider_touch now) pds) = compute_proxies gb pds"
  by (simp add: compute_proxies_def Let_def comp_def cong: if_cong)

lemma compute_proxies_cong:
  "gb_filters gb = gb_filters gb' \<Longrightarrow> gb_exclude gb = gb_exclude gb' \<Longrightarrow> gb_exclude_types gb = gb_exclude_types gb' \<Longrightarrow>
    compute_proxies gb pds = compute_proxies gb' pds"
  by (simp add: compute_proxies_def Let_def)

lemma compute_proxies_keep [simp]: "compute_proxies (gb\<lparr>gb_versions := vs, gb_proxies := ps\<rparr>) pds = compute_proxies gb pds"
  by (rule compute_proxies_cong) simp_all

lemma failed_fields:
  "gb_filters (snd (on_dial_failed now t ns err gb)) = gb_filters gb"
  "gb_exclude (snd (on_dial_failed now t ns err gb)) = gb_exclude gb"
  "gb_exclude_types (snd (on_dial_failed now t ns err gb)) = gb_exclude_types gb"
  "gb_versions (snd (on_dial_failed now t ns err gb)) = gb_versions gb"
  "gb_proxies (snd (on_dial_failed now t ns err gb)) = gb_proxies gb"
  "gb_test_timeout (snd (on_dial_failed now t ns err gb)) = gb_test_timeout gb"
  "gb_max_failed_times (snd (on_dial_failed now t ns err gb)) = gb_max_failed_times gb"
  by (simp_all add: on_dial_failed_def Let_def)

lemma success_fields:
  "gb_filters (on_dial_success gb) = gb_filters gb" "gb_exclude (on_dial_success gb) = gb_exclude gb"
  "gb_exclude_types (on_dial_success gb) = gb_exclude_types gb" "gb_versions (on_dial_success gb) = gb_versions gb"
  "gb_proxies (on_dial_success gb) = gb_proxies gb"
  by (simp_all add: on_dial_success_def)

lemma list_all2_touch: "list_all2 (\<lambda>v pd. v \<le> bp_version pd) vs (map (provider_touch now) pds) = list_all2 (\<lambda>v pd. v \<le> bp_version pd) vs pds"
  by (simp add: list_all2_map2)

lemma get_proxies_result:
  assumes "versions_current (gb, pds)"
  shows "fst (get_proxies touch now gb pds) =
    (if compute_proxies gb pds = [] then [gb_empty_fallback gb] else compute_proxies gb pds)"
  using assms by (auto simp: get_proxies_def versions_current_def Let_def split: if_splits)

lemma versions_current_read:
  assumes "versions_current (gb, pds)" and "get_proxies touch now gb pds = (ps, gb', pds')"
  shows "versions_current (gb', pds')"
proof (cases "map bp_version pds = gb_versions gb \<or> compute_proxies gb pds = []")
  case True
  then have "gb' = gb" "pds' = (if touch then map (provider_touch now) pds else pds)"
    using assms(2) by (auto simp: get_proxies_def Let_def split: if_splits)
  then show ?thesis using assms(1) by (auto simp: versions_current_def list_all2_touch)
next
  case False
  then have *: "gb' = gb\<lparr>gb_versions := map bp_version pds, gb_proxies := compute_proxies gb pds\<rparr>"
    "pds' = (if touch then map (provider_touch now) pds else pds)"
    using assms(2) by (auto simp: get_proxies_def Let_def split: if_splits)
  have "compute_proxies gb' pds' = compute_proxies gb pds" using compute_proxies_cong [of gb' gb pds'] * by simp
  then show ?thesis using assms(1) False * by (auto simp: versions_current_def list_all2_conv_all_nth)
qed

lemma versions_current_step: "group_step st st' \<Longrightarrow> versions_current st \<Longrightarrow> versions_current st'"
proof (induction rule: group_step.induct)
  case (read touch now gb pds ps gb' pds')
  then show ?case using versions_current_read by blast
next
  case (update i pds gb ps)
  let ?pds = "pds[i := provider_set_proxies ps (pds ! i)]"
  have "1 + bp_version (pds ! i) \<noteq> 0" using update(2) by (auto simp: add_eq_0_iff)
  then have less: "bp_version (pds ! i) < bp_version (pds ! i) + 1" by (simp add: word_less_nat_alt unatSuc add.commute)
  have le: "list_all2 (\<lambda>v pd. v \<le> bp_version pd) (gb_versions gb) ?pds" if "gb_versions gb \<noteq> []"
  proof (rule list_all2_all_nthI)
    have old: "list_all2 (\<lambda>v pd. v \<le> bp_version pd) (gb_versions gb) pds" using update(3) that by (simp add: versions_current_def)
    then show "length (gb_versions gb) = length ?pds" by (simp add: list_all2_lengthD)
    fix j assume "j < length (gb_versions gb)"
    then have "gb_versions gb ! j \<le> bp_version (pds ! j)" using old by (rule list_all2_nthD [rotated])
    also have "\<dots> \<le> bp_version (?pds ! j)" using less update(1)
      by (cases "j = i") (simp_all add: provider_set_proxies_def)
    finally show "gb_versions gb ! j \<le> bp_version (?pds ! j)" .
  qed
  have "gb_versions gb \<noteq> map bp_version ?pds"
  proof
    assume eq: "gb_versions gb = map bp_version ?pds"
    then have "gb_versions gb ! i = bp_version (pds ! i) + 1" using update(1) by (simp add: provider_set_proxies_def)
    moreover have "gb_versions gb ! i \<le> bp_version (pds ! i)"
      using update(1,3) eq by (auto simp: versions_current_def list_all2_conv_all_nth)
    ultimately show False using less by simp
  qed
  then show ?case using update(1,3) le by (auto simp: versions_current_def)
next
  case (failed gb pds now t not_support err)
  then show ?case using compute_proxies_cong [of "snd (on_dial_failed now t not_support err gb)" gb pds]
    by (auto simp: versions_current_def failed_fields)
next
  case (succeeded gb pds)
  then show ?case using compute_proxies_cong [of "on_dial_success gb" gb pds]
    by (auto simp: versions_current_def success_fields)
qed

text \<open>
  C1: a group that keeps the list of its members by the versions of its providers always answers the
  list of the proxies they have now, and the fallback proxy when there is none, whatever updates,
  reads and dials came before, as long as no provider has had \<open>2 ^ 32\<close> updates; it is never empty.
\<close>

theorem group_members_current:
  assumes "group_step\<^sup>*\<^sup>* (new_group_base compile filters excludes types timeout max_failed fallback, pds0) (gb, pds)"
    and "pds0 \<noteq> []"
  shows "fst (get_proxies touch now gb pds) =
    (if compute_proxies gb pds = [] then [gb_empty_fallback gb] else compute_proxies gb pds)"
proof -
  let ?new = "new_group_base compile filters excludes types timeout max_failed fallback"
  have "versions_current (?new, pds0)"
    using assms(2) by (auto simp: versions_current_def new_group_base_def)
  with assms(1) have "versions_current (gb, pds)"
    by (induction rule: rtranclp_induct) (auto intro: versions_current_step)
  then show ?thesis by (rule get_proxies_result)
qed

end
