(* ===== verification/Group_Choice.thy ===== *)
theory Group_Choice
  imports Proxy_Groups
begin

text \<open>
  What a group chooses: when failed dials start a health check, what a fallback group takes with and
  without a selection, and how far the choice of a url-test group is from the fastest proxy.
\<close>

subsection \<open>Failed dials\<close>

text \<open>A group with the times of the counted failures so far.\<close>

inductive dial_log :: "group_base \<Rightarrow> int list \<Rightarrow> bool" where
  start: "gb_failed_times gb = 0 \<Longrightarrow> dial_log gb []"
| failed: "dial_log gb log \<Longrightarrow> \<not> not_counted t \<Longrightarrow> \<not> str_contains err ''connection refused'' \<Longrightarrow>
    dial_log (snd (on_dial_failed now t False err gb)) (log @ [now])"
| succeeded: "dial_log gb log \<Longrightarrow> dial_log (on_dial_success gb) log"
| check_begins: "dial_log gb log \<Longrightarrow> health_check_start gb = Some gb' \<Longrightarrow> dial_log gb' log"
| check_ends: "dial_log gb log \<Longrightarrow> dial_log (health_check_finish gb) log"

definition failure_window :: "group_base \<Rightarrow> int list \<Rightarrow> bool" where
  "failure_window gb log \<longleftrightarrow> (\<exists>pre ts. log = pre @ ts \<and> gb_failed_times gb = int (length ts) \<and>
     (ts \<noteq> [] \<longrightarrow> hd ts = gb_failed_time gb) \<and> (\<forall>x\<in>set (tl ts). x - gb_failed_time gb \<le> gb_test_timeout gb * 1000000))"

lemma failure_window_empty: "gb_failed_times gb = 0 \<Longrightarrow> failure_window gb log"
  unfolding failure_window_def by (rule exI [of _ log], rule exI [of _ "[]"]) simp

lemma failure_window_failed:
  assumes "failure_window gb log" and "\<not> not_counted t" and "\<not> str_contains err ''connection refused''"
  shows "failure_window (snd (on_dial_failed now t False err gb)) (log @ [now])"
proof -
  obtain pre ts where w: "log = pre @ ts" "gb_failed_times gb = int (length ts)"
    "ts \<noteq> [] \<longrightarrow> hd ts = gb_failed_time gb" "\<forall>x\<in>set (tl ts). x - gb_failed_time gb \<le> gb_test_timeout gb * 1000000"
    using assms(1) unfolding failure_window_def by blast
  show ?thesis
  proof (cases "ts = []")
    case True
    then show ?thesis using w assms(2,3) unfolding failure_window_def
      by (intro exI [of _ log] exI [of _ "[now]"]) (simp add: on_dial_failed_def)
  next
    case False
    show ?thesis
    proof (cases "now - gb_failed_time gb > gb_test_timeout gb * 1000000")
      case True
      with False w(2) show ?thesis using assms(2,3)
        by (intro failure_window_empty) (simp add: on_dial_failed_def Let_def)
    next
      case within: False
      then show ?thesis using w False assms(2,3) unfolding failure_window_def
        by (intro exI [of _ pre] exI [of _ "ts @ [now]"]) (cases ts; auto simp: on_dial_failed_def Let_def)
    qed
  qed
qed

lemma dial_log_window: "dial_log gb log \<Longrightarrow> failure_window gb log"
proof (induction rule: dial_log.induct)
  case (failed gb log t err now)
  then show ?case using failure_window_failed by blast
next
  case (succeeded gb log)
  then show ?case by (auto simp: on_dial_success_def intro: failure_window_empty)
next
  case (check_begins gb log gb')
  then have "gb' = gb\<lparr>gb_failed_testing := True\<rparr>" by (simp add: health_check_start_def split: if_splits)
  then show ?case using check_begins.IH by (simp add: failure_window_def)
qed (auto simp: health_check_finish_def intro: failure_window_empty)

text \<open>
  A failed dial that counts starts a health check only as the last of at least as many failures
  as the group allows, and of at least two, without a success or another check between them, all
  within the test timeout after the first of them.
\<close>

theorem health_check_needs_failures:
  assumes "dial_log gb log" and "\<not> not_counted t" and "\<not> str_contains err ''connection refused''"
    and "fst (on_dial_failed now t False err gb)"
  shows "\<exists>pre first rest. log @ [now] = pre @ first # rest \<and> rest \<noteq> [] \<and>
    gb_max_failed_times gb \<le> int (length (first # rest)) \<and>
    list_all (\<lambda>x. x - first \<le> gb_test_timeout gb * 1000000) rest"
proof -
  let ?gb = "snd (on_dial_failed now t False err gb)"
  have w: "failure_window ?gb (log @ [now])" by (rule dial_log_window [OF dial_log.failed [OF assms(1-3)]])
  have n: "gb_failed_times gb \<noteq> 0" "gb_failed_times ?gb = gb_failed_times gb + 1" "gb_max_failed_times gb \<le> gb_failed_times gb + 1"
    using assms(2-4) by (auto simp: on_dial_failed_def Let_def split: if_splits)
  obtain pre ts where ts: "log @ [now] = pre @ ts" "gb_failed_times gb + 1 = int (length ts)"
    "ts \<noteq> [] \<longrightarrow> hd ts = gb_failed_time ?gb" "\<forall>x\<in>set (tl ts). x - gb_failed_time ?gb \<le> gb_test_timeout gb * 1000000"
    using w n(2) unfolding failure_window_def failed_fields by auto
  have pos: "0 \<le> gb_failed_times gb" using dial_log_window [OF assms(1)] unfolding failure_window_def by auto
  obtain a rest where *: "ts = a # rest" using ts(2) pos by (cases ts) auto
  then have "rest \<noteq> []" using ts(2) n(1) pos by auto
  then show ?thesis using ts * n(3) unfolding list_all_iff
    by (intro exI [of _ pre] exI [of _ a] exI [of _ rest]) simp
qed

definition demo_member :: "nat \<Rightarrow> string \<Rightarrow> member" where
  "demo_member i name = \<lparr>mb_id = i, mb_name = name, mb_type = AT_Vless\<rparr>"

definition demo_group :: group_base where
  "demo_group = new_group_base (\<lambda>_ _. True) [] [] [] 0 2 (demo_member 9 ''COMPATIBLE'')"

definition demo_providers :: "base_provider list" where
  "demo_providers =
     [\<lparr>bp_compatible = True, bp_proxies = [demo_member 0 ''a'', demo_member 1 ''xb''], bp_version = 1, bp_touched = 0\<rparr>,
      \<lparr>bp_compatible = False, bp_proxies = [demo_member 2 ''b'', demo_member 3 ''c''], bp_version = 1, bp_touched = 0\<rparr>]"

definition demo_filtered :: group_base where
  "demo_filtered = demo_group\<lparr>gb_filters := [\<lambda>s. s = ''c'', \<lambda>s. s = ''d''], gb_exclude := [\<lambda>s. hd s = CHR ''x'']\<rparr>"

theorem group_members_exact_witness:
  "mb_name ` set (compute_proxies demo_filtered demo_providers) = {''a'', ''c''}"
proof -
  have "mb_name ` set (compute_proxies demo_filtered demo_providers) =
      mb_name ` {p \<in> offered demo_filtered demo_providers. kept demo_filtered p}"
    by (rule group_members_exact) (auto simp: demo_providers_def demo_member_def)
  moreover have "offered demo_filtered demo_providers = {demo_member 0 ''a'', demo_member 1 ''xb'', demo_member 3 ''c''}"
    by (auto simp: offered_def demo_filtered_def demo_providers_def demo_member_def)
  moreover have kept: "kept demo_filtered (demo_member i name) \<longleftrightarrow> hd name \<noteq> CHR ''x''" for i name
    by (simp add: kept_def excluded_type_def demo_filtered_def demo_group_def new_group_base_def split_or_none_def demo_member_def)
  ultimately have "mb_name ` set (compute_proxies demo_filtered demo_providers) =
      mb_name ` {p \<in> {demo_member 0 ''a'', demo_member 1 ''xb'', demo_member 3 ''c''}. kept demo_filtered p}"
    by (simp only:)
  also have "{p \<in> {demo_member 0 ''a'', demo_member 1 ''xb'', demo_member 3 ''c''}. kept demo_filtered p} =
      {demo_member 0 ''a'', demo_member 3 ''c''}"
    using kept [of 0 "''a''"] kept [of 1 "''xb''"] kept [of 3 "''c''"] by auto
  finally show ?thesis by (simp add: demo_member_def)
qed

theorem health_check_needs_failures_witness:
  "fst (on_dial_failed 8 AT_Vless False ''timeout'' (snd (on_dial_failed 5 AT_Vless False ''timeout'' demo_group))) \<and>
   (\<exists>pre first rest. [5, 8] = pre @ first # rest \<and> rest \<noteq> [] \<and> (2 :: int) \<le> int (length (first # rest)) \<and>
      list_all (\<lambda>x. x - first \<le> (5000 * 1000000 :: int)) rest)"
proof -
  let ?gb = "snd (on_dial_failed 5 AT_Vless False ''timeout'' demo_group)"
  have nr: "\<not> str_contains ''timeout'' ''connection refused''" by code_simp
  have log: "dial_log ?gb ([] @ [5])"
    by (rule dial_log.failed [OF dial_log.start _ nr]) (simp_all add: demo_group_def new_group_base_def not_counted_def)
  have hit: "fst (on_dial_failed 8 AT_Vless False ''timeout'' ?gb)"
    using nr by (simp add: on_dial_failed_def demo_group_def new_group_base_def not_counted_def Let_def)
  have "\<not> not_counted AT_Vless" by (simp add: not_counted_def)
  from health_check_needs_failures [OF log this nr hit] show ?thesis
    using hit by (simp add: failed_fields) (simp add: demo_group_def new_group_base_def)
qed

subsection \<open>Fallback\<close>

definition first_alive :: "(member \<Rightarrow> bool) \<Rightarrow> member list \<Rightarrow> member \<Rightarrow> member" where
  "first_alive alive ps otherwise = (case List.find alive ps of Some p \<Rightarrow> p | None \<Rightarrow> otherwise)"

lemma fallback_scan_free: "fallback_scan alive [] ps = (List.find alive ps, [])"
  by (induction ps) auto

lemma fallback_scan_selected:
  "s \<noteq> [] \<Longrightarrow> fallback_scan alive s ps =
     (case dropWhile (\<lambda>p. mb_name p \<noteq> s) ps of
        [] \<Rightarrow> (None, s)
      | p # rest \<Rightarrow> (if alive p then (Some p, s) else (List.find alive rest, [])))"
  by (induction ps) (auto simp: fallback_scan_free)

text \<open>
  a fallback group without a selection takes its first proxy that is alive. With a selection that
  is alive it takes that one. A selection that is not alive is dropped, but in that call only the
  proxies after it are tried; a selection that is no longer a member stays, and the first proxy is
  taken whether it is alive or not.
\<close>

theorem fallback_choice:
  assumes "ps \<noteq> []"
  shows "find_alive_proxy alive selected ps =
    (if selected = [] then (first_alive alive ps (hd ps), [])
     else case dropWhile (\<lambda>p. mb_name p \<noteq> selected) ps of
       [] \<Rightarrow> (hd ps, selected)
     | p # rest \<Rightarrow> if alive p then (p, selected) else (first_alive alive rest (hd ps), []))"
  using assms
  by (cases "dropWhile (\<lambda>p. mb_name p \<noteq> selected) ps")
    (simp_all add: find_alive_proxy_def fallback_scan_free fallback_scan_selected first_alive_def hd_conv_nth
      del: dropWhile_eq_Nil_conv split: option.split)

theorem fallback_choice_witness:
  "find_alive_proxy (\<lambda>p. mb_id p \<noteq> 1) ''b'' [demo_member 0 ''a'', demo_member 1 ''b'', demo_member 2 ''c''] = (demo_member 2 ''c'', [])"
  using fallback_choice [of "[demo_member 0 ''a'', demo_member 1 ''b'', demo_member 2 ''c'']" "\<lambda>p. mb_id p \<noteq> 1" "''b''"]
  by (simp add: demo_member_def first_alive_def)

subsection \<open>The fastest proxy\<close>

text \<open>What a group knows of its members: whether they are alive, and their delay.\<close>

lemma slowest: "w \<le> (0xffff :: 16 word)" "0xffff \<le> w \<longleftrightarrow> w = (0xffff :: 16 word)"
proof -
  have "(- 1 :: 16 word) = 0xffff" by simp
  then show "w \<le> (0xffff :: 16 word)" "0xffff \<le> w \<longleftrightarrow> w = (0xffff :: 16 word)"
    by (metis word_order.extremum, metis word_order.extremum_unique)
qed

locale health_view =
  fixes alive :: "member \<Rightarrow> bool" and delay :: "member \<Rightarrow> 16 word"
  assumes dead_slowest: "\<not> alive p \<Longrightarrow> delay p = 0xffff"
begin

lemma dead_last: "\<not> alive p \<Longrightarrow> w \<le> delay p"
  using dead_slowest slowest by simp

lemma fastest_scan_best:
  assumes "fastest_scan alive delay node ps best (delay best) gone = (b, g)"
  shows "b \<in> insert best (set ps) \<and> (\<forall>p\<in>insert best (set ps). delay b \<le> delay p) \<and>
    (g \<longleftrightarrow> gone \<and> (\<forall>q. node = Some q \<longrightarrow> mb_name q \<notin> mb_name ` set ps))"
  using assms
proof (induction ps arbitrary: best gone)
  case (Cons p ps)
  let ?gone = "if (case node of Some q \<Rightarrow> mb_name p = mb_name q | None \<Rightarrow> False) then False else gone"
  let ?best = "if alive p \<and> delay p < delay best then p else best"
  have step: "fastest_scan alive delay node ps ?best (delay ?best) ?gone = (b, g)"
    using Cons.prems by (simp add: Let_def split: if_splits)
  have le: "delay ?best \<le> delay best" "delay ?best \<le> delay p" "?best \<in> {best, p}"
    using dead_last [of p] by auto
  have "?gone \<and> (\<forall>q. node = Some q \<longrightarrow> mb_name q \<notin> mb_name ` set ps) \<longleftrightarrow>
      gone \<and> (\<forall>q. node = Some q \<longrightarrow> mb_name q \<notin> mb_name ` set (p # ps))"
    by (cases node) auto
  moreover note Cons.IH [OF step]
  ultimately show ?case using le by (auto intro: order.trans)
qed auto

lemma choose_fast_good:
  assumes "choose_fast alive delay ps u = (p, u')" and "ps \<noteq> []" and "ut_selected u = []"
  shows "mb_name p \<in> mb_name ` set ps"
    and "q \<in> set ps \<Longrightarrow> unat (delay p) \<le> unat (delay q) + unat (ut_tolerance u)"
    and "q \<in> set ps \<Longrightarrow> alive q \<Longrightarrow> delay q \<noteq> 0xffff \<Longrightarrow> alive p"
proof -
  obtain best gone where scan: "fastest_scan alive delay (ut_fast_node u) (tl ps) (hd ps) (delay (hd ps)) True = (best, gone)"
    by (cases "fastest_scan alive delay (ut_fast_node u) (tl ps) (hd ps) (delay (hd ps)) True")
  have set_ps: "insert (hd ps) (set (tl ps)) = set ps" using assms(2) by (cases ps) auto
  from fastest_scan_best [OF scan, unfolded set_ps]
  have best: "best \<in> set ps" "\<forall>p\<in>set ps. delay best \<le> delay p"
    "gone \<longleftrightarrow> (\<forall>q. ut_fast_node u = Some q \<longrightarrow> mb_name q \<notin> mb_name ` set (tl ps))"
    by auto
  have alive_best: "alive best" if "q \<in> set ps" "alive q" "delay q \<noteq> 0xffff" for q
  proof (rule ccontr)
    assume "\<not> alive best"
    then have "0xffff \<le> delay q" using best(2) that(1) dead_slowest by metis
    then show False using that(3) slowest(2) by simp
  qed
  consider (fresh_one) "p = best" | (old_one) node where "ut_fast_node u = Some node" "p = node" "\<not> gone" "alive node"
      "delay node \<le> delay best + ut_tolerance u"
    using assms(1,3) scan by (auto simp: choose_fast_def Let_def not_less split: option.splits if_splits)
  then have "mb_name p \<in> mb_name ` set ps \<and>
    (\<forall>q\<in>set ps. unat (delay p) \<le> unat (delay q) + unat (ut_tolerance u)) \<and>
    (\<forall>q\<in>set ps. alive q \<longrightarrow> delay q \<noteq> 0xffff \<longrightarrow> alive p)"
  proof cases
    case fresh_one
    then show ?thesis using best(1,2) alive_best by (auto simp: word_le_nat_alt intro: trans_le_add1)
  next
    case (old_one node)
    have "mb_name p \<in> mb_name ` set ps"
      using old_one(1-3) best(3) assms(2) by (auto dest: list.set_sel(2))
    moreover have "unat (delay p) \<le> unat (delay q) + unat (ut_tolerance u)" if "q \<in> set ps" for q
    proof -
      have "unat (delay p) \<le> unat (delay best + ut_tolerance u)" using old_one(2,5) by (simp add: word_le_nat_alt)
      also have "\<dots> \<le> unat (delay best) + unat (ut_tolerance u)" by (simp add: unat_word_ariths)
      also have "\<dots> \<le> unat (delay q) + unat (ut_tolerance u)" using best(2) that by (simp add: word_le_nat_alt)
      finally show ?thesis .
    qed
    ultimately show ?thesis using old_one(2,4) by blast
  qed
  then show "mb_name p \<in> mb_name ` set ps"
    and "q \<in> set ps \<Longrightarrow> unat (delay p) \<le> unat (delay q) + unat (ut_tolerance u)"
    and "q \<in> set ps \<Longrightarrow> alive q \<Longrightarrow> delay q \<noteq> 0xffff \<Longrightarrow> alive p"
    by blast+
qed

end

lemma dead_delay: "\<not> alive_for_test_url url p \<Longrightarrow> last_delay_for_test_url url p = 0xffff"
  by (auto simp: alive_for_test_url_def last_delay_for_test_url_def split: option.splits)

interpretation health: health_view "\<lambda>p. alive_for_test_url url (heap (mb_id p))"
    "\<lambda>p. last_delay_for_test_url url (heap (mb_id p))" for url heap
  by unfold_locales (rule dead_delay)

text \<open>
  C25: what a url-test group without a selection chooses is named like one of its members, is alive
  when some member has passed its last test, and is slower than no member by more than the
  tolerance.
\<close>

theorem urltest_choice_good:
  assumes "choose_fast (\<lambda>p. alive_for_test_url url (heap (mb_id p))) (\<lambda>p. last_delay_for_test_url url (heap (mb_id p))) ps u = (p, u')"
    and "ps \<noteq> []" and "ut_selected u = []" and "q \<in> set ps"
  shows "mb_name p \<in> mb_name ` set ps \<and>
    unat (last_delay_for_test_url url (heap (mb_id p))) \<le> unat (last_delay_for_test_url url (heap (mb_id q))) + unat (ut_tolerance u) \<and>
    (alive_for_test_url url (heap (mb_id q)) \<and> last_delay_for_test_url url (heap (mb_id q)) \<noteq> 0xffff \<longrightarrow>
     alive_for_test_url url (heap (mb_id p)))"
  using health.choose_fast_good [OF assms(1-3)] assms(4) by simp

definition demo_heap :: "nat \<Rightarrow> proxy_health" where
  "demo_heap i = \<lparr>ph_alive = True, ph_history = [], ph_extra = [''u'' \<mapsto>
     \<lparr>ps_alive = True, ps_history = [\<lparr>dh_time = 0, dh_delay = of_nat (100 - 40 * i)\<rparr>]\<rparr>]\<rparr>"

theorem urltest_choice_good_witness:
  "unat (last_delay_for_test_url ''u'' (demo_heap (mb_id (fst (choose_fast (\<lambda>p. alive_for_test_url ''u'' (demo_heap (mb_id p)))
     (\<lambda>p. last_delay_for_test_url ''u'' (demo_heap (mb_id p))) [demo_member 0 ''a'', demo_member 1 ''b'']
     \<lparr>ut_selected = [], ut_fast_node = None, ut_tolerance = 10\<rparr>))))) \<le> 70"
proof -
  let ?ps = "[demo_member 0 ''a'', demo_member 1 ''b'']"
  let ?u = "\<lparr>ut_selected = [], ut_fast_node = None, ut_tolerance = 10\<rparr>"
  obtain p u' where run: "choose_fast (\<lambda>p. alive_for_test_url ''u'' (demo_heap (mb_id p)))
     (\<lambda>p. last_delay_for_test_url ''u'' (demo_heap (mb_id p))) ?ps ?u = (p, u')"
    by (cases "choose_fast (\<lambda>p. alive_for_test_url ''u'' (demo_heap (mb_id p)))
     (\<lambda>p. last_delay_for_test_url ''u'' (demo_heap (mb_id p))) ?ps ?u")
  have "last_delay_for_test_url ''u'' (demo_heap (mb_id (demo_member 1 ''b''))) = 60"
    by (simp add: last_delay_for_test_url_def demo_heap_def demo_member_def queue_last_def)
  with urltest_choice_good [OF run, of "demo_member 1 ''b''"] run show ?thesis by simp
qed

text \<open>
  The first member of a group is never protected by the tolerance: the loop that looks for the last
  choice starts at the second one.
\<close>

lemma first_member_unprotected:
  assumes "ut_fast_node u = Some (hd ps)" and "mb_name (hd ps) \<notin> mb_name ` set (tl ps)" and "ut_selected u = []"
    and "fastest_scan alive delay (Some (hd ps)) (tl ps) (hd ps) (delay (hd ps)) True = (best, gone)"
  shows "fst (choose_fast alive delay ps u) = best"
proof -
  have "fastest_scan alive delay (Some q) rest b m True = (b', g) \<Longrightarrow> mb_name q \<notin> mb_name ` set rest \<Longrightarrow> g" for q rest b m b' g
    by (induction rest arbitrary: b m) (auto simp: Let_def split: if_splits)
  from this [OF assms(4,2)] show ?thesis using assms by (simp add: choose_fast_def)
qed

end
