(* ===== verification/Provider_Parser.thy ===== *)
theory Provider_Parser
  imports Override_Apply Group_Choice
begin

text \<open>
  Reading the proxies of a provider (\<open>NewProxiesParser\<close> in \<open>adapter/provider/provider.go\<close>,
  \<open>adapter/provider/subscription_info.go\<close>) and its health checks (\<open>adapter/provider/healthcheck.go\<close>).
  The list of mappings is state: the parser writes the dialer proxy and the overrides into the
  mappings it has read. Decoding the file, compiling and matching regular expressions, and building a
  proxy from its mapping are parameters.
\<close>

subsection \<open>The parser\<close>

record proxies_parser =
  pp_filter :: string
  pp_filters :: "(string \<Rightarrow> bool) list"
  pp_exclude_filters :: "(string \<Rightarrow> bool) list"
  pp_exclude_types :: "string list"
  pp_dialer_proxy :: string
  pp_override :: override_schema

text \<open>\<open>NewProxiesParser\<close> with the test of the secret key; the filter is always split, the others when they are given.\<close>

definition compile_all :: "(string \<Rightarrow> (string \<Rightarrow> bool) option) \<Rightarrow> string \<Rightarrow> string list \<Rightarrow> string + (string \<Rightarrow> bool) list" where
  "compile_all compile err = try_each (\<lambda>f. case compile f of Some r \<Rightarrow> Inr r | None \<Rightarrow> Inl err)"

definition new_proxies_parser ::
  "(string \<Rightarrow> (string \<Rightarrow> bool) option) \<Rightarrow> (string \<Rightarrow> bool) \<Rightarrow> string \<Rightarrow> string \<Rightarrow> string \<Rightarrow> string \<Rightarrow> override_schema \<Rightarrow> string \<Rightarrow>
    string + proxies_parser" where
  "new_proxies_parser compile key_ok filters excludes exclude_types dialer_proxy override key =
     attempt (compile_all compile ''invalid excludeFilter regex'' (split_or_none CHR ''`'' excludes)) (\<lambda>exs.
     attempt (compile_all compile ''invalid filter regex'' (str_split CHR ''`'' filters)) (\<lambda>fs.
       if key \<noteq> [] \<and> \<not> key_ok key then Inl ''invalid age-secret-key''
       else Inr \<lparr>pp_filter = filters, pp_filters = fs, pp_exclude_filters = exs,
         pp_exclude_types = split_or_none CHR ''|'' exclude_types, pp_dialer_proxy = dialer_proxy, pp_override = override\<rparr>))"

text \<open>The tests on one mapping, in their order: the name when they let it pass.\<close>

definition string_entry :: "string \<Rightarrow> mapping \<Rightarrow> string option" where
  "string_entry key m = (case map_of m key of Some (VStr s) \<Rightarrow> Some s | _ \<Rightarrow> None)"

definition admitted_name :: "proxies_parser \<Rightarrow> (string \<Rightarrow> bool) \<Rightarrow> mapping \<Rightarrow> string option" where
  "admitted_name pp f m =
     (if pp_exclude_types pp \<noteq> [] \<and>
         (case string_entry ''type'' m of None \<Rightarrow> True
          | Some t \<Rightarrow> list_ex (\<lambda>x. to_lower t = to_lower x) (pp_exclude_types pp)) then None
      else
        (case string_entry ''name'' m of
           None \<Rightarrow> None
         | Some name \<Rightarrow>
             (if list_ex (\<lambda>x. x name) (pp_exclude_filters pp) then None
              else if pp_filter pp \<noteq> [] \<and> \<not> f name then None
              else Some name)))"

record 'p parse_state =
  ps_mappings :: "mapping list"
  ps_names :: "string list"
  ps_proxies :: "'p list"

definition parse_mapping ::
  "(mapping \<Rightarrow> string + mapping) \<Rightarrow> (mapping \<Rightarrow> string + 'p) \<Rightarrow> proxies_parser \<Rightarrow> (string \<Rightarrow> bool) \<Rightarrow> nat \<Rightarrow> 'p parse_state \<Rightarrow>
    string + 'p parse_state" where
  "parse_mapping override build pp f idx st =
     (let m = ps_mappings st ! idx in
      case admitted_name pp f m of
        None \<Rightarrow> Inr st
      | Some name \<Rightarrow>
          (if name \<in> set (ps_names st) then Inr st
           else
             attempt (override (if pp_dialer_proxy pp \<noteq> [] then map_put ''dialer-proxy'' (VStr (pp_dialer_proxy pp)) m else m)) (\<lambda>m1.
             attempt (build m1) (\<lambda>p.
               Inr (st\<lparr>ps_mappings := (ps_mappings st)[idx := m1], ps_names := ps_names st @ [name],
                 ps_proxies := ps_proxies st @ [p]\<rparr>)))))"

fun parse_all ::
  "(mapping \<Rightarrow> string + mapping) \<Rightarrow> (mapping \<Rightarrow> string + 'p) \<Rightarrow> proxies_parser \<Rightarrow> (string \<Rightarrow> bool) \<Rightarrow> nat list \<Rightarrow> 'p parse_state \<Rightarrow>
    string + 'p parse_state" where
  "parse_all override build pp f [] st = Inr st"
| "parse_all override build pp f (i # is) st =
     attempt (parse_mapping override build pp f i st) (parse_all override build pp f is)"

fun parse_filters ::
  "(mapping \<Rightarrow> string + mapping) \<Rightarrow> (mapping \<Rightarrow> string + 'p) \<Rightarrow> proxies_parser \<Rightarrow> (string \<Rightarrow> bool) list \<Rightarrow> 'p parse_state \<Rightarrow>
    string + 'p parse_state" where
  "parse_filters override build pp [] st = Inr st"
| "parse_filters override build pp (f # fs) st =
     attempt (parse_all override build pp f [0..<length (ps_mappings st)] st) (parse_filters override build pp fs)"

text \<open>The argument \<open>decoded\<close> is the content of the file: \<open>None\<close> when it has no list of proxies.\<close>

definition parse_proxies ::
  "(mapping \<Rightarrow> string + mapping) \<Rightarrow> (mapping \<Rightarrow> string + 'p) \<Rightarrow> proxies_parser \<Rightarrow> string + mapping list option \<Rightarrow> string + 'p list" where
  "parse_proxies override build pp decoded =
     attempt decoded (\<lambda>schema.
       case schema of
         None \<Rightarrow> Inl ''file must have a `proxies` field''
       | Some ms \<Rightarrow>
           attempt (parse_filters override build pp (pp_filters pp) \<lparr>ps_mappings = ms, ps_names = [], ps_proxies = []\<rparr>) (\<lambda>st.
             if length (ps_proxies st) = 0 then
               Inl (if pp_filter pp \<noteq> [] then ''doesn't match any proxy, please check your filter'' else ''file doesn't have any proxy'')
             else Inr (ps_proxies st)))"

subsection \<open>With one filter\<close>

text \<open>What a single filter admits of a list, with the first mapping for every name.\<close>

fun admitted :: "proxies_parser \<Rightarrow> (string \<Rightarrow> bool) \<Rightarrow> mapping list \<Rightarrow> string list \<Rightarrow> mapping list" where
  "admitted pp f [] names = []"
| "admitted pp f (m # ms) names =
     (case admitted_name pp f m of
        None \<Rightarrow> admitted pp f ms names
      | Some name \<Rightarrow> (if name \<in> set names then admitted pp f ms names else m # admitted pp f ms (names @ [name])))"

definition final_mapping :: "(mapping \<Rightarrow> string + mapping) \<Rightarrow> proxies_parser \<Rightarrow> mapping \<Rightarrow> string + mapping" where
  "final_mapping override pp m =
     override (if pp_dialer_proxy pp \<noteq> [] then map_put ''dialer-proxy'' (VStr (pp_dialer_proxy pp)) m else m)"

lemma parse_all_admitted:
  assumes "k \<le> length (ps_mappings st)"
  shows "map_sum id ps_proxies (parse_all override build pp f [k..<length (ps_mappings st)] st) =
    map_sum id (\<lambda>ps. ps_proxies st @ ps)
      (try_each (\<lambda>m. attempt (final_mapping override pp m) build) (admitted pp f (drop k (ps_mappings st)) (ps_names st)))"
  using assms
proof (induction "length (ps_mappings st) - k" arbitrary: k st)
  case (Suc n)
  then have k: "k < length (ps_mappings st)" by simp
  let ?m = "ps_mappings st ! k"
  have range: "[k..<length (ps_mappings st)] = k # [Suc k..<length (ps_mappings st)]" using k by (simp add: upt_rec)
  have drop: "drop k (ps_mappings st) = ?m # drop (Suc k) (ps_mappings st)" using k by (simp add: Cons_nth_drop_Suc)
  show ?case
  proof (cases "\<exists>name. admitted_name pp f ?m = Some name \<and> name \<notin> set (ps_names st)")
    case False
    then have "parse_mapping override build pp f k st = Inr st" by (auto simp: parse_mapping_def Let_def split: option.splits)
    moreover have "admitted pp f (drop k (ps_mappings st)) (ps_names st) = admitted pp f (drop (Suc k) (ps_mappings st)) (ps_names st)"
      using False unfolding drop by (auto split: option.splits)
    ultimately show ?thesis using Suc(1) [of st "Suc k"] Suc(2) k by (simp add: range)
  next
    case True
    then obtain name where name: "admitted_name pp f ?m = Some name" "name \<notin> set (ps_names st)" by blast
    show ?thesis
    proof (cases "attempt (final_mapping override pp ?m) build")
      case (Inl e)
      then have "parse_mapping override build pp f k st = Inl e"
        using name unfolding parse_mapping_def Let_def final_mapping_def [symmetric]
        by (cases "final_mapping override pp ?m") auto
      then show ?thesis using name Inl by (simp add: range drop)
    next
      case (Inr p)
      then obtain m1 where m1: "final_mapping override pp ?m = Inr m1" "build m1 = Inr p" by (auto simp: attempt_Inr_iff)
      let ?st = "st\<lparr>ps_mappings := (ps_mappings st)[k := m1], ps_names := ps_names st @ [name], ps_proxies := ps_proxies st @ [p]\<rparr>"
      have step: "parse_mapping override build pp f k st = Inr ?st"
        using name m1 by (simp add: parse_mapping_def final_mapping_def Let_def)
      have append_one: "(@) (ps_proxies st @ [p]) = (\<lambda>ps. ps_proxies st @ p # ps)" by auto
      have "map_sum id ps_proxies (parse_all override build pp f [Suc k..<length (ps_mappings st)] ?st) =
        map_sum id (\<lambda>ps. (ps_proxies st @ [p]) @ ps)
          (try_each (\<lambda>m. attempt (final_mapping override pp m) build)
            (admitted pp f (drop (Suc k) (ps_mappings st)) (ps_names st @ [name])))"
        using Suc(1) [of ?st "Suc k"] Suc(2) k append_one by simp
      moreover have "try_each (\<lambda>m. attempt (final_mapping override pp m) build) (admitted pp f (drop k (ps_mappings st)) (ps_names st)) =
        map_sum id (\<lambda>ps. p # ps) (try_each (\<lambda>m. attempt (final_mapping override pp m) build)
            (admitted pp f (drop (Suc k) (ps_mappings st)) (ps_names st @ [name])))"
        using name Inr by (simp add: drop) (simp add: attempt_def split: sum.split)
      ultimately show ?thesis using step by (simp add: range sum.map_comp comp_def id_def)
    qed
  qed
qed (auto simp: attempt_def)

text \<open>
  With one filter a provider has exactly the proxies of the mappings that pass the filters, the
  first for every name, each built once from its mapping with the dialer proxy and the overrides
  applied; the first error among them is the result, and so is an empty list.
\<close>

theorem one_filter_parses_admitted:
  assumes "pp_filters pp = [f]"
  shows "parse_proxies override build pp (Inr (Some ms)) =
    attempt (try_each (\<lambda>m. attempt (final_mapping override pp m) build) (admitted pp f ms [])) (\<lambda>ps.
      if ps = [] then
        Inl (if pp_filter pp \<noteq> [] then ''doesn't match any proxy, please check your filter'' else ''file doesn't have any proxy'')
      else Inr ps)"
proof -
  let ?st = "\<lparr>ps_mappings = ms, ps_names = [], ps_proxies = []\<rparr>"
  have eq: "map_sum id ps_proxies (parse_all override build pp f [0..<length ms] ?st) =
      try_each (\<lambda>m. attempt (final_mapping override pp m) build) (admitted pp f ms [])"
    using parse_all_admitted [of 0 ?st override build pp f]
    by (cases "try_each (\<lambda>m. attempt (final_mapping override pp m) build) (admitted pp f ms [])") simp_all
  show ?thesis
    unfolding parse_proxies_def assms eq [symmetric]
    by (cases "parse_all override build pp f [0..<length ms] ?st") simp_all
qed

definition demo_parser :: proxies_parser where
  "demo_parser = \<lparr>pp_filter = ''a`b'', pp_filters = [\<lambda>n. CHR ''a'' \<in> set n, \<lambda>n. CHR ''b'' \<in> set n],
     pp_exclude_filters = [], pp_exclude_types = [], pp_dialer_proxy = [],
     pp_override = \<lparr>os_tfo = None, os_mptcp = None, os_udp = None, os_udp_over_tcp = None, os_up = None, os_down = None,
       os_dialer_proxy = None, os_skip_cert_verify = None, os_name_cert_verify = None, os_interface = None,
       os_routing_mark = None, os_ip_version = None, os_additional_prefix = Some ''x-'', os_additional_suffix = None,
       os_proxy_name = [], os_exprs = []\<rparr>\<rparr>"

theorem one_filter_parses_admitted_witness:
  "parse_proxies Inr (\<lambda>m. Inr m) (demo_parser\<lparr>pp_filters := [\<lambda>_. True]\<rparr>) (Inr (Some [[(''name'', VStr ''a'')], [(''type'', VStr ''ss'')]])) =
    Inr [[(''name'', VStr ''a'')]]"
  by (subst one_filter_parses_admitted [of _ "\<lambda>_. True"])
    (simp_all add: demo_parser_def admitted_name_def string_entry_def final_mapping_def)

text \<open>
  With several filters the names already used are those before the overrides, while the mapping has
  the new one: a proxy that two filters admit is overridden and built once for each.
\<close>

lemma second_filter_overrides_again:
  "parse_proxies (apply_schema env other (pp_override demo_parser)) (\<lambda>m. Inr (map_get ''name'' m)) demo_parser
     (Inr (Some [[(''name'', VStr ''ab'')]])) = Inr [VStr ''x-ab'', VStr ''x-x-ab'']"
  by (simp add: parse_proxies_def demo_parser_def parse_mapping_def admitted_name_def string_entry_def apply_schema_def
      put_options_def put_option_def name_text_def map_get_def)

subsection \<open>Health checks\<close>

text \<open>An interval of zero turns the checks off; times are in nanoseconds.\<close>

record extra_option =
  eo_expected :: "16 word range list option"
  eo_filters :: "string list"

record health_check =
  hc_url :: string
  hc_extra :: "(string \<times> extra_option) list"
  hc_proxies :: "member list"
  hc_interval :: int
  hc_lazy :: bool
  hc_expected :: "16 word range list option"
  hc_last_touch :: int
  hc_timeout :: int

definition new_health_check ::
  "member list \<Rightarrow> string \<Rightarrow> int \<Rightarrow> int \<Rightarrow> bool \<Rightarrow> 16 word range list option \<Rightarrow> health_check" where
  "new_health_check ps url timeout interval lazy expected =
     \<lparr>hc_url = url, hc_extra = [], hc_proxies = ps, hc_interval = (if url = [] then 0 else interval * 1000000000),
      hc_lazy = lazy, hc_expected = (if url = [] then None else expected), hc_last_touch = 0,
      hc_timeout = (if timeout = 0 then 5000 else timeout) * 1000000\<rparr>"

definition split_and_add_filters :: "string \<Rightarrow> extra_option \<Rightarrow> extra_option" where
  "split_and_add_filters filters option =
     (let f = trim_space filters in
      if f = [] then option
      else option\<lparr>eo_filters := eo_filters option @ filter (\<lambda>x. x \<noteq> [] \<and> x \<notin> set (eo_filters option)) (remdups (map trim_space (str_split CHR ''`'' f)))\<rparr>)"

definition register_health_check_task ::
  "string \<Rightarrow> 16 word range list option \<Rightarrow> string \<Rightarrow> int \<Rightarrow> health_check \<Rightarrow> health_check" where
  "register_health_check_task url0 expected filters interval hc =
     (let url = trim_space url0 in
      if url = [] \<or> url = hc_url hc then hc
      else
        (let hc1 = (if hc_interval hc = 0 then hc\<lparr>hc_interval := interval * 1000000000\<rparr> else hc) in
         case map_of (hc_extra hc1) url of
           Some option \<Rightarrow>
             (if filters \<noteq> []
              then hc1\<lparr>hc_extra := map (\<lambda>(u, x). (u, if u = url then split_and_add_filters filters x else x)) (hc_extra hc1)\<rparr>
              else hc1)
         | None \<Rightarrow>
             hc1\<lparr>hc_extra := hc_extra hc1 @ [(url, split_and_add_filters filters \<lparr>eo_expected = expected, eo_filters = []\<rparr>)]\<rparr>))"

definition hc_auto :: "health_check \<Rightarrow> bool" where
  "hc_auto hc = (hc_interval hc \<noteq> 0)"

definition hc_touch :: "int \<Rightarrow> health_check \<Rightarrow> health_check" where
  "hc_touch now hc = hc\<lparr>hc_last_touch := now\<rparr>"

text \<open>Whether a tick of \<open>process\<close> at \<open>now\<close> runs a check.\<close>

definition hc_tick_checks :: "int \<Rightarrow> health_check \<Rightarrow> bool" where
  "hc_tick_checks now hc \<longleftrightarrow> \<not> hc_lazy hc \<or> now - hc_last_touch hc < hc_interval hc"

text \<open>The tests of one check: the address, the proxy and the statuses expected.\<close>

definition hc_execute ::
  "(string \<Rightarrow> string \<Rightarrow> bool) \<Rightarrow> string \<Rightarrow> extra_option \<Rightarrow> member list \<Rightarrow> (string \<times> member \<times> 16 word range list option) list" where
  "hc_execute compile url0 option ps =
     (let url = trim_space url0 in
      if url = [] then []
      else map (\<lambda>p. (url, p, eo_expected option))
        (filter (\<lambda>p. eo_filters option = [] \<or> compile (str_join (eo_filters option) ''|'') (mb_name p)) ps))"

definition hc_check :: "(string \<Rightarrow> string \<Rightarrow> bool) \<Rightarrow> health_check \<Rightarrow> (string \<times> member \<times> 16 word range list option) list" where
  "hc_check compile hc =
     (if length (hc_proxies hc) = 0 then []
      else hc_execute compile (hc_url hc) \<lparr>eo_expected = hc_expected hc, eo_filters = []\<rparr> (hc_proxies hc) @
        concat (map (\<lambda>(url, option). hc_execute compile url option (hc_proxies hc)) (hc_extra hc)))"

definition hc_tasks :: "health_check \<Rightarrow> (string \<times> 16 word range list option) list" where
  "hc_tasks hc = map (\<lambda>(url, x). (url, eo_expected x)) (hc_extra hc)"

text \<open>A task keeps the statuses of its first registration, and a provider its own interval.\<close>

lemma register_keeps_first:
  "hc_tasks (register_health_check_task url expected filters interval hc) =
    (if trim_space url = [] \<or> trim_space url = hc_url hc \<or> trim_space url \<in> fst ` set (hc_tasks hc) then hc_tasks hc
     else hc_tasks hc @ [(trim_space url, expected)])"
proof -
  have split_keeps: "eo_expected (split_and_add_filters fs x) = eo_expected x" for fs x
    by (simp add: split_and_add_filters_def Let_def)
  have known: "u \<in> fst ` set (hc_tasks hc) \<longleftrightarrow> map_of (hc_extra hc) u \<noteq> None" for u
    by (force simp: hc_tasks_def map_of_eq_None_iff image_iff)
  show ?thesis
    by (auto simp: register_health_check_task_def Let_def known)
      (auto simp: hc_tasks_def split_keeps case_prod_unfold comp_def split: option.split)
qed

subsection \<open>Subscription information\<close>

record subscription_info =
  si_upload :: int
  si_download :: int
  si_total :: int
  si_expire :: int

text \<open>The argument \<open>parse\<close> is \<open>parseValue\<close> past the parsing of integers: \<open>strconv.ParseFloat\<close> and the conversion.\<close>

definition subscription_value :: "(string \<Rightarrow> int option) \<Rightarrow> string \<Rightarrow> int option" where
  "subscription_value parse v = (case parse_int64 v of Some n \<Rightarrow> Some n | None \<Rightarrow> parse v)"

definition subscription_field :: "(string \<Rightarrow> int option) \<Rightarrow> string \<Rightarrow> subscription_info \<Rightarrow> subscription_info" where
  "subscription_field parse field si =
     (if CHR ''='' \<notin> set field then si
      else
        (let name = takeWhile (\<lambda>c. c \<noteq> CHR ''='') field; v = tl (dropWhile (\<lambda>c. c \<noteq> CHR ''='') field) in
         case subscription_value parse v of
           None \<Rightarrow> si
         | Some n \<Rightarrow>
             (if name = ''upload'' then si\<lparr>si_upload := n\<rparr>
              else if name = ''download'' then si\<lparr>si_download := n\<rparr>
              else if name = ''total'' then si\<lparr>si_total := n\<rparr>
              else if name = ''expire'' then si\<lparr>si_expire := n\<rparr>
              else si)))"

definition new_subscription_info :: "(string \<Rightarrow> int option) \<Rightarrow> string \<Rightarrow> subscription_info" where
  "new_subscription_info parse userinfo =
     fold (subscription_field parse) (str_split CHR '';'' (filter (\<lambda>c. c \<noteq> CHR '' '') (to_lower userinfo)))
       \<lparr>si_upload = 0, si_download = 0, si_total = 0, si_expire = 0\<rparr>"

end
