(* ===== verification/Load_Balance.thy ===== *)
theory Load_Balance
  imports Group_Choice Float64 Lru_Cache
begin

text \<open>
  The load-balancing group (\<open>adapter/outboundgroup/loadbalance.go\<close>): the keys requests are hashed by,
  the jump hash with its float arithmetic, and the strategies. \<open>MapHash\<close>, the public suffix list, the
  test for an address and the text of an address are parameters.
\<close>

subsection \<open>Bounds of rounded numbers\<close>

lemma exponent_of_le:
  assumes "0 < q"
  shows "pow2 (exponent_of q) \<le> q"
proof -
  obtain n d where nd: "quotient_of q = (n, d)" by (cases "quotient_of q")
  then have d: "0 < d" and q: "q = of_int n / of_int d"
    using quotient_of_denom_pos quotient_of_div by blast+
  then have n: "0 < n" using assms by (simp add: zero_less_divide_iff)
  have bd: "0 \<le> bitlen d" "1 \<le> bitlen n"
    using bitlen_bounds [OF n] n bitlen_le_iff_power [of n 0] bitlen_nonneg [of d] by fastforce+
  have "(of_int (2 ^ nat (bitlen n - 1)) :: rat) \<le> of_int n" "(of_int d :: rat) \<le> of_int (2 ^ nat (bitlen d))"
    using bitlen_bounds [OF n] bitlen_bounds [OF d] by (simp_all del: of_int_power)
  then have "2 powi (bitlen n - 1) \<le> (of_int n :: rat)" "(of_int d :: rat) \<le> 2 powi (bitlen d)"
    using bd by (simp_all add: power_int_def)
  then have "2 powi (bitlen n - 1) / 2 powi (bitlen d) \<le> q"
    using d n unfolding q by (intro frac_le) (auto simp: power_int_def)
  then have "pow2 (bitlen n - bitlen d - 1) \<le> q"
    by (simp add: pow2_powi power_int_diff)
  then show ?thesis by (simp add: exponent_of_def nd Let_def)
qed

lemma round_even_bounds: "of_int m \<le> x \<Longrightarrow> m \<le> round_even x" "x \<le> of_int m \<Longrightarrow> round_even x \<le> m"
proof -
  assume "of_int m \<le> x"
  then have "m \<le> \<lfloor>x\<rfloor>" by (simp add: le_floor_iff)
  then show "m \<le> round_even x" by (auto simp: round_even_def Let_def)
next
  assume le: "x \<le> of_int m"
  show "round_even x \<le> m"
  proof (cases "x = of_int m")
    case False
    then have "\<lfloor>x\<rfloor> < m" using le by (simp add: floor_less_iff)
    then show ?thesis by (auto simp: round_even_def Let_def)
  qed simp
qed

lemma pow2_pos [simp]: "0 < pow2 e"
  by (simp add: pow2_powi)

lemma pow2_add: "pow2 (a + b) = pow2 a * pow2 b"
  by (simp add: pow2_powi power_int_add)

lemma pow2_int: "0 \<le> e \<Longrightarrow> pow2 e = of_int (2 ^ nat e)"
  by (simp add: pow2_def)

lemma pow2_mono: "a \<le> b \<Longrightarrow> pow2 a \<le> pow2 b"
  by (simp add: pow2_powi power_int_increasing)

lemma pow2_strict: "a < b \<Longrightarrow> pow2 a < pow2 b"
  by (simp add: pow2_powi power_int_strict_increasing)

lemma round_magnitude_ge:
  assumes "0 < n" and "n \<le> 2 ^ 53" and "of_int n \<le> q"
  shows "of_int n \<le> round_magnitude q"
proof -
  define e where "e = max (exponent_of q - 52) (- 1074)"
  have scaled: "of_int m * pow2 e \<le> round_magnitude q" if "of_int m * pow2 e \<le> q" for m
  proof -
    have "of_int m \<le> q / pow2 e" using that by (simp add: pos_le_divide_eq)
    then have "m \<le> round_even (q / pow2 e)" by (rule round_even_bounds(1))
    then show ?thesis by (simp add: round_magnitude_def e_def [symmetric] Let_def)
  qed
  show ?thesis
  proof (cases "e \<le> 0")
    case True
    then have eq: "(of_int (n * 2 ^ nat (- e)) :: rat) * pow2 e = of_int n"
      by (cases "e = 0") (simp_all add: pow2_def)
    show ?thesis using scaled [of "n * 2 ^ nat (- e)"] assms(3) unfolding eq by blast
  next
    case False
    then have e: "e = exponent_of q - 52" by (simp add: e_def)
    have "pow2 (exponent_of q) = of_int (2 ^ 52) * pow2 e" using e pow2_add [of 52 e] by (simp add: pow2_def)
    moreover have "pow2 (exponent_of q) \<le> q" using assms(1,3) by (intro exponent_of_le) (simp add: order.strict_trans2 [of 0 "of_int n"])
    ultimately have "pow2 (exponent_of q) \<le> round_magnitude q" using scaled [of "2 ^ 52"] by simp
    moreover have "pow2 53 \<le> pow2 (exponent_of q)" using False e by (intro pow2_mono) simp
    moreover have "(of_int n :: rat) \<le> pow2 53" using assms(2) pow2_int [of 53] by (simp del: of_int_power)
    ultimately show ?thesis by linarith
  qed
qed

lemma round_magnitude_le:
  assumes "0 < q" and "q \<le> pow2 k" and "0 \<le> k"
  shows "round_magnitude q \<le> pow2 k"
proof -
  define e where "e = max (exponent_of q - 52) (- 1074)"
  have "exponent_of q \<le> k"
  proof (rule ccontr)
    assume "\<not> exponent_of q \<le> k"
    then have "pow2 (k + 1) \<le> pow2 (exponent_of q)" by (intro pow2_mono) simp
    then have "pow2 (k + 1) \<le> pow2 k" using exponent_of_le [OF assms(1)] assms(2) by linarith
    then show False by (simp add: pow2_add) (simp add: pow2_def)
  qed
  then have e: "e \<le> k" using assms(3) by (simp add: e_def)
  have k: "pow2 k = of_int (2 ^ nat (k - e)) * pow2 e" using e pow2_add [of "k - e" e] by (simp add: pow2_int)
  then have "q / pow2 e \<le> of_int (2 ^ nat (k - e))" using assms(2) by (simp add: pos_divide_le_eq)
  then have "round_even (q / pow2 e) \<le> 2 ^ nat (k - e)" by (rule round_even_bounds(2))
  then have "(of_int (round_even (q / pow2 e)) :: rat) \<le> of_int (2 ^ nat (k - e))" by (simp del: of_int_power)
  then show ?thesis unfolding k by (simp add: round_magnitude_def e_def [symmetric] Let_def del: of_int_power)
qed

lemma float_round_between:
  assumes "0 < n" and "n \<le> 2 ^ 53" and "of_int n \<le> q" and "q \<le> pow2 k" and "0 \<le> k" and "k < 1024"
  obtains r where "float_round q = FNum r" and "of_int n \<le> r" and "r \<le> pow2 k"
proof -
  have q: "0 < q" using assms(1,3) by (simp add: order.strict_trans2 [of 0 "of_int n"])
  have r: "of_int n \<le> round_magnitude q" "round_magnitude q \<le> pow2 k"
    using round_magnitude_ge [OF assms(1-3)] round_magnitude_le [OF q assms(4,5)] by auto
  have "pow2 k < 2 ^ 1024" using pow2_strict [OF assms(6)] by (simp add: pow2_def)
  then have "round_magnitude q < 2 ^ 1024" using r(2) by simp
  moreover have "0 < round_magnitude q" using r(1) assms(1) by (simp add: order.strict_trans2 [of 0 "of_int n"])
  ultimately have "float_round q = FNum (round_magnitude q)" using q by (simp add: float_round_def Let_def)
  then show ?thesis using that r by blast
qed

subsection \<open>The jump hash\<close>

definition jump_key :: "64 word \<Rightarrow> 64 word" where
  "jump_key key = key * 2862933555777941757 + 1"

definition jump_next :: "(float64 \<Rightarrow> int) \<Rightarrow> 64 word \<Rightarrow> int \<Rightarrow> int" where
  "jump_next conv key b =
     int_of_float conv (float_mul (float_of_int (b + 1))
       (float_div (float_of_int (2 ^ 31)) (float_of_int (uint (drop_bit 33 key) + 1))))"

text \<open>The loop, with at most \<open>k\<close> rounds: \<open>None\<close> when they do not end it.\<close>

fun jump_loop :: "(float64 \<Rightarrow> int) \<Rightarrow> nat \<Rightarrow> 64 word \<Rightarrow> int \<Rightarrow> int \<Rightarrow> int \<Rightarrow> int option" where
  "jump_loop conv 0 key b j buckets = (if j < buckets then None else Some b)"
| "jump_loop conv (Suc k) key b j buckets =
     (if j < buckets then jump_loop conv k (jump_key key) j (jump_next conv (jump_key key) j) buckets else Some b)"

definition jump_hash :: "(float64 \<Rightarrow> int) \<Rightarrow> 64 word \<Rightarrow> int \<Rightarrow> int option" where
  "jump_hash conv key buckets = jump_loop conv (nat buckets) key 0 0 buckets"

lemma jump_next_grows:
  assumes "0 \<le> b" and "b < 2 ^ 31"
  shows "b + 1 \<le> jump_next conv key b"
proof -
  define c where "c = uint (drop_bit 33 key) + 1"
  have "unat (drop_bit 33 key) < 2 ^ 31"
  proof -
    have "unat key < 2 ^ 64" using unsigned_less [of key] by simp
    then have "unat key div 2 ^ 33 < 2 ^ 31" by (intro less_mult_imp_div_less) simp
    then show ?thesis by (subst unat_drop_bit_eq) (simp only: drop_bit_eq_div)
  qed
  then have "int (unat (drop_bit 33 key)) < int (2 ^ 31)" by (simp only: of_nat_less_iff)
  then have "uint (drop_bit 33 key) < 2 ^ 31" unfolding uint_nat [symmetric] by simp
  then have c: "1 \<le> c" "c \<le> 2 ^ 31" by (simp_all add: c_def)
  have ratio: "1 \<le> (2 ^ 31 :: rat) / of_int c" "(2 ^ 31 :: rat) / of_int c \<le> pow2 31"
    using c by (simp_all add: pow2_def le_divide_eq divide_le_eq)
  obtain r where r: "float_round ((2 ^ 31 :: rat) / of_int c) = FNum r" "1 \<le> r" "r \<le> pow2 31"
    using float_round_between [of 1 "2 ^ 31 / of_int c" 31] ratio by auto
  have exact: "float_of_int (b + 1) = FNum (of_int (b + 1))" "float_of_int (2 ^ 31) = FNum (2 ^ 31)"
    "float_of_int c = FNum (of_int c)"
    using assms c by (simp_all add: float_of_int_exact exact_int_def)
  have div: "float_div (float_of_int (2 ^ 31)) (float_of_int c) = FNum r"
    by (simp only: exact float_div_def Let_def prod.case float64.case r(1))
  have "of_int (b + 1) * 1 \<le> of_int (b + 1) * r" using r(2) assms(1) by (intro mult_left_mono) auto
  moreover have "of_int (b + 1) * r \<le> pow2 31 * pow2 31"
  proof (rule mult_mono)
    have "(of_int (b + 1) :: rat) \<le> of_int (2 ^ 31)" using assms(2) by (simp del: of_int_power of_int_add)
    then show "of_int (b + 1) \<le> pow2 31" by (simp add: pow2_def)
  qed (use r in auto)
  ultimately obtain s where s: "float_round (of_int (b + 1) * r) = FNum s" "of_int (b + 1) \<le> s" "s \<le> pow2 62"
    using float_round_between [of "b + 1" "of_int (b + 1) * r" 62] assms pow2_add [of 31 31] by auto
  have mul: "float_mul (float_of_int (b + 1)) (FNum r) = FNum s"
    by (simp only: exact float_mul_def Let_def prod.case float64.case s(1))
  have "b + 1 \<le> \<lfloor>s\<rfloor>" using s(2) by (simp add: le_floor_iff)
  moreover have "\<lfloor>s\<rfloor> \<le> 2 ^ 62" using s(3) by (simp add: floor_le_iff pow2_def)
  moreover have "0 \<le> s"
  proof -
    have "(0 :: rat) \<le> of_int (b + 1)" using assms(1) by simp
    then show ?thesis using s(2) by linarith
  qed
  ultimately show ?thesis unfolding jump_next_def c_def [symmetric] div mul
    using assms(1) by (simp add: int_of_float_def rat_truncate_def fits64_def not_less)
qed

lemma jump_loop_returns:
  assumes "nat (buckets - j) \<le> k" and "0 \<le> b" and "b < buckets" and "0 \<le> j" and "buckets \<le> 2 ^ 31"
  shows "\<exists>r. jump_loop conv k key b j buckets = Some r \<and> 0 \<le> r \<and> r < buckets"
  using assms
proof (induction k arbitrary: key b j)
  case (Suc k)
  show ?case
  proof (cases "j < buckets")
    case True
    then have "j + 1 \<le> jump_next conv (jump_key key) j" using Suc.prems by (intro jump_next_grows) auto
    then show ?thesis
      using Suc.IH [where b = j and j = "jump_next conv (jump_key key) j" and key = "jump_key key"] Suc.prems True by auto
  qed (use Suc.prems in auto)
qed auto

lemma jump_loop_consistent:
  assumes "jump_loop conv k key b j n = Some r" and "jump_loop conv k' key b j (n + 1) = Some r'"
    and "0 \<le> j" and "n < 2 ^ 31"
  shows "r' = r \<or> r' = n"
  using assms
proof (induction k arbitrary: k' key b j)
  case 0
  show ?case
  proof (cases "j = n")
    case True
    then obtain m where m: "k' = Suc m" using 0 by (cases k') auto
    have "n + 1 \<le> jump_next conv (jump_key key) n" using 0 True by (intro jump_next_grows) auto
    then show ?thesis using 0(2) True m by (cases m) auto
  next
    case False
    then show ?thesis using 0 by (cases k') (auto split: if_splits)
  qed
next
  case (Suc k)
  show ?case
  proof (cases "j < n")
    case True
    then obtain m where m: "k' = Suc m" using Suc.prems(2) by (cases k') auto
    have "j + 1 \<le> jump_next conv (jump_key key) j" using Suc.prems True by (intro jump_next_grows) auto
    then show ?thesis
      using Suc.IH [where b = j and j = "jump_next conv (jump_key key) j" and key = "jump_key key" and k' = m] Suc.prems True m
      by auto
  next
    case False
    then have r: "r = b" using Suc.prems(1) by simp
    show ?thesis
    proof (cases "j = n")
      case True
      then obtain m where m: "k' = Suc m" using Suc.prems by (cases k') auto
      have "n + 1 \<le> jump_next conv (jump_key key) n" using Suc.prems True by (intro jump_next_grows) auto
      then show ?thesis using Suc.prems(2) True m by (cases m) auto
    next
      case neq: False
      then show ?thesis using Suc.prems(2) False r by (cases k') (auto split: if_splits)
    qed
  qed
qed

lemma jump_hash_returns:
  assumes "0 < n" and "n \<le> 2 ^ 31"
  shows "\<exists>r. jump_hash conv key n = Some r \<and> 0 \<le> r \<and> r < n"
  unfolding jump_hash_def by (rule jump_loop_returns) (use assms in auto)

text \<open>
  The jump hash returns for every number of buckets of its type, with one of them, and growing
  the list by one bucket moves a key at most to the new one; what the conversion of a float out of
  range gives does not matter.
\<close>

lemma jump_hash_consistent:
  assumes "0 < n" and "n < 2 ^ 31"
  shows "\<exists>r r'. jump_hash conv key n = Some r \<and> jump_hash conv key (n + 1) = Some r' \<and>
    0 \<le> r \<and> r < n \<and> (r' = r \<or> r' = n)"
proof -
  obtain r where r: "jump_hash conv key n = Some r" "0 \<le> r" "r < n" using jump_hash_returns [of n conv key] assms by auto
  obtain r' where r': "jump_hash conv key (n + 1) = Some r'" using jump_hash_returns [of "n + 1" conv key] assms by auto
  have "r' = r \<or> r' = n"
    using jump_loop_consistent [OF r(1) [unfolded jump_hash_def] r'(1) [unfolded jump_hash_def]] assms by simp
  then show ?thesis using r r' by blast
qed

subsection \<open>Keys\<close>

record key_env =
  ke_is_ip :: "string \<Rightarrow> bool"
  ke_etld1 :: "string \<Rightarrow> string option"
  ke_addr_text :: "addr \<Rightarrow> string"
  ke_map_hash :: "string \<Rightarrow> 64 word"

definition get_key :: "key_env \<Rightarrow> metadata option \<Rightarrow> string" where
  "get_key env meta =
     (case meta of
        None \<Rightarrow> []
      | Some m \<Rightarrow>
          (let by_addr = (if addr_valid (m_dst_ip m) then ke_addr_text env (m_dst_ip m) else []) in
           if m_host m \<noteq> [] then
             (if ke_is_ip env (m_host m) then m_host m
              else (case ke_etld1 env (m_host m) of Some etld \<Rightarrow> etld | None \<Rightarrow> by_addr))
           else by_addr))"

definition get_key_with_src_and_dst :: "key_env \<Rightarrow> metadata option \<Rightarrow> string" where
  "get_key_with_src_and_dst env meta =
     (let src = (case meta of Some m \<Rightarrow> ke_addr_text env (m_src_ip m) | None \<Rightarrow> []) in src @ get_key env meta)"

definition get_key_with_in_user :: "(metadata option \<Rightarrow> string) \<Rightarrow> metadata option \<Rightarrow> string" where
  "get_key_with_in_user fallback meta =
     (case meta of Some m \<Rightarrow> (if m_in_user m \<noteq> [] then m_in_user m else fallback meta) | None \<Rightarrow> fallback meta)"

definition hash_key :: "string \<Rightarrow> string + ((metadata option \<Rightarrow> string) \<Rightarrow> metadata option \<Rightarrow> string)" where
  "hash_key name =
     (if name = [] then Inr (\<lambda>fn. fn)
      else if name = ''in-user'' then Inr get_key_with_in_user
      else Inl (''unsupported hash-key: '' @ name))"

subsection \<open>Strategies\<close>

definition rr_pick :: "(member \<Rightarrow> bool) \<Rightarrow> bool \<Rightarrow> member list \<Rightarrow> nat \<Rightarrow> member \<times> nat" where
  "rr_pick alive touching ps idx =
     (let n = length ps in
      case List.find (\<lambda>i. alive (ps ! ((idx + i) mod n))) [0..<n] of
        Some i \<Rightarrow> (ps ! ((idx + i) mod n), if touching then (idx + Suc i) mod n else idx)
      | None \<Rightarrow> (ps ! 0, if touching then (idx + n) mod n else idx))"

text \<open>The outer \<open>None\<close> is a hash that does not return, the inner one that no try was alive.\<close>

fun hash_tries :: "(float64 \<Rightarrow> int) \<Rightarrow> (member \<Rightarrow> bool) \<Rightarrow> member list \<Rightarrow> nat \<Rightarrow> 64 word \<Rightarrow> member option option" where
  "hash_tries conv alive ps 0 key = Some None"
| "hash_tries conv alive ps (Suc k) key =
     Option.bind (jump_hash conv key (int (length ps))) (\<lambda>idx.
       if alive (ps ! nat idx) then Some (Some (ps ! nat idx)) else hash_tries conv alive ps k (key + 1))"

definition consistent_pick :: "(float64 \<Rightarrow> int) \<Rightarrow> (member \<Rightarrow> bool) \<Rightarrow> 64 word \<Rightarrow> member list \<Rightarrow> member option" where
  "consistent_pick conv alive key ps =
     map_option (\<lambda>hit. case hit of Some p \<Rightarrow> p | None \<Rightarrow> first_alive alive ps (ps ! 0)) (hash_tries conv alive ps 5 key)"

text \<open>The argument \<open>clock\<close> gives the readings of the clock, in nanoseconds, in their order.\<close>

fun sticky_tries ::
  "(float64 \<Rightarrow> int) \<Rightarrow> (member \<Rightarrow> bool) \<Rightarrow> member list \<Rightarrow> 64 word \<Rightarrow> nat \<Rightarrow> 64 word list \<Rightarrow> nat \<Rightarrow> nat option option" where
  "sticky_tries conv alive ps key 0 clock now_idx = Some None"
| "sticky_tries conv alive ps key (Suc k) clock now_idx =
     (if alive (ps ! now_idx) then Some (Some now_idx)
      else Option.bind (jump_hash conv (key + hd clock) (int (length ps))) (\<lambda>idx.
        sticky_tries conv alive ps key k (tl clock) (nat idx)))"

definition sticky_pick ::
  "(float64 \<Rightarrow> int) \<Rightarrow> (member \<Rightarrow> bool) \<Rightarrow> 64 word \<Rightarrow> int \<Rightarrow> 64 word list \<Rightarrow> member list \<Rightarrow> (64 word, nat) lru \<Rightarrow>
    (member \<times> (64 word, nat) lru) option" where
  "sticky_pick conv alive key now clock ps cache =
     (let (hit, cache1) = lru_get now key cache in
      Option.bind
        (case hit of
           Some idx \<Rightarrow> (if length ps \<le> idx then map_option nat (jump_hash conv (key + hd clock) (int (length ps))) else Some idx)
         | None \<Rightarrow> map_option nat (jump_hash conv (key + hd clock) (int (length ps))))
        (\<lambda>idx. map_option
           (\<lambda>found. case found of
              Some i \<Rightarrow> (ps ! i, if hit = None \<or> i \<noteq> idx then lru_set now key i cache1 else cache1)
            | None \<Rightarrow> (ps ! 0, lru_set now key 0 cache1))
           (sticky_tries conv alive ps key 4 (tl clock) idx)))"

definition sticky_cache :: "(64 word, nat) lru" where
  "sticky_cache = lru_new 600 1000 False False"

datatype strategy =
    RoundRobin nat
  | ConsistentHashing "metadata option \<Rightarrow> string"
  | StickySessions "metadata option \<Rightarrow> string" "(64 word, nat) lru"

definition new_strategy :: "key_env \<Rightarrow> string \<Rightarrow> string \<Rightarrow> string + strategy" where
  "new_strategy env name key_name =
     attempt (hash_key key_name) (\<lambda>with_key.
       if name = [] \<or> name = ''consistent-hashing'' then Inr (ConsistentHashing (with_key (get_key env)))
       else if name = ''round-robin'' then
         (if key_name \<noteq> [] then Inl ''unsupported hash-key: round-robin does not hash'' else Inr (RoundRobin 0))
       else if name = ''sticky-sessions'' then
         Inr (StickySessions (with_key (get_key_with_src_and_dst env)) sticky_cache)
       else Inl (''unsupported strategy: '' @ name))"

fun strategy_pick ::
  "(float64 \<Rightarrow> int) \<Rightarrow> key_env \<Rightarrow> (member \<Rightarrow> bool) \<Rightarrow> int \<Rightarrow> 64 word list \<Rightarrow> metadata option \<Rightarrow> bool \<Rightarrow> member list \<Rightarrow>
    strategy \<Rightarrow> (member \<times> strategy) option" where
  "strategy_pick conv env alive now clock meta touching ps (RoundRobin idx) =
     Some (map_prod id RoundRobin (rr_pick alive touching ps idx))"
| "strategy_pick conv env alive now clock meta touching ps (ConsistentHashing key_of) =
     map_option (\<lambda>p. (p, ConsistentHashing key_of)) (consistent_pick conv alive (ke_map_hash env (key_of meta)) ps)"
| "strategy_pick conv env alive now clock meta touching ps (StickySessions key_of cache) =
     map_option (map_prod id (StickySessions key_of))
       (sticky_pick conv alive (ke_map_hash env (key_of meta)) now clock ps cache)"

text \<open>\<open>Unwrap\<close>.\<close>

definition load_balance_unwrap ::
  "(float64 \<Rightarrow> int) \<Rightarrow> key_env \<Rightarrow> (member \<Rightarrow> bool) \<Rightarrow> int \<Rightarrow> 64 word list \<Rightarrow> metadata option \<Rightarrow> bool \<Rightarrow>
    group_base \<times> base_provider list \<times> strategy \<Rightarrow> (member \<times> group_base \<times> base_provider list \<times> strategy) option" where
  "load_balance_unwrap conv env alive now clock meta touching st =
     (case st of (gb, pds, strategy) \<Rightarrow>
        (case get_proxies touching now gb pds of (ps, gb', pds') \<Rightarrow>
           map_option (\<lambda>(p, strategy'). (p, gb', pds', strategy'))
             (strategy_pick conv env alive now clock meta touching ps strategy)))"

subsection \<open>What the strategies guarantee\<close>

fun rr_picks :: "(member \<Rightarrow> bool) \<Rightarrow> nat \<Rightarrow> member list \<Rightarrow> nat \<Rightarrow> member list" where
  "rr_picks alive 0 ps idx = []"
| "rr_picks alive (Suc k) ps idx = (case rr_pick alive True ps idx of (p, idx') \<Rightarrow> p # rr_picks alive k ps idx')"

lemma rr_pick_alive:
  assumes "ps \<noteq> []" and "\<forall>p\<in>set ps. alive p"
  shows "rr_pick alive True ps idx = (ps ! (idx mod length ps), Suc idx mod length ps)"
proof -
  have "[0..<length ps] = 0 # [1..<length ps]" using assms(1) by (simp add: upt_rec)
  moreover have "alive (ps ! (idx mod length ps))" using assms by simp
  ultimately show ?thesis by (simp add: rr_pick_def Let_def)
qed

lemma rr_picks_alive:
  assumes "ps \<noteq> []" and "\<forall>p\<in>set ps. alive p"
  shows "rr_picks alive k ps idx = map (\<lambda>i. ps ! ((idx + i) mod length ps)) [0..<k]"
proof (induction k arbitrary: idx)
  case (Suc k)
  have "[0..<Suc k] = 0 # map Suc [0..<k]" by (simp add: upt_conv_Cons map_Suc_upt del: upt_Suc)
  then show ?case using Suc by (simp add: rr_pick_alive [OF assms] mod_simps)
qed simp

text \<open>
  When every member is alive, as many requests in a row as the group has members take every
  member once, in their order, from wherever the last round stopped.
\<close>

theorem round_robin_fair:
  assumes "ps \<noteq> []" and "\<forall>p\<in>set ps. alive p"
  shows "rr_picks alive (length ps) ps idx = rotate idx ps"
  by (rule nth_equalityI) (simp_all add: rr_picks_alive [OF assms] nth_rotate)

theorem round_robin_fair_witness:
  "rr_picks (\<lambda>_. True) 3 (map (\<lambda>i. demo_member i []) [0, 1, 2]) 5 = map (\<lambda>i. demo_member i []) [2, 0, 1]"
  using round_robin_fair [of "map (\<lambda>i. demo_member i []) [0, 1, 2]" "\<lambda>_. True" 5] by (simp add: numeral_eq_Suc)

lemma hash_tries_alive: "hash_tries conv alive ps k key = Some (Some p) \<Longrightarrow> alive p"
  by (induction k arbitrary: key) (auto split: if_splits simp: bind_eq_Some_conv)

lemma hash_tries_returns:
  assumes "ps \<noteq> []" and "length ps \<le> 2 ^ 31"
  shows "hash_tries conv alive ps k key \<noteq> None"
proof (induction k arbitrary: key)
  case (Suc k)
  obtain r where "jump_hash conv key (int (length ps)) = Some r"
    using jump_hash_returns [of "int (length ps)" conv key] assms by auto
  then show ?case using Suc by simp
qed simp

lemma first_try:
  "jump_hash conv key (int (length ps)) = Some r \<Longrightarrow> alive (ps ! nat r) \<Longrightarrow>
    hash_tries conv alive ps (Suc k) key = Some (Some (ps ! nat r))"
  by simp

lemma first_alive_alive: "\<exists>p\<in>set ps. alive p \<Longrightarrow> alive (first_alive alive ps d)"
  by (auto simp: first_alive_def find_None_iff find_Some_iff split: option.split)

text \<open>
  C24: consistent hashing always answers a member, one that is alive whenever there is one; adding a
  proxy to a group whose members are alive leaves every request where it was or moves it to the new
  proxy.
\<close>

theorem consistent_pick_stable:
  assumes "ps \<noteq> []" and "length ps < 2 ^ 31"
  shows "\<exists>p. consistent_pick conv alive key ps = Some p \<and> ((\<exists>q\<in>set ps. alive q) \<longrightarrow> alive p) \<and>
    ((\<forall>q\<in>set (ps @ [new]). alive q) \<longrightarrow>
     p \<in> set ps \<and> (consistent_pick conv alive key (ps @ [new]) = Some p \<or> consistent_pick conv alive key (ps @ [new]) = Some new))"
proof -
  obtain hit where hit: "hash_tries conv alive ps 5 key = Some hit"
    using hash_tries_returns [OF assms(1), of conv alive 5 key] assms(2) by auto
  define p where "p = (case hit of Some p \<Rightarrow> p | None \<Rightarrow> first_alive alive ps (ps ! 0))"
  have pick: "consistent_pick conv alive key ps = Some p" by (simp add: consistent_pick_def hit p_def)
  have "alive p" if "\<exists>q\<in>set ps. alive q"
    using that hash_tries_alive [of conv alive ps 5 key] hit first_alive_alive by (cases hit) (auto simp: p_def)
  moreover have "p \<in> set ps \<and> (consistent_pick conv alive key (ps @ [new]) = Some p \<or> consistent_pick conv alive key (ps @ [new]) = Some new)"
    if all: "\<forall>q\<in>set (ps @ [new]). alive q"
  proof -
    obtain r r' where r: "jump_hash conv key (int (length ps)) = Some r" "0 \<le> r" "r < int (length ps)"
      and r': "jump_hash conv key (int (length ps) + 1) = Some r'" "r' = r \<or> r' = int (length ps)"
      using jump_hash_consistent [of "int (length ps)" conv key] assms by auto
    have i: "nat r < length ps" using r by linarith
    have old: "p = ps ! nat r" using hit first_try [OF r(1), of alive 4] all i by (simp add: p_def)
    have "hash_tries conv alive (ps @ [new]) 5 key = Some (Some ((ps @ [new]) ! nat r'))"
      using first_try [of conv key "ps @ [new]" r' alive 4] r' all i by (auto simp: nth_append add.commute)
    then have "consistent_pick conv alive key (ps @ [new]) = Some ((ps @ [new]) ! nat r')" by (simp add: consistent_pick_def)
    then show ?thesis using old i r'(2) by (auto simp: nth_append)
  qed
  ultimately show ?thesis using pick by blast
qed

theorem consistent_pick_stable_witness:
  "consistent_pick (\<lambda>_. 0) (\<lambda>_. True) 7 [demo_member 0 []] = Some (demo_member 0 [])"
  using consistent_pick_stable [of "[demo_member 0 []]" "\<lambda>_. 0" "\<lambda>_. True" 7 "demo_member 1 []"] by auto

lemma sticky_first: "alive (ps ! i) \<Longrightarrow> sticky_tries conv alive ps key (Suc k) clock i = Some (Some i)"
  by simp

text \<open>
  With sticky sessions the first request of a session fixes its proxy: a request with the same
  key within ten minutes goes there, as long as that member is alive and in its place.
\<close>

theorem sticky_sessions_stick:
  assumes "lru_ok cache" and "l_max_age cache = 600" and "fst (lru_get now key cache) = None"
    and "sticky_pick conv alive key now clock ps cache = Some (p, cache')"
    and "now \<le> later" and "later < now + 600" and "ps' \<noteq> []" and "alive' p"
    and "\<forall>i<length ps. i < length ps' \<and> ps' ! i = ps ! i" and "ps \<noteq> []" and "length ps \<le> 2 ^ 31"
  shows "map_option fst (sticky_pick conv alive' key later clock' ps' cache') = Some p"
proof -
  define cache1 where "cache1 = snd (lru_get now key cache)"
  have get: "lru_get now key cache = (None, cache1)" using assms(3) by (cases "lru_get now key cache") (simp add: cache1_def)
  obtain i where i: "p = ps ! i" "i < length ps" "cache' = lru_set now key i cache1"
  proof -
    have tries: "i < length ps" if "sticky_tries conv alive ps key k clock idx = Some (Some i)" "idx < length ps" for k clock idx i
      using that
    proof (induction k arbitrary: clock idx)
      case (Suc k)
      show ?case
      proof (cases "alive (ps ! idx)")
        case False
        then obtain r where r: "jump_hash conv (key + hd clock) (int (length ps)) = Some r"
            "sticky_tries conv alive ps key k (tl clock) (nat r) = Some (Some i)"
          using Suc.prems(1) by (auto simp: bind_eq_Some_conv)
        have "0 \<le> r \<and> r < int (length ps)"
          using jump_hash_returns [of "int (length ps)" conv "key + hd clock"] r(1) assms(10,11) by auto
        then show ?thesis using Suc.IH [OF r(2)] by linarith
      qed (use Suc.prems in auto)
    qed simp
    obtain r where r: "jump_hash conv (key + hd clock) (int (length ps)) = Some r" "0 \<le> r" "r < int (length ps)"
      using jump_hash_returns [of "int (length ps)" conv "key + hd clock"] assms(10,11) by auto
    then have idx: "nat r < length ps" by linarith
    obtain found where found: "sticky_tries conv alive ps key 4 (tl clock) (nat r) = Some found"
      and res: "(p, cache') = (case found of Some i \<Rightarrow> (ps ! i, lru_set now key i cache1) | None \<Rightarrow> (ps ! 0, lru_set now key 0 cache1))"
      using assms(4) r(1) by (auto simp: sticky_pick_def get split: option.splits)
    show ?thesis
    proof (cases found)
      case None
      then show ?thesis using that [of 0] res assms(10) by simp
    next
      case (Some i)
      then show ?thesis using that [of i] res tries [OF _ idx] found by simp
    qed
  qed
  have "fst (lru_get later key cache') = Some i"
    unfolding i(3) cache1_def by (rule get_after_set) (use assms(1,2,5,6) in \<open>simp_all add: lru_ok_get\<close>)
  then obtain cache2 where again: "lru_get later key cache' = (Some i, cache2)" by (cases "lru_get later key cache'") auto
  have p: "i < length ps'" "ps' ! i = p" using assms(9) i by auto
  have "sticky_tries conv alive' ps' key 4 (tl clock') i = Some (Some i)"
    using sticky_first [of alive' ps' i conv key 3] p assms(8) by simp
  then show ?thesis using p by (simp add: sticky_pick_def again)
qed

theorem sticky_sessions_stick_witness:
  "\<exists>p cache'. sticky_pick (\<lambda>_. 0) (\<lambda>_. True) 7 100 [3, 4] [demo_member 0 []] sticky_cache = Some (p, cache') \<and>
    map_option fst (sticky_pick (\<lambda>_. 0) (\<lambda>_. True) 7 650 [5, 6] [demo_member 0 [], demo_member 1 []] cache') = Some p"
proof -
  have ok: "lru_ok sticky_cache" "l_max_age sticky_cache = 600" "fst (lru_get 100 7 sticky_cache) = None"
    by (simp_all add: sticky_cache_def lru_ok_new) (simp_all add: lru_new_def lru_get_def lru_find_def)
  obtain r where "jump_hash (\<lambda>_. 0) (7 + 3) 1 = Some r" "0 \<le> r" "r < 1"
    using jump_hash_returns [of 1 "\<lambda>_. 0" "7 + 3"] by auto
  then have r: "jump_hash (\<lambda>_. 0) (7 + 3) 1 = Some 0" by simp
  have "\<exists>p cache'. sticky_pick (\<lambda>_. 0) (\<lambda>_. True) 7 100 [3, 4] [demo_member 0 []] sticky_cache = Some (p, cache')"
    using ok(3) r sticky_first [of "\<lambda>_. True" "[demo_member 0 []]" 0 "\<lambda>_. 0" 7 3]
    by (cases "lru_get 100 7 sticky_cache") (simp add: sticky_pick_def)
  then obtain p cache' where run: "sticky_pick (\<lambda>_. 0) (\<lambda>_. True) 7 100 [3, 4] [demo_member 0 []] sticky_cache = Some (p, cache')"
    by blast
  have "map_option fst (sticky_pick (\<lambda>_. 0) (\<lambda>_. True) 7 650 [5, 6] [demo_member 0 [], demo_member 1 []] cache') = Some p"
    by (rule sticky_sessions_stick [OF ok run]) simp_all
  with run show ?thesis by blast
qed

text \<open>
  An index of a group that has shrunk since is hashed anew by the clock, and not stored, so such a
  session is not sticky until its entry expires.
\<close>

lemma sticky_stale_index:
  assumes "fst (lru_get now key cache) = Some idx" and "length ps \<le> idx"
    and "jump_hash conv (key + hd clock) (int (length ps)) = Some r" and "alive (ps ! nat r)"
  shows "sticky_pick conv alive key now clock ps cache = Some (ps ! nat r, snd (lru_get now key cache))"
  using assms sticky_first [of alive ps "nat r" conv key 3]
  by (cases "lru_get now key cache") (simp add: sticky_pick_def)

end
