(* ===== verification/Group_Config.thy ===== *)
theory Group_Config
  imports Provider_Parser Load_Balance
begin

text \<open>
  Building a proxy group from its section (\<open>adapter/outboundgroup/parser.go\<close>). The decoder of the
  sections gives the options, which start with \<open>lazy\<close> set, and those of the four kinds; of the
  proxies and providers of the configuration the model keeps what the function reads. Compiling a
  regular expression that is none is a panic: \<open>None\<close>.
\<close>

record group_option =
  go_name :: string
  go_type :: string
  go_proxies :: "string list"
  go_use :: "string list"
  go_url :: string
  go_interval :: int
  go_test_timeout :: int
  go_max_failed_times :: int
  go_empty_fallback :: string
  go_lazy :: bool
  go_disable_udp :: bool
  go_filter :: string
  go_exclude_filter :: string
  go_exclude_type :: string
  go_expected_status :: string
  go_include_all :: bool
  go_include_all_proxies :: bool
  go_include_all_providers :: bool

record proxy_entry =
  px_member :: member
  px_is_group :: bool

record provider_entry =
  pv_compatible :: bool
  pv_health_url :: string

datatype group_kind =
    GSelector string
  | GUrlTest "16 word"
  | GFallback
  | GLoadBalance strategy

record built_group =
  bg_option :: group_option
  bg_kind :: group_kind
  bg_base :: group_base
  bg_providers :: "string list"
  bg_own :: "health_check option"
  bg_tasks :: "(string \<times> string \<times> 16 word range list \<times> string \<times> int) list"

record 'c group_env =
  ge_decode :: "'c \<Rightarrow> group_option option"
  ge_decode_url_test :: "'c \<Rightarrow> string + 16 word"
  ge_decode_selector :: "'c \<Rightarrow> string + string"
  ge_decode_fallback :: "'c \<Rightarrow> string + unit"
  ge_decode_load_balance :: "'c \<Rightarrow> string + string \<times> string"
  ge_compile :: "string \<Rightarrow> (string \<Rightarrow> bool) option"
  ge_keys :: key_env

definition quoted :: "string \<Rightarrow> string" where
  "quoted s = CHR 0x27 # s @ [CHR 0x27]"

definition in_group :: "string \<Rightarrow> string + 'a \<Rightarrow> string + 'a" where
  "in_group name r = (case r of Inl e \<Rightarrow> Inl (name @ '': '' @ e) | Inr x \<Rightarrow> Inr x)"

definition default_test_url :: string where
  "default_test_url = ''https://www.gstatic.com/generate_204''"

definition compiles :: "'c group_env \<Rightarrow> string \<Rightarrow> bool" where
  "compiles env s = list_all (\<lambda>f. ge_compile env f \<noteq> None) (split_or_none CHR ''`'' s)"

definition matcher :: "'c group_env \<Rightarrow> string \<Rightarrow> string \<Rightarrow> bool" where
  "matcher env f = (case ge_compile env f of Some m \<Rightarrow> m | None \<Rightarrow> (\<lambda>_. False))"

text \<open>A proxy is taken once for every filter that matches it.\<close>

definition all_proxies_filtered :: "'c group_env \<Rightarrow> string \<Rightarrow> string list \<Rightarrow> string list" where
  "all_proxies_filtered env flt all =
     (if flt = [] then all
      else concat (map (\<lambda>p. map (\<lambda>_. p) (filter (\<lambda>f. matcher env f p) (str_split CHR ''`'' flt))) all))"

definition include_all :: "'c group_env \<Rightarrow> string list \<Rightarrow> string list \<Rightarrow> group_option \<Rightarrow> group_option" where
  "include_all env all_proxies all_providers opt =
     (let providers = go_include_all opt \<or> go_include_all_providers opt;
          proxies = go_include_all opt \<or> go_include_all_proxies opt;
          opt1 = (if providers then opt\<lparr>go_use := all_providers\<rparr> else opt);
          opt2 = (if proxies then opt1\<lparr>go_proxies := go_proxies opt1 @ all_proxies_filtered env (go_filter opt1) all_proxies\<rparr> else opt1) in
      if proxies \<and> go_proxies opt2 = [] \<and> go_use opt2 = [] then opt2\<lparr>go_proxies := [go_empty_fallback opt2]\<rparr> else opt2)"

definition find_proxies :: "(string \<Rightarrow> proxy_entry option) \<Rightarrow> string list \<Rightarrow> string + member list" where
  "find_proxies proxies = try_each (\<lambda>name. case proxies name of None \<Rightarrow> Inl (quoted name @ '' not found'') | Some p \<Rightarrow> Inr (px_member p))"

definition find_providers :: "(string \<Rightarrow> provider_entry option) \<Rightarrow> string list \<Rightarrow> string + provider_entry list" where
  "find_providers providers = try_each (\<lambda>name. case providers name of
       None \<Rightarrow> Inl (quoted name @ '' not found'')
     | Some p \<Rightarrow> (if pv_compatible p then Inl (''proxy group '' @ name @ '' can't contains in `use`'') else Inr p))"

definition build_kind :: "'c group_env \<Rightarrow> 'c \<Rightarrow> string \<Rightarrow> string \<Rightarrow> string + group_kind" where
  "build_kind env cfg name kind =
     (if kind = ''url-test'' then attempt (ge_decode_url_test env cfg) (\<lambda>t. Inr (GUrlTest t))
      else if kind = ''select'' then attempt (ge_decode_selector env cfg) (\<lambda>s. Inr (GSelector s))
      else if kind = ''fallback'' then attempt (ge_decode_fallback env cfg) (\<lambda>_. Inr GFallback)
      else if kind = ''load-balance'' then
        attempt (ge_decode_load_balance env cfg) (\<lambda>(strategy, key).
          attempt (new_strategy (ge_keys env) strategy key) (\<lambda>s. Inr (GLoadBalance s)))
      else if kind = ''relay'' then
        Inl (''unsupported type: The group ['' @ name @ ''] with relay type was removed, please using dialer-proxy instead'')
      else Inl (''unsupported type: '' @ kind))"

text \<open>The part for providers: the options with their test address, and the tasks to register.\<close>

definition use_providers ::
  "(string \<Rightarrow> provider_entry option) \<Rightarrow> 16 word range list \<Rightarrow> group_option \<Rightarrow>
    string + group_option \<times> (string \<times> string \<times> 16 word range list \<times> string \<times> int) list" where
  "use_providers providers expected opt =
     (if go_use opt = [] then Inr (opt, [])
      else
        attempt (find_providers providers (go_use opt)) (\<lambda>pds.
          if go_url opt = [] then
            (case List.find (\<lambda>p. pv_health_url p \<noteq> []) pds of
               Some p \<Rightarrow> Inr (opt\<lparr>go_url := pv_health_url p\<rparr>, [])
             | None \<Rightarrow> Inr (opt\<lparr>go_url := default_test_url\<rparr>, []))
          else Inr (opt, map (\<lambda>name. (name, go_url opt, expected, go_filter opt, go_interval opt)) (go_use opt))))"

definition own_proxies ::
  "(string \<Rightarrow> proxy_entry option) \<Rightarrow> (string \<Rightarrow> provider_entry option) \<Rightarrow> 16 word range list \<Rightarrow> group_option \<Rightarrow>
    string + group_option \<times> health_check option" where
  "own_proxies proxies providers expected opt =
     (if go_proxies opt = [] then Inr (opt, None)
      else
        attempt (find_proxies proxies (go_proxies opt)) (\<lambda>ps.
          if providers (go_name opt) \<noteq> None then Inl ''duplicate provider name''
          else
            (let opt1 = (if go_url opt = [] then opt\<lparr>go_url := default_test_url\<rparr> else opt);
                 opt2 = (if go_type opt1 \<noteq> ''select'' \<and> go_type opt1 \<noteq> ''relay'' \<and> go_interval opt1 = 0
                   then opt1\<lparr>go_interval := 300\<rparr> else opt1) in
             Inr (opt2, Some (new_health_check ps (go_url opt2) (go_test_timeout opt2) (go_interval opt2) (go_lazy opt2) (Some expected))))))"

definition checked_fallback :: "(string \<Rightarrow> proxy_entry option) \<Rightarrow> string \<Rightarrow> string + member" where
  "checked_fallback proxies name =
     (case proxies name of
        Some p \<Rightarrow> (if px_is_group p then Inl (''empty fallback proxy '' @ quoted name @ '' not found'') else Inr (px_member p))
      | None \<Rightarrow> Inl (''empty fallback proxy '' @ quoted name @ '' not found''))"

definition group_of ::
  "'c group_env \<Rightarrow> member \<Rightarrow> (string \<times> string \<times> 16 word range list \<times> string \<times> int) list \<Rightarrow> group_option \<Rightarrow>
    health_check option \<Rightarrow> group_kind \<Rightarrow> built_group" where
  "group_of env fallback tasks opt own kind =
     \<lparr>bg_option = opt, bg_kind = kind,
      bg_base = new_group_base (matcher env) (go_filter opt) (go_exclude_filter opt) (go_exclude_type opt)
        (go_test_timeout opt) (go_max_failed_times opt) fallback,
      bg_providers = (if own = None then [] else [go_name opt]) @ go_use opt,
      bg_own = own, bg_tasks = tasks\<rparr>"

text \<open>The part that cannot be left early by a panic: from the expected status to the group.\<close>

definition finish_group ::
  "'c group_env \<Rightarrow> (string \<Rightarrow> proxy_entry option) \<Rightarrow> (string \<Rightarrow> provider_entry option) \<Rightarrow> 'c \<Rightarrow> member \<Rightarrow> group_option \<Rightarrow>
    string + built_group" where
  "finish_group env proxies providers cfg fallback opt2 =
     attempt (in_group (go_name opt2) (new_unsigned_ranges (go_expected_status opt2))) (\<lambda>expected.
       (let status = trim_space (go_expected_status opt2);
            opt3 = opt2\<lparr>go_expected_status := (if status = [] then ''*'' else status)\<rparr> in
        attempt (in_group (go_name opt2) (use_providers providers expected opt3)) (\<lambda>(opt4, tasks).
        attempt (in_group (go_name opt2) (own_proxies proxies providers expected opt4)) (\<lambda>(opt5, own).
        attempt (build_kind env cfg (go_name opt5) (go_type opt5)) (\<lambda>kind.
          Inr (group_of env fallback tasks opt5 own kind))))))"

definition parse_proxy_group ::
  "'c group_env \<Rightarrow> (string \<Rightarrow> proxy_entry option) \<Rightarrow> (string \<Rightarrow> provider_entry option) \<Rightarrow> string list \<Rightarrow> string list \<Rightarrow> 'c \<Rightarrow>
    (string + built_group) option" where
  "parse_proxy_group env proxies providers all_proxies all_providers cfg =
     (case ge_decode env cfg of
        None \<Rightarrow> Some (Inl ''format error'')
      | Some opt0 \<Rightarrow>
          (if go_type opt0 = [] \<or> go_name opt0 = [] then Some (Inl ''format error'')
           else
             (let opt1 = (if go_empty_fallback opt0 = [] then opt0\<lparr>go_empty_fallback := ''COMPATIBLE''\<rparr> else opt0) in
              case checked_fallback proxies (go_empty_fallback opt1) of
                Inl e \<Rightarrow> Some (Inl (go_name opt1 @ '': '' @ e))
              | Inr fallback \<Rightarrow>
                  (if (go_include_all opt1 \<or> go_include_all_proxies opt1) \<and> \<not> compiles env (go_filter opt1) then None
                   else
                     (let opt2 = include_all env all_proxies all_providers opt1 in
                      if go_proxies opt2 = [] \<and> go_use opt2 = [] then Some (Inl (go_name opt2 @ '': `use` or `proxies` missing''))
                      else
                        (let built = finish_group env proxies providers cfg fallback opt2 in
                         if (case built of Inr b \<Rightarrow> \<not> (compiles env (go_filter (bg_option b)) \<and> compiles env (go_exclude_filter (bg_option b)))
                             | Inl _ \<Rightarrow> False)
                         then None else Some built))))))"

lemma try_each_found:
  "try_each f xs = Inr ys \<Longrightarrow> x \<in> set xs \<Longrightarrow> \<exists>y. f x = Inr y"
  by (auto simp: try_each_Inr_iff list_all2_conv_all_nth in_set_conv_nth)

lemma in_group_Inr [simp]:
  "in_group name r = Inr x \<longleftrightarrow> r = Inr x"
  by (simp add: in_group_def split: sum.splits)

lemma in_group_of_Inr: "in_group name (Inr x) = Inr x"
  by simp

lemma attempt_needs:
  "attempt m f = Inr y \<Longrightarrow> \<exists>x. m = Inr x"
  by (cases m) simp_all

lemma find_holds:
  "List.find P xs = Some x \<Longrightarrow> P x"
  by (auto simp: find_Some_iff)

lemma use_providers_keeps:
  "use_providers providers expected opt = Inr (opt', tasks) \<Longrightarrow>
    go_proxies opt' = go_proxies opt \<and> go_use opt' = go_use opt \<and> go_name opt' = go_name opt \<and> go_type opt' = go_type opt \<and>
    (\<forall>name\<in>set (go_use opt). \<exists>p. providers name = Some p \<and> \<not> pv_compatible p) \<and> (go_use opt \<noteq> [] \<longrightarrow> go_url opt' \<noteq> [])"
proof -
  assume run: "use_providers providers expected opt = Inr (opt', tasks)"
  show ?thesis
  proof (cases "go_use opt = []")
    case False
    note run = run [unfolded use_providers_def if_not_P [OF False]]
    obtain pds where pds: "find_providers providers (go_use opt) = Inr pds"
      using attempt_needs [OF run] by blast
    note rest = run [unfolded pds attempt_simps]
    have "\<exists>p. providers name = Some p \<and> \<not> pv_compatible p" if "name \<in> set (go_use opt)" for name
      using try_each_found [OF pds [unfolded find_providers_def] that] by (auto split: option.splits if_splits)
    then show ?thesis using rest
      by (auto simp: default_test_url_def dest: find_holds split: if_splits option.splits)
  qed (use run in \<open>auto simp: use_providers_def\<close>)
qed

lemma own_proxies_keeps:
  "own_proxies proxies providers expected opt = Inr (opt', own) \<Longrightarrow>
    go_use opt' = go_use opt \<and> go_name opt' = go_name opt \<and> go_proxies opt' = go_proxies opt \<and>
    (own = None \<longleftrightarrow> go_proxies opt = []) \<and>
    (\<forall>hc. own = Some hc \<longrightarrow> list_all2 (\<lambda>name m. \<exists>p. proxies name = Some p \<and> px_member p = m) (go_proxies opt) (hc_proxies hc) \<and>
       providers (go_name opt) = None \<and> hc_url hc \<noteq> [])"
  by (auto simp: own_proxies_def attempt_Inr_iff Let_def find_proxies_def try_each_Inr_iff new_health_check_def default_test_url_def
      elim!: list_all2_mono split: if_splits option.splits)

lemma finish_group_Inr:
  assumes "finish_group env proxies providers cfg fallback opt2 = Inr b"
  shows "\<exists>opt3 expected opt4 tasks opt5 own kind.
    go_proxies opt3 = go_proxies opt2 \<and> go_use opt3 = go_use opt2 \<and> go_name opt3 = go_name opt2 \<and>
    use_providers providers expected opt3 = Inr (opt4, tasks) \<and>
    own_proxies proxies providers expected opt4 = Inr (opt5, own) \<and> b = group_of env fallback tasks opt5 own kind"
proof -
  obtain expected where e: "new_unsigned_ranges (go_expected_status opt2) = (Inr expected :: string + 16 word range list)"
    using attempt_needs [OF assms [unfolded finish_group_def]] by auto
  define opt3 where "opt3 = opt2\<lparr>go_expected_status := (if trim_space (go_expected_status opt2) = [] then ''*''
    else trim_space (go_expected_status opt2))\<rparr>"
  have keeps: "go_proxies opt3 = go_proxies opt2" "go_use opt3 = go_use opt2" "go_name opt3 = go_name opt2"
    by (simp_all add: opt3_def)
  note run = assms [unfolded finish_group_def e in_group_of_Inr attempt_simps Let_def, folded opt3_def]
  obtain x where use: "use_providers providers expected opt3 = Inr x"
    using attempt_needs [OF run] by auto
  note run = run [unfolded use in_group_of_Inr attempt_simps case_prod_unfold]
  obtain y where own: "own_proxies proxies providers expected (fst x) = Inr y"
    using attempt_needs [OF run] by auto
  note run = run [unfolded own in_group_of_Inr attempt_simps]
  obtain kind where kind: "build_kind env cfg (go_name (fst y)) (go_type (fst y)) = Inr kind"
    using attempt_needs [OF run] by auto
  have "b = group_of env fallback (snd x) (fst y) (snd y) kind"
    using run [unfolded kind attempt_simps] by simp
  with keeps use own show ?thesis
    by (intro exI [of _ opt3] exI [of _ expected] exI [of _ "fst x"] exI [of _ "snd x"] exI [of _ "fst y"] exI [of _ "snd y"]
        exI [of _ kind]) simp
qed

lemma parse_proxy_group_Inr:
  assumes "parse_proxy_group env proxies providers all_proxies all_providers cfg = Some (Inr b)"
  shows "\<exists>opt0 (opt1::group_option) fallback opt2. checked_fallback proxies (go_empty_fallback opt1) = Inr fallback \<and>
    ge_decode env cfg = Some opt0 \<and> go_name opt2 = go_name opt0 \<and>
    (go_proxies opt2 = [] \<longrightarrow> go_use opt2 \<noteq> []) \<and> finish_group env proxies providers cfg fallback opt2 = Inr b"
proof -
  obtain opt0 where opt0: "ge_decode env cfg = Some opt0" "\<not> (go_type opt0 = [] \<or> go_name opt0 = [])"
    using assms by (auto simp: parse_proxy_group_def split: option.splits if_splits)
  define opt1 where "opt1 = (if go_empty_fallback opt0 = [] then opt0\<lparr>go_empty_fallback := ''COMPATIBLE''\<rparr> else opt0)"
  define opt2 where "opt2 = include_all env all_proxies all_providers opt1"
  have name: "go_name opt2 = go_name opt0"
    by (simp add: opt2_def opt1_def include_all_def Let_def)
  note run = assms [unfolded parse_proxy_group_def opt0(1) option.case if_not_P [OF opt0(2)] opt1_def [symmetric] Let_def
      opt2_def [symmetric]]
  obtain fallback where fb: "checked_fallback proxies (go_empty_fallback opt1) = Inr fallback"
    using run by (auto split: sum.splits)
  have "(go_proxies opt2 = [] \<longrightarrow> go_use opt2 \<noteq> []) \<and> finish_group env proxies providers cfg fallback opt2 = Inr b"
    using run by (simp add: fb split: if_splits)
  with fb opt0(1) name show ?thesis by blast
qed

text \<open>A built group has the name of its section.\<close>

lemma parse_proxy_group_name:
  assumes "parse_proxy_group env proxies providers all_proxies all_providers cfg = Some (Inr b)"
  shows "\<exists>opt. ge_decode env cfg = Some opt \<and> go_name (bg_option b) = go_name opt"
proof -
  obtain opt0 fallback opt2 where opt0: "ge_decode env cfg = Some opt0" "go_name opt2 = go_name opt0"
    and fin: "finish_group env proxies providers cfg fallback opt2 = Inr b"
    using parse_proxy_group_Inr [OF assms] by blast
  obtain opt3 expected opt4 tasks opt5 own kind where opt3: "go_name opt3 = go_name opt2"
    and use: "use_providers providers expected opt3 = Inr (opt4, tasks)"
    and own: "own_proxies proxies providers expected opt4 = Inr (opt5, own)" and b: "b = group_of env fallback tasks opt5 own kind"
    using finish_group_Inr [OF fin] by blast
  show ?thesis
    using opt0 opt3 use_providers_keeps [OF use] own_proxies_keeps [OF own] by (simp add: b group_of_def)
qed

text \<open>
  A group that is built has at least one provider to select from; every provider it uses is one of
  the configuration and no other group, its own list names proxies of the configuration and has no
  provider of that name yet, and its fallback is a single proxy.
\<close>

theorem built_group_has_members:
  assumes "parse_proxy_group env proxies providers all_proxies all_providers cfg = Some (Inr b)"
  shows "bg_providers b \<noteq> [] \<and>
    list_all (\<lambda>name. \<exists>p. providers name = Some p \<and> \<not> pv_compatible p) (go_use (bg_option b)) \<and>
    (\<forall>hc. bg_own b = Some hc \<longrightarrow> hc_proxies hc \<noteq> [] \<and> hc_url hc \<noteq> [] \<and> providers (go_name (bg_option b)) = None \<and>
       list_all2 (\<lambda>name m. \<exists>p. proxies name = Some p \<and> px_member p = m) (go_proxies (bg_option b)) (hc_proxies hc)) \<and>
    (\<exists>name p. proxies name = Some p \<and> \<not> px_is_group p \<and> gb_empty_fallback (bg_base b) = px_member p)"
proof -
  obtain opt1 :: group_option and fallback opt2 where
    fb: "checked_fallback proxies (go_empty_fallback opt1) = Inr fallback" and
    some: "go_proxies opt2 = [] \<longrightarrow> go_use opt2 \<noteq> []" and
    fin: "finish_group env proxies providers cfg fallback opt2 = Inr b"
    using parse_proxy_group_Inr [OF assms] by blast
  obtain opt3 expected opt4 tasks opt5 own kind where
    opt3: "go_proxies opt3 = go_proxies opt2" "go_use opt3 = go_use opt2" and
    use: "use_providers providers expected opt3 = Inr (opt4, tasks)" and
    own: "own_proxies proxies providers expected opt4 = Inr (opt5, own)" and
    b: "b = group_of env fallback tasks opt5 own kind"
    using finish_group_Inr [OF fin] by blast
  have "\<exists>name p. proxies name = Some p \<and> \<not> px_is_group p \<and> px_member p = fallback"
    using fb by (auto simp: checked_fallback_def split: option.splits if_splits)
  then show ?thesis
    using some opt3 use_providers_keeps [OF use] own_proxies_keeps [OF own]
    by (auto simp: b group_of_def new_group_base_def list_all_iff dest: list_all2_lengthD)
qed

end
