(* ===== verification/Group_Order.thy ===== *)
theory Group_Order
  imports Results "HOL-Library.Multiset"
begin

text \<open>
  The order of proxy groups and the chains of dialer proxies (\<open>config/utils.go\<close>). The groups come
  decoded, as their name and the names of their proxies, or as the error of the decoder. Go visits the
  keys of a map in an order it does not specify: the order of the first queue is the parameter
  \<open>order\<close>, and the lists of names in errors are to be read as sets.
\<close>

subsection \<open>Peeling a graph\<close>

text \<open>
  Both passes of \<open>proxyGroupsDagSort\<close> take the nodes of degree zero off the graph one by one: the
  degree of a node is the number of edges that lead to it from the nodes that are left. A node is its
  name and its degree.
\<close>

type_synonym degrees = "(string \<times> nat) list"

definition bump :: "(nat \<Rightarrow> nat) \<Rightarrow> string \<Rightarrow> degrees \<Rightarrow> degrees" where
  "bump f v g = map (\<lambda>(u, d). (u, if u = v then f d else d)) g"

fun lower_degrees :: "string list \<Rightarrow> degrees \<Rightarrow> string list \<Rightarrow> degrees \<times> string list" where
  "lower_degrees [] g queue = (g, queue)"
| "lower_degrees (v # vs) g queue =
     (let g' = bump (\<lambda>d. d - 1) v g in
      lower_degrees vs g' (if map_of g' v = Some 0 then queue @ [v] else queue))"

definition drop_node :: "string \<Rightarrow> degrees \<Rightarrow> degrees" where
  "drop_node v g = filter (\<lambda>x. fst x \<noteq> v) g"

lemma fst_bump [simp]: "map fst (bump f v g) = map fst g"
  by (simp add: bump_def comp_def case_prod_unfold)

lemma fst_lower [simp]: "map fst (fst (lower_degrees vs g queue)) = map fst g"
  by (induction vs g queue rule: lower_degrees.induct) (simp_all add: Let_def)

lemma length_lower [simp]: "length (fst (lower_degrees vs g queue)) = length g"
  by (metis fst_lower length_map)

lemma length_drop_node: "v \<in> set (map fst g) \<Longrightarrow> length (drop_node v g) < length g"
  unfolding drop_node_def by (auto intro: length_filter_less)

lemma length_drop_lowered:
  assumes "v \<in> set (map fst g)"
  shows "length (drop_node v (fst (lower_degrees vs g queue))) < length g"
proof -
  have "v \<in> set (map fst (fst (lower_degrees vs g queue)))" using assms by simp
  from length_drop_node [OF this] show ?thesis by simp
qed

function peel :: "(string \<Rightarrow> string list) \<Rightarrow> degrees \<Rightarrow> string list \<Rightarrow> string list \<times> degrees" where
  "peel succs g [] = ([], g)"
| "peel succs g (v # queue) =
     (if v \<in> set (map fst g) then
        (let (g', queue') = lower_degrees (succs v) g queue;
             (taken, rest) = peel succs (drop_node v g') queue' in
         (v # taken, rest))
      else ([], g))"
  by pat_completeness auto

termination
proof (relation "measure (\<lambda>(succs, g, queue). length g)", goal_cases)
  case (2 succs g v queue x g' queue')
  then have "g' = fst (lower_degrees (succs v) g queue)" by (metis fst_conv)
  then show ?case using length_drop_lowered [OF 2(1)] by simp
qed simp

subsection \<open>Sorting the groups\<close>

text \<open>A node of the first graph: its indegree, and the proxies of the group when there is one of that name.\<close>

record graph_node =
  gn_indegree :: nat
  gn_proxies :: "string list option"

type_synonym group_graph = "(string \<times> graph_node) list"

definition add_edge :: "string \<Rightarrow> group_graph \<Rightarrow> group_graph" where
  "add_edge proxy graph =
     (if map_of graph proxy \<noteq> None
      then map (\<lambda>(u, n). (u, if u = proxy then n\<lparr>gn_indegree := gn_indegree n + 1\<rparr> else n)) graph
      else graph @ [(proxy, \<lparr>gn_indegree = 1, gn_proxies = None\<rparr>)])"

definition add_group :: "string + string \<times> string list \<Rightarrow> group_graph \<Rightarrow> string + group_graph" where
  "add_group decoded graph =
     attempt decoded (\<lambda>(name, proxies).
       case map_of graph name of
         Some n \<Rightarrow>
           (if gn_proxies n \<noteq> None then Inl (''ProxyGroup '' @ name @ '': duplicate group name'')
            else Inr (fold add_edge proxies (map (\<lambda>(u, n). (u, if u = name then n\<lparr>gn_proxies := Some proxies\<rparr> else n)) graph)))
       | None \<Rightarrow> Inr (fold add_edge proxies (graph @ [(name, \<lparr>gn_indegree = 0, gn_proxies = Some proxies\<rparr>)])))"

fun build_graph :: "(string + string \<times> string list) list \<Rightarrow> group_graph \<Rightarrow> string + group_graph" where
  "build_graph [] graph = Inr graph"
| "build_graph (d # ds) graph = attempt (add_group d graph) (\<lambda>graph'. build_graph ds graph')"

definition node_proxies :: "group_graph \<Rightarrow> string \<Rightarrow> string list" where
  "node_proxies graph v =
     (case map_of graph v of Some n \<Rightarrow> (case gn_proxies n of Some ps \<Rightarrow> ps | None \<Rightarrow> []) | None \<Rightarrow> [])"

definition is_group :: "group_graph \<Rightarrow> string \<Rightarrow> bool" where
  "is_group graph v = (case map_of graph v of Some n \<Rightarrow> gn_proxies n \<noteq> None | None \<Rightarrow> False)"

definition zero_degree :: "degrees \<Rightarrow> string list" where
  "zero_degree g = map fst (filter (\<lambda>x. snd x = 0) g)"

text \<open>The second pass takes the nodes that lead nowhere off what is left, along the edges backwards.\<close>

definition loop_elements :: "(string list \<Rightarrow> string list) \<Rightarrow> group_graph \<Rightarrow> string list \<Rightarrow> string list" where
  "loop_elements order graph left =
     (let from_of = (\<lambda>v. concat (map (\<lambda>u. map (\<lambda>_. u) (filter (\<lambda>p. p = v) (node_proxies graph u))) left));
          g = map (\<lambda>u. (u, length (node_proxies graph u))) left in
      map fst (snd (peel from_of g (order (zero_degree g)))))"

definition proxy_groups_dag_sort ::
  "(string list \<Rightarrow> string list) \<Rightarrow> (string + string \<times> string list) list \<Rightarrow> string list + string list" where
  "proxy_groups_dag_sort order decoded =
     (case build_graph decoded [] of
        Inl err \<Rightarrow> Inl [err]
      | Inr graph \<Rightarrow>
          (let g = map (\<lambda>(u, n). (u, gn_indegree n)) graph;
               (taken, rest) = peel (node_proxies graph) g (order (zero_degree g)) in
           if length rest = 0 then Inr (rev (filter (is_group graph) taken))
           else Inl (loop_elements order graph (map fst rest))))"

subsection \<open>What peeling leaves\<close>

definition edges_to :: "(string \<Rightarrow> string list) \<Rightarrow> string list \<Rightarrow> string \<Rightarrow> nat" where
  "edges_to succs us v = sum_list (map (\<lambda>u. count_list (succs u) v) us)"

definition peel_ok :: "(string \<Rightarrow> string list) \<Rightarrow> degrees \<Rightarrow> string list \<Rightarrow> bool" where
  "peel_ok succs g queue \<longleftrightarrow>
     distinct (map fst g) \<and> (\<forall>u\<in>set (map fst g). set (succs u) \<subseteq> set (map fst g)) \<and>
     (\<forall>v d. map_of g v = Some d \<longrightarrow> d = edges_to succs (map fst g) v) \<and>
     distinct queue \<and> set queue = {v \<in> set (map fst g). edges_to succs (map fst g) v = 0}"

lemma edges_to_zero: "edges_to succs us v = 0 \<longleftrightarrow> (\<forall>u\<in>set us. v \<notin> set (succs u))"
  by (induction us) (auto simp: edges_to_def count_list_0_iff)

lemma edges_to_remove:
  "distinct us \<Longrightarrow> v \<in> set us \<Longrightarrow> edges_to succs us u = count_list (succs v) u + edges_to succs (filter (\<lambda>w. w \<noteq> v) us) u"
proof (induction us)
  case (Cons w us)
  show ?case
  proof (cases "w = v")
    case True
    then have "filter (\<lambda>w. w \<noteq> v) us = us" using Cons.prems by (auto intro!: filter_True)
    then show ?thesis using True by (simp add: edges_to_def)
  qed (use Cons in \<open>simp add: edges_to_def\<close>)
qed simp

lemma map_of_bump: "map_of (bump f v g) u = map_option (\<lambda>d. if u = v then f d else d) (map_of g u)"
  by (induction g) (auto simp: bump_def)

lemma map_of_drop_node: "map_of (drop_node v g) u = (if u = v then None else map_of g u)"
  by (induction g) (auto simp: drop_node_def)

lemma fst_drop_node: "map fst (drop_node v g) = filter (\<lambda>u. u \<noteq> v) (map fst g)"
  by (induction g) (auto simp: drop_node_def)

lemma lower_degrees_spec:
  assumes "\<forall>u d. map_of g u = Some d \<longrightarrow> count_list vs u \<le> d" and "distinct queue" and "set queue \<inter> set vs = {}"
    and "lower_degrees vs g queue = (g', queue')"
  shows "(\<forall>u. map_of g' u = map_option (\<lambda>d. d - count_list vs u) (map_of g u)) \<and> distinct queue' \<and>
    set queue' = set queue \<union> {u \<in> set vs. map_of g u = Some (count_list vs u)}"
  using assms
proof (induction vs arbitrary: g queue)
  case (Cons v vs)
  define g1 where "g1 = bump (\<lambda>d. d - 1) v g"
  define q1 where "q1 = (if map_of g1 v = Some 0 then queue @ [v] else queue)"
  have run: "lower_degrees vs g1 q1 = (g', queue')" using Cons.prems(4) by (simp add: g1_def q1_def Let_def)
  have g1: "map_of g1 u = map_option (\<lambda>d. if u = v then d - 1 else d) (map_of g u)" for u
    unfolding g1_def by (rule map_of_bump)
  have c1: "\<forall>u d. map_of g1 u = Some d \<longrightarrow> count_list vs u \<le> d"
  proof (intro allI impI)
    fix u d assume "map_of g1 u = Some d"
    then obtain e where e: "map_of g u = Some e" "d = (if u = v then e - 1 else e)" by (auto simp: g1)
    have "count_list (v # vs) u \<le> e" using Cons.prems(1) e(1) by blast
    then show "count_list vs u \<le> d" using e(2) by auto
  qed
  have v: "v \<notin> set vs" if "map_of g1 v = Some 0" using c1 that by (auto simp flip: count_list_0_iff)
  have q1: "distinct q1" "set q1 \<inter> set vs = {}" using Cons.prems(2,3) v by (auto simp: q1_def)
  note IH = Cons.IH [OF c1 q1 run]
  have new: "set q1 \<union> {u \<in> set vs. map_of g1 u = Some (count_list vs u)} =
      set queue \<union> {u \<in> set (v # vs). map_of g u = Some (count_list (v # vs) u)}"
  proof (cases "map_of g v")
    case None
    then show ?thesis using g1 by (auto simp: q1_def)
  next
    case (Some d)
    then have d: "count_list vs v + 1 \<le> d" using Cons.prems(1) by fastforce
    show ?thesis
    proof (cases "d = 1")
      case True
      then have "v \<notin> set vs" using d by (simp flip: count_list_0_iff)
      then show ?thesis using g1 Some True by (auto simp: q1_def count_list_0_iff)
    next
      case False
      then have "map_of g v = Some (count_list (v # vs) v) \<longleftrightarrow> v \<in> set vs \<and> map_of g1 v = Some (count_list vs v)"
        using g1 [of v] Some d count_list_0_iff [of vs v] by auto
      then show ?thesis using g1 Some False d by (auto simp: q1_def)
    qed
  qed
  have "map_of g' u = map_option (\<lambda>d. d - count_list (v # vs) u) (map_of g u)" for u
  proof -
    have "map_of g' u = map_option (\<lambda>d. d - count_list vs u) (map_of g1 u)" using IH by blast
    then show ?thesis by (cases "map_of g u") (auto simp: g1)
  qed
  then show ?case using IH new by simp
qed (auto simp: option.map_ident)

lemma peel_ok_step:
  assumes ok: "peel_ok succs g (v # queue)" and run: "lower_degrees (succs v) g queue = (g', queue')"
  shows "peel_ok succs (drop_node v g') queue'"
proof -
  let ?us = "map fst g"
  have g: "distinct ?us" "\<And>u. u \<in> set ?us \<Longrightarrow> set (succs u) \<subseteq> set ?us"
    and deg: "\<And>u d. map_of g u = Some d \<Longrightarrow> d = edges_to succs ?us u"
    and queue: "distinct queue" "v \<notin> set queue" "insert v (set queue) = {v \<in> set ?us. edges_to succs ?us v = 0}"
    using ok by (auto simp: peel_ok_def)
  have v: "v \<in> set ?us" "edges_to succs ?us v = 0" using queue(3) by auto
  then have no_v: "v \<notin> set (succs u)" if "u \<in> set ?us" for u
    using that v(2) unfolding edges_to_zero by blast
  note rem = edges_to_remove [OF g(1) v(1), of succs]
  have c: "\<forall>u d. map_of g u = Some d \<longrightarrow> count_list (succs v) u \<le> d" using deg rem by (metis le_add1)
  have disj: "set queue \<inter> set (succs v) = {}"
    using queue(3) v(1) by (auto simp: edges_to_zero)
  note low = lower_degrees_spec [OF c queue(1) disj run]
  have names: "map fst g' = ?us" using fst_lower [of "succs v" g queue] run by simp
  have names': "map fst (drop_node v g') = filter (\<lambda>u. u \<noteq> v) ?us" by (simp add: fst_drop_node names)
  have "d = edges_to succs (filter (\<lambda>u. u \<noteq> v) ?us) u" if "map_of (drop_node v g') u = Some d" for u d
    using that low deg rem [of u] by (auto simp: map_of_drop_node split: if_splits)
  moreover have "set queue' = {u \<in> set (filter (\<lambda>u. u \<noteq> v) ?us). edges_to succs (filter (\<lambda>u. u \<noteq> v) ?us) u = 0}"
  proof -
    have "u \<in> set queue' \<longleftrightarrow> u \<in> set ?us \<and> u \<noteq> v \<and> edges_to succs (filter (\<lambda>u. u \<noteq> v) ?us) u = 0" for u
    proof -
      have "u \<in> set queue \<longleftrightarrow> u \<in> set ?us \<and> u \<noteq> v \<and> edges_to succs ?us u = 0"
        using queue(2,3) by blast
      moreover have "map_of g u = Some (count_list (succs v) u) \<longleftrightarrow> u \<in> set ?us \<and> edges_to succs ?us u = count_list (succs v) u"
      proof (cases "map_of g u")
        case None
        then have "u \<notin> set ?us" by (simp add: map_of_eq_None_iff)
        then show ?thesis using None by simp
      next
        case (Some d)
        then have "u \<in> set ?us" by (metis map_of_eq_None_iff option.distinct(1) list.set_map)
        then show ?thesis using Some deg [OF Some] by auto
      qed
      moreover have "u \<in> set (succs v) \<longleftrightarrow> 0 < count_list (succs v) u" by (simp add: count_list_0_iff flip: neq0_conv)
      ultimately show ?thesis using low rem [of u] no_v [OF v(1)] g(2) [OF v(1)] by auto
    qed
    then show ?thesis by auto
  qed
  moreover have "\<forall>u\<in>set (filter (\<lambda>u. u \<noteq> v) ?us). set (succs u) \<subseteq> set (filter (\<lambda>u. u \<noteq> v) ?us)"
    unfolding set_filter using g(2) no_v by blast
  ultimately show ?thesis unfolding peel_ok_def names' using g(1) low by simp
qed

lemma mset_without:
  assumes "distinct xs" and "v \<in> set xs"
  shows "mset xs = add_mset v (mset (filter (\<lambda>u. u \<noteq> v) xs))"
proof -
  have "filter (\<lambda>u. u \<noteq> v) xs = remove1 v xs"
    unfolding distinct_remove1_removeAll [OF assms(1)] removeAll_filter_not_eq by (rule filter_cong) auto
  then show ?thesis using assms(2) by simp
qed

lemma peel_spec:
  assumes "peel_ok succs g queue" and "peel succs g queue = (taken, rest)"
  shows "peel_ok succs rest [] \<and> mset (map fst g) = mset taken + mset (map fst rest) \<and>
    sorted_wrt (\<lambda>u w. u \<notin> set (succs w)) taken \<and> (\<forall>u\<in>set taken. u \<notin> set (succs u))"
  using assms
proof (induction succs g queue arbitrary: taken rest rule: peel.induct)
  case (2 succs g v queue)
  have v: "v \<in> set (map fst g)" "\<forall>u\<in>set (map fst g). v \<notin> set (succs u)" "distinct (map fst g)"
    using 2(2) by (auto simp: peel_ok_def edges_to_zero)
  obtain g' queue' where low: "lower_degrees (succs v) g queue = (g', queue')" by (cases "lower_degrees (succs v) g queue")
  obtain taken' where p: "peel succs (drop_node v g') queue' = (taken', rest)" "taken = v # taken'"
    using 2(3) v(1) low by (auto split: prod.splits)
  have IH: "peel_ok succs rest [] \<and> mset (map fst (drop_node v g')) = mset taken' + mset (map fst rest) \<and>
    sorted_wrt (\<lambda>u w. u \<notin> set (succs w)) taken' \<and> (\<forall>u\<in>set taken'. u \<notin> set (succs u))"
    by (rule 2(1) [OF v(1) low [symmetric] refl peel_ok_step [OF 2(2) low] p(1)])
  have names: "map fst g' = map fst g" using fst_lower [of "succs v" g queue] low by simp
  have "mset (map fst g) = add_mset v (mset (filter (\<lambda>u. u \<noteq> v) (map fst g)))"
    by (rule mset_without [OF v(3,1)])
  then have "mset (map fst g) = add_mset v (mset (map fst (drop_node v g')))" by (simp only: fst_drop_node names)
  moreover have "set taken' \<subseteq> set (map fst g)"
  proof
    fix u assume "u \<in> set taken'"
    then have "u \<in># mset (map fst (drop_node v g'))" using IH by simp
    then show "u \<in> set (map fst g)" by (simp only: fst_drop_node names set_mset_mset) auto
  qed
  ultimately show ?case using IH p(2) v by auto
qed (auto simp: peel_ok_def)

subsection \<open>The graph of the groups\<close>

definition deps :: "(string \<times> string list) list \<Rightarrow> (string \<times> string) set" where
  "deps gs = {(a, b). \<exists>ps. (a, ps) \<in> set gs \<and> b \<in> set ps}"

definition graph_ok :: "(string \<times> string list) list \<Rightarrow> group_graph \<Rightarrow> bool" where
  "graph_ok gs graph \<longleftrightarrow> distinct (map fst gs) \<and> distinct (map fst graph) \<and>
     (\<forall>v. map_of graph v =
        (if v \<in> fst ` set gs \<union> snd ` deps gs
         then Some \<lparr>gn_indegree = sum_list (map (\<lambda>(n, ps). count_list ps v) gs), gn_proxies = map_of gs v\<rparr> else None))"

lemma map_of_update_node: "map_of (map (\<lambda>(u, n). (u, if u = w then f n else n)) g) v =
    map_option (\<lambda>n. if v = w then f n else n) (map_of g v)"
  by (induction g) auto

lemma map_of_add_edge:
  "map_of (add_edge w graph) v =
    (if v = w then Some (case map_of graph w of Some n \<Rightarrow> n\<lparr>gn_indegree := gn_indegree n + 1\<rparr> | None \<Rightarrow> \<lparr>gn_indegree = 1, gn_proxies = None\<rparr>)
     else map_of graph v)"
  by (auto simp: add_edge_def map_of_update_node map_add_def split: option.splits)

lemma fst_update_node [simp]: "fst \<circ> (\<lambda>(u, n). (u, f u n)) = fst"
  by auto

lemma distinct_add_edge: "distinct (map fst graph) \<Longrightarrow> distinct (map fst (add_edge w graph))"
  by (auto simp: add_edge_def map_of_eq_None_iff)

lemma fold_add_edge:
  "distinct (map fst graph) \<Longrightarrow> distinct (map fst (fold add_edge ws graph)) \<and>
    map_of (fold add_edge ws graph) v =
      (if v \<in> set ws then Some (case map_of graph v of
          Some n \<Rightarrow> n\<lparr>gn_indegree := gn_indegree n + count_list ws v\<rparr>
        | None \<Rightarrow> \<lparr>gn_indegree = count_list ws v, gn_proxies = None\<rparr>)
       else map_of graph v)"
proof (induction ws arbitrary: graph)
  case (Cons w ws)
  show ?case
    using Cons.IH [OF distinct_add_edge [OF Cons.prems, of w]]
    by (auto simp: map_of_add_edge count_list_0_iff split: option.splits)
qed simp

lemma add_group_ok:
  assumes "graph_ok gs graph"
  shows "add_group (Inr (a, ps)) graph =
      (if a \<in> fst ` set gs then Inl (''ProxyGroup '' @ a @ '': duplicate group name'') else add_group (Inr (a, ps)) graph)"
    and "a \<notin> fst ` set gs \<Longrightarrow> \<exists>graph'. add_group (Inr (a, ps)) graph = Inr graph' \<and> graph_ok (gs @ [(a, ps)]) graph'"
proof -
  have ok: "distinct (map fst graph)" and m: "\<And>v. map_of graph v =
        (if v \<in> fst ` set gs \<union> snd ` deps gs
         then Some \<lparr>gn_indegree = sum_list (map (\<lambda>(n, ps). count_list ps v) gs), gn_proxies = map_of gs v\<rparr> else None)"
    using assms by (auto simp: graph_ok_def)
  show "add_group (Inr (a, ps)) graph =
      (if a \<in> fst ` set gs then Inl (''ProxyGroup '' @ a @ '': duplicate group name'') else add_group (Inr (a, ps)) graph)"
  proof (cases "a \<in> fst ` set gs")
    case True
    then have "map_of gs a \<noteq> None" by (simp add: map_of_eq_None_iff)
    then show ?thesis using m [of a] True by (simp add: add_group_def)
  qed simp
  assume a: "a \<notin> fst ` set gs"
  then have none: "map_of gs a = None" by (simp add: map_of_eq_None_iff)
  have not_dep: "a \<in> snd ` deps gs" if "map_of graph a \<noteq> None" using that m [of a] a by (simp split: if_splits)
  define base where "base = (case map_of graph a of
      Some n \<Rightarrow> map (\<lambda>(u, n). (u, if u = a then n\<lparr>gn_proxies := Some ps\<rparr> else n)) graph
    | None \<Rightarrow> graph @ [(a, \<lparr>gn_indegree = 0, gn_proxies = Some ps\<rparr>)])"
  have run: "add_group (Inr (a, ps)) graph = Inr (fold add_edge ps base)"
    using m [of a] none by (auto simp: add_group_def base_def split: option.splits if_splits)
  have base: "distinct (map fst base)"
    using ok by (auto simp: base_def map_of_eq_None_iff split: option.splits)
  have count0: "sum_list (map (\<lambda>(n, ps). count_list ps v) gs) = 0" if "v \<notin> snd ` deps gs" for v
    using that by (force simp: sum_list_eq_0_iff deps_def count_list_0_iff image_iff)
  have baseline: "map_of base v = (if v = a then Some \<lparr>gn_indegree = sum_list (map (\<lambda>(n, ps). count_list ps a) gs), gn_proxies = Some ps\<rparr>
      else map_of graph v)" for v
    using m [of a] none count0 [of a] a
    by (auto simp: base_def map_of_update_node map_add_def option.map_ident split: option.splits if_splits)
  have known: "map_of gs v = Some x \<Longrightarrow> v \<in> fst ` set gs" for v x by (force dest: map_of_SomeD)
  have deps': "snd ` deps (gs @ [(a, ps)]) = snd ` deps gs \<union> set ps" by (force simp: deps_def)
  have "map_of (fold add_edge ps base) v =
      (if v \<in> fst ` set (gs @ [(a, ps)]) \<union> snd ` deps (gs @ [(a, ps)])
       then Some \<lparr>gn_indegree = sum_list (map (\<lambda>(n, ps). count_list ps v) (gs @ [(a, ps)])), gn_proxies = map_of (gs @ [(a, ps)]) v\<rparr> else None)" for v
    unfolding deps' using conjunct2 [OF fold_add_edge [OF base, of ps v]] baseline [of v] m [of v] a none count0 [of v] known [of v]
    by (auto simp: map_add_def count_list_0_iff split: option.splits)
  moreover have "distinct (map fst (fold add_edge ps base))" using fold_add_edge [OF base] by blast
  ultimately show "\<exists>graph'. add_group (Inr (a, ps)) graph = Inr graph' \<and> graph_ok (gs @ [(a, ps)]) graph'"
    using run a assms by (auto simp: graph_ok_def)
qed

lemma build_graph_ok:
  "graph_ok gs graph \<Longrightarrow>
    (if distinct (map fst (gs @ hs)) then \<exists>graph'. build_graph (map Inr hs) graph = Inr graph' \<and> graph_ok (gs @ hs) graph'
     else \<exists>err. build_graph (map Inr hs) graph = Inl err)"
proof (induction hs arbitrary: gs graph)
  case Nil
  then show ?case by (auto simp: graph_ok_def)
next
  case (Cons h hs)
  obtain a ps where h: "h = (a, ps)" by (cases h)
  show ?case
  proof (cases "a \<in> fst ` set gs")
    case True
    then show ?thesis using add_group_ok(1) [OF Cons.prems, of a ps] by (auto simp: h)
  next
    case False
    obtain graph' where g: "add_group (Inr (a, ps)) graph = Inr graph'" "graph_ok (gs @ [(a, ps)]) graph'"
      using add_group_ok(2) [OF Cons.prems False] by blast
    show ?thesis using Cons.IH [OF g(2)] g(1) by (auto simp: h split: if_splits)
  qed
qed

lemma sum_over_groups:
  assumes "distinct (map fst gs)" and "distinct us" and "fst ` set gs \<subseteq> set us" and "\<And>u. u \<notin> fst ` set gs \<Longrightarrow> f u = 0"
    and "\<And>a ps. (a, ps) \<in> set gs \<Longrightarrow> f a = h ps"
  shows "sum_list (map f us) = sum_list (map (\<lambda>(a, ps). h ps) gs :: nat list)"
proof -
  have "sum_list (map f us) = sum f (set us)" by (rule sum_list_distinct_conv_sum_set [OF assms(2)])
  also have "\<dots> = sum f (fst ` set gs)" by (rule sum.mono_neutral_right) (use assms(3,4) in auto)
  also have "\<dots> = sum_list (map f (map fst gs))" using sum_list_distinct_conv_sum_set [OF assms(1), of f] by simp
  also have "map f (map fst gs) = map (\<lambda>(a, ps). h ps) gs" using assms(5) by auto
  finally show ?thesis .
qed

lemma known_key: "map_of gs v = Some x \<Longrightarrow> v \<in> fst ` set gs"
  by (force dest: map_of_SomeD)

lemma node_proxies_of: "graph_ok gs graph \<Longrightarrow> node_proxies graph v = (case map_of gs v of Some ps \<Rightarrow> ps | None \<Rightarrow> [])"
  using known_key [of gs v] by (cases "map_of gs v") (auto simp: graph_ok_def node_proxies_def split: if_splits)

lemma graph_keys: "graph_ok gs graph \<Longrightarrow> set (map fst graph) = fst ` set gs \<union> snd ` deps gs"
  unfolding graph_ok_def by (metis (no_types, lifting) map_of_eq_None_iff option.distinct(1) set_eqI list.set_map)

lemma node_proxies_deps: "graph_ok gs graph \<Longrightarrow> v \<in> set (node_proxies graph u) \<longleftrightarrow> (u, v) \<in> deps gs"
proof -
  assume g: "graph_ok gs graph"
  then have "distinct (map fst gs)" by (simp add: graph_ok_def)
  then show ?thesis
    by (auto simp: node_proxies_of [OF g] deps_def dest: map_of_SomeD split: option.splits)
qed

lemma graph_peel_ok:
  assumes g: "graph_ok gs graph" and order: "\<And>xs. mset (order xs) = mset xs"
  defines "d \<equiv> map (\<lambda>(u, n). (u, gn_indegree n)) graph"
  shows "peel_ok (node_proxies graph) d (order (zero_degree d))"
proof -
  have keys: "map fst d = map fst graph" by (simp add: d_def)
  have dist: "distinct (map fst gs)" "distinct (map fst graph)" using g by (simp_all add: graph_ok_def)
  have deg: "map_of d v = (if v \<in> set (map fst graph) then Some (edges_to (node_proxies graph) (map fst graph) v) else None)" for v
  proof -
    have "edges_to (node_proxies graph) (map fst graph) v = sum_list (map (\<lambda>(n, ps). count_list ps v) gs)"
      unfolding edges_to_def
    proof (rule sum_over_groups [OF dist])
      show "fst ` set gs \<subseteq> set (map fst graph)" using graph_keys [OF g] by blast
      show "count_list (node_proxies graph u) v = 0" if "u \<notin> fst ` set gs" for u
        using that by (simp add: node_proxies_of [OF g] map_of_eq_None_iff [THEN iffD2])
      show "count_list (node_proxies graph a) v = count_list ps v" if "(a, ps) \<in> set gs" for a ps
        using that dist(1) by (simp add: node_proxies_of [OF g])
    qed
    moreover have "map_of d v = map_option gn_indegree (map_of graph v)"
      by (simp add: d_def map_of_map)
    ultimately show ?thesis using g graph_keys [OF g] by (simp add: graph_ok_def)
  qed
  have "set (node_proxies graph u) \<subseteq> set (map fst graph)" for u
    using node_proxies_deps [OF g] graph_keys [OF g] by (force simp: image_iff)
  moreover have "mset (order (zero_degree d)) = mset (zero_degree d)" by (rule order)
  then have "distinct (order (zero_degree d))" "set (order (zero_degree d)) = set (zero_degree d)"
    using dist(2) keys by (metis distinct_map_filter mset_eq_imp_distinct_iff zero_degree_def, metis mset_eq_setD)
  moreover have "set (zero_degree d) = {v \<in> set (map fst graph). edges_to (node_proxies graph) (map fst graph) v = 0}"
  proof -
    have "v \<in> set (zero_degree d) \<longleftrightarrow> map_of d v = Some 0" for v
      using dist(2) keys by (force simp: zero_degree_def)
    then have "v \<in> set (zero_degree d) \<longleftrightarrow> v \<in> set (map fst graph) \<and> edges_to (node_proxies graph) (map fst graph) v = 0" for v
      unfolding deg by simp
    then show ?thesis by blast
  qed
  ultimately show ?thesis using dist(2) keys deg by (auto simp: peel_ok_def split: if_splits)
qed

lemma predecessors_cycle:
  assumes "finite R" and "R \<noteq> {}" and "\<And>v. v \<in> R \<Longrightarrow> \<exists>u\<in>R. (u, v) \<in> E"
  shows "\<not> acyclic E"
proof
  assume "acyclic E"
  then have "acyclic (E \<inter> R \<times> R)" by (rule acyclic_subset) blast
  then have "wf (E \<inter> R \<times> R)" using assms(1) by (intro finite_acyclic_wf) auto
  then obtain z where "z \<in> R" "\<And>y. (y, z) \<in> E \<inter> R \<times> R \<Longrightarrow> y \<notin> R"
    using assms(2) by (metis wfE_min all_not_in_conv)
  then show False using assms(3) by blast
qed

lemma sorted_acyclic:
  assumes "sorted_wrt (\<lambda>u w. (w, u) \<notin> E) xs" and "\<forall>u\<in>set xs. (u, u) \<notin> E" and "E \<subseteq> set xs \<times> set xs"
  shows "acyclic E"
  using assms
proof (induction xs arbitrary: E)
  case Nil
  then show ?case by (simp add: acyclic_def)
next
  case (Cons x xs)
  let ?F = "E \<inter> set xs \<times> set xs"
  have no_x: "(w, x) \<notin> E" for w using Cons.prems by auto
  have "acyclic ?F" by (rule Cons.IH) (use Cons.prems in \<open>auto elim!: sorted_wrt_mono_rel [rotated]\<close>)
  moreover have "(a, b) \<in> ?F\<^sup>+" if "(a, b) \<in> E\<^sup>+" "a \<noteq> x" for a b
    using that
  proof (induction rule: trancl_induct)
    case (base b)
    then show ?case using Cons.prems(3) no_x by (intro r_into_trancl) auto
  next
    case (step b c)
    then have "b \<noteq> x" using no_x by (metis tranclD2)
    then have "(b, c) \<in> ?F" using step(2) Cons.prems(3) no_x by auto
    then show ?case using step by (meson trancl.trancl_into_trancl)
  qed
  moreover have "(x, x) \<notin> E\<^sup>+" using no_x by (metis tranclD2)
  ultimately show ?case by (metis acyclic_def)
qed

lemma dag_sort_correct:
  assumes "\<And>xs. mset (order xs) = mset xs"
  shows "case proxy_groups_dag_sort order (map Inr gs) of
      Inr groups \<Rightarrow> distinct (map fst gs) \<and> acyclic (deps gs) \<and> mset groups = mset (map fst gs) \<and>
        sorted_wrt (\<lambda>a b. (a, b) \<notin> deps gs) groups
    | Inl _ \<Rightarrow> \<not> (distinct (map fst gs) \<and> acyclic (deps gs))"
proof (cases "distinct (map fst gs)")
  case False
  have "graph_ok [] []" by (auto simp: graph_ok_def deps_def)
  then have "\<exists>err. build_graph (map Inr gs) [] = Inl err" using build_graph_ok [of "[]" "[]" gs] False by simp
  then show ?thesis using False by (auto simp: proxy_groups_dag_sort_def)
next
  case True
  have "graph_ok [] []" by (auto simp: graph_ok_def deps_def)
  then obtain graph where graph: "build_graph (map Inr gs) [] = Inr graph" and g: "graph_ok gs graph"
    using build_graph_ok [of "[]" "[]" gs] True by auto
  let ?d = "map (\<lambda>(u, n). (u, gn_indegree n)) graph"
  obtain taken rest where run: "peel (node_proxies graph) ?d (order (zero_degree ?d)) = (taken, rest)"
    by (cases "peel (node_proxies graph) ?d (order (zero_degree ?d))")
  note spec = peel_spec [OF graph_peel_ok [OF g assms] run]
  have keys: "map fst ?d = map fst graph" by simp
  have dist: "distinct (map fst graph)" using g by (simp add: graph_ok_def)
  have dep: "v \<notin> set (node_proxies graph u) \<longleftrightarrow> (u, v) \<notin> deps gs" for u v by (simp add: node_proxies_deps [OF g])
  show ?thesis
  proof (cases "rest = []")
    case True
    then have all: "mset taken = mset (map fst graph)" using spec keys by simp
    then have "distinct taken" using dist by (metis mset_eq_imp_distinct_iff)
    have sub: "deps gs \<subseteq> set taken \<times> set taken"
    proof clarify
      fix a b assume ab: "(a, b) \<in> deps gs"
      then have "a \<in> fst ` set gs" by (force simp: deps_def)
      moreover have "b \<in> snd ` deps gs" using ab by (rule rev_image_eqI) simp
      ultimately show "a \<in> set taken \<and> b \<in> set taken"
        unfolding mset_eq_setD [OF all] graph_keys [OF g] by blast
    qed
    have sorted: "sorted_wrt (\<lambda>u w. (w, u) \<notin> deps gs) taken" "\<forall>u\<in>set taken. (u, u) \<notin> deps gs"
      using spec by (simp_all add: dep)
    have grp: "is_group graph v \<longleftrightarrow> v \<in> fst ` set gs" for v
      using g known_key [of gs v] by (auto simp: is_group_def graph_ok_def map_of_eq_None_iff split: option.splits)
    have "set (filter (is_group graph) taken) = fst ` set gs"
      using graph_keys [OF g] mset_eq_setD [OF all] by (auto simp: grp)
    then have "mset (filter (is_group graph) taken) = mset (map fst gs)"
      using \<open>distinct taken\<close> \<open>distinct (map fst gs)\<close> by (intro set_eq_iff_mset_eq_distinct [THEN iffD1]) auto
    moreover have "sorted_wrt (\<lambda>a b. (a, b) \<notin> deps gs) (rev (filter (is_group graph) taken))"
      using sorted(1) by (simp add: sorted_wrt_rev sorted_wrt_filter)
    ultimately show ?thesis
      using True graph run sorted_acyclic [OF sorted sub] \<open>distinct (map fst gs)\<close> by (simp add: proxy_groups_dag_sort_def)
  next
    case False
    have "\<not> acyclic (deps gs)"
    proof (rule predecessors_cycle)
      show "finite (set (map fst rest))" "set (map fst rest) \<noteq> {}" using False by auto
      fix v assume v: "v \<in> set (map fst rest)"
      then have "edges_to (node_proxies graph) (map fst rest) v \<noteq> 0"
        using spec by (auto simp: peel_ok_def)
      then show "\<exists>u\<in>set (map fst rest). (u, v) \<in> deps gs"
        unfolding edges_to_zero using dep by blast
    qed
    then show ?thesis using False graph run by (simp add: proxy_groups_dag_sort_def)
  qed
qed

text \<open>
  C23: the groups of a configuration are accepted exactly when their names differ and no group leads
  back to itself through the groups it selects from, in whatever order Go visits its maps; they then
  come out complete, and every group after all groups it selects from.
\<close>

theorem groups_sorted_by_dependency:
  assumes "\<And>xs. mset (order xs) = mset xs"
  shows "case proxy_groups_dag_sort order (map Inr gs) of
      Inr groups \<Rightarrow> distinct (map fst gs) \<and> acyclic (deps gs) \<and> mset groups = mset (map fst gs) \<and>
        sorted_wrt (\<lambda>a b. (a, b) \<notin> deps gs) groups
    | Inl _ \<Rightarrow> \<not> (distinct (map fst gs) \<and> acyclic (deps gs))"
  using assms by (rule dag_sort_correct)

theorem groups_sorted_by_dependency_witness:
  "\<exists>err. proxy_groups_dag_sort (\<lambda>xs. xs) [Inr (''a'', [''b'']), Inr (''b'', [''DIRECT'', ''a''])] = Inl err"
proof -
  have "(''a'', ''b'') \<in> deps [(''a'', [''b'']), (''b'', [''DIRECT'', ''a''])]" "(''b'', ''a'') \<in> deps [(''a'', [''b'']), (''b'', [''DIRECT'', ''a''])]"
    by (auto simp: deps_def)
  then have "\<not> acyclic (deps [(''a'', [''b'']), (''b'', [''DIRECT'', ''a''])])"
    unfolding acyclic_def by (meson r_into_trancl trancl_into_trancl)
  then show ?thesis
    using groups_sorted_by_dependency [of "\<lambda>xs. xs" "[(''a'', [''b'']), (''b'', [''DIRECT'', ''a''])]"]
    by (auto split: sum.splits)
qed

subsection \<open>Chains of dialer proxies\<close>

text \<open>
  \<open>validateDialerProxies\<close>: the proxies come with the name of their dialer proxy, empty when they have
  none; \<open>None\<close> is success. Of the two loops over maps only the second one can give different errors by
  its order, the parameter again.
\<close>

datatype walk_mark = Unseen | OnPath | Acyclic

function walk_chain ::
  "(string \<times> string) list \<Rightarrow> (string \<Rightarrow> walk_mark) \<Rightarrow> string list \<Rightarrow> string \<Rightarrow> bool \<times> (string \<Rightarrow> walk_mark) \<times> string list" where
  "walk_chain graph st path cur =
     (if st cur = Acyclic then (False, st, path)
      else if st cur = OnPath then (True, st, path)
      else
        (case map_of graph cur of
           None \<Rightarrow> (False, st(cur := OnPath), path @ [cur])
         | Some nxt \<Rightarrow> walk_chain graph (st(cur := OnPath)) (path @ [cur]) nxt))"
  by pat_completeness auto

termination
proof (relation "measure (\<lambda>(graph, st, path, cur). card {u \<in> fst ` set graph. st u = Unseen})", goal_cases)
  case (2 graph st path cur nxt)
  then have "cur \<in> fst ` set graph" "st cur = Unseen" by (auto dest: known_key) (cases "st cur"; simp)
  then have "card {u \<in> fst ` set graph. (st(cur := OnPath)) u = Unseen} < card {u \<in> fst ` set graph. st u = Unseen}"
    by (intro psubset_card_mono) auto
  then show ?case by simp
qed simp

declare walk_chain.simps [simp del]

fun walk_all :: "(string \<times> string) list \<Rightarrow> string list \<Rightarrow> (string \<Rightarrow> walk_mark) \<Rightarrow> string option" where
  "walk_all graph [] st = None"
| "walk_all graph (name # names) st =
     (case walk_chain graph st [] name of
        (True, st', path) \<Rightarrow> Some (''proxy ['' @ name @ ''] has circular dialer-proxy dependency'')
      | (False, st', path) \<Rightarrow> walk_all graph names (\<lambda>v. if v \<in> set path then Acyclic else st' v))"

definition validate_dialer_proxies :: "(string list \<Rightarrow> string list) \<Rightarrow> (string \<times> string) list \<Rightarrow> string option" where
  "validate_dialer_proxies order proxies =
     (case List.find (\<lambda>(name, dialer). dialer \<noteq> [] \<and> map_of proxies dialer = None) proxies of
        Some (name, dialer) \<Rightarrow> Some (''proxy ['' @ name @ ''] dialer-proxy ['' @ dialer @ ''] not found'')
      | None \<Rightarrow>
          (let graph = filter (\<lambda>x. snd x \<noteq> []) proxies in
           walk_all graph (order (map fst graph)) (\<lambda>_. Unseen)))"

definition dials :: "(string \<times> string) list \<Rightarrow> (string \<times> string) set" where
  "dials graph = {(a, b). map_of graph a = Some b}"

inductive chain_ends :: "(string \<times> string) list \<Rightarrow> string \<Rightarrow> bool" for graph where
  ends_here: "map_of graph v = None \<Longrightarrow> chain_ends graph v"
| ends_later: "map_of graph v = Some w \<Longrightarrow> chain_ends graph w \<Longrightarrow> chain_ends graph v"

lemma chain_ends_back: "(v, w) \<in> (dials graph)\<^sup>* \<Longrightarrow> chain_ends graph w \<Longrightarrow> chain_ends graph v"
  by (induction rule: converse_rtrancl_induct) (auto simp: dials_def intro: ends_later)

lemma chain_ends_no_cycle: "chain_ends graph v \<Longrightarrow> (v, v) \<notin> (dials graph)\<^sup>+"
proof (induction rule: chain_ends.induct)
  case (ends_here v)
  then show ?case by (auto simp: dials_def dest: tranclD)
next
  case (ends_later v w)
  show ?case
  proof
    assume "(v, v) \<in> (dials graph)\<^sup>+"
    then have "(w, v) \<in> (dials graph)\<^sup>*" using ends_later(1) by (auto simp: dials_def dest: tranclD)
    then have "(w, w) \<in> (dials graph)\<^sup>+" using ends_later(1) by (auto simp: dials_def intro: rtrancl_into_trancl1)
    then show False using ends_later.IH by blast
  qed
qed

lemma walk_chain_correct:
  assumes "\<And>v. st v = Acyclic \<Longrightarrow> chain_ends graph v" and "\<And>v. st v = OnPath \<longleftrightarrow> v \<in> set path"
    and "\<And>v. v \<in> set path \<Longrightarrow> (v, cur) \<in> (dials graph)\<^sup>+" and "walk_chain graph st path cur = (hit, st', path')"
  shows "if hit then \<exists>v. (v, v) \<in> (dials graph)\<^sup>+
    else chain_ends graph cur \<and> (\<forall>v\<in>set path'. chain_ends graph v) \<and> (\<forall>v. st' v = OnPath \<longrightarrow> v \<in> set path') \<and>
      (\<forall>v. st' v = Acyclic \<longrightarrow> chain_ends graph v)"
  using assms
proof (induction graph st path cur rule: walk_chain.induct)
  case (1 graph st path cur)
  have behind: "\<forall>v\<in>set path. chain_ends graph v" if "chain_ends graph cur"
    using 1(4) that chain_ends_back trancl_into_rtrancl by metis
  show ?case
  proof (cases "st cur")
    case Acyclic
    then show ?thesis using 1(2,3,5) behind
      by (auto simp: walk_chain.simps [of graph st path cur])
  next
    case OnPath
    then have "(cur, cur) \<in> (dials graph)\<^sup>+" using 1(3,4) by blast
    then show ?thesis using 1(5) OnPath by (auto simp: walk_chain.simps [of graph st path cur])
  next
    case Unseen
    show ?thesis
    proof (cases "map_of graph cur")
      case None
      then have "chain_ends graph cur" by (rule ends_here)
      then show ?thesis using 1(2,3,5) Unseen None behind
        by (auto simp: walk_chain.simps [of graph st path cur] split: if_splits)
    next
      case (Some nxt)
      then have link: "(cur, nxt) \<in> dials graph" by (simp add: dials_def)
      have run: "walk_chain graph (st(cur := OnPath)) (path @ [cur]) nxt = (hit, st', path')"
        using 1(5) Unseen Some by (simp add: walk_chain.simps [of graph st path cur])
      have "if hit then \<exists>v. (v, v) \<in> (dials graph)\<^sup>+
        else chain_ends graph nxt \<and> (\<forall>v\<in>set path'. chain_ends graph v) \<and> (\<forall>v. st' v = OnPath \<longrightarrow> v \<in> set path') \<and>
          (\<forall>v. st' v = Acyclic \<longrightarrow> chain_ends graph v)"
      proof (rule 1(1) [OF _ _ Some _ _ _ run])
        show "st cur \<noteq> Acyclic" "st cur \<noteq> OnPath" using Unseen by simp_all
        show "chain_ends graph v" if "(st(cur := OnPath)) v = Acyclic" for v using that 1(2) by (auto split: if_splits)
        show "(st(cur := OnPath)) v = OnPath \<longleftrightarrow> v \<in> set (path @ [cur])" for v using 1(3) by auto
        show "(v, nxt) \<in> (dials graph)\<^sup>+" if "v \<in> set (path @ [cur])" for v
          using that 1(4) link by (auto intro: trancl_into_trancl)
      qed
      then show ?thesis using ends_later [OF Some] by (auto split: if_splits)
    qed
  qed
qed

lemma walk_all_correct:
  assumes "\<And>v. st v = Acyclic \<Longrightarrow> chain_ends graph v" and "\<And>v. st v \<noteq> OnPath"
  shows "case walk_all graph names st of None \<Rightarrow> \<forall>n\<in>set names. chain_ends graph n | Some _ \<Rightarrow> \<exists>v. (v, v) \<in> (dials graph)\<^sup>+"
  using assms
proof (induction names arbitrary: st)
  case (Cons name names)
  obtain hit st' path where run: "walk_chain graph st [] name = (hit, st', path)" by (cases "walk_chain graph st [] name")
  have c: "if hit then \<exists>v. (v, v) \<in> (dials graph)\<^sup>+
    else chain_ends graph name \<and> (\<forall>v\<in>set path. chain_ends graph v) \<and> (\<forall>v. st' v = OnPath \<longrightarrow> v \<in> set path) \<and>
      (\<forall>v. st' v = Acyclic \<longrightarrow> chain_ends graph v)"
    by (rule walk_chain_correct [OF Cons.prems(1) _ _ run]) (use Cons.prems(2) in auto)
  show ?case
  proof (cases hit)
    case False
    let ?st = "\<lambda>v. if v \<in> set path then Acyclic else st' v"
    have "case walk_all graph names ?st of None \<Rightarrow> \<forall>n\<in>set names. chain_ends graph n | Some _ \<Rightarrow> \<exists>v. (v, v) \<in> (dials graph)\<^sup>+"
      by (rule Cons.IH) (use c False in \<open>auto split: if_splits\<close>)
    then show ?thesis using c False run by (auto split: option.splits)
  qed (use c run in simp)
qed simp

lemma dialer_check_correct:
  assumes "\<And>xs. set (order xs) = set xs"
  shows "validate_dialer_proxies order proxies = None \<longleftrightarrow>
    (\<forall>(a, d)\<in>set proxies. d = [] \<or> d \<in> fst ` set proxies) \<and> acyclic (dials (filter (\<lambda>x. snd x \<noteq> []) proxies))"
proof -
  let ?graph = "filter (\<lambda>x. snd x \<noteq> []) proxies"
  have known: "List.find (\<lambda>(name, dialer). dialer \<noteq> [] \<and> map_of proxies dialer = None) proxies = None \<longleftrightarrow>
      (\<forall>(a, d)\<in>set proxies. d = [] \<or> d \<in> fst ` set proxies)"
    by (auto simp: find_None_iff map_of_eq_None_iff)
  have "walk_all ?graph (order (map fst ?graph)) (\<lambda>_. Unseen) = None \<longleftrightarrow> acyclic (dials ?graph)"
  proof
    assume ok: "walk_all ?graph (order (map fst ?graph)) (\<lambda>_. Unseen) = None"
    have ends: "\<forall>n\<in>fst ` set ?graph. chain_ends ?graph n"
      using walk_all_correct [of "\<lambda>_. Unseen" ?graph "order (map fst ?graph)"] ok assms by simp
    have "v \<in> fst ` set ?graph" if "(v, v) \<in> (dials ?graph)\<^sup>+" for v
      using that known_key [of ?graph v] by (auto simp: dials_def dest: tranclD)
    then show "acyclic (dials ?graph)" using ends chain_ends_no_cycle unfolding acyclic_def by blast
  next
    assume "acyclic (dials ?graph)"
    then show "walk_all ?graph (order (map fst ?graph)) (\<lambda>_. Unseen) = None"
      using walk_all_correct [of "\<lambda>_. Unseen" ?graph "order (map fst ?graph)"]
      by (auto simp: acyclic_def split: option.splits)
  qed
  then show ?thesis using known by (auto simp: validate_dialer_proxies_def Let_def split: option.split)
qed

text \<open>
  the proxies of a configuration pass the check of their dialer proxies exactly when every one
  they name exists and no chain of them comes back to a proxy, so that dialing through the chain of
  any proxy ends.
\<close>

theorem dialer_chains_end:
  assumes "\<And>xs. set (order xs) = set xs"
  shows "validate_dialer_proxies order proxies = None \<longleftrightarrow>
    (\<forall>(a, d)\<in>set proxies. d = [] \<or> d \<in> fst ` set proxies) \<and> acyclic (dials (filter (\<lambda>x. snd x \<noteq> []) proxies))"
  using assms by (rule dialer_check_correct)

theorem dialer_chains_end_witness:
  "validate_dialer_proxies (\<lambda>xs. xs) [(''a'', ''b''), (''b'', []), (''c'', ''c'')] \<noteq> None"
proof -
  have "(''c'', ''c'') \<in> dials (filter (\<lambda>x. snd x \<noteq> []) [(''a'', ''b''), (''b'', []), (''c'', ''c'')])" by (simp add: dials_def)
  then have "\<not> acyclic (dials (filter (\<lambda>x. snd x \<noteq> []) [(''a'', ''b''), (''b'', []), (''c'', ''c'')]))"
    unfolding acyclic_def by (meson r_into_trancl)
  then show ?thesis using dialer_chains_end [of "\<lambda>xs. xs" "[(''a'', ''b''), (''b'', []), (''c'', ''c'')]"] by blast
qed

end
