(* ===== verification/Config_Proxies.thy ===== *)
theory Config_Proxies
  imports Raw_Config Group_Config Group_Order "HOL-Library.AList"
begin

text \<open>
  The table of proxies of a configuration (\<open>config/config.go\<close>: \<open>parseProxies\<close>): the built-in proxies,
  those of the configuration, the providers, the groups in the order of their dependencies, the
  provider of all proxies, and the group \<open>GLOBAL\<close>. Reading one proxy or one provider is a parameter.
  The table is an association list in the order in which its entries were put in; the number of
  a proxy object is the size of the table when it was made. A missing entry is a nil panic: \<open>None\<close>.
\<close>

record table_entry =
  te_entry :: proxy_entry
  te_dialer :: string
  te_group :: "built_group option"

type_synonym proxy_table = "(string \<times> table_entry) list"

record proxies_env =
  pc_proxy :: "mapping \<Rightarrow> string + string \<times> adapter_type \<times> string"
  pc_provider :: "string \<Rightarrow> mapping \<Rightarrow> string + provider_entry"
  pc_group :: "mapping group_env"
  pc_order :: "string list \<Rightarrow> string list"

definition plain_entry :: "nat \<Rightarrow> string \<Rightarrow> adapter_type \<Rightarrow> string \<Rightarrow> table_entry" where
  "plain_entry n name tp dialer =
     \<lparr>te_entry = \<lparr>px_member = \<lparr>mb_id = n, mb_name = name, mb_type = tp\<rparr>, px_is_group = False\<rparr>, te_dialer = dialer, te_group = None\<rparr>"

definition builtin_proxies :: proxy_table where
  "builtin_proxies =
     [(''DIRECT'', plain_entry 0 ''DIRECT'' AT_Direct []), (''REJECT'', plain_entry 1 ''REJECT'' AT_Reject []),
      (''REJECT-DROP'', plain_entry 2 ''REJECT-DROP'' AT_RejectDrop []),
      (''COMPATIBLE'', plain_entry 3 ''COMPATIBLE'' AT_Compatible []), (''PASS'', plain_entry 4 ''PASS'' AT_Pass []),
      (''PASS-RULE'', plain_entry 5 ''PASS-RULE'' AT_PassRule [])]"

definition add_proxy :: "proxies_env \<Rightarrow> mapping \<Rightarrow> proxy_table \<Rightarrow> string + string \<times> proxy_table" where
  "add_proxy env m table =
     attempt (pc_proxy env m) (\<lambda>(name, tp, dialer).
       if map_of table name \<noteq> None then Inl (''proxy '' @ name @ '' is the duplicate name'')
       else Inr (name, table @ [(name, plain_entry (length table) name tp dialer)]))"

text \<open>The names in the order of the configuration, and the table.\<close>

fun add_proxies :: "proxies_env \<Rightarrow> mapping list \<Rightarrow> proxy_table \<Rightarrow> string + string list \<times> proxy_table" where
  "add_proxies env [] table = Inr ([], table)"
| "add_proxies env (m # ms) table =
     attempt (add_proxy env m table) (\<lambda>(name, table').
       attempt (add_proxies env ms table') (\<lambda>(names, table''). Inr (name # names, table'')))"

definition group_name :: "mapping \<Rightarrow> string + string" where
  "group_name m = (case map_of m ''name'' of Some (VStr s) \<Rightarrow> Inr s | _ \<Rightarrow> Inl ''missing name'')"

definition sections_decoded :: "proxies_env \<Rightarrow> mapping list \<Rightarrow> (string + string \<times> string list) list" where
  "sections_decoded env =
     map (\<lambda>m. case ge_decode (pc_group env) m of None \<Rightarrow> Inl ''ProxyGroup'' | Some opt \<Rightarrow> Inr (go_name opt, go_proxies opt))"

text \<open>The sections in the order that sorting the names gives.\<close>

definition sort_sections :: "proxies_env \<Rightarrow> mapping list \<Rightarrow> string list + mapping list" where
  "sort_sections env ms =
     attempt (proxy_groups_dag_sort (pc_order env) (sections_decoded env ms)) (\<lambda>names.
       let table = concat (map (\<lambda>m. case ge_decode (pc_group env) m of None \<Rightarrow> [] | Some opt \<Rightarrow> [(go_name opt, m)]) ms) in
       Inr (List.map_filter (map_of table) names))"

definition read_providers :: "proxies_env \<Rightarrow> (string \<times> mapping) list \<Rightarrow> string + (string \<times> provider_entry) list" where
  "read_providers env =
     try_each (\<lambda>(name, m).
       if name = ''default'' then Inl ''can not defined a provider called `default`''
       else attempt (pc_provider env name m) (\<lambda>p. Inr (name, p)))"

fun kind_type :: "group_kind \<Rightarrow> adapter_type" where
  "kind_type (GSelector _) = AT_Selector"
| "kind_type (GUrlTest _) = AT_URLTest"
| "kind_type GFallback = AT_Fallback"
| "kind_type (GLoadBalance _) = AT_LoadBalance"

definition group_entry :: "nat \<Rightarrow> built_group \<Rightarrow> table_entry" where
  "group_entry n b =
     \<lparr>te_entry = \<lparr>px_member = \<lparr>mb_id = n, mb_name = go_name (bg_option b), mb_type = kind_type (bg_kind b)\<rparr>, px_is_group = True\<rparr>,
      te_dialer = [], te_group = Some b\<rparr>"

text \<open>A group with proxies of its own leaves a provider of its name, which no other group can use.\<close>

definition own_provider :: "built_group \<Rightarrow> (string \<times> provider_entry) list" where
  "own_provider b =
     (case bg_own b of
        None \<Rightarrow> []
      | Some hc \<Rightarrow> [(go_name (bg_option b), \<lparr>pv_compatible = True, pv_health_url = hc_url hc\<rparr>)])"

fun add_groups ::
  "proxies_env \<Rightarrow> string list \<Rightarrow> string list \<Rightarrow> mapping list \<Rightarrow> proxy_table \<Rightarrow> (string \<times> provider_entry) list \<Rightarrow>
    (string + proxy_table \<times> (string \<times> provider_entry) list) option" where
  "add_groups env all_proxies all_providers [] table providers = Some (Inr (table, providers))"
| "add_groups env all_proxies all_providers (m # ms) table providers =
     try_step
       (parse_proxy_group (pc_group env) (\<lambda>n. map_option te_entry (map_of table n)) (map_of providers) all_proxies all_providers m)
       (\<lambda>b. let name = go_name (bg_option b) in
         if map_of table name \<noteq> None then Some (Inl (''proxy group '' @ name @ '': the duplicate name''))
         else add_groups env all_proxies all_providers ms (table @ [(name, group_entry (length table) b)])
                (providers @ own_provider b))"

text \<open>The members of the provider of all proxies, without those that pass a connection on.\<close>

fun listed_members :: "proxy_table \<Rightarrow> string list \<Rightarrow> member list option" where
  "listed_members table [] = Some []"
| "listed_members table (v # vs) =
     (case map_of table v of
        None \<Rightarrow> None
      | Some e \<Rightarrow>
          (let p = px_member (te_entry e) in
           map_option (\<lambda>ps. if mb_type p = AT_Pass \<or> mb_type p = AT_PassRule then ps else p # ps) (listed_members table vs)))"

definition global_option :: group_option where
  "global_option =
     \<lparr>go_name = ''GLOBAL'', go_type = [], go_proxies = [], go_use = [], go_url = [], go_interval = 0, go_test_timeout = 0,
      go_max_failed_times = 0, go_empty_fallback = [], go_lazy = False, go_disable_udp = False, go_filter = [],
      go_exclude_filter = [], go_exclude_type = [], go_expected_status = [], go_include_all = False,
      go_include_all_proxies = False, go_include_all_providers = False\<rparr>"

definition global_group :: "member \<Rightarrow> member list \<Rightarrow> built_group" where
  "global_group fallback ps =
     \<lparr>bg_option = global_option, bg_kind = GSelector [],
      bg_base = new_group_base (\<lambda>_ _. False) [] [] [] 0 0 fallback, bg_providers = [''default''],
      bg_own = Some (new_health_check ps [] 5000 0 True None), bg_tasks = []\<rparr>"

definition put_entry :: "string \<Rightarrow> table_entry \<Rightarrow> proxy_table \<Rightarrow> proxy_table" where
  "put_entry name e table =
     (if map_of table name = None then table @ [(name, e)]
      else map (\<lambda>(n, x). (n, if n = name then e else x)) table)"

definition add_global :: "bool \<Rightarrow> member list \<Rightarrow> proxy_table \<Rightarrow> proxy_table option" where
  "add_global has_global ps table =
     (if has_global then Some table
      else map_option (\<lambda>e. put_entry ''GLOBAL'' (group_entry (length table) (global_group (px_member (te_entry e)) ps)) table)
             (map_of table ''COMPATIBLE''))"

record parsed_proxies =
  pp_table :: proxy_table
  pp_providers :: "(string \<times> provider_entry) list"
  pp_all :: "member list"

definition finish_proxies ::
  "proxies_env \<Rightarrow> bool \<Rightarrow> string list \<Rightarrow> proxy_table \<Rightarrow> (string \<times> provider_entry) list \<Rightarrow> (string + parsed_proxies) option" where
  "finish_proxies env has_global listed table providers =
     Option.bind (listed_members table listed) (\<lambda>ps.
       map_option (\<lambda>table'.
           (case validate_dialer_proxies (pc_order env) (map (\<lambda>(n, e). (n, te_dialer e)) table') of
              Some e \<Rightarrow> Inl e
            | None \<Rightarrow> Inr \<lparr>pp_table = table',
                pp_providers = AList.update ''default'' \<lparr>pv_compatible = True, pv_health_url = []\<rparr> providers, pp_all = ps\<rparr>))
         (add_global has_global ps table))"

definition parse_all_proxies :: "proxies_env \<Rightarrow> raw_config \<Rightarrow> (string + parsed_proxies) option" where
  "parse_all_proxies env cfg =
     (case add_proxies env (rc_proxy cfg) builtin_proxies of
        Inl e \<Rightarrow> Some (Inl e)
      | Inr (names, table) \<Rightarrow>
          (case try_each group_name (rc_proxy_group cfg) of
             Inl e \<Rightarrow> Some (Inl e)
           | Inr groups \<Rightarrow>
               (case sort_sections env (rc_proxy_group cfg) of
                  Inl loop \<Rightarrow> Some (Inl (str_join loop '' ''))
                | Inr sections \<Rightarrow>
                    (case read_providers env (rc_proxy_provider cfg) of
                       Inl e \<Rightarrow> Some (Inl e)
                     | Inr providers \<Rightarrow>
                         try_step (add_groups env (sort names) (sort (map fst providers)) sections table providers) (\<lambda>(table', providers').
                           finish_proxies env (''GLOBAL'' \<in> set groups) ([''DIRECT'', ''REJECT''] @ names @ groups) table' providers')))))"

subsection \<open>What an accepted table promises\<close>

abbreviation entry_id :: "table_entry \<Rightarrow> nat" where
  "entry_id e \<equiv> mb_id (px_member (te_entry e))"

definition own_members :: "table_entry \<Rightarrow> member list" where
  "own_members e =
     (case te_group e of None \<Rightarrow> [] | Some b \<Rightarrow> (case bg_own b of None \<Rightarrow> [] | Some hc \<Rightarrow> hc_proxies hc))"

text \<open>Every entry has its own number, and the members of a group were there before it.\<close>

definition members_earlier :: "proxy_table \<Rightarrow> bool" where
  "members_earlier table \<longleftrightarrow> distinct (map fst table) \<and>
     (\<forall>(n, e)\<in>set table. \<forall>m\<in>set (own_members e). mb_id m < entry_id e)"

definition table_ok :: "proxy_table \<Rightarrow> bool" where
  "table_ok table \<longleftrightarrow> members_earlier table \<and> map (\<lambda>(n, e). entry_id e) table = [0..<length table]"

lemma table_ok_id:
  assumes "table_ok table" and "map_of table n = Some e"
  shows "entry_id e < length table"
proof -
  have "entry_id e \<in> set (map (\<lambda>(n, e). entry_id e) table)" using map_of_SomeD [OF assms(2)] by force
  then show ?thesis using assms(1) unfolding table_ok_def by simp
qed

lemma table_ok_snoc:
  assumes "table_ok table" and "map_of table n = None" and "entry_id e = length table"
    and "\<And>m. m \<in> set (own_members e) \<Longrightarrow> mb_id m < length table"
  shows "table_ok (table @ [(n, e)])"
  using assms by (auto simp: table_ok_def members_earlier_def map_of_eq_None_iff)

lemma builtin_ok: "table_ok builtin_proxies"
  by (auto simp: table_ok_def members_earlier_def builtin_proxies_def plain_entry_def own_members_def upt_rec)

lemma add_proxies_ok:
  "add_proxies env ms table = Inr (names, table') \<Longrightarrow> table_ok table \<Longrightarrow>
    table_ok table' \<and> map fst table' = map fst table @ names"
proof (induction ms arbitrary: table names table')
  case (Cons m ms)
  obtain name tp dialer names' where step: "map_of table name = None"
    "add_proxies env ms (table @ [(name, plain_entry (length table) name tp dialer)]) = Inr (names', table')" "names = name # names'"
    using Cons.prems(1) by (auto simp: attempt_Inr_iff add_proxy_def split: if_splits)
  have "table_ok (table @ [(name, plain_entry (length table) name tp dialer)])"
    by (rule table_ok_snoc [OF Cons.prems(2) step(1)]) (simp_all add: plain_entry_def own_members_def)
  from Cons.IH [OF step(2) this] show ?case using step(3) by simp
qed simp

text \<open>The proxies a group was built from are in the table.\<close>

lemma group_members_known:
  assumes built: "parse_proxy_group genv (\<lambda>n. map_option te_entry (map_of table n)) providers all_proxies all_providers m = Some (Inr b)"
    and own: "bg_own b = Some hc" and mem: "p \<in> set (hc_proxies hc)"
  shows "\<exists>n e. map_of table n = Some e \<and> px_member (te_entry e) = p \<and> n \<in> set (go_proxies (bg_option b))"
proof -
  have "list_all2 (\<lambda>name m. \<exists>p. map_option te_entry (map_of table name) = Some p \<and> px_member p = m)
      (go_proxies (bg_option b)) (hc_proxies hc)"
    using built_group_has_members [OF built] own by blast
  then show ?thesis using mem by (force simp: list_all2_conv_all_nth in_set_conv_nth)
qed

lemma add_groups_ok:
  "add_groups env all_proxies all_providers ms table providers = Some (Inr (table', providers')) \<Longrightarrow> table_ok table \<Longrightarrow>
    table_ok table' \<and> (\<exists>opts. list_all2 (\<lambda>m opt. ge_decode (pc_group env) m = Some opt) ms opts \<and>
      map fst table' = map fst table @ map go_name opts)"
proof (induction ms arbitrary: table providers)
  case (Cons m ms)
  obtain b where
    built: "parse_proxy_group (pc_group env) (\<lambda>n. map_option te_entry (map_of table n)) (map_of providers) all_proxies all_providers m
      = Some (Inr b)" and new: "map_of table (go_name (bg_option b)) = None" and
    rest: "add_groups env all_proxies all_providers ms (table @ [(go_name (bg_option b), group_entry (length table) b)])
      (providers @ own_provider b) = Some (Inr (table', providers'))"
    using Cons.prems(1) by (auto simp: try_step_Inr Let_def split: if_splits)
  have member: "mb_id p < length table" if mem: "p \<in> set (own_members (group_entry (length table) b))" for p
  proof -
    obtain hc where "bg_own b = Some hc" "p \<in> set (hc_proxies hc)"
      using mem by (cases "bg_own b") (simp_all add: own_members_def group_entry_def)
    then show ?thesis using group_members_known [OF built] table_ok_id [OF Cons.prems(2)] by blast
  qed
  have "table_ok (table @ [(go_name (bg_option b), group_entry (length table) b)])"
    by (rule table_ok_snoc [OF Cons.prems(2) new _ member]) (simp_all add: group_entry_def)
  from Cons.IH [OF rest this] obtain opts where ok: "table_ok table'"
    "list_all2 (\<lambda>m opt. ge_decode (pc_group env) m = Some opt) ms opts"
    "map fst table' = map fst table @ go_name (bg_option b) # map go_name opts" by auto
  moreover obtain opt where "ge_decode (pc_group env) m = Some opt" "go_name (bg_option b) = go_name opt"
    using parse_proxy_group_name [OF built] by blast
  ultimately show ?case by (intro conjI exI [of _ "opt # opts"]) simp_all
qed simp

lemma listed_members_known:
  "listed_members table vs = Some ps \<Longrightarrow> p \<in> set ps \<Longrightarrow> \<exists>v e. map_of table v = Some e \<and> p = px_member (te_entry e)"
  by (induction vs arbitrary: ps) (auto simp: Let_def split: option.splits if_splits, blast)

lemma map_of_put_entry: "map_of (put_entry n e table) v = (if v = n then Some e else map_of table v)"
proof -
  have "map_of (map (\<lambda>(k, x). (k, if k = n then e else x)) t) v =
      (if v = n then map_option (\<lambda>_. e) (map_of t n) else map_of t v)" for t :: proxy_table
    by (induction t) auto
  then show ?thesis by (auto simp: put_entry_def map_add_def split: option.split)
qed

lemma put_entry_names: "map fst (put_entry n e table) = (if n \<in> set (map fst table) then map fst table else map fst table @ [n])"
  by (auto simp: put_entry_def map_of_eq_None_iff case_prod_unfold comp_def)

lemma set_put_entry: "(k, x) \<in> set (put_entry n e table) \<Longrightarrow> (k, x) = (n, e) \<or> (k, x) \<in> set table"
  by (auto simp: put_entry_def split: if_splits)

lemma add_global_ok:
  assumes "table_ok table" and "listed_members table vs = Some ps" and "add_global g ps table = Some table'"
  shows "members_earlier table' \<and> set (map fst table') = (if g then set (map fst table) else insert ''GLOBAL'' (set (map fst table)))"
proof (cases g)
  case False
  obtain e where c: "map_of table ''COMPATIBLE'' = Some e"
    using False assms(3) by (cases "map_of table ''COMPATIBLE''") (simp_all add: add_global_def)
  have e: "table' = put_entry ''GLOBAL'' (group_entry (length table) (global_group (px_member (te_entry e)) ps)) table"
    using False assms(3) c by (simp add: add_global_def)
  have "mb_id p < length table" if "p \<in> set ps" for p
    using listed_members_known [OF assms(2) that] table_ok_id [OF assms(1)] by blast
  moreover have "own_members (group_entry n (global_group f ps)) = ps" "entry_id (group_entry n b) = n" for n f b
    by (simp_all add: own_members_def group_entry_def global_group_def new_health_check_def)
  moreover have "distinct (map fst table)" using assms(1) by (simp add: table_ok_def members_earlier_def)
  ultimately have "members_earlier table'"
    using assms(1) unfolding members_earlier_def e put_entry_names table_ok_def
    by (fastforce dest!: set_put_entry)
  then show ?thesis using False by (auto simp: e put_entry_names simp del: set_map)
qed (use assms in \<open>simp add: add_global_def table_ok_def\<close>)

definition selection :: "proxy_table \<Rightarrow> (nat \<times> nat) set" where
  "selection table = {(mb_id m, entry_id e) | n e m. (n, e) \<in> set table \<and> m \<in> set (own_members e)}"

lemma selection_ends: "members_earlier table \<Longrightarrow> wf (selection table)"
  by (rule wf_subset [OF wf_less_than]) (auto simp: selection_def members_earlier_def)

subsection \<open>The sections, sorted\<close>

definition decoded_name :: "mapping group_env \<Rightarrow> mapping \<Rightarrow> string" where
  "decoded_name g m = (case ge_decode g m of Some opt \<Rightarrow> go_name opt | None \<Rightarrow> [])"

lemma build_graph_decodes: "build_graph ds graph = Inr graph' \<Longrightarrow> \<exists>gs. ds = map Inr gs"
proof (induction ds arbitrary: graph)
  case (Cons d ds)
  obtain graph1 where step: "add_group d graph = Inr graph1" "build_graph ds graph1 = Inr graph'"
    using Cons.prems by (auto simp: attempt_Inr_iff)
  obtain x where "d = Inr x" using step(1) by (auto simp: add_group_def attempt_Inr_iff)
  moreover obtain gs where "ds = map Inr gs" using Cons.IH [OF step(2)] by blast
  ultimately show ?case by (intro exI [of _ "x # gs"]) simp
qed simp

lemma dag_sort_decodes: "proxy_groups_dag_sort order ds = Inr names \<Longrightarrow> \<exists>gs. ds = map Inr gs"
  by (auto simp: proxy_groups_dag_sort_def dest: build_graph_decodes split: sum.splits)

lemma map_filter_known: "(\<And>x. x \<in> set xs \<Longrightarrow> f x \<noteq> None \<and> g (the (f x)) = x) \<Longrightarrow> map g (List.map_filter f xs) = xs"
  by (induction xs) (auto simp: List.map_filter_def)

lemma sort_sections_ok:
  assumes order: "\<And>xs. mset (pc_order env xs) = mset xs" and run: "sort_sections env ms = Inr secs"
  shows "(\<forall>m\<in>set ms. ge_decode (pc_group env) m \<noteq> None) \<and>
    mset (map (decoded_name (pc_group env)) secs) = mset (map (decoded_name (pc_group env)) ms)"
proof -
  let ?g = "pc_group env"
  define tab where "tab = concat (map (\<lambda>m. case ge_decode ?g m of None \<Rightarrow> [] | Some opt \<Rightarrow> [(go_name opt, m)]) ms)"
  obtain names where sorted: "proxy_groups_dag_sort (pc_order env) (sections_decoded env ms) = Inr names"
    and secs: "secs = List.map_filter (map_of tab) names"
    using run by (auto simp: sort_sections_def attempt_Inr_iff tab_def Let_def)
  obtain gs where gs: "sections_decoded env ms = map Inr gs" using dag_sort_decodes [OF sorted] by blast
  have dec: "ge_decode ?g m \<noteq> None" if "m \<in> set ms" for m
  proof
    assume "ge_decode ?g m = None"
    then have "Inl ''ProxyGroup'' \<in> set (sections_decoded env ms)" using that by (force simp: sections_decoded_def)
    then show False by (simp add: gs image_iff)
  qed
  have all: "mset names = mset (map fst gs)"
    using dag_sort_correct [OF order, of gs] sorted gs by simp
  have "map fst gs = map (\<lambda>d. case d of Inr (n, ps) \<Rightarrow> n | Inl _ \<Rightarrow> []) (sections_decoded env ms)"
    by (simp add: gs comp_def case_prod_unfold)
  also have "\<dots> = map (decoded_name ?g) ms"
    using dec by (auto simp: sections_decoded_def decoded_name_def split: option.splits)
  finally have keys: "map fst gs = map (decoded_name ?g) ms" .
  have tab: "tab = map (\<lambda>m. (decoded_name ?g m, m)) ms"
    using dec unfolding tab_def by (induction ms) (force simp: decoded_name_def split: option.split)+
  have "map_of tab n \<noteq> None \<and> decoded_name ?g (the (map_of tab n)) = n" if "n \<in> set names" for n
  proof -
    have "n \<in> fst ` set tab" using that mset_eq_setD [OF all] keys by (auto simp: tab image_iff)
    then obtain m where m: "map_of tab n = Some m" using map_of_eq_None_iff [of tab n] by (cases "map_of tab n") auto
    then have "(n, m) \<in> set tab" by (rule map_of_SomeD)
    then show ?thesis using m by (auto simp: tab)
  qed
  then have "map (decoded_name ?g) secs = names" unfolding secs by (rule map_filter_known)
  then show ?thesis using all keys dec by simp
qed

subsection \<open>The whole table\<close>

text \<open>The steps of an accepted run.\<close>

lemma parse_proxies_steps:
  assumes "parse_all_proxies env cfg = Some (Inr r)"
  shows "\<exists>names table groups secs providers table1 providers1 ps.
    add_proxies env (rc_proxy cfg) builtin_proxies = Inr (names, table) \<and> try_each group_name (rc_proxy_group cfg) = Inr groups \<and>
    sort_sections env (rc_proxy_group cfg) = Inr secs \<and>
    add_groups env (sort names) (sort (map fst providers)) secs table providers = Some (Inr (table1, providers1)) \<and>
    listed_members table1 ([''DIRECT'', ''REJECT''] @ names @ groups) = Some ps \<and>
    add_global (''GLOBAL'' \<in> set groups) ps table1 = Some (pp_table r) \<and>
    validate_dialer_proxies (pc_order env) (map (\<lambda>(n, e). (n, te_dialer e)) (pp_table r)) = None"
  using assms
  by (auto simp: parse_all_proxies_def try_step_Inr finish_proxies_def bind_eq_Some_conv simp del: listed_members.simps append_Cons
      split: sum.splits option.splits prod.splits, blast)

lemma parsed_table_ok:
  assumes order: "\<And>xs. mset (pc_order env xs) = mset xs" and run: "parse_all_proxies env cfg = Some (Inr r)"
  shows "members_earlier (pp_table r) \<and>
    (\<exists>names. list_all2 (\<lambda>m n. \<exists>tp dialer. pc_proxy env m = Inr (n, tp, dialer)) (rc_proxy cfg) names \<and>
       set (map fst (pp_table r)) = set (map fst builtin_proxies) \<union> set names \<union>
         decoded_name (pc_group env) ` set (rc_proxy_group cfg) \<union> {''GLOBAL''})"
proof -
  obtain names table groups secs providers table1 providers1 ps where
    proxies: "add_proxies env (rc_proxy cfg) builtin_proxies = Inr (names, table)" and
    groups: "try_each group_name (rc_proxy_group cfg) = Inr groups" and
    secs: "sort_sections env (rc_proxy_group cfg) = Inr secs" and
    added: "add_groups env (sort names) (sort (map fst providers)) secs table providers = Some (Inr (table1, providers1))" and
    listed: "listed_members table1 ([''DIRECT'', ''REJECT''] @ names @ groups) = Some ps" and
    global: "add_global (''GLOBAL'' \<in> set groups) ps table1 = Some (pp_table r)"
    using parse_proxies_steps [OF run] by blast
  note p = add_proxies_ok [OF proxies builtin_ok]
  note g = add_groups_ok [OF added conjunct1 [OF p]]
  obtain opts where opts: "list_all2 (\<lambda>m opt. ge_decode (pc_group env) m = Some opt) secs opts"
    "map fst table1 = map fst table @ map go_name opts" using g by blast
  have "map go_name opts = map (decoded_name (pc_group env)) secs"
    using opts(1) by (auto simp: list_all2_conv_all_nth decoded_name_def intro: nth_equalityI)
  then have keys: "set (map fst table1) = set (map fst builtin_proxies) \<union> set names \<union>
      decoded_name (pc_group env) ` set (rc_proxy_group cfg)"
    using opts(2) p mset_eq_setD [OF conjunct2 [OF sort_sections_ok [OF order secs]]] by (simp add: Un_assoc)
  note last = add_global_ok [OF conjunct1 [OF g] listed global]
  have "''GLOBAL'' \<in> set (map fst table1)" if "''GLOBAL'' \<in> set groups"
  proof -
    have "v \<in> set (map fst table1)" if "listed_members table1 vs = Some ps" "v \<in> set vs" for v vs ps
      using that by (induction vs arbitrary: ps) (auto simp: Let_def dest: known_key split: option.splits if_splits)
    from this [OF listed] show ?thesis using that by simp
  qed
  moreover have "list_all2 (\<lambda>m n. \<exists>tp dialer. pc_proxy env m = Inr (n, tp, dialer)) ms ns"
    if "add_proxies env ms t = Inr (ns, t')" for ms t ns t'
    using that by (induction ms arbitrary: t ns) (auto simp: attempt_Inr_iff add_proxy_def split: if_splits)
  ultimately show ?thesis using last keys proxies by (intro conjI exI [of _ names]) auto
qed

text \<open>The names by which proxies are dialed through one another, and those a group selects.\<close>

definition dialer_names :: "proxy_table \<Rightarrow> (string \<times> string) list" where
  "dialer_names table = filter (\<lambda>x. snd x \<noteq> []) (map (\<lambda>(n, e). (n, te_dialer e)) table)"

text \<open>
  C1: the table of an accepted configuration can be used. No name stands for two proxies; a group
  selects only among proxies that were there before it, so that going from a group to its
  choice, and on while that is a group, always ends, \<open>GLOBAL\<close> included; the dialer proxies that
  are named exist, and following them ends.
\<close>

theorem proxy_table_sound:
  assumes order: "\<And>xs. mset (pc_order env xs) = mset xs" and run: "parse_all_proxies env cfg = Some (Inr r)"
  shows "distinct (map fst (pp_table r)) \<and> wf (selection (pp_table r)) \<and>
    list_all (\<lambda>(_, e). te_dialer e = [] \<or> te_dialer e \<in> fst ` set (pp_table r)) (pp_table r) \<and>
    acyclic (dials (dialer_names (pp_table r)))"
proof -
  have earlier: "members_earlier (pp_table r)" using parsed_table_ok [OF order run] by blast
  have "\<And>xs. set (pc_order env xs) = set xs" using order by (metis set_mset_mset)
  moreover have "validate_dialer_proxies (pc_order env) (map (\<lambda>(n, e). (n, te_dialer e)) (pp_table r)) = None"
    using parse_proxies_steps [OF run] by blast
  ultimately have "\<forall>(a, d)\<in>set (map (\<lambda>(n, e). (n, te_dialer e)) (pp_table r)). d = [] \<or>
      d \<in> fst ` set (map (\<lambda>(n, e). (n, te_dialer e)) (pp_table r))"
    and "acyclic (dials (dialer_names (pp_table r)))"
    by (simp_all add: dialer_check_correct dialer_names_def)
  moreover have "fst ` set (map (\<lambda>(n, e). (n, te_dialer e)) (pp_table r)) = fst ` set (pp_table r)"
    by (simp add: image_image case_prod_unfold)
  ultimately have "list_all (\<lambda>(_, e). te_dialer e = [] \<or> te_dialer e \<in> fst ` set (pp_table r)) (pp_table r)"
    and "acyclic (dials (dialer_names (pp_table r)))"
    by (simp_all add: list_all_iff case_prod_unfold)
  then show ?thesis
    using earlier selection_ends [OF earlier] by (simp add: members_earlier_def)
qed

text \<open>
  C1: the table has exactly the built-in proxies, the proxies of the configuration, its groups and
  \<open>GLOBAL\<close>: nothing that was configured is lost, in whatever order Go visits its maps.
\<close>

theorem proxy_table_complete:
  assumes "\<And>xs. mset (pc_order env xs) = mset xs" and "parse_all_proxies env cfg = Some (Inr r)"
  shows "\<exists>names. list_all2 (\<lambda>m n. \<exists>tp dialer. pc_proxy env m = Inr (n, tp, dialer)) (rc_proxy cfg) names \<and>
    set (map fst (pp_table r)) = set (map fst builtin_proxies) \<union> set names \<union>
      decoded_name (pc_group env) ` set (rc_proxy_group cfg) \<union> {''GLOBAL''}"
  using parsed_table_ok [OF assms] by blast

subsection \<open>A loop the check does not see\<close>

definition text_of :: "mapping \<Rightarrow> string \<Rightarrow> string" where
  "text_of m key = (case map_of m key of Some (VStr s) \<Rightarrow> s | _ \<Rightarrow> [])"

definition texts_of :: "mapping \<Rightarrow> string \<Rightarrow> string list" where
  "texts_of m key =
     (case map_of m key of Some (VSeq vs) \<Rightarrow> concat (map (\<lambda>v. case v of VStr s \<Rightarrow> [s] | _ \<Rightarrow> []) vs) | _ \<Rightarrow> [])"

definition demo_group_env :: "mapping group_env" where
  "demo_group_env =
     \<lparr>ge_decode = (\<lambda>m. Some (global_option\<lparr>go_name := text_of m ''name'', go_type := text_of m ''type'',
        go_proxies := texts_of m ''proxies''\<rparr>)),
      ge_decode_url_test = (\<lambda>_. Inr 0), ge_decode_selector = (\<lambda>_. Inr []), ge_decode_fallback = (\<lambda>_. Inr ()),
      ge_decode_load_balance = (\<lambda>_. Inr ([], [])), ge_compile = (\<lambda>_. Some (\<lambda>_. True)),
      ge_keys = \<lparr>ke_is_ip = (\<lambda>_. False), ke_etld1 = (\<lambda>_. None), ke_addr_text = (\<lambda>_. []), ke_map_hash = (\<lambda>_. 0)\<rparr>\<rparr>"

definition demo_proxies_env :: proxies_env where
  "demo_proxies_env =
     \<lparr>pc_proxy = (\<lambda>m. Inr (text_of m ''name'', AT_Socks5, text_of m ''dialer-proxy'')),
      pc_provider = (\<lambda>_ _. Inl []), pc_group = demo_group_env, pc_order = (\<lambda>xs. xs)\<rparr>"

definition loop_config :: raw_config where
  "loop_config =
     default_raw_config\<lparr>
       rc_proxy := [[(''name'', VStr ''a''), (''type'', VStr ''socks5''), (''dialer-proxy'', VStr ''g'')]],
       rc_proxy_group := [[(''name'', VStr ''g''), (''type'', VStr ''select''), (''proxies'', VSeq [VStr ''a''])]]\<rparr>"

text \<open>To reach its server, a proxy dials through its dialer proxy, and a group through one of its members.\<close>

definition dials_through :: "proxy_table \<Rightarrow> string \<Rightarrow> string \<Rightarrow> bool" where
  "dials_through table a b \<longleftrightarrow>
     (case map_of table a of
        None \<Rightarrow> False
      | Some e \<Rightarrow> b \<noteq> [] \<and> b = te_dialer e \<or> b \<in> set (map mb_name (own_members e)))"

lemma loop_run:
  "map_option (map_sum id (\<lambda>r. (dials_through (pp_table r) ''a'' ''g'', dials_through (pp_table r) ''g'' ''a'')))
     (parse_all_proxies demo_proxies_env loop_config) = Some (Inr (True, True))"
  by code_simp


theorem proxy_table_sound_witness:
  "\<exists>r. parse_all_proxies demo_proxies_env loop_config = Some (Inr r) \<and> wf (selection (pp_table r))"
proof -
  have order: "mset (pc_order demo_proxies_env xs) = mset xs" for xs by (simp add: demo_proxies_env_def)
  obtain r where "parse_all_proxies demo_proxies_env loop_config = Some (Inr r)"
    using loop_run by (cases "parse_all_proxies demo_proxies_env loop_config") (auto simp: map_sum_def split: sum.splits)
  with proxy_table_sound [OF order this] show ?thesis by blast
qed

theorem proxy_table_complete_witness:
  "\<exists>r. parse_all_proxies demo_proxies_env loop_config = Some (Inr r) \<and> {''a'', ''g'', ''DIRECT''} \<subseteq> set (map fst (pp_table r))"
proof -
  have order: "mset (pc_order demo_proxies_env xs) = mset xs" for xs by (simp add: demo_proxies_env_def)
  obtain r where run: "parse_all_proxies demo_proxies_env loop_config = Some (Inr r)"
    using loop_run by (cases "parse_all_proxies demo_proxies_env loop_config") (auto simp: map_sum_def split: sum.splits)
  have rc: "rc_proxy loop_config = [[(''name'', VStr ''a''), (''type'', VStr ''socks5''), (''dialer-proxy'', VStr ''g'')]]"
    "rc_proxy_group loop_config = [[(''name'', VStr ''g''), (''type'', VStr ''select''), (''proxies'', VSeq [VStr ''a''])]]"
    by (simp_all add: loop_config_def)
  obtain names where names: "list_all2 (\<lambda>m n. \<exists>tp dialer. pc_proxy demo_proxies_env m = Inr (n, tp, dialer)) (rc_proxy loop_config) names"
    and keys: "set (map fst (pp_table r)) = set (map fst builtin_proxies) \<union> set names \<union>
      decoded_name (pc_group demo_proxies_env) ` set (rc_proxy_group loop_config) \<union> {''GLOBAL''}"
    using proxy_table_complete [OF order run] by blast
  have "names = [''a'']" using names by (auto simp: rc list_all2_Cons1 demo_proxies_env_def text_of_def)
  moreover have "decoded_name (pc_group demo_proxies_env) ` set (rc_proxy_group loop_config) = {''g''}"
    by (simp add: rc decoded_name_def demo_proxies_env_def demo_group_env_def text_of_def)
  moreover have "''DIRECT'' \<in> set (map fst builtin_proxies)" by (simp add: builtin_proxies_def)
  ultimately have "{''a'', ''g'', ''DIRECT''} \<subseteq> set (map fst (pp_table r))" unfolding keys by simp
  then show ?thesis using run by blast
qed

end
