(* ===== verification/Wildcard.thy ===== *)
theory Wildcard
  imports Go_Prelude
begin

text \<open>
  Wildcard matching (\<open>component/wildcard/wildcard.go\<close>): \<open>*\<close> stands for any run of characters,
  \<open>?\<close> for exactly one. The code walks both strings once with two indices and goes back to the last
  star on a mismatch; \<open>wild\<close> is the textbook definition it is compared with.
\<close>

subsection \<open>The code\<close>

text \<open>The label \<open>checkPattern\<close>: what is left of the pattern must be stars.\<close>

function check_pattern :: "string \<Rightarrow> nat \<Rightarrow> bool" where
  "check_pattern pat pi =
     (if pi < length pat then
        (if pat ! pi = CHR ''*'' then check_pattern pat (Suc pi) else pi = length pat)
      else pi = length pat)"
  by pat_completeness auto
termination
  by (relation "measure (\<lambda>(pat, pi). length pat - pi)") auto

text \<open>
  The label \<open>Loop\<close>. The star index \<open>-1\<close> of the code is \<open>None\<close>. The measure: once the star lies
  before the pattern index it stays there and only moves right; a backtrack moves \<open>lastStar\<close>
  right; every other step moves the pattern index right.
\<close>

function match_loop :: "string \<Rightarrow> string \<Rightarrow> nat \<Rightarrow> nat \<Rightarrow> nat option \<Rightarrow> nat \<Rightarrow> bool" where
  "match_loop pat s pi si star lst =
     (if si \<ge> length s then check_pattern pat pi
      else if pi \<ge> length pat then
        (case star of
           Some st \<Rightarrow> match_loop pat s (st + 1) (lst + 1) star (lst + 1)
         | None \<Rightarrow> False)
      else if pat ! pi = CHR ''?'' then match_loop pat s (pi + 1) (si + 1) star lst
      else if pat ! pi = CHR ''*'' then match_loop pat s (pi + 1) si (Some pi) si
      else if pat ! pi \<noteq> s ! si then
        (case star of
           Some st \<Rightarrow> match_loop pat s (st + 1) (lst + 1) star (lst + 1)
         | None \<Rightarrow> False)
      else match_loop pat s (pi + 1) (si + 1) star lst)"
  by pat_completeness auto
termination
  by (relation "measures
      [\<lambda>(pat, s, pi, si, star, lst). case star of None \<Rightarrow> 0 | Some st \<Rightarrow> if st < pi then 0 else 1,
       \<lambda>(pat, s, pi, si, star, lst). case star of None \<Rightarrow> Suc (length pat) | Some st \<Rightarrow> length pat - st,
       \<lambda>(pat, s, pi, si, star, lst). if si \<ge> length s then 0 else Suc (length s - lst),
       \<lambda>(pat, s, pi, si, star, lst). length pat - pi]")
     (auto split: option.splits)

definition match_by_string :: "string \<Rightarrow> string \<Rightarrow> bool" where
  "match_by_string pat s = match_loop pat s 0 0 None 0"

definition wildcard_match :: "string \<Rightarrow> string \<Rightarrow> bool" where
  "wildcard_match pat s =
     (if pat = [] then s = pat
      else if pat = ''*'' \<or> s = pat then True
      else match_by_string pat s)"

declare check_pattern.simps [simp del] match_loop.simps [simp del]

subsection \<open>The reference\<close>

fun wild :: "string \<Rightarrow> string \<Rightarrow> bool" where
  "wild [] s = (s = [])"
| "wild (c # p) [] = (c = CHR ''*'' \<and> wild p [])"
| "wild (c # p) (d # s) =
     (if c = CHR ''*'' then wild p (d # s) \<or> wild (c # p) s
      else (c = CHR ''?'' \<or> c = d) \<and> wild p s)"

lemma wild_star_iff: "wild (CHR ''*'' # p) s \<longleftrightarrow> (\<exists>k \<le> length s. wild p (drop k s))"
proof (induction s)
  case (Cons d s)
  have "(\<exists>k \<le> length (d # s). wild p (drop k (d # s))) \<longleftrightarrow>
      wild p (d # s) \<or> (\<exists>k \<le> length s. wild p (drop k s))"
    by (metis Suc_le_mono drop0 drop_Suc_Cons length_Cons not0_implies_Suc zero_le)
  then show ?case using Cons by simp
qed simp

lemma wild_self: "wild p p"
proof (induction p)
  case (Cons c p)
  have "wild (CHR ''*'' # q) s \<Longrightarrow> wild (CHR ''*'' # q) (d # s)" for q s d by simp
  moreover have "wild q s \<Longrightarrow> wild (CHR ''*'' # q) s" for q s by (cases s) auto
  ultimately show ?case using Cons by auto
qed simp

text \<open>A star-free segment consumes exactly its own length.\<close>

lemma wild_segment:
  "CHR ''*'' \<notin> set g \<Longrightarrow> wild (g @ q) s \<Longrightarrow> length g \<le> length s \<and> wild q (drop (length g) s)"
proof (induction g arbitrary: s)
  case (Cons c g)
  then show ?case by (cases s) (auto split: if_splits)
qed simp

lemma check_pattern_wild: "pi \<le> length pat \<Longrightarrow> check_pattern pat pi = wild (drop pi pat) []"
proof (induction pat pi rule: check_pattern.induct)
  case (1 pat pi)
  show ?case
  proof (cases "pi < length pat")
    case True
    then have "drop pi pat = pat ! pi # drop (Suc pi) pat" by (simp add: Cons_nth_drop_Suc)
    then show ?thesis using 1 True by (subst check_pattern.simps) auto
  next
    case False
    then show ?thesis using 1 by (subst check_pattern.simps) simp
  qed
qed

subsection \<open>The loop invariant\<close>

text \<open>
  The pattern between the last star and the pattern index holds no star and has matched the text
  between \<open>lastStar\<close> and the text index character for character.
\<close>

definition star_inv :: "string \<Rightarrow> string \<Rightarrow> nat \<Rightarrow> nat \<Rightarrow> nat option \<Rightarrow> nat \<Rightarrow> bool" where
  "star_inv pat s pi si star lst \<longleftrightarrow>
     pi \<le> length pat \<and> si \<le> length s \<and>
     (case star of None \<Rightarrow> True
      | Some st \<Rightarrow> st < pi \<and> lst \<le> si \<and> si - lst = pi - Suc st \<and>
          CHR ''*'' \<notin> set (take (pi - Suc st) (drop (Suc st) pat)))"

text \<open>What a backtrack could still reach.\<close>

definition retry_later :: "string \<Rightarrow> string \<Rightarrow> nat option \<Rightarrow> nat \<Rightarrow> bool" where
  "retry_later pat s star lst \<longleftrightarrow>
     (case star of None \<Rightarrow> False
      | Some st \<Rightarrow> \<exists>k > lst. k \<le> length s \<and> wild (drop (Suc st) pat) (drop k s))"

lemma retry_after_segment:
  assumes "star_inv pat s pi si star lst" and "retry_later pat s star lst"
  shows "\<exists>k > si. k \<le> length s \<and> wild (drop pi pat) (drop k s)"
proof -
  obtain st k where st: "star = Some st" and k: "lst < k" "k \<le> length s"
    "wild (drop (Suc st) pat) (drop k s)"
    using assms(2) by (auto simp: retry_later_def split: option.splits)
  let ?g = "take (pi - Suc st) (drop (Suc st) pat)"
  have inv: "st < pi" "lst \<le> si" "si - lst = pi - Suc st" "CHR ''*'' \<notin> set ?g" "pi \<le> length pat"
    using assms(1) st by (auto simp: star_inv_def)
  have split: "drop (Suc st) pat = ?g @ drop pi pat"
    using inv(1) by (metis append_take_drop_id drop_drop Suc_leI le_add_diff_inverse add.commute)
  have len: "length ?g = pi - Suc st" using inv by simp
  have "length ?g \<le> length (drop k s) \<and> wild (drop pi pat) (drop (length ?g) (drop k s))"
    using wild_segment [OF inv(4)] k(3) split by metis
  then have "pi - Suc st \<le> length s - k" "wild (drop pi pat) (drop (k + (pi - Suc st)) s)"
    using len by (simp_all add: add.commute)
  moreover have "si < k + (pi - Suc st)" using inv k(1) by linarith
  ultimately show ?thesis using k(2) by (intro exI [of _ "k + (pi - Suc st)"]) auto
qed

lemma retry_restart:
  "star = Some st \<Longrightarrow> lst < length s \<Longrightarrow>
   (wild (drop (Suc st) pat) (drop (Suc lst) s) \<or> retry_later pat s star (Suc lst)) =
   retry_later pat s star lst"
  by (auto simp: retry_later_def dest: Suc_lessD) (metis Suc_lessI)

lemma match_loop_correct:
  "star_inv pat s pi si star lst \<Longrightarrow>
   match_loop pat s pi si star lst \<longleftrightarrow> wild (drop pi pat) (drop si s) \<or> retry_later pat s star lst"
proof (induction pat s pi si star lst rule: match_loop.induct)
  case (1 pat s pi si star lst)
  note inv = 1(6)
  show ?case
  proof (cases "si \<ge> length s")
    case True
    have "\<not> retry_later pat s star lst"
      using retry_after_segment [OF inv] True by fastforce
    then show ?thesis
      using True inv by (subst match_loop.simps) (simp add: check_pattern_wild star_inv_def)
  next
    case si: False
    then have ds: "drop si s = s ! si # drop (Suc si) s" by (simp add: Cons_nth_drop_Suc)
    have bktr: "(case star of Some st \<Rightarrow> match_loop pat s (st + 1) (lst + 1) star (lst + 1)
        | None \<Rightarrow> False) = retry_later pat s star lst"
      if IH: "\<And>st. star = Some st \<Longrightarrow> star_inv pat s (st + 1) (lst + 1) star (lst + 1) \<Longrightarrow>
        match_loop pat s (st + 1) (lst + 1) star (lst + 1) =
        (wild (drop (st + 1) pat) (drop (lst + 1) s) \<or> retry_later pat s star (lst + 1))"
    proof (cases star)
      case None
      then show ?thesis by (simp add: retry_later_def)
    next
      case (Some st)
      then have "star_inv pat s (st + 1) (lst + 1) star (lst + 1)" and "lst < length s"
        using inv si by (auto simp: star_inv_def)
      then show ?thesis using IH [OF Some] retry_restart [OF Some] Some by simp
    qed
    show ?thesis
    proof (cases "pi \<ge> length pat")
      case True
      then show ?thesis
        using si bktr 1(1) ds by (subst match_loop.simps) simp
    next
      case pi: False
      then have dp: "drop pi pat = pat ! pi # drop (Suc pi) pat" by (simp add: Cons_nth_drop_Suc)
      have adv: "star_inv pat s (pi + 1) (si + 1) star lst" if "pat ! pi \<noteq> CHR ''*''"
      proof (cases star)
        case (Some st)
        then have st: "st < pi" using inv by (simp add: star_inv_def)
        then have "Suc pi - Suc st = Suc (pi - Suc st)" by simp
        moreover have "drop (Suc st) pat ! (pi - Suc st) = pat ! pi" using st pi by simp
        ultimately have "set (take (Suc pi - Suc st) (drop (Suc st) pat)) =
            insert (pat ! pi) (set (take (pi - Suc st) (drop (Suc st) pat)))"
          using pi st by (simp add: take_Suc_conv_app_nth)
        then show ?thesis using inv si pi that Some by (auto simp: star_inv_def)
      qed (use inv si pi in \<open>auto simp: star_inv_def\<close>)
      consider (q) "pat ! pi = CHR ''?''" | (star) "pat ! pi = CHR ''*''"
        | (neq) "pat ! pi \<noteq> CHR ''?''" "pat ! pi \<noteq> CHR ''*''" "pat ! pi \<noteq> s ! si"
        | (eq) "pat ! pi \<noteq> CHR ''?''" "pat ! pi \<noteq> CHR ''*''" "pat ! pi = s ! si"
        by blast
      then show ?thesis
      proof cases
        case q
        then show ?thesis using si pi adv 1(2) by (subst match_loop.simps) (simp add: ds dp)
      next
        case star
        have "star_inv pat s (pi + 1) si (Some pi) si" using inv si pi by (simp add: star_inv_def)
        then have "match_loop pat s pi si star lst \<longleftrightarrow>
            wild (drop (Suc pi) pat) (drop si s) \<or> retry_later pat s (Some pi) si"
          using si pi star 1(3) by (subst match_loop.simps) simp
        also have "\<dots> \<longleftrightarrow> wild (drop pi pat) (drop si s)"
        proof -
          have "(\<exists>k \<le> length s - si. wild (drop (Suc pi) pat) (drop (si + k) s)) \<longleftrightarrow>
              (\<exists>k \<ge> si. k \<le> length s \<and> wild (drop (Suc pi) pat) (drop k s))"
            using si by (metis le_add_diff_inverse le_add1 add_le_cancel_left nat_le_linear le_iff_add)
          then show ?thesis
            using si star by (auto simp: dp wild_star_iff retry_later_def le_less add.commute)
        qed
        also have "\<dots> \<longleftrightarrow> wild (drop pi pat) (drop si s) \<or> retry_later pat s star lst"
        proof -
          have "wild (drop pi pat) (drop si s)" if "retry_later pat s star lst"
          proof -
            obtain k where k: "si < k" "k \<le> length s" "wild (drop pi pat) (drop k s)"
              using retry_after_segment [OF inv \<open>retry_later pat s star lst\<close>] by blast
            then obtain j where j: "j \<le> length (drop k s)" "wild (drop (Suc pi) pat) (drop j (drop k s))"
              using star dp wild_star_iff by metis
            moreover have "drop j (drop k s) = drop (k - si + j) (drop si s)"
              using k(1) by (simp add: add.commute)
            moreover have "k - si + j \<le> length (drop si s)" using k(1,2) j(1) by simp
            ultimately show ?thesis using star dp wild_star_iff by metis
          qed
          then show ?thesis by blast
        qed
        finally show ?thesis .
      next
        case neq
        then show ?thesis using si pi bktr 1(4) by (subst match_loop.simps) (simp add: ds dp)
      next
        case eq
        then show ?thesis using si pi adv 1(5) by (subst match_loop.simps) (simp add: ds dp)
      qed
    qed
  qed
qed

lemma wildcard_match_wild: "wildcard_match pat s = wild pat s"
proof -
  have "match_by_string pat s = wild pat s"
    by (simp add: match_by_string_def match_loop_correct star_inv_def retry_later_def)
  moreover have "wild ''*'' s" by (auto simp: wild_star_iff)
  moreover have "pat = [] \<Longrightarrow> (s = pat) = wild pat s" by simp
  ultimately show ?thesis using wild_self by (auto simp: wildcard_match_def)
qed

text \<open>
  C30: the one-pass matcher with a single backtrack point accepts exactly the strings the recursive
  definition of a wildcard pattern accepts, for every pattern and text.
\<close>

theorem wildcard_match_correct: "wildcard_match pat s = wild pat s"
  by (rule wildcard_match_wild)

end
