(* ===== verification/Rule_Match.thy ===== *)
theory Rule_Match
  imports Metadata Int_Ranges Wildcard
begin

text \<open>
  Rules and their matching (\<open>rules/common/*.go\<close>, \<open>rules/logic/logic.go\<close>,
  \<open>rules/provider/rule_set.go\<close>). The Go interface \<open>C.Rule\<close> is a datatype with one constructor per
  struct, its arguments the fields of the struct in the order of the source (the embedded \<open>Base\<close>
  is empty).

  Matching has effects: the helper's closures resolve the destination or look the process up and
  write the metadata, and the GeoIP and ASN rules cache what they looked up in it. The state
  \<open>mstate\<close> is the metadata with the two variables the closures capture in
  \<open>tunnel.resolveMetadata\<close>; a nil closure is \<open>None\<close>. Regular expressions, the geo databases and
  the rule providers are the fields of \<open>rule_env\<close>.
\<close>

subsection \<open>State, helper, rules\<close>

record mstate =
  ms_meta :: metadata
  ms_resolved :: bool
  ms_attempt :: bool

record helper =
  resolve_ip :: "(mstate \<Rightarrow> mstate) option"
  find_process :: "(mstate \<Rightarrow> mstate) option"
  check_pass_rule :: "(metadata \<Rightarrow> string \<Rightarrow> bool) option"

datatype rule =
    Domain string string
  | DomainSuffix string string
  | DomainKeyword string string
  | DomainRegex string string
  | DomainWildcard string string
  | Geosite string string
  | Geoip string string bool bool
  | Asn string string bool bool
  | Ipcidr net_prefix string bool bool
  | IpSuffix "8 word list" nat string string bool bool
  | Port string string rule_type "16 word range list"
  | Dscp "8 word range list" string string
  | ProcessRule string string rule_type
  | NetworkType network string
  | UidRule "32 word range list" string string
  | InTypeRule "in_type list" string string
  | InNameRule "string list" string string
  | InUserRule "string list" string string
  | RematchName "string list" string string
  | RuleSetRule string string bool bool
  | MatchRule string
  | Logic string string rule_type "rule list"

record rule_env =
  re_match :: "string \<Rightarrow> string \<Rightarrow> bool"
  geosite_matcher :: "string \<Rightarrow> (string \<Rightarrow> bool) option"
  geodata_mode :: bool
  geoip_matcher :: "string \<Rightarrow> (addr \<Rightarrow> bool) option"
  lookup_code :: "8 word list \<Rightarrow> string list"
  lookup_asn :: "8 word list \<Rightarrow> string \<times> string"
  rule_provider :: "string \<Rightarrow> (mstate \<Rightarrow> helper \<Rightarrow> bool \<times> mstate) option"
  prefix_string :: "net_prefix \<Rightarrow> string"

fun rule_type_of :: "rule \<Rightarrow> rule_type" where
  "rule_type_of (Domain _ _) = RT_Domain"
| "rule_type_of (DomainSuffix _ _) = RT_DomainSuffix"
| "rule_type_of (DomainKeyword _ _) = RT_DomainKeyword"
| "rule_type_of (DomainRegex _ _) = RT_DomainRegex"
| "rule_type_of (DomainWildcard _ _) = RT_DomainWildcard"
| "rule_type_of (Geosite _ _) = RT_GEOSITE"
| "rule_type_of (Geoip _ _ _ is_src) = (if is_src then RT_SrcGEOIP else RT_GEOIP)"
| "rule_type_of (Asn _ _ _ is_src) = (if is_src then RT_SrcIPASN else RT_IPASN)"
| "rule_type_of (Ipcidr _ _ is_src _) = (if is_src then RT_SrcIPCIDR else RT_IPCIDR)"
| "rule_type_of (IpSuffix _ _ _ _ is_src _) = (if is_src then RT_SrcIPSuffix else RT_IPSuffix)"
| "rule_type_of (Port _ _ t _) = t"
| "rule_type_of (Dscp _ _ _) = RT_DSCP"
| "rule_type_of (ProcessRule _ _ t) = t"
| "rule_type_of (NetworkType _ _) = RT_Network"
| "rule_type_of (UidRule _ _ _) = RT_Uid"
| "rule_type_of (InTypeRule _ _ _) = RT_InType"
| "rule_type_of (InNameRule _ _ _) = RT_InName"
| "rule_type_of (InUserRule _ _ _) = RT_InUser"
| "rule_type_of (RematchName _ _ _) = RT_RematchName"
| "rule_type_of (RuleSetRule _ _ _ _) = RT_RuleSet"
| "rule_type_of (MatchRule _) = RT_MATCH"
| "rule_type_of (Logic _ _ t _) = t"

fun rule_adapter :: "rule \<Rightarrow> string" where
  "rule_adapter (Domain _ a) = a"
| "rule_adapter (DomainSuffix _ a) = a"
| "rule_adapter (DomainKeyword _ a) = a"
| "rule_adapter (DomainRegex _ a) = a"
| "rule_adapter (DomainWildcard _ a) = a"
| "rule_adapter (Geosite _ a) = a"
| "rule_adapter (Geoip _ a _ _) = a"
| "rule_adapter (Asn _ a _ _) = a"
| "rule_adapter (Ipcidr _ a _ _) = a"
| "rule_adapter (IpSuffix _ _ _ a _ _) = a"
| "rule_adapter (Port a _ _ _) = a"
| "rule_adapter (Dscp _ _ a) = a"
| "rule_adapter (ProcessRule _ a _) = a"
| "rule_adapter (NetworkType _ a) = a"
| "rule_adapter (UidRule _ _ a) = a"
| "rule_adapter (InTypeRule _ a _) = a"
| "rule_adapter (InNameRule _ a _) = a"
| "rule_adapter (InUserRule _ a _) = a"
| "rule_adapter (RematchName _ a _) = a"
| "rule_adapter (RuleSetRule _ a _ _) = a"
| "rule_adapter (MatchRule a) = a"
| "rule_adapter (Logic _ a _ _) = a"

fun rule_provider_names :: "rule \<Rightarrow> string list" where
  "rule_provider_names (RuleSetRule name _ _ _) = [name]"
| "rule_provider_names (Logic _ _ _ rs) = concat (map rule_provider_names rs)"
| "rule_provider_names _ = []"

fun rule_payload :: "rule_env \<Rightarrow> rule \<Rightarrow> string" where
  "rule_payload env (Domain d _) = d"
| "rule_payload env (DomainSuffix d _) = d"
| "rule_payload env (DomainKeyword d _) = d"
| "rule_payload env (DomainRegex d _) = d"
| "rule_payload env (DomainWildcard d _) = d"
| "rule_payload env (Geosite c _) = c"
| "rule_payload env (Geoip c _ _ _) = c"
| "rule_payload env (Asn n _ _ _) = n"
| "rule_payload env (Ipcidr p _ _ _) = prefix_string env p"
| "rule_payload env (IpSuffix _ _ p _ _ _) = p"
| "rule_payload env (Port _ p _ _) = p"
| "rule_payload env (Dscp _ p _) = p"
| "rule_payload env (ProcessRule p _ _) = p"
| "rule_payload env (NetworkType n _) = network_string n"
| "rule_payload env (UidRule _ p _) = p"
| "rule_payload env (InTypeRule _ _ p) = p"
| "rule_payload env (InNameRule _ _ p) = p"
| "rule_payload env (InUserRule _ _ p) = p"
| "rule_payload env (RematchName _ _ p) = p"
| "rule_payload env (RuleSetRule n _ _ _) = n"
| "rule_payload env (MatchRule _) = []"
| "rule_payload env (Logic p _ t rs) =
     (let items = map (\<lambda>r. ''('' @ rule_type_string (rule_type_of r) @ '','' @ rule_payload env r @ '')'') rs in
      if t = RT_NOT then ''(!'' @ (case items of [] \<Rightarrow> [] | i # _ \<Rightarrow> i) @ '')''
      else if t = RT_OR then ''('' @ str_join items '' || '' @ '')''
      else if t = RT_AND then ''('' @ str_join items '' && '' @ '')''
      else p)"

subsection \<open>The \<open>Match\<close> methods of rules/common\<close>

type_synonym match_result = "(bool \<times> string) \<times> mstate"

abbreviation upd_meta :: "(metadata \<Rightarrow> metadata) \<Rightarrow> mstate \<Rightarrow> mstate" where
  "upd_meta f s \<equiv> s\<lparr>ms_meta := f (ms_meta s)\<rparr>"

definition call_opt :: "(mstate \<Rightarrow> mstate) option \<Rightarrow> mstate \<Rightarrow> mstate" where
  "call_opt f s = (case f of None \<Rightarrow> s | Some g \<Rightarrow> g s)"

definition domain_match :: "string \<Rightarrow> string \<Rightarrow> mstate \<Rightarrow> match_result" where
  "domain_match domain adapter s = ((rule_host (ms_meta s) = domain, adapter), s)"

definition domain_suffix_match :: "string \<Rightarrow> string \<Rightarrow> mstate \<Rightarrow> match_result" where
  "domain_suffix_match sfx adapter s =
     (let domain = rule_host (ms_meta s) in
      ((has_suffix domain (''.'' @ sfx) \<or> domain = sfx, adapter), s))"

definition domain_keyword_match :: "string \<Rightarrow> string \<Rightarrow> mstate \<Rightarrow> match_result" where
  "domain_keyword_match keyword adapter s =
     ((str_contains (rule_host (ms_meta s)) keyword, adapter), s)"

definition domain_regex_match :: "rule_env \<Rightarrow> string \<Rightarrow> string \<Rightarrow> mstate \<Rightarrow> match_result" where
  "domain_regex_match env regex adapter s = ((re_match env regex (rule_host (ms_meta s)), adapter), s)"

definition domain_wildcard_match :: "string \<Rightarrow> string \<Rightarrow> mstate \<Rightarrow> match_result" where
  "domain_wildcard_match pat adapter s = ((wildcard_match pat (rule_host (ms_meta s)), adapter), s)"

definition geosite_match_domain :: "rule_env \<Rightarrow> string \<Rightarrow> string \<Rightarrow> bool" where
  "geosite_match_domain env country domain =
     (if length domain = 0 then False
      else (case geosite_matcher env country of None \<Rightarrow> False | Some f \<Rightarrow> f domain))"

definition geosite_match :: "rule_env \<Rightarrow> string \<Rightarrow> string \<Rightarrow> mstate \<Rightarrow> match_result" where
  "geosite_match env country adapter s =
     ((geosite_match_domain env country (rule_host (ms_meta s)), adapter), s)"

text \<open>The prologue shared by the IP rules: resolve first, then pick the address.\<close>

definition ip_rule_state :: "helper \<Rightarrow> bool \<Rightarrow> bool \<Rightarrow> mstate \<Rightarrow> mstate" where
  "ip_rule_state h no_resolve is_src s =
     (if \<not> no_resolve \<and> \<not> is_src then call_opt (resolve_ip h) s else s)"

definition ip_rule_addr :: "bool \<Rightarrow> mstate \<Rightarrow> addr" where
  "ip_rule_addr is_src s = (if is_src then m_src_ip (ms_meta s) else m_dst_ip (ms_meta s))"

definition is_lan :: "addr \<Rightarrow> bool" where
  "is_lan ip = (addr_is_private ip \<or> addr_is_unspecified ip \<or> addr_is_loopback ip \<or>
     addr_is_multicast ip \<or> addr_is_link_local_unicast ip)"

definition geo_codes :: "bool \<Rightarrow> mstate \<Rightarrow> string list option" where
  "geo_codes is_src s = (if is_src then m_src_geoip (ms_meta s) else m_dst_geoip (ms_meta s))"

definition set_geo_codes :: "bool \<Rightarrow> string list option \<Rightarrow> mstate \<Rightarrow> mstate" where
  "set_geo_codes is_src codes s =
     (if is_src then upd_meta (\<lambda>m. m\<lparr>m_src_geoip := codes\<rparr>) s
      else upd_meta (\<lambda>m. m\<lparr>m_dst_geoip := codes\<rparr>) s)"

definition codes_list :: "string list option \<Rightarrow> string list" where
  "codes_list c = (case c of None \<Rightarrow> [] | Some xs \<Rightarrow> xs)"

text \<open>
  \<open>LookupCode\<close> returns a non-nil slice, so after a query the cached codes are \<open>Some\<close>. Appending a
  country to the cache makes it non-nil as well.
\<close>

definition geoip_match :: "rule_env \<Rightarrow> helper \<Rightarrow> string \<Rightarrow> string \<Rightarrow> bool \<Rightarrow> bool \<Rightarrow> mstate \<Rightarrow> match_result" where
  "geoip_match env h country adapter no_resolve is_src s0 =
     (let s = ip_rule_state h no_resolve is_src s0; ip = ip_rule_addr is_src s in
      if \<not> addr_valid ip then ((False, []), s)
      else if country = ''lan'' then ((is_lan ip, adapter), s)
      else if geodata_mode env then
        (if country \<in> set (codes_list (geo_codes is_src s)) then ((True, adapter), s)
         else (case geoip_matcher env country of
                 None \<Rightarrow> ((False, []), s)
               | Some f \<Rightarrow>
                   (if f ip
                    then ((True, adapter),
                          set_geo_codes is_src (Some (codes_list (geo_codes is_src s) @ [country])) s)
                    else ((False, adapter), s))))
      else (case geo_codes is_src s of
              Some codes \<Rightarrow> ((country \<in> set codes, adapter), s)
            | None \<Rightarrow>
                (let codes = lookup_code env (addr_slice ip); s' = set_geo_codes is_src (Some codes) s in
                 if country \<in> set codes then ((True, adapter), s') else ((False, []), s'))))"

definition geoip_match_ip :: "rule_env \<Rightarrow> string \<Rightarrow> addr \<Rightarrow> bool" where
  "geoip_match_ip env country ip =
     (if \<not> addr_valid ip then False
      else if country = ''lan'' then is_lan ip
      else if geodata_mode env then
        (case geoip_matcher env country of None \<Rightarrow> False | Some f \<Rightarrow> f ip)
      else country \<in> set (lookup_code env (addr_slice ip)))"

definition dns_fallback_match_ip :: "rule_env \<Rightarrow> string \<Rightarrow> addr \<Rightarrow> bool" where
  "dns_fallback_match_ip env country ip =
     (if \<not> addr_valid ip then False
      else if is_lan ip then False
      else if country = ''lan'' then \<not> is_lan ip
      else if geodata_mode env then
        (case geoip_matcher env country of None \<Rightarrow> False | Some f \<Rightarrow> \<not> f ip)
      else country \<notin> set (lookup_code env (addr_slice ip)))"

definition asn_match :: "rule_env \<Rightarrow> helper \<Rightarrow> string \<Rightarrow> string \<Rightarrow> bool \<Rightarrow> bool \<Rightarrow> mstate \<Rightarrow> match_result" where
  "asn_match env h asn_no adapter no_resolve is_src s0 =
     (let s = ip_rule_state h no_resolve is_src s0; ip = ip_rule_addr is_src s in
      if \<not> addr_valid ip then ((False, []), s)
      else
        (let (asn, aso) = lookup_asn env (addr_slice ip);
             text = asn @ '' '' @ aso;
             s' = (if is_src then upd_meta (\<lambda>m. m\<lparr>m_src_ipasn := text\<rparr>) s
                   else upd_meta (\<lambda>m. m\<lparr>m_dst_ipasn := text\<rparr>) s)
         in ((asn_no = asn, adapter), s')))"

definition ipcidr_match :: "helper \<Rightarrow> net_prefix \<Rightarrow> string \<Rightarrow> bool \<Rightarrow> bool \<Rightarrow> mstate \<Rightarrow> match_result" where
  "ipcidr_match h ipnet adapter is_src no_resolve s0 =
     (let s = ip_rule_state h no_resolve is_src s0; ip = ip_rule_addr is_src s in
      ((addr_valid ip \<and> prefix_contains ipnet (addr_with_zone [] ip), adapter), s))"

text \<open>
  The suffix rule compares whole bytes from the end, \<open>i\<close> from \<open>bits / 8\<close> down to 1, and then the
  low bits of the byte before them.
\<close>

fun suffix_bytes_equal :: "8 word list \<Rightarrow> 8 word list \<Rightarrow> nat \<Rightarrow> nat \<Rightarrow> bool" where
  "suffix_bytes_equal xs ys sz 0 = True"
| "suffix_bytes_equal xs ys sz (Suc i) =
     (if xs ! (sz - Suc i) \<noteq> ys ! (sz - Suc i) then False else suffix_bytes_equal xs ys sz i)"

definition ipsuffix_match ::
  "helper \<Rightarrow> 8 word list \<Rightarrow> nat \<Rightarrow> string \<Rightarrow> bool \<Rightarrow> bool \<Rightarrow> mstate \<Rightarrow> match_result" where
  "ipsuffix_match h ip_bytes bits adapter is_src no_resolve s0 =
     (let s = ip_rule_state h no_resolve is_src s0;
          m_bytes = addr_slice (ip_rule_addr is_src s);
          sz = length m_bytes
      in if length ip_bytes \<noteq> length m_bytes then ((False, []), s)
         else if \<not> suffix_bytes_equal ip_bytes m_bytes sz (bits div 8) then ((False, []), s)
         else if bits mod 8 \<noteq> 0 \<and>
                 push_bit (8 - bits mod 8) (ip_bytes ! (sz - bits div 8 - 1)) \<noteq>
                 push_bit (8 - bits mod 8) (m_bytes ! (sz - bits div 8 - 1))
         then ((False, []), s)
         else ((True, adapter), s))"

definition port_match :: "string \<Rightarrow> rule_type \<Rightarrow> 16 word range list \<Rightarrow> mstate \<Rightarrow> match_result" where
  "port_match adapter t ranges s =
     (let target = (if t = RT_InPort then m_in_port (ms_meta s)
                    else if t = RT_SrcPort then m_src_port (ms_meta s)
                    else m_dst_port (ms_meta s))
      in ((ranges_check ranges target, adapter), s))"

definition dscp_match :: "8 word range list \<Rightarrow> string \<Rightarrow> mstate \<Rightarrow> match_result" where
  "dscp_match ranges adapter s = ((ranges_check ranges (m_dscp (ms_meta s)), adapter), s)"

definition process_match :: "rule_env \<Rightarrow> helper \<Rightarrow> string \<Rightarrow> string \<Rightarrow> rule_type \<Rightarrow> mstate \<Rightarrow> match_result" where
  "process_match env h pat adapter t s0 =
     (let s = call_opt (find_process h) s0;
          target = (if t \<in> {RT_ProcessName, RT_ProcessNameRegex, RT_ProcessNameWildcard}
                    then m_process (ms_meta s) else m_process_path (ms_meta s))
      in if t \<in> {RT_ProcessNameRegex, RT_ProcessPathRegex}
         then ((re_match env pat target, adapter), s)
         else if t \<in> {RT_ProcessNameWildcard, RT_ProcessPathWildcard}
         then ((wildcard_match (to_lower pat) (to_lower target), adapter), s)
         else ((to_lower target = to_lower pat, adapter), s))"

definition network_match :: "network \<Rightarrow> string \<Rightarrow> mstate \<Rightarrow> match_result" where
  "network_match n adapter s = ((n = m_network (ms_meta s), adapter), s)"

definition uid_match :: "helper \<Rightarrow> 32 word range list \<Rightarrow> string \<Rightarrow> mstate \<Rightarrow> match_result" where
  "uid_match h uids adapter s0 =
     (let s = call_opt (find_process h) s0 in
      if m_uid (ms_meta s) \<noteq> 0 \<and> ranges_check uids (m_uid (ms_meta s)) then ((True, adapter), s)
      else ((False, []), s))"

text \<open>The loops over the allowed values of the inbound rules.\<close>

fun any_equal :: "'a list \<Rightarrow> 'a \<Rightarrow> bool" where
  "any_equal [] x = False"
| "any_equal (y # ys) x = (if x = y then True else any_equal ys x)"

definition in_type_match :: "in_type list \<Rightarrow> string \<Rightarrow> mstate \<Rightarrow> match_result" where
  "in_type_match types adapter s =
     (if any_equal types (m_type (ms_meta s)) then ((True, adapter), s) else ((False, []), s))"

definition in_name_match :: "string list \<Rightarrow> string \<Rightarrow> mstate \<Rightarrow> match_result" where
  "in_name_match names adapter s =
     (if any_equal names (m_in_name (ms_meta s)) then ((True, adapter), s) else ((False, []), s))"

definition in_user_match :: "string list \<Rightarrow> string \<Rightarrow> mstate \<Rightarrow> match_result" where
  "in_user_match users adapter s =
     (if any_equal users (m_in_user (ms_meta s)) then ((True, adapter), s) else ((False, []), s))"

definition rematch_name_match :: "string list \<Rightarrow> string \<Rightarrow> mstate \<Rightarrow> match_result" where
  "rematch_name_match names adapter s =
     (if any_equal names (m_rematch_name (ms_meta s)) then ((True, adapter), s) else ((False, []), s))"

definition rule_set_match ::
  "rule_env \<Rightarrow> helper \<Rightarrow> string \<Rightarrow> string \<Rightarrow> bool \<Rightarrow> bool \<Rightarrow> mstate \<Rightarrow> match_result" where
  "rule_set_match env h name adapter is_src no_resolve s =
     (case rule_provider env name of
        None \<Rightarrow> ((False, []), s)
      | Some provider_match \<Rightarrow>
          (if is_src then
             (let (ok, s') = provider_match (upd_meta swap_src_dst s) (h\<lparr>resolve_ip := None\<rparr>)
              in ((ok, adapter), upd_meta swap_src_dst s'))
           else if no_resolve then
             (let (ok, s') = provider_match s (h\<lparr>resolve_ip := None\<rparr>) in ((ok, adapter), s'))
           else (let (ok, s') = provider_match s h in ((ok, adapter), s'))))"

definition final_match :: "string \<Rightarrow> mstate \<Rightarrow> match_result" where
  "final_match adapter s = ((True, adapter), s)"

fun match_basic :: "rule_env \<Rightarrow> helper \<Rightarrow> rule \<Rightarrow> mstate \<Rightarrow> match_result" where
  "match_basic env h (Domain d a) s = domain_match d a s"
| "match_basic env h (DomainSuffix d a) s = domain_suffix_match d a s"
| "match_basic env h (DomainKeyword d a) s = domain_keyword_match d a s"
| "match_basic env h (DomainRegex d a) s = domain_regex_match env d a s"
| "match_basic env h (DomainWildcard d a) s = domain_wildcard_match d a s"
| "match_basic env h (Geosite c a) s = geosite_match env c a s"
| "match_basic env h (Geoip c a nr src) s = geoip_match env h c a nr src s"
| "match_basic env h (Asn n a nr src) s = asn_match env h n a nr src s"
| "match_basic env h (Ipcidr p a src nr) s = ipcidr_match h p a src nr s"
| "match_basic env h (IpSuffix bs n p a src nr) s = ipsuffix_match h bs n a src nr s"
| "match_basic env h (Port a p t rs) s = port_match a t rs s"
| "match_basic env h (Dscp rs p a) s = dscp_match rs a s"
| "match_basic env h (ProcessRule p a t) s = process_match env h p a t s"
| "match_basic env h (NetworkType n a) s = network_match n a s"
| "match_basic env h (UidRule us p a) s = uid_match h us a s"
| "match_basic env h (InTypeRule ts a p) s = in_type_match ts a s"
| "match_basic env h (InNameRule ns a p) s = in_name_match ns a s"
| "match_basic env h (InUserRule us a p) s = in_user_match us a s"
| "match_basic env h (RematchName ns a p) s = rematch_name_match ns a s"
| "match_basic env h (RuleSetRule n a src nr) s = rule_set_match env h n a src nr s"
| "match_basic env h (MatchRule a) s = final_match a s"
| "match_basic env h (Logic p a t rs) s = ((False, []), s)"


subsection \<open>Logic rules and sub-rules\<close>

text \<open>
  A logic rule holds its parsed rules; a \<open>SUB-RULE\<close> also names an entry of the sub-rule table of
  the configuration, which is one table for all rules and so an argument here (\<open>subs\<close>). Going
  from a sub-rule to its entry is the one call that is not structural: it spends a unit of fuel,
  and running out is an outcome of its own, as is reading the first rule of an empty list.
\<close>

datatype match_stop = OutOfFuel | IndexPanic

type_synonym sub_table = "string \<Rightarrow> rule list"

definition passes :: "helper \<Rightarrow> mstate \<Rightarrow> string \<Rightarrow> bool" where
  "passes h s a =
     (a = ''PASS-RULE'' \<or> (case check_pass_rule h of None \<Rightarrow> False | Some f \<Rightarrow> f (ms_meta s) a))"

function match_rule ::
    "rule_env \<Rightarrow> sub_table \<Rightarrow> nat \<Rightarrow> helper \<Rightarrow> rule \<Rightarrow> mstate \<Rightarrow> match_stop + match_result"
  and match_or ::
    "rule_env \<Rightarrow> sub_table \<Rightarrow> nat \<Rightarrow> helper \<Rightarrow> string \<Rightarrow> rule list \<Rightarrow> mstate \<Rightarrow> match_stop + match_result"
  and match_and ::
    "rule_env \<Rightarrow> sub_table \<Rightarrow> nat \<Rightarrow> helper \<Rightarrow> string \<Rightarrow> rule list \<Rightarrow> mstate \<Rightarrow> match_stop + match_result"
  and match_sub_rules ::
    "rule_env \<Rightarrow> sub_table \<Rightarrow> nat \<Rightarrow> helper \<Rightarrow> rule list \<Rightarrow> mstate \<Rightarrow> match_stop + match_result" where
  "match_rule env subs n h r s =
     (case r of
        Logic p a t rs \<Rightarrow>
          (if t = RT_SubRules then
             (case rs of
                [] \<Rightarrow> Inl IndexPanic
              | r0 # _ \<Rightarrow>
                  (case match_rule env subs n h r0 s of
                     Inl e \<Rightarrow> Inl e
                   | Inr ((m, _), s') \<Rightarrow>
                       (if m then
                          (case n of
                             0 \<Rightarrow> Inl OutOfFuel
                           | Suc k \<Rightarrow> match_sub_rules env subs k h (subs a) s')
                        else Inr ((False, []), s'))))
           else if t = RT_NOT then
             (case rs of
                [] \<Rightarrow> Inl IndexPanic
              | r0 # _ \<Rightarrow>
                  (case match_rule env subs n h r0 s of
                     Inl e \<Rightarrow> Inl e
                   | Inr ((m, _), s') \<Rightarrow>
                       (if \<not> m then Inr ((True, a), s') else Inr ((False, []), s'))))
           else if t = RT_OR then match_or env subs n h a rs s
           else if t = RT_AND then match_and env subs n h a rs s
           else Inr ((False, []), s))
      | _ \<Rightarrow> Inr (match_basic env h r s))"
| "match_or env subs n h a [] s = Inr ((False, []), s)"
| "match_or env subs n h a (r # rs) s =
     (case match_rule env subs n h r s of
        Inl e \<Rightarrow> Inl e
      | Inr ((m, _), s') \<Rightarrow>
          (if m then Inr ((True, a), s') else match_or env subs n h a rs s'))"
| "match_and env subs n h a [] s = Inr ((True, a), s)"
| "match_and env subs n h a (r # rs) s =
     (case match_rule env subs n h r s of
        Inl e \<Rightarrow> Inl e
      | Inr ((m, _), s') \<Rightarrow>
          (if \<not> m then Inr ((False, a), s') else match_and env subs n h a rs s'))"
| "match_sub_rules env subs n h [] s = Inr ((False, []), s)"
| "match_sub_rules env subs n h (r # rs) s =
     (case match_rule env subs n h r s of
        Inl e \<Rightarrow> Inl e
      | Inr ((m, a), s1) \<Rightarrow>
          (if m then
             (case (if rule_type_of r = RT_SubRules then
                      (case n of
                         0 \<Rightarrow> Inl OutOfFuel
                       | Suc k \<Rightarrow> match_sub_rules env subs k h (subs (rule_adapter r)) s1)
                    else Inr ((m, a), s1)) of
                Inl e \<Rightarrow> Inl e
              | Inr ((m2, a2), s2) \<Rightarrow>
                  (if m2 \<and> passes h s2 a2 then match_sub_rules env subs n h rs s2
                   else Inr ((m2, a2), s2)))
           else match_sub_rules env subs n h rs s1))"
  by pat_completeness auto
termination
  by (relation "measures
      [\<lambda>x. case x of Inl (Inl (env, subs, n, h, r, s)) \<Rightarrow> n
         | Inl (Inr (env, subs, n, h, a, rs, s)) \<Rightarrow> n
         | Inr (Inl (env, subs, n, h, a, rs, s)) \<Rightarrow> n
         | Inr (Inr (env, subs, n, h, rs, s)) \<Rightarrow> n,
       \<lambda>x. case x of Inl (Inl (env, subs, n, h, r, s)) \<Rightarrow> size r
         | Inl (Inr (env, subs, n, h, a, rs, s)) \<Rightarrow> size_list size rs
         | Inr (Inl (env, subs, n, h, a, rs, s)) \<Rightarrow> size_list size rs
         | Inr (Inr (env, subs, n, h, rs, s)) \<Rightarrow> size_list size rs]") auto

declare match_rule.simps [simp del]

lemmas match_rule_Logic = match_rule.simps [where r = "Logic p a t rs" for p a t rs, simplified rule.case]

text \<open>An environment without databases and a helper without closures, for concrete runs.\<close>

definition no_helper :: helper where
  "no_helper = \<lparr>resolve_ip = None, find_process = None, check_pass_rule = None\<rparr>"

definition bare_env :: rule_env where
  "bare_env = \<lparr>re_match = (\<lambda>_ _. False), geosite_matcher = (\<lambda>_. None), geodata_mode = False,
     geoip_matcher = (\<lambda>_. None), lookup_code = (\<lambda>_. []), lookup_asn = (\<lambda>_. ([], [])),
     rule_provider = (\<lambda>_. None), prefix_string = (\<lambda>_. [])\<rparr>"

definition start_state :: "metadata \<Rightarrow> mstate" where
  "start_state m = \<lparr>ms_meta = m, ms_resolved = False, ms_attempt = False\<rparr>"

end
