(* ===== verification/Sub_Rules.thy ===== *)
theory Sub_Rules
  imports Rule_Match
begin

text \<open>
  The check of the sub-rule table (\<open>verifySubRule\<close>, \<open>verifySubRuleCircularReferences\<close> in
  \<open>config/config.go\<close>) and what it is for: a table that passes makes the mutually recursive
  matching of sub-rules terminate. The Go map is an association list with distinct keys, in the
  order an iteration happens to visit it.
\<close>

type_synonym sub_alist = "(string \<times> rule list) list"

definition sub_lookup :: "sub_alist \<Rightarrow> sub_table" where
  "sub_lookup tbl n = (case map_of tbl n of None \<Rightarrow> [] | Some rs \<Rightarrow> rs)"

subsection \<open>The check\<close>

function verify_circular :: "sub_alist \<Rightarrow> string \<Rightarrow> string list \<Rightarrow> string option"
  and verify_circular_rules ::
    "sub_alist \<Rightarrow> string \<Rightarrow> string list \<Rightarrow> nat \<Rightarrow> rule list \<Rightarrow> string option" where
  "verify_circular tbl n arr = verify_circular_rules tbl n (arr @ [n]) 0 (sub_lookup tbl n)"
| "verify_circular_rules tbl n arr i [] = None"
| "verify_circular_rules tbl n arr i (r # rs) =
     (if rule_type_of r = RT_SubRules then
        (case map_of tbl (rule_adapter r) of
           None \<Rightarrow> Some (''sub-rule['' @ nat_str i @ '':'' @ n @ ''] error: ['' @ rule_adapter r @ ''] not found'')
         | Some _ \<Rightarrow>
             (if rule_adapter r \<in> set arr then
                Some (''sub-rule error: circular references ['' @
                      str_join (arr @ [rule_adapter r]) ''->'' @ '']'')
              else (case verify_circular tbl (rule_adapter r) arr of
                      Some e \<Rightarrow> Some e
                    | None \<Rightarrow> verify_circular_rules tbl n arr (Suc i) rs)))
      else verify_circular_rules tbl n arr (Suc i) rs)"
  by pat_completeness auto
termination
proof (relation "measures
      [\<lambda>x. case x of Inl (tbl, n, arr) \<Rightarrow> card (set (map fst tbl) - set (n # arr))
         | Inr (tbl, n, arr, i, rs) \<Rightarrow> card (set (map fst tbl) - set arr),
       \<lambda>x. case x of Inl (tbl, n, arr) \<Rightarrow> Suc (length (sub_lookup tbl n))
         | Inr (tbl, n, arr, i, rs) \<Rightarrow> length rs]")
  fix tbl :: sub_alist and n arr and i :: nat and r and rs :: "rule list" and x
  assume "map_of tbl (rule_adapter r) = Some x" and "rule_adapter r \<notin> set arr"
  then have "rule_adapter r \<in> set (map fst tbl) - set arr"
    by (auto dest: map_of_SomeD simp: rev_image_eqI)
  then have "card (set (map fst tbl) - set (rule_adapter r # arr)) < card (set (map fst tbl) - set arr)"
    by (intro psubset_card_mono) auto
  then show "(Inl (tbl, rule_adapter r, arr), Inr (tbl, n, arr, i, r # rs)) \<in> measures
      [\<lambda>x. case x of Inl (tbl, n, arr) \<Rightarrow> card (set (map fst tbl) - set (n # arr))
         | Inr (tbl, n, arr, i, rs) \<Rightarrow> card (set (map fst tbl) - set arr),
       \<lambda>x. case x of Inl (tbl, n, arr) \<Rightarrow> Suc (length (sub_lookup tbl n))
         | Inr (tbl, n, arr, i, rs) \<Rightarrow> length rs]"
    by simp
qed simp_all

declare verify_circular.simps [simp del]

fun verify_names :: "sub_alist \<Rightarrow> string list \<Rightarrow> string option" where
  "verify_names tbl [] = None"
| "verify_names tbl (n # ns) =
     (case verify_circular tbl n [] of Some e \<Rightarrow> Some e | None \<Rightarrow> verify_names tbl ns)"

definition verify_sub_rule :: "sub_alist \<Rightarrow> string option" where
  "verify_sub_rule tbl = verify_names tbl (map fst tbl)"

subsection \<open>Well-formed rules\<close>

text \<open>
  What the constructors guarantee (\<open>NewNOT\<close>, \<open>NewSubRule\<close>: exactly one rule; \<open>payloadToRule\<close>:
  no sub-rule below a logic rule).
\<close>

fun wf_rule :: "rule \<Rightarrow> bool" where
  "wf_rule (Logic _ _ t rs) =
     ((t = RT_NOT \<or> t = RT_SubRules \<longrightarrow> rs \<noteq> []) \<and>
      list_all (\<lambda>r. wf_rule r \<and> rule_type_of r \<noteq> RT_SubRules) rs)"
| "wf_rule (Port _ _ t _) = (t \<noteq> RT_SubRules)"
| "wf_rule (ProcessRule _ _ t) = (t \<noteq> RT_SubRules)"
| "wf_rule _ = True"

lemma match_or_returns:
  "\<forall>r\<in>set rs. \<forall>s. returns (match_rule env subs n h r s) \<Longrightarrow>
   returns (match_or env subs n h a rs s)"
proof (induction rs arbitrary: s)
  case (Cons r rs)
  obtain m b s' where "match_rule env subs n h r s = Inr ((m, b), s')"
    using Cons.prems by (metis list.set_intros(1) prod.exhaust returns_iff)
  then show ?case using Cons by simp
qed simp

lemma match_and_returns:
  "\<forall>r\<in>set rs. \<forall>s. returns (match_rule env subs n h r s) \<Longrightarrow>
   returns (match_and env subs n h a rs s)"
proof (induction rs arbitrary: s)
  case (Cons r rs)
  obtain m b s' where "match_rule env subs n h r s = Inr ((m, b), s')"
    using Cons.prems by (metis list.set_intros(1) prod.exhaust returns_iff)
  then show ?case using Cons by simp
qed simp

lemma match_rule_not_Logic:
  "(\<forall>p a t rs. r \<noteq> Logic p a t rs) \<Longrightarrow> returns (match_rule env subs n h r s)"
  by (subst match_rule.simps) (cases r; simp)

text \<open>A rule that is not itself a sub-rule needs no fuel at all.\<close>

lemma match_rule_returns:
  "wf_rule r \<Longrightarrow> rule_type_of r \<noteq> RT_SubRules \<Longrightarrow> returns (match_rule env subs n h r s)"
proof (induction r arbitrary: s)
  case (Logic p a t rs)
  have sub: "\<forall>r\<in>set rs. \<forall>s. returns (match_rule env subs n h r s)"
    using Logic by (auto simp: list_all_iff)
  have t: "t \<noteq> RT_SubRules" using Logic.prems by simp
  show ?case
  proof (cases "t = RT_NOT")
    case True
    then obtain r0 rs' where rs: "rs = r0 # rs'" using Logic.prems by (cases rs) auto
    then obtain m b s' where "match_rule env subs n h r0 s = Inr ((m, b), s')"
      using sub by (metis list.set_intros(1) prod.exhaust returns_iff)
    then show ?thesis using True rs by (simp add: match_rule_Logic)
  next
    case False
    then show ?thesis
      using t match_or_returns [OF sub, of a s] match_and_returns [OF sub, of a s]
      by (simp add: match_rule_Logic)
  qed
qed (rule match_rule_not_Logic, simp)+

subsection \<open>Termination of sub-rule matching\<close>

definition wf_table :: "sub_alist \<Rightarrow> bool" where
  "wf_table tbl \<longleftrightarrow> distinct (map fst tbl) \<and> (\<forall>(n, rs) \<in> set tbl. \<forall>r\<in>set rs. wf_rule r)"

lemma wf_table_lookup: "wf_table tbl \<Longrightarrow> r \<in> set (sub_lookup tbl n) \<Longrightarrow> wf_rule r"
  by (auto simp: wf_table_def sub_lookup_def split: option.splits dest: map_of_SomeD)

lemma match_sub_rule_step:
  assumes "wf_rule r" and "rule_type_of r = RT_SubRules"
    and "\<And>h s. returns (match_sub_rules env subs k h (subs (rule_adapter r)) s)"
  shows "returns (match_rule env subs (Suc k) h r s)"
proof -
  obtain p a rs where r: "r = Logic p a RT_SubRules rs"
    using assms(1,2) by (cases r) (simp_all split: if_splits)
  then obtain r0 rs' where rs: "rs = r0 # rs'" using assms(1) by (cases rs) auto
  have "wf_rule r0" and "rule_type_of r0 \<noteq> RT_SubRules" using assms(1) r rs by simp_all
  then have "returns (match_rule env subs (Suc k) h r0 s)" by (rule match_rule_returns)
  then obtain m b s' where "match_rule env subs (Suc k) h r0 s = Inr ((m, b), s')"
    by (metis prod.exhaust returns_iff)
  then show ?thesis using r rs assms(3) by (simp add: match_rule_Logic)
qed

lemma card_remove_bound:
  "finite A \<Longrightarrow> x \<in> A - B \<Longrightarrow> card (A - B) \<le> Suc k \<Longrightarrow> card (A - insert x B) \<le> k"
proof -
  assume h: "finite A" "x \<in> A - B" "card (A - B) \<le> Suc k"
  have "A - insert x B = (A - B) - {x}" by auto
  then show ?thesis using h by (simp add: card_Diff_singleton)
qed

lemma verify_fuel:
  "wf_table tbl \<Longrightarrow> verify_circular tbl n arr = None \<Longrightarrow>
   card (set (map fst tbl) - set (n # arr)) \<le> k \<Longrightarrow>
   returns (match_sub_rules env (sub_lookup tbl) k h (sub_lookup tbl n) s)"
  "wf_table tbl \<Longrightarrow> verify_circular_rules tbl n arr i rs = None \<Longrightarrow>
   \<forall>r\<in>set rs. wf_rule r \<Longrightarrow> card (set (map fst tbl) - set arr) \<le> k \<Longrightarrow>
   returns (match_sub_rules env (sub_lookup tbl) k h rs s)"
proof (induction tbl n arr and tbl n arr i rs arbitrary: k h s and k h s
    rule: verify_circular_verify_circular_rules.induct)
  case (1 tbl n arr)
  have "set (arr @ [n]) = set (n # arr)" by auto
  then show ?case
    using 1 wf_table_lookup [OF 1(2)] by (simp add: verify_circular.simps)
next
  case (2 tbl n arr i)
  then show ?case by simp
next
  case (3 tbl n arr i r rs)
  show ?case
  proof (cases "rule_type_of r = RT_SubRules")
    case True
    then obtain es where es: "map_of tbl (rule_adapter r) = Some es" "rule_adapter r \<notin> set arr"
      "verify_circular tbl (rule_adapter r) arr = None" "verify_circular_rules tbl n arr (Suc i) rs = None"
      using "3.prems"(2) by (auto split: option.splits if_splits)
    have key: "rule_adapter r \<in> set (map fst tbl) - set arr"
      using es by (auto dest: map_of_SomeD simp: rev_image_eqI)
    then have "0 < card (set (map fst tbl) - set arr)" by (metis List.finite_set card_gt_0_iff empty_iff finite_Diff)
    then have "0 < k" using "3.prems"(4) by linarith
    then obtain k' where k': "k = Suc k'" by (metis gr0_implies_Suc)
    have "card (set (map fst tbl) - set (rule_adapter r # arr)) \<le> k'"
      using card_remove_bound [OF _ key] "3.prems"(4) k' by simp
    then have sub: "returns (match_sub_rules env (sub_lookup tbl) k' h
        (sub_lookup tbl (rule_adapter r)) s)" for h s
      using "3.IH"(1) True es "3.prems"(1) by simp
    have rest: "returns (match_sub_rules env (sub_lookup tbl) k h rs s)" for h s
      using "3.IH"(2) True es "3.prems" by simp
    obtain m a s1 where "match_rule env (sub_lookup tbl) k h r s = Inr ((m, a), s1)"
      using match_sub_rule_step [OF _ True sub] "3.prems"(3) k' by (metis list.set_intros(1) prod.exhaust returns_iff)
    moreover obtain m2 a2 s2 where
      "match_sub_rules env (sub_lookup tbl) k' h (sub_lookup tbl (rule_adapter r)) s1 = Inr ((m2, a2), s2)"
      using sub by (metis prod.exhaust returns_iff)
    ultimately show ?thesis using True rest k' by simp
  next
    case False
    then obtain m a s1 where "match_rule env (sub_lookup tbl) k h r s = Inr ((m, a), s1)"
      using match_rule_returns "3.prems"(3) by (metis list.set_intros(1) prod.exhaust returns_iff)
    moreover have "returns (match_sub_rules env (sub_lookup tbl) k h rs s)" for h s
      using "3.IH"(3) False "3.prems" by simp
    ultimately show ?thesis using False by simp
  qed
qed

lemma verify_names_None: "verify_names tbl ns = None \<Longrightarrow> n \<in> set ns \<Longrightarrow> verify_circular tbl n [] = None"
  by (induction ns) (auto split: option.splits)

lemma match_rule_terminates:
  assumes "verify_sub_rule tbl = None" and "wf_table tbl" and "wf_rule r"
  shows "returns (match_rule env (sub_lookup tbl) (Suc (length tbl)) h r s)"
proof (cases "rule_type_of r = RT_SubRules")
  case False
  then show ?thesis using match_rule_returns assms(3) by blast
next
  case True
  have "returns (match_sub_rules env (sub_lookup tbl) (length tbl) h
      (sub_lookup tbl (rule_adapter r)) s)" for h s
  proof (cases "rule_adapter r \<in> set (map fst tbl)")
    case in_tbl: True
    have "card (set (map fst tbl) - set [rule_adapter r]) \<le> card (set (map fst tbl))"
      by (rule card_mono) auto
    also have "\<dots> \<le> length tbl" by (metis card_length length_map)
    finally show ?thesis
      using verify_fuel(1) [OF assms(2), of "rule_adapter r" "[]"] verify_names_None in_tbl assms(1)
      by (simp add: verify_sub_rule_def)
  next
    case False
    then have "map_of tbl (rule_adapter r) = None" by (simp add: map_of_eq_None_iff)
    then have "sub_lookup tbl (rule_adapter r) = []" by (simp add: sub_lookup_def)
    then show ?thesis by simp
  qed
  then show ?thesis by (rule match_sub_rule_step [OF assms(3) True])
qed

text \<open>
  When the sub-rule table passes the check for circular references, matching any rule the
  constructors can build returns, whatever the rule, helper and state: a depth of as many
  sub-rule calls as the table has entries is always enough, and no list is read out of range.
\<close>

theorem verified_sub_rules_terminate:
  assumes "verify_sub_rule tbl = None" and "wf_table tbl" and "wf_rule r"
  shows "returns (match_rule env (sub_lookup tbl) (Suc (length tbl)) h r s)"
  using assms by (rule match_rule_terminates)

definition demo_table :: sub_alist where
  "demo_table =
     [(''a'', [Logic ''NETWORK,tcp'' ''b'' RT_SubRules [NetworkType TCP []], MatchRule ''DIRECT'']),
      (''b'', [MatchRule ''PROXY''])]"

theorem verified_sub_rules_terminate_witness:
  "returns (match_rule bare_env (sub_lookup demo_table) 3 no_helper
     (Logic ''NETWORK,tcp'' ''a'' RT_SubRules [NetworkType TCP []]) (start_state empty_metadata))"
proof -
  have v: "verify_sub_rule demo_table = None"
    by (simp add: verify_sub_rule_def demo_table_def verify_circular.simps sub_lookup_def)
  have w: "wf_table demo_table" by (simp add: wf_table_def demo_table_def)
  show ?thesis
    using verified_sub_rules_terminate [OF v w, of "Logic ''NETWORK,tcp'' ''a'' RT_SubRules [NetworkType TCP []]"
        bare_env no_helper "start_state empty_metadata"]
    by (simp add: demo_table_def eval_nat_numeral)
qed

end
