(* ===== verification/Rule_Parser.thy ===== *)
theory Rule_Parser
  imports Sub_Rules
begin

text \<open>
  From a rule line of the configuration to a rule (\<open>rules/parser.go\<close>, the \<open>New...\<close> constructors of
  \<open>rules/common\<close>, the payload parser of \<open>rules/logic/logic.go\<close>). \<open>netip.ParsePrefix\<close>, the
  regular expression compiler and the loading of the geo databases are the fields of \<open>parse_env\<close>;
  an optional string there is the error they return.
\<close>

record parse_env =
  pe_prefix :: "string \<Rightarrow> net_prefix option"
  pe_regex_err :: "string \<Rightarrow> string option"
  pe_geosite_err :: "string \<Rightarrow> string option"
  pe_geoip_init_err :: "string option"
  pe_geodata_mode :: bool
  pe_geoip_load_err :: "string \<Rightarrow> string option"
  pe_asn_init_err :: "string option"
  pe_linux :: bool

datatype parse_err = ParseFuel | ParseErr string

type_synonym parse_result = "parse_err + rule"
type_synonym parse_fn = "string \<Rightarrow> string \<Rightarrow> string \<Rightarrow> string list \<Rightarrow> parse_result"

definition err_payload :: string where
  "err_payload = ''payloadRule error''"

subsection \<open>Splitting a rule line\<close>

definition parse_params :: "string list \<Rightarrow> bool \<times> bool" where
  "parse_params params =
     (let is_src = ''src'' \<in> set params in
      (is_src, if is_src then True else ''no-resolve'' \<in> set params))"

definition trim_arr :: "string list \<Rightarrow> string list" where
  "trim_arr arr = map (str_trim (\<lambda>c. c = CHR '' '')) arr"

definition comma_types :: "string list" where
  "comma_types = [''NOT'', ''OR'', ''AND'', ''SUB-RULE'', ''DOMAIN-REGEX'', ''PROCESS-NAME-REGEX'',
     ''PROCESS-PATH-REGEX'']"

definition parse_rule_payload :: "string \<Rightarrow> bool \<Rightarrow> string \<times> string \<times> string \<times> string list" where
  "parse_rule_payload raw need_target =
     (let item = trim_arr (str_split CHR '','' raw); tp = to_upper (item ! 0) in
      if length item > 1 then
        (if tp = ''MATCH'' then (tp, [], item ! 1, [])
         else if tp \<in> set comma_types then
           (if need_target then
              (tp, str_join (drop 1 (take (length item - 1) item)) '','', item ! (length item - 1), [])
            else (tp, str_join (drop 1 item) '','', [], []))
         else
           (if length item > 2 then
              (if need_target then
                 (tp, item ! 1, item ! 2, if length item > 3 then drop 3 item else [])
               else (tp, item ! 1, [], drop 2 item))
            else (tp, item ! 1, [], [])))
      else (tp, [], [], []))"

subsection \<open>Constructors\<close>

definition new_domain :: "string \<Rightarrow> string \<Rightarrow> rule" where
  "new_domain domain adapter = Domain (to_lower domain) adapter"

definition new_domain_suffix :: "string \<Rightarrow> string \<Rightarrow> rule" where
  "new_domain_suffix sfx adapter = DomainSuffix (to_lower sfx) adapter"

definition new_domain_keyword :: "string \<Rightarrow> string \<Rightarrow> rule" where
  "new_domain_keyword keyword adapter = DomainKeyword (to_lower keyword) adapter"

definition new_domain_regex :: "parse_env \<Rightarrow> string \<Rightarrow> string \<Rightarrow> parse_result" where
  "new_domain_regex env regex adapter =
     (case pe_regex_err env regex of
        Some e \<Rightarrow> Inl (ParseErr e)
      | None \<Rightarrow> Inr (DomainRegex regex adapter))"

definition new_domain_wildcard :: "string \<Rightarrow> string \<Rightarrow> parse_result" where
  "new_domain_wildcard pat adapter = Inr (DomainWildcard (to_lower pat) adapter)"

definition new_geosite :: "parse_env \<Rightarrow> string \<Rightarrow> string \<Rightarrow> parse_result" where
  "new_geosite env country adapter =
     (case pe_geosite_err env country of
        Some e \<Rightarrow> Inl (ParseErr e)
      | None \<Rightarrow> Inr (Geosite country adapter))"

definition new_geoip :: "parse_env \<Rightarrow> string \<Rightarrow> string \<Rightarrow> bool \<Rightarrow> bool \<Rightarrow> parse_result" where
  "new_geoip env country0 adapter is_src no_resolve =
     (let country = to_lower country0; geoip = Geoip country adapter no_resolve is_src in
      if country = ''lan'' then Inr geoip
      else (case pe_geoip_init_err env of
              Some e \<Rightarrow> Inl (ParseErr e)
            | None \<Rightarrow>
                (if pe_geodata_mode env then
                   (case pe_geoip_load_err env country of
                      Some e \<Rightarrow> Inl (ParseErr e)
                    | None \<Rightarrow> Inr geoip)
                 else Inr geoip)))"

definition new_ipasn :: "parse_env \<Rightarrow> string \<Rightarrow> string \<Rightarrow> bool \<Rightarrow> bool \<Rightarrow> parse_result" where
  "new_ipasn env asn adapter is_src no_resolve =
     (case pe_asn_init_err env of
        Some e \<Rightarrow> Inl (ParseErr e)
      | None \<Rightarrow> Inr (Asn asn adapter no_resolve is_src))"

definition new_ipcidr :: "parse_env \<Rightarrow> string \<Rightarrow> string \<Rightarrow> bool \<Rightarrow> bool \<Rightarrow> parse_result" where
  "new_ipcidr env s adapter is_src no_resolve =
     (case pe_prefix env s of
        None \<Rightarrow> Inl (ParseErr err_payload)
      | Some p \<Rightarrow> Inr (Ipcidr p adapter is_src no_resolve))"

definition new_ipsuffix :: "parse_env \<Rightarrow> string \<Rightarrow> string \<Rightarrow> bool \<Rightarrow> bool \<Rightarrow> parse_result" where
  "new_ipsuffix env payload adapter is_src no_resolve =
     (case pe_prefix env payload of
        None \<Rightarrow> Inl (ParseErr err_payload)
      | Some p \<Rightarrow>
          Inr (IpSuffix (addr_slice (prefix_addr p)) (prefix_bits p) payload adapter is_src no_resolve))"

definition new_port :: "string \<Rightarrow> string \<Rightarrow> rule_type \<Rightarrow> parse_result" where
  "new_port port adapter t =
     (case new_unsigned_ranges port of
        Inl e \<Rightarrow> Inl (ParseErr (err_payload @ '', '' @ e))
      | Inr ranges \<Rightarrow>
          (if length ranges = 0 then Inl (ParseErr err_payload)
           else Inr (Port adapter port t ranges)))"

definition new_dscp :: "string \<Rightarrow> string \<Rightarrow> parse_result" where
  "new_dscp dscp adapter =
     (case new_unsigned_ranges dscp of
        Inl e \<Rightarrow> Inl (ParseErr (''parse DSCP rule fail: '' @ e))
      | Inr ranges \<Rightarrow>
          (if list_ex (\<lambda>r. r_end r > 63) ranges
           then Inl (ParseErr ''DSCP couldn't be negative or exceed 63'')
           else Inr (Dscp ranges dscp adapter)))"

definition new_process :: "parse_env \<Rightarrow> string \<Rightarrow> string \<Rightarrow> rule_type \<Rightarrow> parse_result" where
  "new_process env pat adapter t =
     (if t \<in> {RT_ProcessNameRegex, RT_ProcessPathRegex} then
        (case pe_regex_err env pat of
           Some e \<Rightarrow> Inl (ParseErr e)
         | None \<Rightarrow> Inr (ProcessRule pat adapter t))
      else Inr (ProcessRule pat adapter t))"

definition new_network_type :: "string \<Rightarrow> string \<Rightarrow> parse_result" where
  "new_network_type n adapter =
     (if to_upper n = ''TCP'' then Inr (NetworkType TCP adapter)
      else if to_upper n = ''UDP'' then Inr (NetworkType UDP adapter)
      else Inl (ParseErr ''unsupported network type, only TCP/UDP''))"

definition new_uid :: "parse_env \<Rightarrow> string \<Rightarrow> string \<Rightarrow> parse_result" where
  "new_uid env o_uid adapter =
     (if \<not> pe_linux env then Inl (ParseErr ''uid rule not support this platform'')
      else (case new_unsigned_ranges o_uid of
              Inl e \<Rightarrow> Inl (ParseErr (err_payload @ '', '' @ e))
            | Inr ranges \<Rightarrow>
                (if length ranges = 0 then Inl (ParseErr err_payload)
                 else Inr (UidRule ranges o_uid adapter))))"

fun trim_nonempty :: "string \<Rightarrow> string list \<Rightarrow> string + string list" where
  "trim_nonempty err [] = Inr []"
| "trim_nonempty err (x # xs) =
     (if length (trim_space x) = 0 then Inl err
      else (case trim_nonempty err xs of
              Inl e \<Rightarrow> Inl e
            | Inr ys \<Rightarrow> Inr (trim_space x # ys)))"

fun parse_in_types :: "string list \<Rightarrow> string + in_type list" where
  "parse_in_types [] = Inr []"
| "parse_in_types (tp # tps) =
     (let utp = to_upper tp in
      if utp = ''SOCKS'' then
        map_sum id (\<lambda>ts. TYPE_SOCKS4 # TYPE_SOCKS5 # ts) (parse_in_types tps)
      else (case parse_type utp of
              Inl e \<Rightarrow> Inl e
            | Inr t \<Rightarrow> map_sum id (\<lambda>ts. t # ts) (parse_in_types tps)))"

definition new_in_type :: "string \<Rightarrow> string \<Rightarrow> parse_result" where
  "new_in_type i_types adapter =
     (case trim_nonempty ''in type couldn't be empty'' (str_split CHR ''/'' i_types) of
        Inl e \<Rightarrow> Inl (ParseErr e)
      | Inr types \<Rightarrow>
          (case parse_in_types types of
             Inl e \<Rightarrow> Inl (ParseErr e)
           | Inr tps \<Rightarrow> Inr (InTypeRule tps adapter (to_upper i_types))))"

definition new_in_user :: "string \<Rightarrow> string \<Rightarrow> parse_result" where
  "new_in_user i_users adapter =
     (case trim_nonempty ''in user couldn't be empty'' (str_split CHR ''/'' i_users) of
        Inl e \<Rightarrow> Inl (ParseErr e)
      | Inr users \<Rightarrow> Inr (InUserRule users adapter i_users))"

definition new_in_name :: "string \<Rightarrow> string \<Rightarrow> parse_result" where
  "new_in_name i_names adapter =
     (case trim_nonempty ''in name couldn't be empty'' (str_split CHR ''/'' i_names) of
        Inl e \<Rightarrow> Inl (ParseErr e)
      | Inr names \<Rightarrow> Inr (InNameRule names adapter i_names))"

definition new_rematch_name :: "string \<Rightarrow> string \<Rightarrow> parse_result" where
  "new_rematch_name i_names adapter =
     (case trim_nonempty ''rematch name couldn't be empty'' (str_split CHR ''/'' i_names) of
        Inl e \<Rightarrow> Inl (ParseErr e)
      | Inr names \<Rightarrow> Inr (RematchName names adapter i_names))"

definition new_rule_set :: "string \<Rightarrow> string \<Rightarrow> bool \<Rightarrow> bool \<Rightarrow> parse_result" where
  "new_rule_set name adapter is_src no_resolve = Inr (RuleSetRule name adapter is_src no_resolve)"

definition new_match :: "string \<Rightarrow> rule" where
  "new_match adapter = MatchRule adapter"

subsection \<open>Logic payloads\<close>

text \<open>
  \<open>format\<close> pairs the brackets of a payload with a stack of open positions and returns the pairs in
  the order of their start; \<open>findSubRuleRange\<close> keeps the outermost ones below the whole payload.
\<close>

record brange =
  b_start :: nat
  b_end :: nat

definition contain_range :: "brange \<Rightarrow> nat \<Rightarrow> nat \<Rightarrow> bool" where
  "contain_range r pre_start pre_end = (pre_start < b_start r \<and> pre_end > b_end r)"

fun format_loop :: "string \<Rightarrow> nat \<Rightarrow> nat list \<Rightarrow> brange list \<Rightarrow> string + brange list" where
  "format_loop [] i stack ranges =
     (if stack \<noteq> [] then Inl ''format error is missing )'' else Inr ranges)"
| "format_loop (c # s) i stack ranges =
     (if c = CHR ''('' then format_loop s (Suc i) (i # stack) ranges
      else if c = CHR '')'' then
        (case stack of
           [] \<Rightarrow> Inl (''missing '('' @ [CHR 0x27])
         | start # stack' \<Rightarrow> format_loop s (Suc i) stack' (ranges @ [\<lparr>b_start = start, b_end = i\<rparr>]))
      else format_loop s (Suc i) stack ranges)"

definition logic_format :: "string \<Rightarrow> string + brange list" where
  "logic_format payload =
     (case format_loop payload 0 [] [] of
        Inl e \<Rightarrow> Inl e
      | Inr ranges \<Rightarrow> Inr (sort_key b_start ranges))"

fun find_sub_loop :: "nat \<Rightarrow> brange list \<Rightarrow> brange list \<Rightarrow> brange list" where
  "find_sub_loop plen [] acc = acc"
| "find_sub_loop plen (rr # rrs) acc =
     (if b_start rr = 0 \<and> b_end rr + 1 = plen then find_sub_loop plen rrs acc
      else if list_ex (\<lambda>r. contain_range rr (b_start r) (b_end r)) acc
      then find_sub_loop plen rrs acc
      else find_sub_loop plen rrs (acc @ [rr]))"

definition find_sub_rule_range :: "string \<Rightarrow> brange list \<Rightarrow> brange list" where
  "find_sub_rule_range payload rule_ranges = find_sub_loop (length payload) rule_ranges []"

definition payload_to_rule :: "parse_fn \<Rightarrow> string \<Rightarrow> parse_result" where
  "payload_to_rule parse sub_payload =
     (case parse_rule_payload sub_payload False of
        (tp, payload, target, param) \<Rightarrow>
          (if tp = ''MATCH'' \<or> tp = ''SUB-RULE'' then
             Inl (ParseErr (''unsupported rule type ['' @ tp @ ''] on logic rule''))
           else if tp = [] then Inl (ParseErr (''['' @ sub_payload @ ''] format is error''))
           else parse tp payload target param))"

definition slice :: "string \<Rightarrow> nat \<Rightarrow> nat \<Rightarrow> string" where
  "slice s i j = take (j - i) (drop i s)"

fun parse_sub_ranges :: "parse_fn \<Rightarrow> string \<Rightarrow> brange list \<Rightarrow> parse_err + rule list" where
  "parse_sub_ranges parse payload [] = Inr []"
| "parse_sub_ranges parse payload (r # rs) =
     (case payload_to_rule parse (slice payload (b_start r + 1) (b_end r)) of
        Inl e \<Rightarrow> Inl e
      | Inr rule \<Rightarrow>
          (case parse_sub_ranges parse payload rs of
             Inl e \<Rightarrow> Inl e
           | Inr rules \<Rightarrow> Inr (rule # rules)))"

definition logic_parse_payload :: "parse_fn \<Rightarrow> string \<Rightarrow> parse_err + rule list" where
  "logic_parse_payload parse payload =
     (if \<not> has_prefix payload ''('' \<or> \<not> has_suffix payload '')''
      then Inl (ParseErr ''payload format error'')
      else (case logic_format payload of
              Inl e \<Rightarrow> Inl (ParseErr e)
            | Inr ranges \<Rightarrow> parse_sub_ranges parse payload (find_sub_rule_range payload ranges)))"

definition new_sub_rule :: "string \<Rightarrow> string \<Rightarrow> parse_fn \<Rightarrow> parse_result" where
  "new_sub_rule payload adapter parse =
     (case logic_parse_payload parse (''('' @ payload @ '')'') of
        Inl e \<Rightarrow> Inl e
      | Inr rules \<Rightarrow>
          (if length rules \<noteq> 1 then Inl (ParseErr ''Sub-Rule rule must contain one rule'')
           else Inr (Logic payload adapter RT_SubRules rules)))"

definition new_not :: "string \<Rightarrow> string \<Rightarrow> parse_fn \<Rightarrow> parse_result" where
  "new_not payload adapter parse =
     (case logic_parse_payload parse payload of
        Inl e \<Rightarrow> Inl e
      | Inr rules \<Rightarrow>
          (if length rules \<noteq> 1 then Inl (ParseErr ''not rule must contain one rule'')
           else Inr (Logic payload adapter RT_NOT rules)))"

definition new_or :: "string \<Rightarrow> string \<Rightarrow> parse_fn \<Rightarrow> parse_result" where
  "new_or payload adapter parse =
     (case logic_parse_payload parse payload of
        Inl e \<Rightarrow> Inl e
      | Inr rules \<Rightarrow> Inr (Logic payload adapter RT_OR rules))"

definition new_and :: "string \<Rightarrow> string \<Rightarrow> parse_fn \<Rightarrow> parse_result" where
  "new_and payload adapter parse =
     (case logic_parse_payload parse payload of
        Inl e \<Rightarrow> Inl e
      | Inr rules \<Rightarrow> Inr (Logic payload adapter RT_AND rules))"

subsection \<open>ParseRule\<close>

definition parse_rule_step :: "parse_env \<Rightarrow> parse_fn \<Rightarrow> parse_fn" where
  "parse_rule_step env rec tp payload target params =
     (let (is_src, no_resolve) = parse_params params in
      if tp \<noteq> ''MATCH'' \<and> payload = [] then
        Inl (ParseErr (''missing subsequent parameters: '' @ tp))
      else if tp = ''DOMAIN'' then Inr (new_domain payload target)
      else if tp = ''DOMAIN-SUFFIX'' then Inr (new_domain_suffix payload target)
      else if tp = ''DOMAIN-KEYWORD'' then Inr (new_domain_keyword payload target)
      else if tp = ''DOMAIN-REGEX'' then new_domain_regex env payload target
      else if tp = ''DOMAIN-WILDCARD'' then new_domain_wildcard payload target
      else if tp = ''GEOSITE'' then new_geosite env payload target
      else if tp = ''GEOIP'' then new_geoip env payload target is_src no_resolve
      else if tp = ''SRC-GEOIP'' then new_geoip env payload target True True
      else if tp = ''IP-ASN'' then new_ipasn env payload target is_src no_resolve
      else if tp = ''SRC-IP-ASN'' then new_ipasn env payload target True True
      else if tp = ''IP-CIDR'' \<or> tp = ''IP-CIDR6'' then new_ipcidr env payload target is_src no_resolve
      else if tp = ''SRC-IP-CIDR'' then new_ipcidr env payload target True True
      else if tp = ''IP-SUFFIX'' then new_ipsuffix env payload target is_src no_resolve
      else if tp = ''SRC-IP-SUFFIX'' then new_ipsuffix env payload target True True
      else if tp = ''SRC-PORT'' then new_port payload target RT_SrcPort
      else if tp = ''DST-PORT'' then new_port payload target RT_DstPort
      else if tp = ''IN-PORT'' then new_port payload target RT_InPort
      else if tp = ''DSCP'' then new_dscp payload target
      else if tp = ''PROCESS-NAME'' then new_process env payload target RT_ProcessName
      else if tp = ''PROCESS-PATH'' then new_process env payload target RT_ProcessPath
      else if tp = ''PROCESS-NAME-REGEX'' then new_process env payload target RT_ProcessNameRegex
      else if tp = ''PROCESS-PATH-REGEX'' then new_process env payload target RT_ProcessPathRegex
      else if tp = ''PROCESS-NAME-WILDCARD'' then new_process env payload target RT_ProcessNameWildcard
      else if tp = ''PROCESS-PATH-WILDCARD'' then new_process env payload target RT_ProcessPathWildcard
      else if tp = ''NETWORK'' then new_network_type payload target
      else if tp = ''UID'' then new_uid env payload target
      else if tp = ''IN-TYPE'' then new_in_type payload target
      else if tp = ''IN-USER'' then new_in_user payload target
      else if tp = ''IN-NAME'' then new_in_name payload target
      else if tp = ''REMATCH-NAME'' then new_rematch_name payload target
      else if tp = ''SUB-RULE'' then new_sub_rule payload target rec
      else if tp = ''AND'' then new_and payload target rec
      else if tp = ''OR'' then new_or payload target rec
      else if tp = ''NOT'' then new_not payload target rec
      else if tp = ''RULE-SET'' then new_rule_set payload target is_src no_resolve
      else if tp = ''MATCH'' then Inr (new_match target)
      else Inl (ParseErr (''unsupported rule type: '' @ tp)))"

text \<open>
  \<open>ParseRule\<close> passes itself to the logic constructors; the recursion is tied with a fuel that
  bounds the nesting of brackets, and \<open>ParseFuel\<close> is the answer of a run that is too short.
\<close>

primrec parse_rule :: "nat \<Rightarrow> parse_env \<Rightarrow> parse_fn" where
  "parse_rule 0 env = (\<lambda>tp payload target params. Inl ParseFuel)"
| "parse_rule (Suc n) env = parse_rule_step env (parse_rule n env)"

subsection \<open>The bracket ranges\<close>

lemma format_loop_ranges:
  "format_loop s i stack ranges = Inr out \<Longrightarrow>
   \<forall>p\<in>set stack. p < i \<Longrightarrow> \<forall>r\<in>set ranges. b_start r < b_end r \<and> b_end r < i \<Longrightarrow>
   \<forall>r\<in>set out. b_start r < b_end r \<and> b_end r < i + length s"
proof (induction s i stack ranges rule: format_loop.induct)
  case (1 i stack ranges)
  then show ?case by (auto split: if_splits)
next
  case (2 c s i stack ranges)
  consider "c = CHR ''(''" | "c = CHR '')''" | "c \<noteq> CHR ''(''" "c \<noteq> CHR '')''" by blast
  then show ?case
  proof cases
    case 1
    then show ?thesis using 2 by (fastforce intro: less_SucI)
  next
    case c: 2
    then obtain st stack' where stack: "stack = st # stack'"
      using 2(4) by (cases stack) auto
    show ?thesis using 2(2) [OF _ c stack] 2(4-) c stack by (fastforce intro: less_SucI)
  next
    case 3
    then show ?thesis using 2 by (fastforce intro: less_SucI)
  qed
qed

lemma logic_format_ranges:
  "logic_format p = Inr rs \<Longrightarrow> r \<in> set rs \<Longrightarrow> b_start r < b_end r \<and> b_end r < length p"
  using format_loop_ranges [of p 0 "[]" "[]"] by (auto simp: logic_format_def split: sum.splits)

lemma find_sub_loop_subset:
  "r \<in> set (find_sub_loop n rrs acc) \<Longrightarrow>
   r \<in> set acc \<or> (r \<in> set rrs \<and> \<not> (b_start r = 0 \<and> b_end r + 1 = n))"
  by (induction n rrs acc rule: find_sub_loop.induct) (auto split: if_splits)

text \<open>Every sub-payload is at least three characters shorter than the bracketed text.\<close>

lemma sub_payload_shorter:
  assumes "logic_format p = Inr rs" and "r \<in> set (find_sub_rule_range p rs)"
  shows "length (slice p (b_start r + 1) (b_end r)) + 3 \<le> length p"
proof -
  have "r \<in> set rs" "\<not> (b_start r = 0 \<and> b_end r + 1 = length p)"
    using assms(2) find_sub_loop_subset [of r "length p" rs "[]"] by (auto simp: find_sub_rule_range_def)
  then have "b_start r < b_end r" "b_end r < length p" "b_start r \<noteq> 0 \<or> b_end r + 1 \<noteq> length p"
    using logic_format_ranges [OF assms(1)] by auto
  then show ?thesis by (auto simp: slice_def)
qed

lemma length_str_trim: "length (str_trim P s) \<le> length s"
proof -
  have "length (dropWhile P xs) \<le> length xs" for xs :: string by (rule length_dropWhile_le)
  then show ?thesis unfolding str_trim_def by (metis length_rev le_trans)
qed

lemma length_join_trim: "length (str_join (trim_arr ps) sep) \<le> length (str_join ps sep)"
proof (induction ps sep rule: str_join.induct)
  case (3 p q ps sep)
  then show ?case using length_str_trim [of _ p] by (simp add: trim_arr_def add_mono)
qed (simp_all add: trim_arr_def length_str_trim)

lemma length_join_drop: "length (str_join (drop 1 ps) sep) \<le> length (str_join ps sep)"
  by (induction ps sep rule: str_join.induct) auto

lemma parse_rule_payload_shorter:
  "parse_rule_payload raw False = (tp, payload, target, params) \<Longrightarrow> length payload \<le> length raw"
proof -
  let ?item = "trim_arr (str_split CHR '','' raw)"
  assume h: "parse_rule_payload raw False = (tp, payload, target, params)"
  have all: "length (str_join ?item '','') \<le> length raw"
    using length_join_trim [of "str_split CHR '','' raw" "'',''"] by (simp add: str_join_split)
  have one: "length (?item ! 1) \<le> length raw" if "1 < length ?item"
    using length_str_join_ge [OF nth_mem [OF that], of "'',''"] all by simp
  show ?thesis
    using h one le_trans [OF length_join_drop all]
    by (auto simp: parse_rule_payload_def Let_def split: if_splits)
qed

subsection \<open>Enough fuel\<close>

definition agree_below :: "nat \<Rightarrow> parse_fn \<Rightarrow> parse_fn \<Rightarrow> bool" where
  "agree_below n f g \<longleftrightarrow> (\<forall>tp payload target params. length payload < n \<longrightarrow>
     f tp payload target params = g tp payload target params \<and>
     f tp payload target params \<noteq> Inl ParseFuel)"

lemma payload_to_rule_agree:
  "agree_below n f g \<Longrightarrow> length p < n \<Longrightarrow>
   payload_to_rule f p = payload_to_rule g p \<and> payload_to_rule f p \<noteq> Inl ParseFuel"
  using parse_rule_payload_shorter [of p]
  by (auto simp: payload_to_rule_def agree_below_def split: prod.splits) (metis le_less_trans)+

lemma parse_sub_ranges_agree:
  "agree_below n f g \<Longrightarrow> \<forall>r\<in>set rs. length (slice p (b_start r + 1) (b_end r)) < n \<Longrightarrow>
   parse_sub_ranges f p rs = parse_sub_ranges g p rs \<and> parse_sub_ranges f p rs \<noteq> Inl ParseFuel"
  by (induction rs) (auto dest: payload_to_rule_agree split: sum.splits)

lemma logic_parse_payload_agree:
  assumes "agree_below n f g" and "length p \<le> n + 2"
  shows "logic_parse_payload f p = logic_parse_payload g p \<and> logic_parse_payload f p \<noteq> Inl ParseFuel"
proof (cases "logic_format p")
  case (Inr rs)
  have "\<forall>r\<in>set (find_sub_rule_range p rs). length (slice p (b_start r + 1) (b_end r)) < n"
    using sub_payload_shorter [OF Inr] assms(2) by fastforce
  from parse_sub_ranges_agree [OF assms(1) this] show ?thesis
    using Inr by (auto simp: logic_parse_payload_def)
qed (simp add: logic_parse_payload_def)

lemmas logic_ctor_defs = new_sub_rule_def new_not_def new_or_def new_and_def

lemma logic_ctors_agree:
  assumes "agree_below (length p) f g"
  shows "new_sub_rule p a f = new_sub_rule p a g \<and> new_sub_rule p a f \<noteq> Inl ParseFuel"
    and "new_not p a f = new_not p a g \<and> new_not p a f \<noteq> Inl ParseFuel"
    and "new_or p a f = new_or p a g \<and> new_or p a f \<noteq> Inl ParseFuel"
    and "new_and p a f = new_and p a g \<and> new_and p a f \<noteq> Inl ParseFuel"
  using logic_parse_payload_agree [OF assms, of p] logic_parse_payload_agree [OF assms, of "''('' @ p @ '')''"]
  by (auto simp: logic_ctor_defs split: sum.splits if_splits)

lemmas plain_ctor_defs = new_domain_regex_def new_domain_wildcard_def new_geosite_def new_geoip_def
  new_ipasn_def new_ipcidr_def new_ipsuffix_def new_port_def new_dscp_def new_process_def
  new_network_type_def new_uid_def new_in_type_def new_in_user_def new_in_name_def
  new_rematch_name_def new_rule_set_def

lemma plain_ctors_no_fuel [simp]:
  "new_domain_regex env p a \<noteq> Inl ParseFuel" "new_domain_wildcard p a \<noteq> Inl ParseFuel"
  "new_geosite env p a \<noteq> Inl ParseFuel" "new_geoip env p a b c \<noteq> Inl ParseFuel"
  "new_ipasn env p a b c \<noteq> Inl ParseFuel" "new_ipcidr env p a b c \<noteq> Inl ParseFuel"
  "new_ipsuffix env p a b c \<noteq> Inl ParseFuel" "new_port p a t \<noteq> Inl ParseFuel"
  "new_dscp p a \<noteq> Inl ParseFuel" "new_process env p a t \<noteq> Inl ParseFuel"
  "new_network_type p a \<noteq> Inl ParseFuel" "new_uid env p a \<noteq> Inl ParseFuel"
  "new_in_type p a \<noteq> Inl ParseFuel" "new_in_user p a \<noteq> Inl ParseFuel"
  "new_in_name p a \<noteq> Inl ParseFuel" "new_rematch_name p a \<noteq> Inl ParseFuel"
  "new_rule_set p a b c \<noteq> Inl ParseFuel"
  by (auto simp: plain_ctor_defs Let_def split: option.splits sum.splits)

lemma parse_rule_step_agree:
  assumes "agree_below (length p) f g"
  shows "parse_rule_step env f tp p target params = parse_rule_step env g tp p target params"
    and "parse_rule_step env f tp p target params \<noteq> Inl ParseFuel"
  unfolding parse_rule_step_def using logic_ctors_agree [OF assms, of target]
  by (cases "parse_params params"; simp)+

lemma parse_rule_agree: "agree_below n (parse_rule n env) (parse_rule (n + k) env)"
proof (induction n arbitrary: k)
  case 0
  then show ?case by (simp add: agree_below_def)
next
  case (Suc n)
  show ?case
    unfolding agree_below_def
  proof (intro allI impI)
    fix tp payload target :: string and params assume "length payload < Suc n"
    then have "agree_below (length payload) (parse_rule n env) (parse_rule (n + k) env)"
      using Suc.IH [of k] unfolding agree_below_def by (meson less_Suc_eq_le less_le_trans)
    then show "parse_rule (Suc n) env tp payload target params =
        parse_rule (Suc n + k) env tp payload target params \<and>
        parse_rule (Suc n) env tp payload target params \<noteq> Inl ParseFuel"
      using parse_rule_step_agree by simp
  qed
qed

text \<open>
  Parsing a rule ends, however its logic payloads are nested: a fuel above the length of the
  payload always gives an answer (a rule or one of the code's errors), and more never changes it.
\<close>

theorem parse_rule_enough_fuel:
  assumes "length payload < n"
  shows "parse_rule n env tp payload target params \<noteq> Inl ParseFuel \<and>
    (\<forall>k. parse_rule (n + k) env tp payload target params = parse_rule n env tp payload target params)"
  using parse_rule_agree [of n env] assms by (auto simp: agree_below_def)

definition demo_parse_env :: parse_env where
  "demo_parse_env = \<lparr>pe_prefix = (\<lambda>s. if s = ''10.0.0.0/8'' then Some (Pfx (V4 0x0A000000) 8) else None),
     pe_regex_err = (\<lambda>s. None), pe_geosite_err = (\<lambda>s. Some ''no database''),
     pe_geoip_init_err = None, pe_geodata_mode = False, pe_geoip_load_err = (\<lambda>s. None),
     pe_asn_init_err = None, pe_linux = True\<rparr>"

lemma demo_rule_parses:
  "parse_rule 40 demo_parse_env ''AND'' ''((DOMAIN,a.b),(NOT,((NETWORK,UDP))))'' ''P'' [] =
     Inr (Logic ''((DOMAIN,a.b),(NOT,((NETWORK,UDP))))'' ''P'' RT_AND
       [Domain ''a.b'' [], Logic ''((NETWORK,UDP))'' [] RT_NOT [NetworkType UDP []]])"
  by code_simp

theorem parse_rule_enough_fuel_witness:
  "parse_rule 40 demo_parse_env ''AND'' ''((DOMAIN,a.b),(NOT,((NETWORK,UDP))))'' ''P'' [] \<noteq> Inl ParseFuel"
  using parse_rule_enough_fuel [of "''((DOMAIN,a.b),(NOT,((NETWORK,UDP))))''" 40 demo_parse_env
      "''AND''" "''P''" "[]"] by simp

subsection \<open>Parsed rules are well formed\<close>

definition fits :: "bool \<Rightarrow> string \<Rightarrow> rule \<Rightarrow> bool" where
  "fits sub target r \<longleftrightarrow> wf_rule r \<and> (rule_type_of r = RT_SubRules \<longleftrightarrow> sub) \<and> rule_adapter r = target"

definition result_ok :: "(rule \<Rightarrow> bool) \<Rightarrow> parse_result \<Rightarrow> bool" where
  "result_ok P x \<longleftrightarrow> (\<forall>r. x = Inr r \<longrightarrow> P r)"

lemma result_ok_simps [simp]:
  "result_ok P (Inl e)" "result_ok P (Inr r) = P r"
  "result_ok P (if c then x else y) = (if c then result_ok P x else result_ok P y)"
  by (auto simp: result_ok_def)

lemma plain_ctors_fit [simp]:
  "result_ok (fits False a) (new_domain_regex env p a)" "result_ok (fits False a) (new_domain_wildcard p a)"
  "result_ok (fits False a) (new_geosite env p a)" "result_ok (fits False a) (new_geoip env p a b c)"
  "result_ok (fits False a) (new_ipasn env p a b c)" "result_ok (fits False a) (new_ipcidr env p a b c)"
  "result_ok (fits False a) (new_ipsuffix env p a b c)"
  "t \<noteq> RT_SubRules \<Longrightarrow> result_ok (fits False a) (new_port p a t)"
  "result_ok (fits False a) (new_dscp p a)"
  "t \<noteq> RT_SubRules \<Longrightarrow> result_ok (fits False a) (new_process env p a t)"
  "result_ok (fits False a) (new_network_type p a)" "result_ok (fits False a) (new_uid env p a)"
  "result_ok (fits False a) (new_in_type p a)" "result_ok (fits False a) (new_in_user p a)"
  "result_ok (fits False a) (new_in_name p a)" "result_ok (fits False a) (new_rematch_name p a)"
  "result_ok (fits False a) (new_rule_set p a b c)"
  "fits False a (new_domain p a)" "fits False a (new_domain_suffix p a)"
  "fits False a (new_domain_keyword p a)" "fits False a (new_match a)"
  by (auto simp: plain_ctor_defs new_domain_def new_domain_suffix_def new_domain_keyword_def
      new_match_def fits_def Let_def split: option.splits sum.splits)

definition parses_fit :: "parse_fn \<Rightarrow> bool" where
  "parses_fit f \<longleftrightarrow> (\<forall>tp p target params. result_ok (fits (tp = ''SUB-RULE'') target) (f tp p target params))"

lemma payload_to_rule_fits:
  "parses_fit f \<Longrightarrow> payload_to_rule f p = Inr r \<Longrightarrow> wf_rule r \<and> rule_type_of r \<noteq> RT_SubRules"
  by (auto simp: payload_to_rule_def parses_fit_def result_ok_def fits_def split: prod.splits if_splits)

lemma parse_sub_ranges_fit:
  "parses_fit f \<Longrightarrow> parse_sub_ranges f p rs = Inr out \<Longrightarrow>
   list_all (\<lambda>r. wf_rule r \<and> rule_type_of r \<noteq> RT_SubRules) out"
  by (induction rs arbitrary: out) (auto dest: payload_to_rule_fits split: sum.splits)

lemma logic_ctors_fit:
  assumes "parses_fit f"
  shows "result_ok (fits True a) (new_sub_rule p a f)" "result_ok (fits False a) (new_not p a f)"
    "result_ok (fits False a) (new_or p a f)" "result_ok (fits False a) (new_and p a f)"
  using parse_sub_ranges_fit [OF assms]
  by (auto simp: logic_ctor_defs logic_parse_payload_def fits_def split: sum.splits if_splits)

lemma parse_rule_step_fits:
  assumes "parses_fit f"
  shows "result_ok (fits (tp = ''SUB-RULE'') target) (parse_rule_step env f tp p target params)"
  unfolding parse_rule_step_def using logic_ctors_fit [OF assms, of target]
  by (cases "parse_params params") simp

lemma parse_rule_fits:
  "result_ok (fits (tp = ''SUB-RULE'') target) (parse_rule n env tp payload target params)"
proof -
  have "parses_fit (parse_rule n env)"
  proof (induction n)
    case (Suc n)
    show ?case unfolding parses_fit_def using parse_rule_step_fits [OF Suc] by simp
  qed (simp add: parses_fit_def)
  then show ?thesis by (simp add: parses_fit_def)
qed

text \<open>
  A rule that parses is well formed (a NOT and a SUB-RULE have an operand, no SUB-RULE is
  nested below a logic operator), sends its traffic to the target written in its line, and is a
  sub-rule exactly when its type says so.
\<close>

theorem parsed_rules_fit:
  assumes "parse_rule n env tp payload target params = Inr r"
  shows "wf_rule r \<and> rule_adapter r = target \<and> (rule_type_of r = RT_SubRules \<longleftrightarrow> tp = ''SUB-RULE'')"
  using parse_rule_fits [of tp target n env payload params] assms by (simp add: fits_def)

theorem parsed_rules_fit_witness:
  "wf_rule (Logic ''((DOMAIN,a.b),(NOT,((NETWORK,UDP))))'' ''P'' RT_AND
     [Domain ''a.b'' [], Logic ''((NETWORK,UDP))'' [] RT_NOT [NetworkType UDP []]])"
  using parsed_rules_fit [OF demo_rule_parses] by blast

end
