(* ===== verification/Config_Rules.thy ===== *)
theory Config_Rules
  imports Rule_Parser
begin

text \<open>
  The rule section of the configuration (\<open>config/config.go\<close>: \<open>parseRules\<close>, \<open>parseSubRules\<close>) and the
  wrapper of the top-level rules that can be switched off and counts its hits
  (\<open>rules/wrapper/wrapper.go\<close>). A Go map that is ranged over is a list of pairs, in the order of the
  iteration; a map that is only looked up is a predicate on its keys. The clock is an argument
  of the operations that read it.
\<close>

subsection \<open>The rule wrapper\<close>

record rule_wrapper =
  rw_rule :: rule
  rw_disabled :: bool
  rw_hit_count :: "64 word"
  rw_hit_at :: int
  rw_miss_count :: "64 word"
  rw_miss_at :: int

datatype top_rule = Bare rule | Wrapped rule_wrapper

definition new_rule_wrapper :: "rule \<Rightarrow> rule_wrapper" where
  "new_rule_wrapper r = \<lparr>rw_rule = r, rw_disabled = False, rw_hit_count = 0, rw_hit_at = 0,
     rw_miss_count = 0, rw_miss_at = 0\<rparr>"

definition set_disabled :: "bool \<Rightarrow> rule_wrapper \<Rightarrow> rule_wrapper" where
  "set_disabled v w = w\<lparr>rw_disabled := v\<rparr>"

definition wrapper_hit :: "int \<Rightarrow> rule_wrapper \<Rightarrow> rule_wrapper" where
  "wrapper_hit now w = w\<lparr>rw_hit_count := rw_hit_count w + 1, rw_hit_at := now\<rparr>"

definition wrapper_miss :: "int \<Rightarrow> rule_wrapper \<Rightarrow> rule_wrapper" where
  "wrapper_miss now w = w\<lparr>rw_miss_count := rw_miss_count w + 1, rw_miss_at := now\<rparr>"

definition wrapper_match ::
  "rule_env \<Rightarrow> sub_table \<Rightarrow> nat \<Rightarrow> int \<Rightarrow> helper \<Rightarrow> rule_wrapper \<Rightarrow> mstate \<Rightarrow>
   match_stop + match_result \<times> rule_wrapper" where
  "wrapper_match env subs n now h w s =
     (if rw_disabled w then Inr (((False, []), s), w)
      else (case match_rule env subs n h (rw_rule w) s of
              Inl e \<Rightarrow> Inl e
            | Inr ((ok, adapter), s') \<Rightarrow>
                Inr (((ok, adapter), s'), if ok then wrapper_hit now w else wrapper_miss now w)))"

fun inner_rule :: "top_rule \<Rightarrow> rule" where
  "inner_rule (Bare r) = r"
| "inner_rule (Wrapped w) = rw_rule w"

fun top_match ::
  "rule_env \<Rightarrow> sub_table \<Rightarrow> nat \<Rightarrow> int \<Rightarrow> helper \<Rightarrow> top_rule \<Rightarrow> mstate \<Rightarrow>
   match_stop + match_result \<times> top_rule" where
  "top_match env subs n now h (Bare r) s =
     map_sum id (\<lambda>x. (x, Bare r)) (match_rule env subs n h r s)"
| "top_match env subs n now h (Wrapped w) s =
     map_sum id (\<lambda>(x, w'). (x, Wrapped w')) (wrapper_match env subs n now h w s)"

subsection \<open>parseRules\<close>

text \<open>
  \<open>ParseRule\<close> with a fuel above the length of its payload, which is always enough
  (a property of the rule parser), so the first branch is never taken.
\<close>

definition parse_rule_total :: "parse_env \<Rightarrow> string \<Rightarrow> string \<Rightarrow> string \<Rightarrow> string list \<Rightarrow> string + rule" where
  "parse_rule_total env tp payload target params =
     (case parse_rule (Suc (length payload)) env tp payload target params of
        Inl ParseFuel \<Rightarrow> Inl []
      | Inl (ParseErr e) \<Rightarrow> Inl e
      | Inr r \<Rightarrow> Inr r)"

definition line_err :: "string \<Rightarrow> nat \<Rightarrow> string \<Rightarrow> string \<Rightarrow> string" where
  "line_err fmt idx line msg =
     fmt @ ''['' @ nat_str idx @ ''] ['' @ line @ ''] error: '' @ msg"

record rules_env =
  rv_parse :: parse_env
  rv_proxies :: "string \<Rightarrow> bool"
  rv_providers :: "string \<Rightarrow> bool"

definition target_err :: "rules_env \<Rightarrow> (string \<Rightarrow> bool) \<Rightarrow> string \<Rightarrow> string \<Rightarrow> string option" where
  "target_err v sub_names tp target =
     (if target = [] then Some ''format invalid''
      else if \<not> rv_proxies v target then
        (if tp \<noteq> ''SUB-RULE'' then Some (''proxy ['' @ target @ ''] not found'')
         else if \<not> sub_names target then Some (''sub-rule ['' @ target @ ''] not found'')
         else None)
      else None)"

definition parse_rule_line :: "rules_env \<Rightarrow> (string \<Rightarrow> bool) \<Rightarrow> string \<Rightarrow> string + rule" where
  "parse_rule_line v sub_names line =
     (case parse_rule_payload line True of
        (tp, payload, target, params) \<Rightarrow>
          (case target_err v sub_names tp target of
             Some e \<Rightarrow> Inl e
           | None \<Rightarrow>
               (case parse_rule_total (rv_parse v) tp payload target params of
                  Inl e \<Rightarrow> Inl e
                | Inr parsed \<Rightarrow>
                    (case List.find (\<lambda>name. \<not> rv_providers v name) (rule_provider_names parsed) of
                       Some name \<Rightarrow> Inl (''rule set ['' @ name @ ''] not found'')
                     | None \<Rightarrow> Inr parsed))))"

fun parse_rules_from ::
  "rules_env \<Rightarrow> (string \<Rightarrow> bool) \<Rightarrow> string \<Rightarrow> nat \<Rightarrow> string list \<Rightarrow> string + top_rule list" where
  "parse_rules_from v sub_names fmt idx [] = Inr []"
| "parse_rules_from v sub_names fmt idx (line # ls) =
     (case parse_rule_line v sub_names line of
        Inl e \<Rightarrow> Inl (line_err fmt idx line e)
      | Inr parsed \<Rightarrow>
          (case parse_rules_from v sub_names fmt (Suc idx) ls of
             Inl e \<Rightarrow> Inl e
           | Inr rs \<Rightarrow>
               Inr ((if fmt = ''rules'' then Wrapped (new_rule_wrapper parsed) else Bare parsed) # rs)))"

definition parse_rules :: "rules_env \<Rightarrow> (string \<Rightarrow> bool) \<Rightarrow> string \<Rightarrow> string list \<Rightarrow> string + top_rule list" where
  "parse_rules v sub_names fmt ls = parse_rules_from v sub_names fmt 0 ls"

subsection \<open>parseSubRules\<close>

fun parse_sub_entries :: "rules_env \<Rightarrow> (string \<Rightarrow> bool) \<Rightarrow> (string \<times> string list) list \<Rightarrow> string + sub_alist" where
  "parse_sub_entries v sub_names [] = Inr []"
| "parse_sub_entries v sub_names ((name, raw) # rest) =
     (if length name = 0 then Inl ''sub-rule name is empty''
      else (case parse_rules v sub_names (''sub-rules['' @ name @ '']'') raw of
              Inl e \<Rightarrow> Inl e
            | Inr rules \<Rightarrow>
                (case parse_sub_entries v sub_names rest of
                   Inl e \<Rightarrow> Inl e
                 | Inr tbl \<Rightarrow> Inr ((name, map inner_rule rules) # tbl))))"

definition parse_sub_rules :: "rules_env \<Rightarrow> (string \<times> string list) list \<Rightarrow> string + sub_alist" where
  "parse_sub_rules v cfg =
     (case parse_sub_entries v (\<lambda>n. n \<in> fst ` set cfg) cfg of
        Inl e \<Rightarrow> Inl e
      | Inr tbl \<Rightarrow> (case verify_sub_rule tbl of Some e \<Rightarrow> Inl e | None \<Rightarrow> Inr tbl))"

subsection \<open>What a parsed line guarantees\<close>

lemma parse_rule_total_complete:
  "parse_rule_total env tp p target params = Inr r \<longleftrightarrow>
   parse_rule (Suc (length p)) env tp p target params = Inr r"
  by (simp add: parse_rule_total_def split: sum.splits parse_err.splits)

lemma parsed_total_fits:
  "parse_rule_total env tp p target params = Inr r \<Longrightarrow> fits (tp = ''SUB-RULE'') target r"
  using parse_rule_fits [of tp target "Suc (length p)" env p params]
  by (simp add: parse_rule_total_complete)

definition line_ok :: "rules_env \<Rightarrow> (string \<Rightarrow> bool) \<Rightarrow> rule \<Rightarrow> bool" where
  "line_ok v sub_names r \<longleftrightarrow> wf_rule r \<and> rule_adapter r \<noteq> [] \<and>
     (rv_proxies v (rule_adapter r) \<or> rule_type_of r = RT_SubRules \<and> sub_names (rule_adapter r)) \<and>
     list_all (rv_providers v) (rule_provider_names r)"

lemma parse_rule_line_ok: "parse_rule_line v sub_names line = Inr r \<Longrightarrow> line_ok v sub_names r"
  by (auto simp: parse_rule_line_def line_ok_def target_err_def find_None_iff list_all_iff fits_def
      dest!: parsed_total_fits split: prod.splits option.splits sum.splits if_splits)

lemma parse_rules_from_ok:
  "parse_rules_from v sub_names fmt i ls = Inr rs \<Longrightarrow> t \<in> set rs \<Longrightarrow> line_ok v sub_names (inner_rule t)"
proof (induction ls arbitrary: i rs)
  case (Cons line ls)
  then obtain parsed rs' where "parse_rule_line v sub_names line = Inr parsed"
    and "parse_rules_from v sub_names fmt (Suc i) ls = Inr rs'"
    and "inner_rule t = parsed \<or> t \<in> set rs'"
    by (auto simp: new_rule_wrapper_def split: sum.splits if_splits)
  then show ?case using Cons.IH parse_rule_line_ok by metis
qed simp

lemma parse_sub_entries_ok:
  "parse_sub_entries v sub_names cfg = Inr tbl \<Longrightarrow>
   map fst tbl = map fst cfg \<and> (\<forall>n rs r. (n, rs) \<in> set tbl \<longrightarrow> r \<in> set rs \<longrightarrow> line_ok v sub_names r)"
proof (induction cfg arbitrary: tbl)
  case (Cons e cfg)
  obtain name raw where e: "e = (name, raw)" by (cases e)
  with Cons.prems obtain rules tbl' where "parse_rules v sub_names (''sub-rules['' @ name @ '']'') raw = Inr rules"
    and rest: "parse_sub_entries v sub_names cfg = Inr tbl'" and tbl: "tbl = (name, map inner_rule rules) # tbl'"
    by (auto split: sum.splits if_splits)
  then have "\<forall>t\<in>set rules. line_ok v sub_names (inner_rule t)"
    using parse_rules_from_ok unfolding parse_rules_def by blast
  then show ?case using Cons.IH [OF rest] e tbl by auto
qed simp

lemma top_match_returns:
  assumes "returns (match_rule env subs n h (inner_rule t) s)"
  shows "returns (top_match env subs n now h t s)"
  using assms by (cases t) (auto simp: wrapper_match_def returns_iff split: sum.splits)

lemma line_ok_wf: "line_ok v sub_names r \<Longrightarrow> wf_rule r"
  by (simp add: line_ok_def)

lemma parse_sub_rules_verified:
  assumes "distinct (map fst cfg)" and "parse_sub_rules v cfg = Inr tbl"
  shows "verify_sub_rule tbl = None \<and> wf_table tbl"
proof -
  have p: "parse_sub_entries v (\<lambda>n. n \<in> fst ` set cfg) cfg = Inr tbl" and "verify_sub_rule tbl = None"
    using assms(2) by (auto simp: parse_sub_rules_def split: sum.splits option.splits)
  moreover have "wf_table tbl"
    using parse_sub_entries_ok [OF p] assms(1) unfolding wf_table_def by (auto intro: line_ok_wf)
  ultimately show ?thesis by simp
qed

text \<open>
  C1: whatever the rules and sub-rules of a configuration, once \<open>parseSubRules\<close> and \<open>parseRules\<close>
  accept them, matching any rule of either section returns: a sub-rule nesting as deep as the
  section has entries is enough, the wrapper included, and no list is read out of range.
\<close>

theorem accepted_config_terminates:
  assumes "distinct (map fst cfg)" and "parse_sub_rules v cfg = Inr tbl"
    and "parse_rules v sub_names fmt ls = Inr rs" and "t \<in> set rs"
  shows "returns (top_match env (sub_lookup tbl) (Suc (length tbl)) now h t s)"
proof -
  have "wf_rule (inner_rule t)"
    using parse_rules_from_ok [OF assms(3) [unfolded parse_rules_def] assms(4)] by (rule line_ok_wf)
  with parse_sub_rules_verified [OF assms(1,2)] show ?thesis
    by (intro top_match_returns match_rule_terminates) simp_all
qed

definition demo_rules_env :: rules_env where
  "demo_rules_env = \<lparr>rv_parse = demo_parse_env, rv_proxies = (\<lambda>n. n = ''DIRECT'' \<or> n = ''P''),
     rv_providers = (\<lambda>_. False)\<rparr>"

lemma demo_sub_section:
  "parse_sub_rules demo_rules_env [(''a'', [''DOMAIN,x.y,P'', ''MATCH,DIRECT''])] =
     Inr [(''a'', [Domain ''x.y'' ''P'', MatchRule ''DIRECT''])]"
  by code_simp

lemma demo_rule_section:
  "parse_rules demo_rules_env (\<lambda>n. n = ''a'') ''rules'' [''SUB-RULE,(NETWORK,TCP),a''] =
     Inr [Wrapped (new_rule_wrapper (Logic ''(NETWORK,TCP)'' ''a'' RT_SubRules [NetworkType TCP []]))]"
  by code_simp

theorem accepted_config_terminates_witness:
  "returns (top_match bare_env (sub_lookup [(''a'', [Domain ''x.y'' ''P'', MatchRule ''DIRECT''])]) 2 7 no_helper
     (Wrapped (new_rule_wrapper (Logic ''(NETWORK,TCP)'' ''a'' RT_SubRules [NetworkType TCP []])))
     (start_state empty_metadata))"
  using accepted_config_terminates [OF _ demo_sub_section demo_rule_section,
      of _ bare_env 7 no_helper "start_state empty_metadata"]
  by (simp add: eval_nat_numeral)

text \<open>
  Every rule an accepted section holds sends its traffic somewhere: its target is a proxy of
  the configuration or, for a sub-rule only, an entry of the sub-rule section, and the rule sets
  it names exist.
\<close>

theorem accepted_rules_have_targets:
  assumes "parse_rules v sub_names fmt ls = Inr rs" and "t \<in> set rs"
  shows "(rv_proxies v (rule_adapter (inner_rule t)) \<or>
      rule_type_of (inner_rule t) = RT_SubRules \<and> sub_names (rule_adapter (inner_rule t))) \<and>
    rule_adapter (inner_rule t) \<noteq> [] \<and> list_all (rv_providers v) (rule_provider_names (inner_rule t))"
  using parse_rules_from_ok [OF assms(1) [unfolded parse_rules_def] assms(2)] by (simp add: line_ok_def)

theorem accepted_rules_have_targets_witness:
  "rule_type_of (Logic ''(NETWORK,TCP)'' ''a'' RT_SubRules [NetworkType TCP []]) = RT_SubRules"
  using accepted_rules_have_targets [OF demo_rule_section] by (simp add: demo_rules_env_def new_rule_wrapper_def)

end
