(* ===== verification/Config_Dns.thy ===== *)
theory Config_Dns
  imports Raw_Config Dns_Client Dns_Handler Config_Rules
begin

text \<open>
  The DNS section of the configuration (\<open>config/config.go\<close>: \<open>parseNameServer\<close>, \<open>parseNameServerPolicy\<close>,
  \<open>parseDomain\<close>, \<open>parseFakeIPRules\<close>, \<open>parseDNS\<close>): from texts to the configuration of the resolver and
  of the enhancer. \<open>url.Parse\<close>, \<open>URL.String\<close>, \<open>net.ParseIP\<close>, the matchers of rule sets and geo
  databases and the sets of domains and addresses are parameters. Error texts keep their start.
\<close>

subsection \<open>Name servers\<close>

record dns_url =
  du_scheme :: string
  du_host :: string
  du_path :: string
  du_user :: string
  du_fragment :: string

datatype set_behavior = BDomain | BIpCidr | BClassical

record dns_section_env =
  de_parse_url :: "string \<Rightarrow> string + dns_url"
  de_url_string :: "string \<Rightarrow> string \<Rightarrow> string \<Rightarrow> string \<Rightarrow> string"
  de_parse_addr :: "string \<Rightarrow> addr option"
  de_is_ip :: "string \<Rightarrow> bool"
  de_parse_prefix :: "string \<Rightarrow> string + net_prefix"
  de_print :: "oval \<Rightarrow> string"
  de_rule_sets :: "string \<Rightarrow> set_behavior option"
  de_rule_set :: "string \<Rightarrow> string + (string \<Rightarrow> bool)"
  de_geosite :: "string \<Rightarrow> string + (string \<Rightarrow> bool)"
  de_geoip :: "string \<Rightarrow> string + (addr \<Rightarrow> bool)"
  de_domain_set :: "string list \<Rightarrow> string \<Rightarrow> bool"
  de_cidr_set :: "string list \<Rightarrow> string + (addr \<Rightarrow> bool)"
  de_parse_rule :: parse_env
  de_rule_env :: rule_env

definition host_with_default_port :: "string \<Rightarrow> string \<Rightarrow> string + string" where
  "host_with_default_port host def_port =
     (case split_host_port host of
        Inr (hostname, port) \<Rightarrow> Inr (join_host_port hostname port)
      | Inl e \<Rightarrow>
          (if \<not> str_contains e ''missing port in address'' then Inl e
           else attempt (split_host_port (host @ '':'' @ def_port)) (\<lambda>(hostname, port). Inr (join_host_port hostname port))))"

definition parse_pure_dns_server :: "dns_section_env \<Rightarrow> string \<Rightarrow> string" where
  "parse_pure_dns_server env server =
     (if server = ''system'' then ''system://''
      else (case de_parse_addr env server of
              None \<Rightarrow> (if str_contains server ''://'' then server else ''udp://'' @ server)
            | Some ip \<Rightarrow> (if addr_is4 ip then ''udp://'' @ server else ''udp://['' @ server @ '']'')))"

text \<open>The fragment: parameters \<open>key=value\<close>, and the name of a proxy, the last part without \<open>=\<close>.\<close>

definition fragment_part :: "string \<Rightarrow> string \<times> params \<Rightarrow> string \<times> params" where
  "fragment_part s = (\<lambda>(proxy, ps).
     if CHR ''='' \<in> set s then
       (let k = takeWhile (\<lambda>c. c \<noteq> CHR ''='') s; v = tl (dropWhile (\<lambda>c. c \<noteq> CHR ''='') s) in
        (proxy, (k, v) # filter (\<lambda>(k', _). k' \<noteq> k) ps))
     else (s, ps))"

definition parse_fragment :: "string \<Rightarrow> string \<times> params" where
  "parse_fragment s = fold fragment_part (str_split CHR ''&'' s) ([], [])"

definition rcode_names :: "string list" where
  "rcode_names = [''success'', ''format_error'', ''server_failure'', ''name_error'', ''not_implemented'', ''refused'']"

text \<open>The address and the network of a server.\<close>

definition dns_endpoint :: "dns_section_env \<Rightarrow> string \<Rightarrow> dns_url \<Rightarrow> string + string \<times> string" where
  "dns_endpoint env server u =
     (let scheme = du_scheme u; host = du_host u in
      if scheme = ''udp'' then attempt (host_with_default_port host ''53'') (\<lambda>a. Inr (a, []))
      else if scheme = ''tcp'' then attempt (host_with_default_port host ''53'') (\<lambda>a. Inr (a, ''tcp''))
      else if scheme = ''tls'' then attempt (host_with_default_port host ''853'') (\<lambda>a. Inr (a, ''tls''))
      else if scheme = ''http'' \<or> scheme = ''https'' then
        attempt (host_with_default_port host (if scheme = ''http'' then ''80'' else ''443'')) (\<lambda>a.
          Inr (de_url_string env scheme a (du_path u) (du_user u), ''https''))
      else if scheme = ''quic'' then attempt (host_with_default_port host ''853'') (\<lambda>a. Inr (a, ''quic''))
      else if scheme = ''system'' then Inr ([], ''system'')
      else if scheme = ''ts'' \<or> scheme = ''tailscale'' then
        (if host = [] then Inl ''missing Tailscale proxy name'' else Inr (host, ''tailscale''))
      else if scheme = ''et'' \<or> scheme = ''easytier'' then
        (if host = [] then Inl ''missing EasyTier proxy name'' else Inr (host, ''easytier''))
      else if scheme = ''dhcp'' then
        (let a = drop 7 server in if a = ''system'' then Inr ([], ''system'') else Inr (a, ''dhcp''))
      else if scheme = ''rcode'' then
        (if host \<in> set rcode_names then Inr (host, ''rcode'') else Inl (''unsupported RCode type: '' @ host))
      else Inl [])"

definition dns_schemes :: "string list" where
  "dns_schemes = [''udp'', ''tcp'', ''tls'', ''http'', ''https'', ''quic'', ''system'', ''ts'', ''tailscale'', ''et'', ''easytier'',
     ''dhcp'', ''rcode'']"

definition respect_rules :: string where
  "respect_rules = ''RULES''"

definition name_server_of :: "dns_section_env \<Rightarrow> bool \<Rightarrow> bool \<Rightarrow> nat \<Rightarrow> string \<Rightarrow> string + name_server" where
  "name_server_of env respect prefer_h3 idx text0 =
     (let server = parse_pure_dns_server env text0;
          err = (\<lambda>e. ''DNS NameServer['' @ nat_str idx @ ''] format error: '' @ e) in
      case de_parse_url env server of
        Inl e \<Rightarrow> Inl (err e)
      | Inr u \<Rightarrow>
          (let (proxy, ps) = parse_fragment (du_fragment u) in
           if du_scheme u \<notin> set dns_schemes then Inl (''DNS NameServer['' @ nat_str idx @ ''] unsupport scheme: '' @ du_scheme u)
           else case dns_endpoint env server u of
             Inl e \<Rightarrow> Inl (err e)
           | Inr (a, n) \<Rightarrow>
               Inr \<lparr>ns_net = n, ns_addr = a, ns_adapter = None,
                 ns_proxy_name = (if respect \<and> proxy = [] then respect_rules else proxy), ns_params = ps,
                 ns_prefer_h3 = prefer_h3\<rparr>))"

fun parse_servers ::
  "dns_section_env \<Rightarrow> bool \<Rightarrow> bool \<Rightarrow> nat \<Rightarrow> string list \<Rightarrow> name_server list \<Rightarrow> string + name_server list" where
  "parse_servers env respect h3 idx [] acc = Inr acc"
| "parse_servers env respect h3 idx (s # ss) acc =
     attempt (name_server_of env respect h3 idx s) (\<lambda>ns.
       parse_servers env respect h3 (Suc idx) ss (if list_ex (ns_equal ns) acc then acc else acc @ [ns]))"

definition parse_name_server :: "dns_section_env \<Rightarrow> string list \<Rightarrow> bool \<Rightarrow> bool \<Rightarrow> string + name_server list" where
  "parse_name_server env servers respect h3 = parse_servers env respect h3 0 servers []"

subsection \<open>Policies\<close>

text \<open>\<open>utils.ToStringSlice\<close>; on \<open>null\<close> reflection panics: \<open>None\<close>.\<close>

definition to_string_slice :: "dns_section_env \<Rightarrow> oval \<Rightarrow> (string + string list) option" where
  "to_string_slice env v =
     (case v of
        VNull \<Rightarrow> None
      | VSeq vs \<Rightarrow> Some (Inr (map (de_print env) vs))
      | VStr s \<Rightarrow> Some (Inr [de_print env (VStr s)])
      | _ \<Rightarrow> Some (Inl ''value format error, must be string or array''))"

text \<open>The domains one key of a policy stands for.\<close>

definition policy_keys :: "string \<Rightarrow> string list" where
  "policy_keys k =
     (let lower = to_lower k; after_colon = (\<lambda>n. str_split CHR '','' (str_split CHR '':'' k ! 1)) in
      if CHR '','' \<in> set lower then
        (if has_prefix lower ''geosite:'' then map (\<lambda>x. ''geosite:'' @ x) (after_colon ())
         else if has_prefix lower ''rule-set:'' then map (\<lambda>x. ''rule-set:'' @ x) (after_colon ())
         else str_split CHR '','' k)
      else if has_prefix lower ''geosite:'' then [''geosite:'' @ drop 8 k]
      else if has_prefix lower ''rule-set:'' then [''rule-set:'' @ drop 9 k]
      else [k])"

definition parse_domain_rule_set :: "dns_section_env \<Rightarrow> string \<Rightarrow> string + (string \<Rightarrow> bool)" where
  "parse_domain_rule_set env name =
     (case de_rule_sets env name of
        None \<Rightarrow> Inl (''not found rule-set: '' @ name)
      | Some BIpCidr \<Rightarrow> Inl ''rule provider type error, expect domain''
      | Some _ \<Rightarrow> de_rule_set env name)"

text \<open>The matcher of one policy, by its domain.\<close>

definition policy_of :: "dns_section_env \<Rightarrow> string \<times> name_server list \<Rightarrow> string + policy_config" where
  "policy_of env = (\<lambda>(domain, servers).
     if has_prefix domain ''rule-set:'' then
       attempt (parse_domain_rule_set env (drop 9 domain)) (\<lambda>m. Inr \<lparr>pc_domain = [], pc_matcher = Some m, pc_servers = servers\<rparr>)
     else if has_prefix domain ''geosite:'' then
       attempt (de_geosite env (drop 8 domain)) (\<lambda>m. Inr \<lparr>pc_domain = [], pc_matcher = Some m, pc_servers = servers\<rparr>)
     else (case valid_and_split_domain domain of
             Inl _ \<Rightarrow> Inl ''invalid domain''
           | Inr _ \<Rightarrow> Inr \<lparr>pc_domain = domain, pc_matcher = None, pc_servers = servers\<rparr>))"

fun policy_entries ::
  "dns_section_env \<Rightarrow> bool \<Rightarrow> bool \<Rightarrow> mapping \<Rightarrow> (string + (string \<times> name_server list) list) option" where
  "policy_entries env respect h3 [] = Some (Inr [])"
| "policy_entries env respect h3 ((k, v) # rest) =
     (case to_string_slice env v of
        None \<Rightarrow> None
      | Some (Inl e) \<Rightarrow> Some (Inl e)
      | Some (Inr servers) \<Rightarrow>
          (case parse_name_server env servers respect h3 of
             Inl e \<Rightarrow> Some (Inl e)
           | Inr nss \<Rightarrow>
               map_option (\<lambda>r. attempt r (\<lambda>es. Inr (map (\<lambda>d. (d, nss)) (policy_keys k) @ es)))
                 (policy_entries env respect h3 rest)))"

definition parse_name_server_policy ::
  "dns_section_env \<Rightarrow> mapping \<Rightarrow> bool \<Rightarrow> bool \<Rightarrow> (string + policy_config list) option" where
  "parse_name_server_policy env policy respect h3 =
     map_option (\<lambda>r. attempt r (try_each (policy_of env))) (policy_entries env respect h3 policy)"

subsection \<open>Filters of names\<close>

definition sub_keys :: "string \<Rightarrow> string list" where
  "sub_keys domain = str_split CHR '','' (str_split CHR '':'' domain ! 1)"

text \<open>The matchers, and the domains for the set that is built at the end.\<close>

fun parse_domain_list ::
  "dns_section_env \<Rightarrow> string list \<Rightarrow> string list \<Rightarrow> (string \<Rightarrow> bool) list \<Rightarrow> string + (string \<Rightarrow> bool) list \<times> string list" where
  "parse_domain_list env [] keys ms = Inr (ms, keys)"
| "parse_domain_list env (d # ds) keys ms =
     (let lower = to_lower d in
      if has_prefix lower ''geosite:'' then
        attempt (try_each (de_geosite env) (sub_keys d)) (\<lambda>more. parse_domain_list env ds keys (ms @ more))
      else if has_prefix lower ''rule-set:'' then
        attempt (try_each (parse_domain_rule_set env) (sub_keys d)) (\<lambda>more. parse_domain_list env ds keys (ms @ more))
      else (case valid_and_split_domain d of
              Inl _ \<Rightarrow> Inl ''invalid domain''
            | Inr _ \<Rightarrow> parse_domain_list env ds (keys @ [d]) ms))"

definition parse_domain :: "dns_section_env \<Rightarrow> string list \<Rightarrow> string list \<Rightarrow> string + (string \<Rightarrow> bool) list" where
  "parse_domain env domains keys0 =
     attempt (parse_domain_list env domains keys0 []) (\<lambda>(ms, keys).
       Inr (if keys = [] then ms else ms @ [de_domain_set env keys]))"

definition is_domain_rule :: "rule_type \<Rightarrow> bool" where
  "is_domain_rule rt \<longleftrightarrow>
     rt \<in> {RT_Domain, RT_DomainSuffix, RT_DomainKeyword, RT_DomainRegex, RT_DomainWildcard, RT_GEOSITE, RT_RuleSet}"

text \<open>The match function the skipper calls: on a connection of which only the name is known, without helpers.\<close>

definition rule_on_name :: "rule_env \<Rightarrow> rule \<Rightarrow> string \<Rightarrow> bool \<times> string" where
  "rule_on_name env r domain =
     (case match_rule env (\<lambda>_. []) 0 no_helper r (start_state (empty_metadata\<lparr>m_host := domain\<rparr>)) of
        Inr (answer, _) \<Rightarrow> answer
      | Inl _ \<Rightarrow> (False, []))"

definition parse_fake_ip_rule :: "dns_section_env \<Rightarrow> string \<Rightarrow> string + rule" where
  "parse_fake_ip_rule env line =
     (let (tp, payload, action0, ps) = parse_rule_payload line True; action = to_lower action0 in
      if action \<noteq> ''fake-ip'' \<and> action \<noteq> ''real-ip'' then Inl (''invalid action '' @ action)
      else if tp = ''RULE-SET'' \<and> de_rule_sets env payload = None then Inl (''rule-set '' @ payload @ '' not found'')
      else if tp = ''RULE-SET'' \<and> de_rule_sets env payload = Some BIpCidr then Inl ''rule-set behavior must be domain or classical''
      else
        attempt (parse_rule_total (de_parse_rule env) tp payload action ps) (\<lambda>r.
          if \<not> is_domain_rule (rule_type_of r) \<and> rule_type_of r \<noteq> RT_MATCH then Inl (''rule type '' @ tp @ '' not supported'')
          else Inr r))"

definition parse_fake_ip_rules :: "dns_section_env \<Rightarrow> string list \<Rightarrow> string + rule list" where
  "parse_fake_ip_rules env = try_each (parse_fake_ip_rule env)"

definition valid_and_split_domain' :: "string \<Rightarrow> string + string list" where
  "valid_and_split_domain' d = (case valid_and_split_domain d of Inl _ \<Rightarrow> Inl ''format error'' | Inr parts \<Rightarrow> Inr parts)"

subsection \<open>The section\<close>

record 's dns_section =
  dx_enable :: bool
  dx_listen :: string
  dx_ipv6 :: bool
  dx_use_hosts :: bool
  dx_mode :: dns_mode
  dx_resolver :: resolver_config
  dx_range :: net_prefix
  dx_range6 :: net_prefix
  dx_skipper :: "skipper option"
  dx_ttl :: int
  dx_pool :: "'s pool option"
  dx_pool6 :: "'s pool option"

text \<open>An address of a default name server that passes the check for pure addresses.\<close>

definition pure_address :: "dns_section_env \<Rightarrow> name_server \<Rightarrow> bool" where
  "pure_address env ns \<longleftrightarrow>
     ns_net ns = ''system'' \<or>
     (case split_host_port (ns_addr ns) of Inr (host, _) \<Rightarrow> de_is_ip env host | Inl _ \<Rightarrow> False) \<or>
     (case de_parse_url env (ns_addr ns) of
        Inl _ \<Rightarrow> True
      | Inr u \<Rightarrow> de_is_ip env (du_host u) \<or>
          (case split_host_port (du_host u) of Inr (ip, _) \<Rightarrow> de_is_ip env ip | Inl _ \<Rightarrow> False))"

definition parse_range :: "dns_section_env \<Rightarrow> string \<Rightarrow> (addr \<Rightarrow> bool) \<Rightarrow> string \<Rightarrow> string + net_prefix" where
  "parse_range env s family err =
     (if s = [] then Inr NoPrefix
      else attempt (de_parse_prefix env s) (\<lambda>p. if family (prefix_addr p) then Inr p else Inl err))"

definition fallback_names :: "dns_section_env \<Rightarrow> raw_dns \<Rightarrow> name_server list \<Rightarrow> string list" where
  "fallback_names env cfg fallback =
     (if rd_fake_ip_filter_mode cfg = FilterRule then []
      else filter (\<lambda>a. \<not> de_is_ip env a \<and> \<not> isl (valid_and_split_domain a)) (map ns_addr fallback))"

definition parse_skipper :: "dns_section_env \<Rightarrow> raw_dns \<Rightarrow> name_server list \<Rightarrow> string + skipper" where
  "parse_skipper env cfg fallback =
     (if rd_fake_ip_filter_mode cfg = FilterRule then
        attempt (parse_fake_ip_rules env (rd_fake_ip_filter cfg)) (\<lambda>rs.
          Inr \<lparr>sk_rules = map (rule_on_name (de_rule_env env)) rs, sk_hosts = [], sk_mode = FilterRule\<rparr>)
      else
        attempt (parse_domain env (rd_fake_ip_filter cfg) (fallback_names env cfg fallback)) (\<lambda>hosts.
          Inr \<lparr>sk_rules = [], sk_hosts = hosts, sk_mode = rd_fake_ip_filter_mode cfg\<rparr>))"

definition parse_pool ::
  "'s store_ops \<Rightarrow> 's \<Rightarrow> (net_prefix \<Rightarrow> addr) \<Rightarrow> net_prefix \<Rightarrow> string + 's pool option" where
  "parse_pool ops fresh last_ip net =
     (if prefix_valid net then attempt (new_pool ops fresh last_ip net) (\<lambda>p. Inr (Some p)) else Inr None)"

definition parse_fallback_filters ::
  "dns_section_env \<Rightarrow> raw_dns \<Rightarrow> string + (addr \<Rightarrow> bool) list \<times> (string \<Rightarrow> bool) list" where
  "parse_fallback_filters env cfg =
     (let f = rd_fallback_filter cfg in
      if rd_fallback cfg = [] then Inr ([], [])
      else
        attempt (if rf_geoip f then attempt (de_geoip env (rf_geoip_code f)) (\<lambda>m. Inr [m]) else Inr []) (\<lambda>geoip.
        attempt (if rf_ipcidr f \<noteq> [] then attempt (de_cidr_set env (rf_ipcidr f)) (\<lambda>m. Inr [m]) else Inr []) (\<lambda>cidr.
        attempt (if rf_domain f \<noteq> [] then
            attempt (try_each valid_and_split_domain' (rf_domain f)) (\<lambda>_. Inr [de_domain_set env (rf_domain f)])
          else Inr []) (\<lambda>domain.
        attempt (try_each (de_geosite env) (rf_geosite f)) (\<lambda>geosite. Inr (geoip @ cidr, domain @ geosite))))))"

text \<open>The parts of the section that go to the enhancer.\<close>

definition parse_enhancer ::
  "dns_section_env \<Rightarrow> 's store_ops \<Rightarrow> 's \<Rightarrow> (net_prefix \<Rightarrow> addr) \<Rightarrow> raw_dns \<Rightarrow> resolver_config \<Rightarrow> string + 's dns_section" where
  "parse_enhancer env ops fresh last_ip cfg rv =
     attempt (parse_range env (rd_fake_ip_range cfg) addr_is4 ''dns.fake-ip-range must be a IPv4 prefix'') (\<lambda>range4.
     attempt (parse_range env (rd_fake_ip_range6 cfg) addr_is6 ''dns.fake-ip-range6 must be a IPv6 prefix'') (\<lambda>range6.
       let plain = \<lparr>dx_enable = rd_enable cfg, dx_listen = rd_listen cfg, dx_ipv6 = rd_ipv6 cfg, dx_use_hosts = rd_use_hosts cfg,
             dx_mode = rd_enhanced_mode cfg, dx_resolver = rv, dx_range = range4, dx_range6 = range6, dx_skipper = None,
             dx_ttl = 0, dx_pool = None, dx_pool6 = None\<rparr> in
       if rd_enhanced_mode cfg \<noteq> DNSFakeIP then Inr plain
       else
         attempt (parse_skipper env cfg (dc_fallback rv)) (\<lambda>skipper.
         attempt (parse_pool ops fresh last_ip range4) (\<lambda>pool.
         attempt (parse_pool ops fresh last_ip range6) (\<lambda>pool6.
           if pool = None \<and> pool6 = None
           then Inl ''disallow `fake-ip-range` and `fake-ip-range6` both empty with fake-ip mode''
           else Inr (plain\<lparr>dx_skipper := Some skipper, dx_ttl := rd_fake_ip_ttl cfg, dx_pool := pool, dx_pool6 := pool6\<rparr>))))))"

definition parse_dns ::
  "dns_section_env \<Rightarrow> 's store_ops \<Rightarrow> 's \<Rightarrow> (net_prefix \<Rightarrow> addr) \<Rightarrow> raw_dns \<Rightarrow> (string + 's dns_section) option" where
  "parse_dns env ops fresh last_ip cfg =
     (let servers = (\<lambda>texts respect. Some (parse_name_server env texts respect (rd_prefer_h3 cfg)));
          policies = (\<lambda>policy respect. parse_name_server_policy env policy respect (rd_prefer_h3 cfg));
          respect = rd_respect_rules cfg in
      if rd_enable cfg \<and> rd_name_server cfg = [] then
        Some (Inl ''if DNS configuration is turned on, NameServer cannot be empty'')
      else if respect \<and> rd_proxy_server_nameserver cfg = [] then
        Some (Inl ''if respect-rules is turned on, proxy-server-nameserver cannot be empty'')
      else
        try_step (servers (rd_name_server cfg) respect) (\<lambda>main.
        try_step (servers (rd_fallback cfg) respect) (\<lambda>fallback.
        try_step (policies (rd_name_server_policy cfg) respect) (\<lambda>policy.
        try_step (servers (rd_proxy_server_nameserver cfg) False) (\<lambda>proxy.
        try_step (policies (rd_proxy_server_policy cfg) False) (\<lambda>proxy_policy.
          if proxy_policy \<noteq> [] \<and> proxy = [] then
            Some (Inl ''disallow empty `proxy-server-nameserver` when `proxy-server-nameserver-policy` is set'')
          else
            try_step (servers (rd_direct_name_server cfg) False) (\<lambda>direct.
              if rd_default_nameserver cfg = [] then Some (Inl ''default nameserver should have at least one nameserver'')
              else
                try_step (servers (rd_default_nameserver cfg) False) (\<lambda>defaults.
                  if \<not> list_all (pure_address env) defaults then Some (Inl ''default nameserver should be pure IP'')
                  else
                    (let rv = \<lparr>dc_main = main, dc_fallback = fallback, dc_default = defaults, dc_proxy_server = proxy,
                           dc_direct_server = direct, dc_direct_follow_policy = rd_direct_follow_policy cfg, dc_ip_filter = [],
                           dc_domain_filter = [], dc_policy = policy, dc_proxy_policy = proxy_policy\<rparr> in
                     Some (attempt (parse_enhancer env ops fresh last_ip cfg rv) (\<lambda>section.
                       attempt (parse_fallback_filters env cfg) (\<lambda>(ips, names).
                         Inr (section\<lparr>dx_resolver := rv\<lparr>dc_ip_filter := ips, dc_domain_filter := names\<rparr>\<rparr>)))))))))))))"

subsection \<open>What an accepted section promises\<close>

definition known_nets :: "string list" where
  "known_nets = [[], ''tcp'', ''tls'', ''https'', ''quic'', ''system'', ''tailscale'', ''easytier'', ''dhcp'', ''rcode'']"

definition server_ok :: "name_server \<Rightarrow> bool" where
  "server_ok ns \<longleftrightarrow> ns_net ns \<in> set known_nets \<and> (ns_net ns = ''rcode'' \<longrightarrow> ns_addr ns \<in> set rcode_names)"

lemma dns_endpoint_ok:
  "dns_endpoint env server u = Inr (a, n) \<Longrightarrow> n \<in> set known_nets \<and> (n = ''rcode'' \<longrightarrow> a \<in> set rcode_names)"
  by (auto simp: dns_endpoint_def known_nets_def Let_def attempt_Inr_iff split: if_splits)

lemma name_server_of_ok: "name_server_of env respect h3 idx s = Inr ns \<Longrightarrow> server_ok ns"
  by (auto simp: name_server_of_def server_ok_def Let_def dest: dns_endpoint_ok split: sum.splits if_splits prod.splits)

lemma parse_servers_ok:
  "parse_servers env respect h3 idx ss acc = Inr nss \<Longrightarrow> list_all server_ok acc \<Longrightarrow> sorted_wrt (\<lambda>a b. \<not> ns_equal b a) acc \<Longrightarrow>
    list_all server_ok nss \<and> sorted_wrt (\<lambda>a b. \<not> ns_equal b a) nss"
  by (induction ss arbitrary: idx acc)
    (auto simp: attempt_Inr_iff list_ex_iff sorted_wrt_append dest: name_server_of_ok split: if_splits)

text \<open>Servers that were accepted have a client, so building them never panics.\<close>

lemma server_ok_client: "server_ok ns \<Longrightarrow> new_client cenv n ns \<noteq> None"
  by (auto simp: server_ok_def new_client_def rcode_of_def rcode_names_def)

lemma transform_servers_some: "list_all server_ok nss \<Longrightarrow> \<exists>r. transform_servers cenv nss n = Some r"
proof (induction nss arbitrary: n)
  case (Cons ns nss)
  then have ok: "server_ok ns" "list_all server_ok nss" by simp_all
  obtain c where c: "new_client cenv n ns = Some c" using server_ok_client [OF ok(1)] by blast
  obtain r where "transform_servers cenv nss (Suc n) = Some r" using Cons.IH [OF ok(2)] by blast
  then show ?case using c by (cases r) simp
qed simp

lemma cached_client_some: "server_ok ns \<Longrightarrow> \<exists>r. cached_client cenv ns st = Some r"
  using server_ok_client [of ns cenv "sc_next st"]
  by (auto simp: cached_client_def Let_def split: sum.split option.split)

lemma cache_transform_some: "list_all server_ok nss \<Longrightarrow> \<exists>r. cache_transform cenv nss st = Some r"
proof (induction nss arbitrary: st)
  case (Cons ns nss)
  then have ok: "server_ok ns" "list_all server_ok nss" by simp_all
  obtain c st1 where c: "cached_client cenv ns st = Some (c, st1)" using cached_client_some [OF ok(1)] by fast
  obtain r where "cache_transform cenv nss st1 = Some r" using Cons.IH [OF ok(2)] by blast
  then show ?case using c by (cases r) simp
qed simp

definition policies_ok :: "policy_config list \<Rightarrow> bool" where
  "policies_ok ps \<longleftrightarrow> list_all (\<lambda>p. list_all server_ok (pc_servers p)) ps"

lemma make_policy_some: "policies_ok ps \<Longrightarrow> \<exists>r. make_policy cenv ps trie st = Some r"
proof (induction ps arbitrary: trie st)
  case (Cons p ps)
  then have ok: "list_all server_ok (pc_servers p)" "policies_ok ps" by (simp_all add: policies_ok_def)
  obtain cs st1 where c: "cache_transform cenv (pc_servers p) st = Some (cs, st1)" using cache_transform_some [OF ok(1)] by fast
  have some: "\<exists>r. make_policy cenv ps t st1 = Some r" for t by (rule Cons.IH [OF ok(2)])
  show ?case using some by (cases "pc_matcher p"; fastforce simp: c Let_def)
qed simp

lemma build_resolver_some:
  assumes "list_all server_ok nss" and "policies_ok ps"
  shows "\<exists>r. build_resolver cenv nss ps st = Some r"
proof -
  obtain cs st1 where "cache_transform cenv nss st = Some (cs, st1)" using cache_transform_some [OF assms(1)] by fast
  then show ?thesis using make_policy_some [OF assms(2), of cenv None st1] by (auto simp: build_resolver_def)
qed

lemma build_optional_some:
  "list_all server_ok nss \<Longrightarrow> policies_ok ps \<Longrightarrow> \<exists>r. build_optional cenv nss ps st = Some r"
  using build_resolver_some [of nss ps cenv st] by (auto simp: build_optional_def)

definition config_ok :: "resolver_config \<Rightarrow> bool" where
  "config_ok rv \<longleftrightarrow>
     list_all (list_all server_ok) [dc_main rv, dc_fallback rv, dc_default rv, dc_proxy_server rv, dc_direct_server rv] \<and>
     policies_ok (dc_policy rv) \<and> policies_ok (dc_proxy_policy rv)"

lemma config_ok_builds:
  assumes "config_ok rv"
  shows "\<exists>rs. new_resolver cenv rv = Some rs"
proof -
  note ok = assms [unfolded config_ok_def, simplified]
  obtain d n where 1: "transform_servers cenv (dc_default rv) 0 = Some (d, n)"
    using transform_servers_some [of "dc_default rv" cenv 0] ok by fast
  obtain r st1 where 2: "build_resolver cenv (dc_main rv) (dc_policy rv) \<lparr>sc_next = n, sc_built = []\<rparr> = Some (r, st1)"
    using build_resolver_some [of "dc_main rv" "dc_policy rv" cenv] ok by fast
  obtain p st2 where 3: "build_optional cenv (dc_proxy_server rv) (dc_proxy_policy rv) st1 = Some (p, st2)"
    using build_optional_some [of "dc_proxy_server rv" "dc_proxy_policy rv" cenv] ok by fast
  obtain q st3 where 4: "build_optional cenv (dc_direct_server rv) [] st2 = Some (q, st3)"
    using build_optional_some [of "dc_direct_server rv" "[]" cenv] ok by (fastforce simp: policies_ok_def)
  obtain f st4 where 5: "cache_transform cenv (dc_fallback rv) st3 = Some (f, st4)"
    using cache_transform_some [of "dc_fallback rv" cenv st3] ok by fast
  show ?thesis by (simp add: new_resolver_def 1 2 3 4 5 Let_def)
qed

text \<open>What the section reads is of this kind.\<close>

lemma parse_name_server_ok:
  "parse_name_server env texts respect h3 = Inr nss \<Longrightarrow> list_all server_ok nss \<and> sorted_wrt (\<lambda>a b. \<not> ns_equal b a) nss"
  using parse_servers_ok [of env respect h3 0 texts "[]" nss] by (simp add: parse_name_server_def)

lemma policy_entries_ok:
  "policy_entries env respect h3 m = Some (Inr es) \<Longrightarrow> list_all (\<lambda>(_, nss). list_all server_ok nss) es"
proof (induction m arbitrary: es)
  case (Cons kv m)
  obtain k v where kv: "kv = (k, v)" by fastforce
  obtain servers nss es' where "parse_name_server env servers respect h3 = Inr nss"
    "policy_entries env respect h3 m = Some (Inr es')" "es = map (\<lambda>d. (d, nss)) (policy_keys k) @ es'"
    using Cons.prems unfolding kv by (auto simp: attempt_Inr_iff split: option.splits sum.splits)
  then show ?case using Cons.IH parse_name_server_ok by (auto simp: list_all_iff)
qed simp

lemma policy_of_servers: "policy_of env (d, nss) = Inr p \<Longrightarrow> pc_servers p = nss"
  by (auto simp: policy_of_def attempt_Inr_iff split: if_splits sum.splits)

lemma parse_name_server_policy_ok:
  assumes "parse_name_server_policy env policy respect h3 = Some (Inr ps)"
  shows "policies_ok ps"
proof -
  obtain es where es: "policy_entries env respect h3 policy = Some (Inr es)" and ps: "try_each (policy_of env) es = Inr ps"
    using assms by (auto simp: parse_name_server_policy_def attempt_Inr_iff)
  note fine = policy_entries_ok [OF es, unfolded list_all_iff]
  have "\<forall>p\<in>set ps. list_all server_ok (pc_servers p)"
  proof (rule try_each_results [OF ps])
    fix e p assume "e \<in> set es" and "policy_of env e = Inr p"
    then show "list_all server_ok (pc_servers p)"
      using fine policy_of_servers [of env "fst e" "snd e" p] by (fastforce simp: list_all_iff)
  qed
  then show ?thesis by (simp add: policies_ok_def list_all_iff)
qed

lemma parse_enhancer_resolver:
  "parse_enhancer env ops fresh last_ip cfg rv = Inr section \<Longrightarrow>
    (dx_mode section = DNSFakeIP \<longrightarrow> dx_pool section \<noteq> None \<or> dx_pool6 section \<noteq> None)"
  by (auto simp: parse_enhancer_def Let_def attempt_Inr_iff split: if_splits)

text \<open>The texts an accepted section was read from.\<close>

lemma parse_dns_servers:
  assumes run: "parse_dns env ops fresh last_ip cfg = Some (Inr section)"
  shows "let rv = dx_resolver section; h3 = rd_prefer_h3 cfg; respect = rd_respect_rules cfg in
    parse_name_server env (rd_name_server cfg) respect h3 = Inr (dc_main rv) \<and>
    parse_name_server env (rd_fallback cfg) respect h3 = Inr (dc_fallback rv) \<and>
    parse_name_server env (rd_proxy_server_nameserver cfg) False h3 = Inr (dc_proxy_server rv) \<and>
    parse_name_server env (rd_direct_name_server cfg) False h3 = Inr (dc_direct_server rv) \<and>
    parse_name_server env (rd_default_nameserver cfg) False h3 = Inr (dc_default rv) \<and>
    parse_name_server_policy env (rd_name_server_policy cfg) respect h3 = Some (Inr (dc_policy rv)) \<and>
    parse_name_server_policy env (rd_proxy_server_policy cfg) False h3 = Some (Inr (dc_proxy_policy rv)) \<and>
    list_all (pure_address env) (dc_default rv)"
  using run by (auto simp: parse_dns_def Let_def try_step_Inr attempt_Inr_iff split: if_splits prod.splits)

lemma parse_dns_config_ok:
  assumes run: "parse_dns env ops fresh last_ip cfg = Some (Inr section)"
  shows "config_ok (dx_resolver section)"
  using parse_dns_servers [OF run, unfolded Let_def]
  by (auto simp: config_ok_def dest: parse_name_server_ok parse_name_server_policy_ok)

lemma parse_dns_pool:
  assumes run: "parse_dns env ops fresh last_ip cfg = Some (Inr section)" and fake: "dx_mode section = DNSFakeIP"
  shows "dx_pool section \<noteq> None \<or> dx_pool6 section \<noteq> None"
proof -
  obtain rv inner where "parse_enhancer env ops fresh last_ip cfg rv = Inr inner"
    "dx_mode inner = dx_mode section" "dx_pool inner = dx_pool section" "dx_pool6 inner = dx_pool6 section"
    using run by (auto simp: parse_dns_def Let_def try_step_Inr attempt_Inr_iff split: if_splits prod.splits)
  then show ?thesis using parse_enhancer_resolver fake by metis
qed

definition demo_dns_env :: dns_section_env where
  "demo_dns_env =
     \<lparr>de_parse_url = (\<lambda>t. if t = ''rcode://refused'' then Inr \<lparr>du_scheme = ''rcode'', du_host = ''refused'', du_path = [],
            du_user = [], du_fragment = []\<rparr>
        else if t = ''system://'' then Inr \<lparr>du_scheme = ''system'', du_host = [], du_path = [], du_user = [], du_fragment = []\<rparr>
        else Inl ''invalid URL''),
      de_url_string = (\<lambda>scheme host path user. scheme @ ''://'' @ host @ path), de_parse_addr = (\<lambda>_. None),
      de_is_ip = (\<lambda>_. False), de_parse_prefix = (\<lambda>_. Inl ''invalid prefix''), de_print = (\<lambda>_. []),
      de_rule_sets = (\<lambda>_. None), de_rule_set = (\<lambda>_. Inl []), de_geosite = (\<lambda>_. Inl []), de_geoip = (\<lambda>_. Inl []),
      de_domain_set = (\<lambda>ds d. d \<in> set ds), de_cidr_set = (\<lambda>_. Inl []), de_parse_rule = demo_parse_env,
      de_rule_env = \<lparr>re_match = (\<lambda>_ _. False), geosite_matcher = (\<lambda>_. None), geodata_mode = False,
        geoip_matcher = (\<lambda>_. None), lookup_code = (\<lambda>_. []), lookup_asn = (\<lambda>_. ([], [])), rule_provider = (\<lambda>_. None),
        prefix_string = (\<lambda>_. [])\<rparr>\<rparr>"

definition demo_raw_dns :: raw_dns where
  "demo_raw_dns =
     default_raw_dns\<lparr>rd_name_server := [''rcode://refused'', ''system'', ''rcode://refused''], rd_fake_ip_range := [],
       rd_default_nameserver := [''system'']\<rparr>"

definition demo_server :: "string \<Rightarrow> string \<Rightarrow> name_server" where
  "demo_server net addr =
     \<lparr>ns_net = net, ns_addr = addr, ns_adapter = None, ns_proxy_name = [], ns_params = [], ns_prefer_h3 = False\<rparr>"

definition demo_section :: "memory_store dns_section" where
  "demo_section =
     \<lparr>dx_enable = False, dx_listen = [], dx_ipv6 = False, dx_use_hosts = True, dx_mode = DNSMapping,
      dx_resolver =
        \<lparr>dc_main = [demo_server ''rcode'' ''refused'', demo_server ''system'' []], dc_fallback = [],
         dc_default = [demo_server ''system'' []], dc_proxy_server = [], dc_direct_server = [],
         dc_direct_follow_policy = False, dc_ip_filter = [], dc_domain_filter = [], dc_policy = [], dc_proxy_policy = []\<rparr>,
      dx_range = NoPrefix, dx_range6 = NoPrefix, dx_skipper = None, dx_ttl = 0, dx_pool = None, dx_pool6 = None\<rparr>"

lemma demo_main: "parse_name_server demo_dns_env [''rcode://refused'', ''system'', ''rcode://refused''] False False =
    Inr [demo_server ''rcode'' ''refused'', demo_server ''system'' []]"
  by code_simp

lemma demo_default: "parse_name_server demo_dns_env [''system''] False False = Inr [demo_server ''system'' []]"
  by code_simp

lemma demo_none: "parse_name_server env [] respect h3 = Inr []"
  by (simp add: parse_name_server_def)

lemma demo_run: "parse_dns demo_dns_env ops fresh last_ip demo_raw_dns = Some (Inr demo_section)"
  by (simp add: parse_dns_def demo_raw_dns_def default_raw_dns_def demo_main demo_default demo_none try_step_def Let_def
      parse_name_server_policy_def pure_address_def demo_server_def parse_enhancer_def parse_range_def
      parse_fallback_filters_def demo_section_def)

text \<open>
  C1: A DNS section that is accepted can be put to work. The resolver is built from it without the
  panic of an unknown reply code, in any environment: every server of it, of its fallback, of its
  policies and of its proxy and direct lists has a network and an address that \<open>transform\<close> knows. No
  server is asked twice, because the second of two equal ones was dropped, and in the fake-ip mode
  there is at least one pool.
\<close>

theorem accepted_dns_builds:
  assumes run: "parse_dns env ops fresh last_ip cfg = Some (Inr section)"
  shows "(\<exists>rs. new_resolver cenv (dx_resolver section) = Some rs) \<and>
    sorted_wrt (\<lambda>a b. \<not> ns_equal b a) (dc_main (dx_resolver section)) \<and>
    (dx_mode section = DNSFakeIP \<longrightarrow> dx_pool section \<noteq> None \<or> dx_pool6 section \<noteq> None)"
  using config_ok_builds [OF parse_dns_config_ok [OF run]] parse_dns_pool [OF run]
    parse_dns_servers [OF run, unfolded Let_def] by (auto dest: parse_name_server_ok)

theorem accepted_dns_builds_witness:
  "\<exists>section rs. parse_dns demo_dns_env memory_ops (new_memory_store 0) (\<lambda>_. NoAddr) demo_raw_dns = Some (Inr section) \<and>
     new_resolver demo_client_env (dx_resolver section) = Some rs"
  using accepted_dns_builds [OF demo_run, where cenv = demo_client_env] demo_run by blast

end
