(* ===== verification/Rule_Semantics.thy ===== *)
theory Rule_Semantics
  imports Rule_Match
begin

text \<open>
  What the matching methods mean: the suffix rule is equality of the low bits of two addresses,
  and a logic rule over rules that only read the metadata is the boolean combination it is written
  as, evaluated without changing the state.
\<close>

unbundle bit_operations_syntax

subsection \<open>The IP suffix rule\<close>

lemma suffix_bytes_equal_iff:
  "suffix_bytes_equal xs ys sz n \<longleftrightarrow> (\<forall>j<n. xs ! (sz - Suc j) = ys ! (sz - Suc j))"
  by (induction n) (auto simp: less_Suc_eq)

definition word_bytes :: "nat \<Rightarrow> ('a::len) word \<Rightarrow> 8 word list" where
  "word_bytes nb w = map (\<lambda>i. ucast (drop_bit (8 * (nb - 1 - i)) w)) [0..<nb]"

lemma addr_slice_bytes:
  "addr_slice (V4 w) = word_bytes 4 w" "addr_slice (V6 v z) = word_bytes 16 v"
  by (simp_all add: word_bytes_def)

lemma length_word_bytes [simp]: "length (word_bytes nb w) = nb"
  by (simp add: word_bytes_def)

lemma word_bytes_from_end:
  "j < nb \<Longrightarrow> word_bytes nb w ! (nb - Suc j) = ucast (drop_bit (8 * j) w)"
  by (simp add: word_bytes_def)

lemma byte_bit: "bit (ucast (drop_bit (8 * j) w) :: 8 word) i \<longleftrightarrow> i < 8 \<and> bit w (8 * j + i)"
  for w :: "('a::len) word"
  by (auto simp: bit_simps)

lemma byte_eq_iff:
  "(ucast (drop_bit (8 * j) v) :: 8 word) = ucast (drop_bit (8 * j) w) \<longleftrightarrow>
   (\<forall>i<8. bit v (8 * j + i) = bit w (8 * j + i))" for v w :: "('a::len) word"
  by (auto simp: bit_eq_iff byte_bit bit_imp_le_length)

lemma push_bit_byte_eq_iff:
  "k \<le> 8 \<Longrightarrow>
   push_bit (8 - k) (ucast (drop_bit (8 * j) v) :: 8 word) = push_bit (8 - k) (ucast (drop_bit (8 * j) w)) \<longleftrightarrow>
   (\<forall>i<k. bit v (8 * j + i) = bit w (8 * j + i))" for v w :: "('a::len) word"
proof -
  assume k: "k \<le> 8"
  have "push_bit (8 - k) (ucast (drop_bit (8 * j) v) :: 8 word) = push_bit (8 - k) (ucast (drop_bit (8 * j) w)) \<longleftrightarrow>
      (\<forall>i. 8 - k \<le> i \<and> i < 8 \<longrightarrow> bit v (8 * j + (i - (8 - k))) = bit w (8 * j + (i - (8 - k))))"
    by (auto simp: bit_eq_iff bit_simps)
  also have "\<dots> \<longleftrightarrow> (\<forall>i<k. bit v (8 * j + i) = bit w (8 * j + i))"
  proof safe
    fix i assume h: "\<forall>i. 8 - k \<le> i \<and> i < 8 \<longrightarrow>
        bit v (8 * j + (i - (8 - k))) = bit w (8 * j + (i - (8 - k)))" and i: "i < k"
    have "8 - k \<le> i + (8 - k) \<and> i + (8 - k) < 8" using i k by auto
    with h have "bit v (8 * j + (i + (8 - k) - (8 - k))) = bit w (8 * j + (i + (8 - k) - (8 - k)))" by blast
    then show "bit v (8 * j + i) \<Longrightarrow> bit w (8 * j + i)" "bit w (8 * j + i) \<Longrightarrow> bit v (8 * j + i)" by simp_all
  next
    fix i assume h: "\<forall>i<k. bit v (8 * j + i) = bit w (8 * j + i)" and i: "8 - k \<le> i" "i < 8"
    have "i - (8 - k) < k" using i k by linarith
    with h have "bit v (8 * j + (i - (8 - k))) = bit w (8 * j + (i - (8 - k)))" by blast
    then show "bit v (8 * j + (i - (8 - k))) \<Longrightarrow> bit w (8 * j + (i - (8 - k)))"
      "bit w (8 * j + (i - (8 - k))) \<Longrightarrow> bit v (8 * j + (i - (8 - k)))" by simp_all
  qed
  finally show ?thesis .
qed

lemma low_bits_split:
  fixes n :: nat and P :: "nat \<Rightarrow> bool"
  shows "(\<forall>i<n. P i) \<longleftrightarrow> (\<forall>j<n div 8. \<forall>i<8. P (8 * j + i)) \<and> (\<forall>i<n mod 8. P (8 * (n div 8) + i))"
proof (intro iffI conjI allI impI)
  fix j i :: nat assume "\<forall>i<n. P i" "j < n div 8" "i < 8"
  then show "P (8 * j + i)" by (auto intro!: mp [OF spec [of _ "8 * j + i"]])
next
  fix i :: nat assume "\<forall>i<n. P i" "i < n mod 8"
  moreover have "8 * (n div 8) + n mod 8 = n" by simp
  ultimately show "P (8 * (n div 8) + i)" by (metis add_less_cancel_left)
next
  fix i :: nat assume h: "(\<forall>j<n div 8. \<forall>i<8. P (8 * j + i)) \<and> (\<forall>i<n mod 8. P (8 * (n div 8) + i))" and "i < n"
  show "P i"
  proof (cases "i div 8 < n div 8")
    case True
    moreover have "i mod 8 < 8" by simp
    ultimately have "P (8 * (i div 8) + i mod 8)" using h by blast
    then show ?thesis by simp
  next
    case False
    then have "i div 8 = n div 8" using \<open>i < n\<close> by (simp add: div_le_mono le_antisym less_imp_le not_less)
    moreover from this have "i mod 8 < n mod 8" using \<open>i < n\<close>
      by (metis add_less_cancel_left mult_div_mod_eq)
    ultimately have "P (8 * (i div 8) + i mod 8)" using h by simp
    then show ?thesis by simp
  qed
qed

lemma take_bit_eq_bits:
  "take_bit n v = take_bit n w \<longleftrightarrow> (\<forall>i<n. bit v i = bit w i)" for v w :: "('a::len) word"
proof -
  have "take_bit n v = take_bit n w \<longleftrightarrow> (\<forall>i. i < n \<and> bit v i \<longleftrightarrow> i < n \<and> bit w i)"
    unfolding bit_eq_iff bit_take_bit_iff possible_bit_word by (metis bit_imp_le_length)
  then show ?thesis by blast
qed

lemma suffix_compare_words:
  fixes v w :: "('a::len) word"
  assumes "n \<le> 8 * nb"
  shows "(suffix_bytes_equal (word_bytes nb v) (word_bytes nb w) nb (n div 8) \<and>
      \<not> (n mod 8 \<noteq> 0 \<and> push_bit (8 - n mod 8) (word_bytes nb v ! (nb - n div 8 - 1)) \<noteq>
         push_bit (8 - n mod 8) (word_bytes nb w ! (nb - n div 8 - 1)))) \<longleftrightarrow>
    take_bit n v = take_bit n w"
proof -
  have whole: "suffix_bytes_equal (word_bytes nb v) (word_bytes nb w) nb (n div 8) \<longleftrightarrow>
      (\<forall>j<n div 8. \<forall>i<8. bit v (8 * j + i) = bit w (8 * j + i))"
    using assms by (auto simp: suffix_bytes_equal_iff word_bytes_from_end byte_eq_iff)
  have part: "(push_bit (8 - n mod 8) (word_bytes nb v ! (nb - n div 8 - 1)) =
      push_bit (8 - n mod 8) (word_bytes nb w ! (nb - n div 8 - 1))) \<longleftrightarrow>
      (\<forall>i<n mod 8. bit v (8 * (n div 8) + i) = bit w (8 * (n div 8) + i))" if "n mod 8 \<noteq> 0"
  proof -
    have "n div 8 < nb" using assms that by (metis div_less_iff_less_mult div_mult_self1_is_m le_neq_implies_less mod_mult_self1_is_0 mult.commute zero_less_numeral)
    then have "word_bytes nb u ! (nb - n div 8 - 1) = ucast (drop_bit (8 * (n div 8)) u)" for u :: "'a word"
      using word_bytes_from_end [of "n div 8" nb u] by simp
    then show ?thesis by (simp add: push_bit_byte_eq_iff)
  qed
  show ?thesis
    unfolding take_bit_eq_bits low_bits_split [of n] whole using part by (cases "n mod 8 = 0") auto
qed

fun same_low_bits :: "nat \<Rightarrow> addr \<Rightarrow> addr \<Rightarrow> bool" where
  "same_low_bits n (V4 a) (V4 b) = (take_bit n a = take_bit n b)"
| "same_low_bits n (V6 a _) (V6 b _) = (take_bit n a = take_bit n b)"
| "same_low_bits n _ _ = False"

text \<open>
  C6: an IP-SUFFIX rule for a valid prefix matches exactly the addresses of the same family whose
  low \<open>bits\<close> bits are those of the rule's address, whichever side of the connection it looks at.
\<close>

theorem ipsuffix_match_correct:
  assumes "prefix_valid (Pfx a n)"
  shows "fst (fst (ipsuffix_match h (addr_slice a) n adapter is_src no_resolve s)) \<longleftrightarrow>
    same_low_bits n a (ip_rule_addr is_src (ip_rule_state h no_resolve is_src s))"
proof -
  define b where "b = ip_rule_addr is_src (ip_rule_state h no_resolve is_src s)"
  have eq: "fst (fst (ipsuffix_match h (addr_slice a) n adapter is_src no_resolve s)) \<longleftrightarrow>
      length (addr_slice a) = length (addr_slice b) \<and>
      suffix_bytes_equal (addr_slice a) (addr_slice b) (length (addr_slice b)) (n div 8) \<and>
      \<not> (n mod 8 \<noteq> 0 \<and> push_bit (8 - n mod 8) (addr_slice a ! (length (addr_slice b) - n div 8 - 1)) \<noteq>
         push_bit (8 - n mod 8) (addr_slice b ! (length (addr_slice b) - n div 8 - 1)))"
    by (simp add: ipsuffix_match_def b_def Let_def)
  have ne: "\<not> fst (fst (ipsuffix_match h (addr_slice a) n adapter is_src no_resolve s))"
    if "addr_bitlen a div 8 \<noteq> addr_bitlen b div 8"
    unfolding eq using that by (simp add: length_addr_slice)
  have "fst (fst (ipsuffix_match h (addr_slice a) n adapter is_src no_resolve s)) \<longleftrightarrow> same_low_bits n a b"
  proof (cases a)
    case (V4 v)
    show ?thesis
    proof (cases b)
      case (V4 w)
      then show ?thesis
        unfolding eq unfolding \<open>a = V4 v\<close> V4 addr_slice_bytes
        using assms \<open>a = V4 v\<close> suffix_compare_words [of n 4 v w] by simp
    qed (use V4 ne in simp_all)
  next
    case (V6 v y)
    show ?thesis
    proof (cases b)
      case (V6 w z)
      then show ?thesis
        unfolding eq unfolding \<open>a = V6 v y\<close> V6 addr_slice_bytes
        using assms \<open>a = V6 v y\<close> suffix_compare_words [of n 16 v w] by simp
    qed (use V6 ne in simp_all)
  qed (use assms in simp)
  then show ?thesis by (simp add: b_def)
qed

theorem ipsuffix_match_correct_witness:
  "fst (fst (ipsuffix_match no_helper
     (addr_slice (V4 0x08080801)) 12 ''P'' True True
     (start_state (empty_metadata\<lparr>m_src_ip := V4 0x01023801\<rparr>))))"
  by (subst ipsuffix_match_correct) (simp_all add: ip_rule_addr_def ip_rule_state_def start_state_def)

subsection \<open>Logic rules as boolean combinations\<close>

text \<open>The rules that read the metadata and nothing else, and logic rules over them.\<close>

fun static_rule :: "rule \<Rightarrow> bool" where
  "static_rule (Geoip _ _ _ _) = False"
| "static_rule (Asn _ _ _ _) = False"
| "static_rule (Ipcidr _ _ is_src no_resolve) = (is_src \<or> no_resolve)"
| "static_rule (IpSuffix _ _ _ _ _ _) = False"
| "static_rule (ProcessRule _ _ _) = False"
| "static_rule (UidRule _ _ _) = False"
| "static_rule (RuleSetRule _ _ _ _) = False"
| "static_rule (Logic _ _ t rs) =
     ((t = RT_OR \<or> t = RT_AND \<or> (t = RT_NOT \<and> rs \<noteq> [])) \<and> list_all static_rule rs)"
| "static_rule _ = True"

fun holds :: "rule_env \<Rightarrow> metadata \<Rightarrow> rule \<Rightarrow> bool" where
  "holds env m (Domain d _) = (rule_host m = d)"
| "holds env m (DomainSuffix d _) = (rule_host m = d \<or> (\<exists>sub. rule_host m = sub @ ''.'' @ d))"
| "holds env m (DomainKeyword k _) = (\<exists>a b. rule_host m = a @ k @ b)"
| "holds env m (DomainRegex re _) = re_match env re (rule_host m)"
| "holds env m (DomainWildcard p _) = wild p (rule_host m)"
| "holds env m (Geosite c _) =
     (rule_host m \<noteq> [] \<and> (\<exists>f. geosite_matcher env c = Some f \<and> f (rule_host m)))"
| "holds env m (Ipcidr p _ is_src _) =
     (let ip = (if is_src then m_src_ip m else m_dst_ip m)
      in addr_valid ip \<and> prefix_contains p (addr_with_zone [] ip))"
| "holds env m (Port _ _ t rs) =
     ranges_check rs (if t = RT_InPort then m_in_port m else if t = RT_SrcPort then m_src_port m
                      else m_dst_port m)"
| "holds env m (Dscp rs _ _) = ranges_check rs (m_dscp m)"
| "holds env m (NetworkType n _) = (n = m_network m)"
| "holds env m (InTypeRule ts _ _) = (m_type m \<in> set ts)"
| "holds env m (InNameRule ns _ _) = (m_in_name m \<in> set ns)"
| "holds env m (InUserRule us _ _) = (m_in_user m \<in> set us)"
| "holds env m (RematchName ns _ _) = (m_rematch_name m \<in> set ns)"
| "holds env m (MatchRule _) = True"
| "holds env m (Logic _ _ t rs) =
     (if t = RT_NOT then \<not> (case map (holds env m) rs of [] \<Rightarrow> False | b # _ \<Rightarrow> b)
      else if t = RT_OR then \<exists>b\<in>set (map (holds env m) rs). b
      else \<forall>b\<in>set (map (holds env m) rs). b)"
| "holds env m _ = False"

lemma any_equal_iff [simp]: "any_equal xs x \<longleftrightarrow> x \<in> set xs"
  by (induction xs) auto

lemmas basic_defs = domain_match_def domain_suffix_match_def domain_keyword_match_def
  domain_regex_match_def domain_wildcard_match_def geosite_match_def geosite_match_domain_def
  ipcidr_match_def ip_rule_state_def ip_rule_addr_def port_match_def dscp_match_def
  network_match_def in_type_match_def in_name_match_def in_user_match_def rematch_name_match_def
  final_match_def

lemma match_basic_holds:
  "static_rule r \<Longrightarrow> (\<forall>p a t rs. r \<noteq> Logic p a t rs) \<Longrightarrow>
   \<exists>a. match_basic env h r s = ((holds env (ms_meta s) r, a), s) \<and>
     (holds env (ms_meta s) r \<longrightarrow> a = rule_adapter r)"
  by (cases r)
     (auto simp: basic_defs Let_def wildcard_match_wild has_suffix_iff str_contains_iff
        split: option.splits)

definition static_ok :: "rule_env \<Rightarrow> sub_table \<Rightarrow> nat \<Rightarrow> helper \<Rightarrow> mstate \<Rightarrow> rule \<Rightarrow> bool" where
  "static_ok env subs n h s r \<longleftrightarrow>
     (\<exists>a. match_rule env subs n h r s = Inr ((holds env (ms_meta s) r, a), s) \<and>
        (holds env (ms_meta s) r \<longrightarrow> a = rule_adapter r))"

lemma match_or_holds:
  "\<forall>r\<in>set rs. static_ok env subs n h s r \<Longrightarrow>
   \<exists>b. match_or env subs n h a rs s = Inr ((\<exists>r\<in>set rs. holds env (ms_meta s) r, b), s) \<and>
     ((\<exists>r\<in>set rs. holds env (ms_meta s) r) \<longrightarrow> b = a)"
  by (induction rs) (auto simp: static_ok_def)

lemma match_and_holds:
  "\<forall>r\<in>set rs. static_ok env subs n h s r \<Longrightarrow>
   match_and env subs n h a rs s = Inr ((\<forall>r\<in>set rs. holds env (ms_meta s) r, a), s)"
  by (induction rs) (auto simp: static_ok_def)

lemma match_rule_basic:
  "(\<forall>p a t rs. r \<noteq> Logic p a t rs) \<Longrightarrow> match_rule env subs n h r s = Inr (match_basic env h r s)"
  by (subst match_rule.simps) (cases r; simp)

lemma static_basic_ok:
  "static_rule r \<Longrightarrow> (\<forall>p a t rs. r \<noteq> Logic p a t rs) \<Longrightarrow> static_ok env subs n h s r"
  using match_basic_holds [of r env h s] by (simp add: static_ok_def match_rule_basic)

lemma static_rule_ok: "static_rule r \<Longrightarrow> static_ok env subs n h s r"
proof (induction r)
  case (Logic p a t rs)
  then have sub: "\<forall>r\<in>set rs. static_ok env subs n h s r"
    by (auto simp: list_all_iff)
  consider "t = RT_OR" | "t = RT_AND" | "t = RT_NOT" "rs \<noteq> []" using Logic.prems by auto
  then show ?case
  proof cases
    case 1
    then show ?thesis using match_or_holds [OF sub, of a]
      by (auto simp: static_ok_def match_rule_Logic)
  next
    case 2
    then show ?thesis using match_and_holds [OF sub, of a]
      by (auto simp: static_ok_def match_rule_Logic)
  next
    case 3
    then obtain r0 rs' where rs: "rs = r0 # rs'" by (cases rs) auto
    then show ?thesis using 3 sub
      by (auto simp: static_ok_def match_rule_Logic)
  qed
qed (rule static_basic_ok, assumption, simp)+

text \<open>
  A logic rule over rules that only read the metadata leaves the state alone and matches
  exactly when the boolean combination it denotes holds of the metadata; it then answers with its
  own adapter. This holds for any nesting, without any fuel.
\<close>

theorem logic_rule_boolean:
  assumes "static_rule r"
  shows "\<exists>a. match_rule env subs n h r s = Inr ((holds env (ms_meta s) r, a), s) \<and>
    (holds env (ms_meta s) r \<longrightarrow> a = rule_adapter r)"
  using static_rule_ok [OF assms] by (simp add: static_ok_def)

theorem logic_rule_boolean_witness:
  "\<exists>a. match_rule bare_env (\<lambda>_. []) 0 no_helper
     (Logic [] ''P'' RT_AND [NetworkType TCP [], Logic [] [] RT_NOT [DomainKeyword ''lan'' []]])
     (start_state (empty_metadata\<lparr>m_host := ''a.org''\<rparr>)) =
     Inr ((True, a), start_state (empty_metadata\<lparr>m_host := ''a.org''\<rparr>)) \<and> a = ''P''"
proof -
  let ?r = "Logic [] ''P'' RT_AND [NetworkType TCP [], Logic [] [] RT_NOT [DomainKeyword ''lan'' []]]"
  let ?s = "start_state (empty_metadata\<lparr>m_host := ''a.org''\<rparr>)"
  have st: "static_rule ?r" by simp
  have "\<not> str_contains ''a.org'' ''lan''" by (simp add: has_prefix_def)
  then have "holds bare_env (ms_meta ?s) ?r"
    by (simp add: start_state_def empty_metadata_def rule_host_def str_contains_iff)
  then show ?thesis
    using logic_rule_boolean [OF st, of bare_env "\<lambda>_. []" 0 no_helper ?s] by auto
qed

end
