(* ===== verification/Tunnel_Match.thy ===== *)
theory Tunnel_Match
  imports Config_Rules Rule_Semantics Hosts
begin

text \<open>
  The dispatcher of connections (\<open>tunnel/tunnel.go\<close>) from the metadata of a connection to the proxy
  that will carry it: \<open>fixMetadata\<close>, \<open>preHandleMetadata\<close>, \<open>resolveMetadata\<close> with the closures it
  hands to the rules, and \<open>match\<close> with its rematch loop; \<open>outbound/rematch.go\<close> changes the metadata
  between two rounds.

  A proxy is a value with the results of its interface methods; \<open>px_unwrap\<close> is \<open>Unwrap(metadata,
  false)\<close>. That a chain of groups ends is part of the type: the configuration rejects cyclic
  groups. Name resolution, the fake-IP table and the process lookup are the fields of
  \<open>tunnel_env\<close>. A hosts lookup that does not end is the stop value \<open>OutOfFuel\<close>.
\<close>

subsection \<open>Proxies\<close>

datatype proxy = Proxy (px_name: string) (px_type: adapter_type) (px_udp: bool)
  (px_target_rematch: "string option") (px_target_sub_rule: "string option")
  (px_unwrap: "metadata \<Rightarrow> proxy option")

datatype scan = ScanPass | ScanRematch proxy | ScanUse

text \<open>The inner loops of \<open>match\<close> and of \<open>CheckPassRule\<close>, which peel the groups off one by one.\<close>

primrec adapter_scan :: "proxy \<Rightarrow> metadata \<Rightarrow> scan" where
  "adapter_scan (Proxy n t u rn sr f) = (\<lambda>m.
     if t = AT_Pass then ScanPass
     else if t = AT_Rematch then ScanRematch (Proxy n t u rn sr f)
     else (case (map_option adapter_scan \<circ> f) m of
             None \<Rightarrow> ScanUse
           | Some next_scan \<Rightarrow> next_scan m))"

primrec has_pass_rule :: "proxy \<Rightarrow> metadata \<Rightarrow> bool" where
  "has_pass_rule (Proxy n t u rn sr f) = (\<lambda>m.
     if t = AT_PassRule then True
     else (case (map_option has_pass_rule \<circ> f) m of
             None \<Rightarrow> False
           | Some next_check \<Rightarrow> next_check m))"

record rematch_option =
  ro_name :: string
  ro_target_rematch :: "string option"
  ro_target_sub_rule :: "string option"

definition new_rematch :: "rematch_option \<Rightarrow> string + proxy" where
  "new_rematch opt =
     (if ro_target_rematch opt = None \<and> ro_target_sub_rule opt = None
      then Inl (''rematch '' @ ro_name opt @
                '' requires at least one of target-rematch-name or target-sub-rule'')
      else Inr (Proxy (ro_name opt) AT_Rematch True (ro_target_rematch opt) (ro_target_sub_rule opt)
                  (\<lambda>_. None)))"

definition apply_metadata :: "proxy \<Rightarrow> metadata \<Rightarrow> metadata" where
  "apply_metadata px m =
     (let m1 = (case px_target_rematch px of None \<Rightarrow> m | Some n \<Rightarrow> m\<lparr>m_rematch_name := n\<rparr>) in
      (case px_target_sub_rule px of None \<Rightarrow> m1 | Some n \<Rightarrow> m1\<lparr>m_special_rules := n\<rparr>))"

subsection \<open>The tunnel\<close>

record tunnel =
  tn_status :: tunnel_status
  tn_mode :: tunnel_mode
  tn_find_mode :: find_process_mode
  tn_rules :: "top_rule list"
  tn_sub_rules :: sub_alist
  tn_proxies :: "string \<Rightarrow> proxy option"

record tunnel_env =
  te_rules :: rule_env
  te_now :: int
  te_hosts :: hosts_env
  te_tree :: "host_value node"
  te_pick :: nat
  te_mapping :: bool
  te_find_host :: "addr \<Rightarrow> string option"
  te_is_fake :: "addr \<Rightarrow> bool"
  te_parse_addr :: "string \<Rightarrow> addr option"
  te_resolve :: "string \<Rightarrow> addr option"
  te_cmfa :: bool
  te_find_process :: "string \<Rightarrow> addr \<Rightarrow> 16 word \<Rightarrow> (32 word \<times> string) option"
  te_find_package :: "metadata \<Rightarrow> string option"

definition update_rules :: "top_rule list \<Rightarrow> sub_alist \<Rightarrow> tunnel \<Rightarrow> tunnel" where
  "update_rules new_rules new_sub_rules tn = tn\<lparr>tn_rules := new_rules, tn_sub_rules := new_sub_rules\<rparr>"

definition update_proxies :: "(string \<Rightarrow> proxy option) \<Rightarrow> tunnel \<Rightarrow> tunnel" where
  "update_proxies new_proxies tn = tn\<lparr>tn_proxies := new_proxies\<rparr>"

definition is_handle :: "tunnel \<Rightarrow> in_type \<Rightarrow> bool" where
  "is_handle tn t \<longleftrightarrow> tn_status tn = Running \<or> tn_status tn = Inner \<and> t = TYPE_INNER"

subsection \<open>Before the rules\<close>

definition fix_metadata :: "tunnel_env \<Rightarrow> metadata \<Rightarrow> metadata" where
  "fix_metadata env m0 =
     (let m = m0\<lparr>m_dst_ip := addr_unmap (m_dst_ip m0)\<rparr> in
      case te_parse_addr env (m_host m) of
        Some ip \<Rightarrow> m\<lparr>m_dst_ip := addr_unmap ip, m_host := []\<rparr>
      | None \<Rightarrow> m)"

definition need_lookup_ip :: "tunnel_env \<Rightarrow> metadata \<Rightarrow> bool" where
  "need_lookup_ip env m \<longleftrightarrow> te_mapping env \<and> m_host m = [] \<and> addr_valid (m_dst_ip m)"

datatype pre_error = FakeMissing addr

text \<open>The result is \<open>None\<close> when a hosts lookup does not end; an error leaves the metadata alone.\<close>

definition pre_handle_metadata :: "tunnel_env \<Rightarrow> metadata \<Rightarrow> (pre_error option \<times> metadata) option" where
  "pre_handle_metadata env m =
     (if need_lookup_ip env m then
        (case te_find_host env (m_dst_ip m) of
           Some host \<Rightarrow>
             (let m1 = m\<lparr>m_host := host, m_dns_mode := DNSMapping\<rparr> in
              if te_is_fake env (m_dst_ip m1) then
                Some (None, m1\<lparr>m_dst_ip := NoAddr, m_dns_mode := DNSFakeIP\<rparr>)
              else (case hosts_search (te_hosts env) (te_tree env) host False of
                      None \<Rightarrow> None
                    | Some (Some hv, True) \<Rightarrow> Some (None, m1\<lparr>m_dst_ip := fst (rand_ip (te_pick env) hv)\<rparr>)
                    | Some (Some hv, False) \<Rightarrow>
                        Some (None, if hv_is_domain hv then m1\<lparr>m_host := hv_domain hv\<rparr> else m1)
                    | Some (None, _) \<Rightarrow> Some (None, m1)))
         | None \<Rightarrow>
             (if te_is_fake env (m_dst_ip m) then Some (Some (FakeMissing (m_dst_ip m)), m)
              else Some (None, m)))
      else (case hosts_search (te_hosts env) (te_tree env) (m_host m) True of
              None \<Rightarrow> None
            | Some (Some hv, True) \<Rightarrow> Some (None, m\<lparr>m_host := hv_domain hv\<rparr>)
            | Some _ \<Rightarrow> Some (None, m)))"

subsection \<open>match\<close>

datatype pick = Picked proxy top_rule | PickRematch proxy top_rule | NoPick

fun scan_rules ::
  "tunnel_env \<Rightarrow> sub_table \<Rightarrow> nat \<Rightarrow> helper \<Rightarrow> (string \<Rightarrow> proxy option) \<Rightarrow> top_rule list \<Rightarrow> mstate \<Rightarrow>
   match_stop + pick \<times> top_rule list \<times> mstate" where
  "scan_rules env subs n h px [] s = Inr (NoPick, [], s)"
| "scan_rules env subs n h px (t # ts) s =
     (case top_match (te_rules env) subs n (te_now env) h t s of
        Inl e \<Rightarrow> Inl e
      | Inr (((matched, ada), s1), t1) \<Rightarrow>
          (let go_on = (case scan_rules env subs n h px ts s1 of
                          Inl e \<Rightarrow> Inl e
                        | Inr (p, ts', s2) \<Rightarrow> Inr (p, t1 # ts', s2)) in
           if \<not> matched then go_on
           else (case px ada of
                   None \<Rightarrow> go_on
                 | Some adapter \<Rightarrow>
                     (case adapter_scan adapter (ms_meta s1) of
                        ScanPass \<Rightarrow> go_on
                      | ScanRematch rp \<Rightarrow> Inr (PickRematch rp t1, t1 # ts, s1)
                      | ScanUse \<Rightarrow>
                          (if m_network (ms_meta s1) = UDP \<and> \<not> px_udp adapter then go_on
                           else Inr (Picked adapter t1, t1 # ts, s1))))))"

text \<open>
  \<open>getRules\<close>: the entry of the sub-rule table that the metadata names, or the top-level rules. Only
  the latter are wrapped, so only they change when they are matched.
\<close>

definition get_rules :: "tunnel \<Rightarrow> metadata \<Rightarrow> top_rule list" where
  "get_rules tn m =
     (case map_of (tn_sub_rules tn) (m_special_rules m) of
        Some sr \<Rightarrow> map Bare sr
      | None \<Rightarrow> tn_rules tn)"

definition put_rules :: "tunnel \<Rightarrow> metadata \<Rightarrow> top_rule list \<Rightarrow> tunnel" where
  "put_rules tn m ts =
     (case map_of (tn_sub_rules tn) (m_special_rules m) of
        Some sr \<Rightarrow> tn
      | None \<Rightarrow> tn\<lparr>tn_rules := ts\<rparr>)"

text \<open>
  The rematch loop, with a fuel for its rounds beside the one for sub-rules. \<open>DialContext\<close> of a
  rematch proxy only applies its targets to the metadata and never fails.
\<close>

primrec rematch_loop ::
  "nat \<Rightarrow> tunnel_env \<Rightarrow> nat \<Rightarrow> helper \<Rightarrow> string list \<Rightarrow> tunnel \<Rightarrow> mstate \<Rightarrow>
   match_stop + (proxy option \<times> top_rule option) \<times> tunnel \<times> mstate" where
  "rematch_loop 0 env n h chain tn s = Inl OutOfFuel"
| "rematch_loop (Suc k) env n h chain tn s =
     (case scan_rules env (sub_lookup (tn_sub_rules tn)) n h (tn_proxies tn) (get_rules tn (ms_meta s)) s of
        Inl e \<Rightarrow> Inl e
      | Inr (p, ts, s1) \<Rightarrow>
          (let tn1 = put_rules tn (ms_meta s) ts in
           case p of
             Picked adapter rule \<Rightarrow> Inr ((Some adapter, Some rule), tn1, s1)
           | PickRematch rp rule \<Rightarrow>
               (if px_name rp \<in> set chain then Inr ((Some rp, Some rule), tn1, s1)
                else rematch_loop k env n h (chain @ [px_name rp]) tn1 (upd_meta (apply_metadata rp) s1))
           | NoPick \<Rightarrow> Inr ((tn_proxies tn ''DIRECT'', None), tn1, s1)))"

definition tunnel_match ::
  "nat \<Rightarrow> tunnel_env \<Rightarrow> nat \<Rightarrow> helper \<Rightarrow> tunnel \<Rightarrow> mstate \<Rightarrow>
   match_stop + (proxy option \<times> top_rule option) \<times> tunnel \<times> mstate" where
  "tunnel_match k env n h tn s = rematch_loop k env n h [] tn s"

subsection \<open>resolveMetadata\<close>

definition resolve_ip_closure :: "tunnel_env \<Rightarrow> mstate \<Rightarrow> mstate" where
  "resolve_ip_closure env s =
     (if \<not> ms_resolved s \<and> m_host (ms_meta s) \<noteq> [] \<and> \<not> metadata_resolved (ms_meta s) then
        (let s1 = (case te_resolve env (m_host (ms_meta s)) of
                     None \<Rightarrow> s
                   | Some ip \<Rightarrow> upd_meta (\<lambda>m. m\<lparr>m_dst_ip := ip\<rparr>) s) in
         s1\<lparr>ms_resolved := True\<rparr>)
      else s)"

definition base_name :: "string \<Rightarrow> string" where
  "base_name path =
     (if path = [] then ''.''
      else (let stripped = rev (dropWhile (\<lambda>c. c = CHR ''/'') (rev path));
                name = rev (takeWhile (\<lambda>c. c \<noteq> CHR ''/'') (rev stripped)) in
            if name = [] then ''/'' else name))"

definition find_process_closure :: "tunnel_env \<Rightarrow> mstate \<Rightarrow> mstate" where
  "find_process_closure env s =
     (if \<not> ms_attempt s then s
      else (let s1 = s\<lparr>ms_attempt := False\<rparr>; m = ms_meta s1 in
            if \<not> te_cmfa env then
              (case te_find_process env (network_string (m_network m)) (m_src_ip m) (m_src_port m) of
                 None \<Rightarrow> s1
               | Some (uid, path) \<Rightarrow>
                   (let m1 = m\<lparr>m_process := base_name path, m_process_path := path, m_uid := uid\<rparr>;
                        m2 = (case te_find_package env m1 of
                                None \<Rightarrow> m1
                              | Some pkg \<Rightarrow> m1\<lparr>m_process := pkg\<rparr>) in
                    s1\<lparr>ms_meta := m2\<rparr>))
            else (case te_find_package env m of
                    None \<Rightarrow> s1
                  | Some pkg \<Rightarrow> s1\<lparr>ms_meta := m\<lparr>m_process := pkg\<rparr>\<rparr>)))"

definition check_pass_closure :: "tunnel \<Rightarrow> metadata \<Rightarrow> string \<Rightarrow> bool" where
  "check_pass_closure tn m name =
     (case tn_proxies tn name of None \<Rightarrow> False | Some adapter \<Rightarrow> has_pass_rule adapter m)"

definition tunnel_helper :: "tunnel_env \<Rightarrow> tunnel \<Rightarrow> helper" where
  "tunnel_helper env tn = \<lparr>resolve_ip = Some (resolve_ip_closure env),
     find_process = (if tn_find_mode tn = FindProcessStrict then Some (find_process_closure env) else None),
     check_pass_rule = Some (check_pass_closure tn)\<rparr>"

type_synonym resolved = "(proxy option \<times> top_rule option \<times> string option) \<times> tunnel \<times> metadata"

definition resolve_metadata ::
  "nat \<Rightarrow> nat \<Rightarrow> tunnel_env \<Rightarrow> tunnel \<Rightarrow> metadata \<Rightarrow> match_stop + resolved" where
  "resolve_metadata k n env tn m =
     (if m_special_proxy m \<noteq> [] then
        Inr ((tn_proxies tn (m_special_proxy m), None,
              if tn_proxies tn (m_special_proxy m) = None
              then Some (''proxy '' @ m_special_proxy m @ '' not found'') else None), tn, m)
      else (case hosts_search (te_hosts env) (te_tree env) (m_host m) False of
              None \<Rightarrow> Inl OutOfFuel
            | Some (hv, ok) \<Rightarrow>
                (let s0 = \<lparr>ms_meta = (case (hv, ok) of
                                        (Some v, True) \<Rightarrow> m\<lparr>m_dst_ip := fst (rand_ip (te_pick env) v)\<rparr>
                                      | _ \<Rightarrow> m),
                           ms_resolved = ok, ms_attempt = (m_type m \<noteq> TYPE_INNER)\<rparr>;
                     s1 = (if tn_find_mode tn = FindProcessAlways then find_process_closure env s0 else s0) in
                 case tn_mode tn of
                   Mode_Direct \<Rightarrow> Inr ((tn_proxies tn ''DIRECT'', None, None), tn, ms_meta s1)
                 | Mode_Global \<Rightarrow> Inr ((tn_proxies tn ''GLOBAL'', None, None), tn, ms_meta s1)
                 | Mode_Rule \<Rightarrow>
                     (case tunnel_match k env n (tunnel_helper env tn) tn s1 of
                        Inl e \<Rightarrow> Inl e
                      | Inr ((p, r), tn1, s2) \<Rightarrow> Inr ((p, r, None), tn1, ms_meta s2)))))"

subsection \<open>Retrying a dial\<close>

text \<open>
  \<open>retry\<close> makes at most ten attempts; attempt \<open>i\<close> has the outcome \<open>ft i\<close>, and \<open>wait i\<close> tells whether
  the pause after it ended before the deadline. The result is the last attempt made with its
  outcome.
\<close>

datatype dial_error = IPNotFound | IPVersion | IPv6Disabled | LoopbackReject | OtherDialError string

fun should_stop_retry :: "dial_error \<Rightarrow> bool" where
  "should_stop_retry IPNotFound = True"
| "should_stop_retry IPVersion = True"
| "should_stop_retry IPv6Disabled = True"
| "should_stop_retry LoopbackReject = True"
| "should_stop_retry (OtherDialError _) = False"

fun retry_from :: "nat \<Rightarrow> nat \<Rightarrow> (nat \<Rightarrow> dial_error + 'a) \<Rightarrow> (nat \<Rightarrow> bool) \<Rightarrow> nat \<times> (dial_error + 'a)" where
  "retry_from 0 i ft wait = (i, ft i)"
| "retry_from (Suc left) i ft wait =
     (case ft i of
        Inr t \<Rightarrow> (i, Inr t)
      | Inl err \<Rightarrow>
          (if should_stop_retry err then (i, Inl err)
           else if wait i then retry_from left (Suc i) ft wait
           else (i, Inl err)))"

definition retry_dial :: "(nat \<Rightarrow> dial_error + 'a) \<Rightarrow> (nat \<Rightarrow> bool) \<Rightarrow> nat \<times> (dial_error + 'a)" where
  "retry_dial ft wait = retry_from 9 0 ft wait"

subsection \<open>Handling a connection\<close>

text \<open>
  What \<open>handleTCPConn\<close> and \<open>handleUDPConn\<close> decide before any byte is sent. The sniffer is an
  argument, \<open>None\<close> when it is off; for TCP it tells whether it found a domain, for UDP it may
  return an error. The outcome is \<open>HostsLoop\<close> when a hosts lookup does not end.
\<close>

datatype conn_outcome =
    NotHandled
  | NotValid
  | PreHandleFailed
  | SniffFailed string
  | ResolveFailed string
  | HostsLoop
  | DialWith "proxy option" "top_rule option" metadata metadata

definition hosts_dial_metadata :: "tunnel_env \<Rightarrow> metadata \<Rightarrow> (metadata \<times> metadata) option" where
  "hosts_dial_metadata env m =
     (if length (m_host m) > 0 then
        (case hosts_search (te_hosts env) (te_tree env) (m_host m) False of
           None \<Rightarrow> None
         | Some (Some hv, True) \<Rightarrow>
             (let dst = fst (rand_ip (te_pick env) hv) in
              if \<not> te_is_fake env dst then
                (let m1 = m\<lparr>m_dst_ip := dst, m_dns_mode := DNSHosts\<rparr> in Some (m1, metadata_pure m1))
              else Some (m, m))
         | Some _ \<Rightarrow> Some (m, m))
      else Some (m, m))"

definition handle_tcp_conn ::
  "nat \<Rightarrow> nat \<Rightarrow> tunnel_env \<Rightarrow> tunnel \<Rightarrow> (metadata \<Rightarrow> bool \<times> metadata) option \<Rightarrow> metadata \<Rightarrow>
   match_stop + conn_outcome \<times> tunnel" where
  "handle_tcp_conn k n env tn sniff m0 =
     (if \<not> is_handle tn (m_type m0) then Inr (NotHandled, tn)
      else if \<not> metadata_valid m0 then Inr (NotValid, tn)
      else (case pre_handle_metadata env (fix_metadata env m0) of
              None \<Rightarrow> Inr (HostsLoop, tn)
            | Some (pre_err, m1) \<Rightarrow>
                (let (sniffed, m2) = (case sniff of None \<Rightarrow> (False, m1) | Some f \<Rightarrow> f m1) in
                 if pre_err \<noteq> None \<and> \<not> sniffed then Inr (PreHandleFailed, tn)
                 else (case resolve_metadata k n env tn m2 of
                         Inl e \<Rightarrow> Inl e
                       | Inr ((p, r, Some err), tn1, m3) \<Rightarrow> Inr (ResolveFailed err, tn1)
                       | Inr ((p, r, None), tn1, m3) \<Rightarrow>
                           (case hosts_dial_metadata env m3 of
                              None \<Rightarrow> Inr (HostsLoop, tn1)
                            | Some (m4, dial) \<Rightarrow> Inr (DialWith p r m4 dial, tn1))))))"

definition handle_udp_conn ::
  "nat \<Rightarrow> nat \<Rightarrow> tunnel_env \<Rightarrow> tunnel \<Rightarrow> (metadata \<Rightarrow> string option \<times> metadata) option \<Rightarrow> metadata \<Rightarrow>
   match_stop + conn_outcome \<times> tunnel" where
  "handle_udp_conn k n env tn sniff m0 =
     (if \<not> is_handle tn (m_type m0) then Inr (NotHandled, tn)
      else if \<not> metadata_valid m0 then Inr (NotValid, tn)
      else (let m1 = fix_metadata env m0 in
            case pre_handle_metadata env m1 of
              None \<Rightarrow> Inr (HostsLoop, tn)
            | Some (Some e, _) \<Rightarrow> Inr (PreHandleFailed, tn)
            | Some (None, _) \<Rightarrow>
                (let (sniff_err, m2) = (case sniff of None \<Rightarrow> (None, m1) | Some f \<Rightarrow> f m1) in
                 case sniff_err of
                   Some e \<Rightarrow> Inr (SniffFailed e, tn)
                 | None \<Rightarrow>
                     (case pre_handle_metadata env m2 of
                        None \<Rightarrow> Inr (HostsLoop, tn)
                      | Some (_, m3) \<Rightarrow>
                          (case resolve_metadata k n env tn m3 of
                             Inl e \<Rightarrow> Inl e
                           | Inr ((p, r, Some err), tn1, m4) \<Rightarrow> Inr (ResolveFailed err, tn1)
                           | Inr ((p, r, None), tn1, m4) \<Rightarrow> Inr (DialWith p r m4 (metadata_pure m4), tn1))))))"

subsection \<open>One scan of a rule list\<close>

lemma top_match_inner: "top_match env subs n now h t s = Inr (x, t') \<Longrightarrow> inner_rule t' = inner_rule t"
  by (cases t) (auto simp: wrapper_match_def wrapper_hit_def wrapper_miss_def map_sum_Inr_iff split: sum.splits if_splits)

lemma scan_rules_returns:
  assumes "\<And>t s. t \<in> set ts \<Longrightarrow> returns (match_rule (te_rules env) subs n h (inner_rule t) s)"
  shows "returns (scan_rules env subs n h px ts s)"
  using assms
proof (induction ts arbitrary: s)
  case (Cons t ts)
  have "returns (top_match (te_rules env) subs n (te_now env) h t s)"
    using Cons.prems by (intro top_match_returns) simp
  then obtain matched ada s1 t1 where top: "top_match (te_rules env) subs n (te_now env) h t s = Inr (((matched, ada), s1), t1)"
    by (auto simp: returns_iff)
  have "returns (scan_rules env subs n h px ts s1)" using Cons by simp
  then show ?case
    using top by (auto simp: returns_iff Let_def split: option.splits scan.splits)
qed simp

lemma scan_rules_inner: "scan_rules env subs n h px ts s = Inr (p, ts', s') \<Longrightarrow> map inner_rule ts' = map inner_rule ts"
  by (induction ts arbitrary: s p ts' s')
    (auto dest: top_match_inner simp: Let_def split: sum.splits prod.splits option.splits scan.splits if_splits)

definition picked_ok :: "(string \<Rightarrow> proxy option) \<Rightarrow> metadata \<Rightarrow> proxy \<Rightarrow> bool" where
  "picked_ok px m adapter \<longleftrightarrow> (\<exists>name. px name = Some adapter) \<and> adapter_scan adapter m = ScanUse \<and>
     (m_network m = UDP \<longrightarrow> px_udp adapter)"

lemma scan_rules_picked: "scan_rules env subs n h px ts s = Inr (Picked a t, ts', s') \<Longrightarrow> picked_ok px (ms_meta s') a"
  by (induction ts arbitrary: s ts')
    (auto simp: Let_def picked_ok_def split: sum.splits prod.splits option.splits scan.splits if_splits)

lemma scan_rules_rematch:
  "scan_rules env subs n h px ts s = Inr (PickRematch rp t, ts', s') \<Longrightarrow>
   \<exists>name a. px name = Some a \<and> adapter_scan a (ms_meta s') = ScanRematch rp"
  by (induction ts arbitrary: s ts')
    (auto simp: Let_def split: sum.splits prod.splits option.splits scan.splits if_splits)

subsection \<open>The rematch loop ends\<close>

definition rematch_proxies :: "tunnel \<Rightarrow> proxy set" where
  "rematch_proxies tn = {rp. \<exists>name a m. tn_proxies tn name = Some a \<and> adapter_scan a m = ScanRematch rp}"

definition rematch_names :: "tunnel \<Rightarrow> string set" where
  "rematch_names tn = px_name ` rematch_proxies tn"

definition tunnel_ok :: "tunnel \<Rightarrow> bool" where
  "tunnel_ok tn \<longleftrightarrow> verify_sub_rule (tn_sub_rules tn) = None \<and> wf_table (tn_sub_rules tn) \<and>
     (\<forall>t\<in>set (tn_rules tn). wf_rule (inner_rule t)) \<and> finite (rematch_names tn)"

lemma put_rules_simps [simp]:
  "tn_proxies (put_rules tn m ts) = tn_proxies tn" "tn_sub_rules (put_rules tn m ts) = tn_sub_rules tn"
  "tn_mode (put_rules tn m ts) = tn_mode tn" "tn_status (put_rules tn m ts) = tn_status tn"
  "rematch_proxies (put_rules tn m ts) = rematch_proxies tn"
  "rematch_names (put_rules tn m ts) = rematch_names tn"
  by (simp_all add: put_rules_def rematch_names_def rematch_proxies_def split: option.split)

lemma get_rules_wf: "tunnel_ok tn \<Longrightarrow> t \<in> set (get_rules tn m) \<Longrightarrow> wf_rule (inner_rule t)"
  by (auto simp: tunnel_ok_def get_rules_def wf_table_def split: option.splits dest!: map_of_SomeD)

lemma put_rules_ok:
  assumes "tunnel_ok tn" and "map inner_rule ts = map inner_rule (get_rules tn m)"
  shows "tunnel_ok (put_rules tn m ts)"
proof -
  have "\<forall>t\<in>set ts. wf_rule (inner_rule t)"
  proof
    fix t assume "t \<in> set ts"
    then have "inner_rule t \<in> set (map inner_rule (get_rules tn m))" by (simp flip: assms(2))
    then show "wf_rule (inner_rule t)" using get_rules_wf [OF assms(1)] by auto
  qed
  then show ?thesis using assms(1) by (auto simp: tunnel_ok_def put_rules_def rematch_names_def rematch_proxies_def split: option.splits)
qed

lemma rematch_loop_returns:
  assumes "tunnel_ok tn" and "set chain \<subseteq> rematch_names tn" and "distinct chain"
    and "card (rematch_names tn) < k + length chain"
  shows "returns (rematch_loop k env (Suc (length (tn_sub_rules tn))) h chain tn s)"
  using assms
proof (induction k arbitrary: chain tn s)
  case 0
  then have "length chain \<le> card (rematch_names tn)"
    using card_mono [of "rematch_names tn" "set chain"] by (simp add: tunnel_ok_def distinct_card)
  with 0 show ?case by simp
next
  case (Suc k)
  let ?n = "Suc (length (tn_sub_rules tn))" and ?subs = "sub_lookup (tn_sub_rules tn)"
  have "returns (scan_rules env ?subs ?n h (tn_proxies tn) (get_rules tn (ms_meta s)) s)"
    using get_rules_wf [OF Suc.prems(1)] Suc.prems(1)
    by (intro scan_rules_returns match_rule_terminates) (auto simp: tunnel_ok_def)
  then obtain p ts s1 where
    scan: "scan_rules env ?subs ?n h (tn_proxies tn) (get_rules tn (ms_meta s)) s = Inr (p, ts, s1)"
    by (auto simp: returns_iff)
  show ?case
  proof (cases p)
    case (PickRematch rp t)
    let ?tn = "put_rules tn (ms_meta s) ts"
    have "tunnel_ok ?tn" by (rule put_rules_ok [OF Suc.prems(1) scan_rules_inner [OF scan]])
    moreover have "px_name rp \<in> rematch_names tn"
      using scan_rules_rematch [OF scan [unfolded PickRematch]] by (auto simp: rematch_names_def rematch_proxies_def)
    ultimately have "returns (rematch_loop k env ?n h (chain @ [px_name rp]) ?tn s')"
      if "px_name rp \<notin> set chain" for s'
      using Suc.IH [of ?tn "chain @ [px_name rp]" s'] Suc.prems that by simp
    then show ?thesis using scan PickRematch by (simp add: Let_def)
  qed (use scan in \<open>simp_all add: Let_def\<close>)
qed

text \<open>
  C2: on a tunnel whose sub-rules passed the check, choosing the proxy of a connection always
  returns. Rules that send the connection back for another round cannot make it go on for ever:
  one round more than there are rematch proxies is enough, whatever they write into the metadata.
\<close>

theorem tunnel_match_terminates:
  assumes "tunnel_ok tn" and "card (rematch_names tn) < k"
  shows "returns (tunnel_match k env (Suc (length (tn_sub_rules tn))) h tn s)"
  unfolding tunnel_match_def using assms by (intro rematch_loop_returns) simp_all

lemma rematch_loop_fits:
  "rematch_loop k env n h chain tn s = Inr ((p, r), tn', s') \<Longrightarrow>
   (r = None \<and> p = tn_proxies tn ''DIRECT'') \<or>
   (r \<noteq> None \<and> (\<exists>a. p = Some a \<and>
      (picked_ok (tn_proxies tn) (ms_meta s') a \<or> a \<in> rematch_proxies tn)))"
proof (induction k arbitrary: chain tn s)
  case (Suc k)
  let ?subs = "sub_lookup (tn_sub_rules tn)"
  obtain q ts s1 where scan: "scan_rules env ?subs n h (tn_proxies tn) (get_rules tn (ms_meta s)) s = Inr (q, ts, s1)"
    using Suc.prems by (cases "scan_rules env ?subs n h (tn_proxies tn) (get_rules tn (ms_meta s)) s") auto
  show ?case
  proof (cases q)
    case (Picked a t)
    then show ?thesis using Suc.prems scan scan_rules_picked by (auto simp: Let_def)
  next
    case NoPick
    then show ?thesis using Suc.prems scan by (auto simp: Let_def)
  next
    case (PickRematch rp t)
    have name: "rp \<in> rematch_proxies tn"
      using scan_rules_rematch [OF scan [unfolded PickRematch]] by (auto simp: rematch_proxies_def)
    show ?thesis
    proof (cases "px_name rp \<in> set chain")
      case True
      then show ?thesis using Suc.prems scan PickRematch name by (auto simp: Let_def)
    next
      case False
      then have "rematch_loop k env n h (chain @ [px_name rp]) (put_rules tn (ms_meta s) ts)
          (upd_meta (apply_metadata rp) s1) = Inr ((p, r), tn', s')"
        using Suc.prems scan PickRematch by (simp add: Let_def)
      from Suc.IH [OF this] show ?thesis by simp
    qed
  qed
qed simp


subsection \<open>The first rule that fits\<close>

fun rule_off :: "top_rule \<Rightarrow> bool" where
  "rule_off (Bare r) = False"
| "rule_off (Wrapped w) = rw_disabled w"

definition fires :: "tunnel_env \<Rightarrow> metadata \<Rightarrow> top_rule \<Rightarrow> bool" where
  "fires env m t \<longleftrightarrow> \<not> rule_off t \<and> holds (te_rules env) m (inner_rule t)"

fun tally :: "tunnel_env \<Rightarrow> metadata \<Rightarrow> top_rule \<Rightarrow> top_rule" where
  "tally env m (Bare r) = Bare r"
| "tally env m (Wrapped w) =
     (if rw_disabled w then Wrapped w
      else if holds (te_rules env) m (rw_rule w) then Wrapped (wrapper_hit (te_now env) w)
      else Wrapped (wrapper_miss (te_now env) w))"

definition usable :: "tunnel_env \<Rightarrow> (string \<Rightarrow> proxy option) \<Rightarrow> metadata \<Rightarrow> top_rule \<Rightarrow> bool" where
  "usable env px m t \<longleftrightarrow> fires env m t \<and>
     (\<exists>a. px (rule_adapter (inner_rule t)) = Some a \<and> adapter_scan a m = ScanUse \<and>
        (m_network m = UDP \<longrightarrow> px_udp a))"

definition no_rematch :: "(string \<Rightarrow> proxy option) \<Rightarrow> metadata \<Rightarrow> bool" where
  "no_rematch px m \<longleftrightarrow> (\<forall>name a. px name = Some a \<longrightarrow> (\<forall>rp. adapter_scan a m \<noteq> ScanRematch rp))"

lemma top_match_static:
  "static_rule (inner_rule t) \<Longrightarrow>
   \<exists>a. top_match (te_rules env) subs n (te_now env) h t s =
       Inr (((fires env (ms_meta s) t, a), s), tally env (ms_meta s) t) \<and>
     (fires env (ms_meta s) t \<longrightarrow> a = rule_adapter (inner_rule t))"
  using static_rule_ok [of "inner_rule t" "te_rules env" subs n h s]
  by (cases t) (auto simp: static_ok_def fires_def wrapper_match_def)

definition first_usable ::
  "tunnel_env \<Rightarrow> (string \<Rightarrow> proxy option) \<Rightarrow> metadata \<Rightarrow> top_rule list \<Rightarrow> top_rule option \<times> top_rule list" where
  "first_usable env px m ts =
     (let before = takeWhile (\<lambda>t. \<not> usable env px m t) ts in
      case dropWhile (\<lambda>t. \<not> usable env px m t) ts of
        [] \<Rightarrow> (None, map (tally env m) before)
      | t # rest \<Rightarrow> (Some (tally env m t), map (tally env m) before @ tally env m t # rest))"

lemma first_usable_Cons:
  "first_usable env px m (t # ts) =
     (if usable env px m t then (Some (tally env m t), tally env m t # ts)
      else (fst (first_usable env px m ts), tally env m t # snd (first_usable env px m ts)))"
  by (cases "usable env px m t") (simp_all add: first_usable_def Let_def del: dropWhile_eq_Nil_conv split: list.split)

lemma inner_rule_tally [simp]: "inner_rule (tally env m t) = inner_rule t"
  by (cases t) (simp_all add: wrapper_hit_def wrapper_miss_def)

lemma scan_rules_static:
  "\<forall>t\<in>set ts. static_rule (inner_rule t) \<Longrightarrow> no_rematch px (ms_meta s) \<Longrightarrow>
   scan_rules env subs n h px ts s =
     Inr ((case fst (first_usable env px (ms_meta s) ts) of
             None \<Rightarrow> NoPick
           | Some t \<Rightarrow> Picked (the (px (rule_adapter (inner_rule t)))) t),
          snd (first_usable env px (ms_meta s) ts), s)"
proof (induction ts)
  case Nil
  then show ?case by (simp add: first_usable_def)
next
  case (Cons t ts)
  let ?m = "ms_meta s"
  obtain a where top: "top_match (te_rules env) subs n (te_now env) h t s = Inr (((fires env ?m t, a), s), tally env ?m t)"
    and a: "fires env ?m t \<longrightarrow> a = rule_adapter (inner_rule t)"
    using top_match_static [of t env subs n h s] Cons.prems by auto
  show ?case
  proof (cases "fires env ?m t")
    case False
    then show ?thesis using Cons top by (simp add: first_usable_Cons usable_def)
  next
    case True
    show ?thesis
    proof (cases "px a")
      case None
      then show ?thesis using Cons top True a by (simp add: first_usable_Cons usable_def)
    next
      case (Some p)
      then show ?thesis
        using Cons top True a
        by (cases "adapter_scan p ?m") (auto simp: first_usable_Cons usable_def no_rematch_def)
    qed
  qed
qed


subsection \<open>A concrete tunnel\<close>

definition demo_direct :: proxy where
  "demo_direct = Proxy ''DIRECT'' AT_Direct True None None (\<lambda>_. None)"

definition demo_again :: proxy where
  "demo_again = Proxy ''AGAIN'' AT_Rematch True (Some ''second'') None (\<lambda>_. None)"

definition demo_tunnel :: tunnel where
  "demo_tunnel = \<lparr>tn_status = Running, tn_mode = Mode_Rule, tn_find_mode = FindProcessOff,
     tn_rules = [Wrapped (new_rule_wrapper (RematchName [''second''] ''DIRECT'' ''second'')),
                 Bare (Domain ''a.b'' ''AGAIN''), Bare (MatchRule ''DIRECT'')],
     tn_sub_rules = [],
     tn_proxies = (\<lambda>n. if n = ''DIRECT'' then Some demo_direct else if n = ''AGAIN'' then Some demo_again else None)\<rparr>"

definition demo_env :: tunnel_env where
  "demo_env = \<lparr>te_rules = bare_env, te_now = 5, te_hosts = demo_hosts_env, te_tree = demo_hosts, te_pick = 0,
     te_mapping = True, te_find_host = (\<lambda>a. if a = V4 0xC6120001 then Some ''a.b'' else None),
     te_is_fake = (\<lambda>a. a = V4 0xC6120001), te_parse_addr = (\<lambda>_. None), te_resolve = (\<lambda>_. None),
     te_cmfa = True, te_find_process = (\<lambda>_ _ _. None), te_find_package = (\<lambda>_. None)\<rparr>"

lemma demo_rematch: "rematch_proxies demo_tunnel = {demo_again}"
  by (auto simp: rematch_proxies_def demo_tunnel_def demo_direct_def demo_again_def split: if_splits)

lemma demo_tunnel_ok: "tunnel_ok demo_tunnel"
  using demo_rematch
  by (simp add: tunnel_ok_def rematch_names_def verify_sub_rule_def wf_table_def)
    (simp add: demo_tunnel_def new_rule_wrapper_def)

theorem tunnel_match_terminates_witness:
  "returns (tunnel_match 2 demo_env 1 no_helper demo_tunnel (start_state (empty_metadata\<lparr>m_host := ''a.b''\<rparr>)))"
  using tunnel_match_terminates [OF demo_tunnel_ok, of 2 demo_env no_helper "start_state (empty_metadata\<lparr>m_host := ''a.b''\<rparr>)"]
  by (simp add: rematch_names_def demo_rematch) (simp add: demo_tunnel_def)

lemma demo_match_run:
  "tunnel_match 2 demo_env 1 no_helper demo_tunnel (start_state (empty_metadata\<lparr>m_host := ''a.b''\<rparr>)) =
   Inr ((Some demo_direct,
         Some (Wrapped (wrapper_hit 5 (wrapper_miss 5 (new_rule_wrapper (RematchName [''second''] ''DIRECT'' ''second'')))))),
        put_rules demo_tunnel empty_metadata
          [Wrapped (wrapper_hit 5 (wrapper_miss 5 (new_rule_wrapper (RematchName [''second''] ''DIRECT'' ''second'')))),
           Bare (Domain ''a.b'' ''AGAIN''), Bare (MatchRule ''DIRECT'')],
        start_state (empty_metadata\<lparr>m_host := ''a.b'', m_rematch_name := ''second''\<rparr>))"
  by (simp add: tunnel_match_def eval_nat_numeral demo_tunnel_def demo_env_def get_rules_def put_rules_def
      wrapper_match_def new_rule_wrapper_def match_rule.simps basic_defs start_state_def empty_metadata_def
      rule_host_def demo_direct_def demo_again_def apply_metadata_def wrapper_hit_def wrapper_miss_def)



subsection \<open>Before and after the rules\<close>

text \<open>
  C1: a fake address never reaches a proxy: once a connection to one passed \<open>preHandleMetadata\<close>
  without an error, the name it stood for is its host and the address is gone.
\<close>

theorem fake_address_is_replaced:
  assumes "pre_handle_metadata env m = Some (None, m')"
    and "te_mapping env" and "m_host m = []" and "addr_valid (m_dst_ip m)" and "te_is_fake env (m_dst_ip m)"
  shows "\<exists>host. te_find_host env (m_dst_ip m) = Some host \<and>
    m' = m\<lparr>m_host := host, m_dns_mode := DNSFakeIP, m_dst_ip := NoAddr\<rparr>"
  using assms by (auto simp: pre_handle_metadata_def need_lookup_ip_def Let_def split: option.splits if_splits)

theorem fake_address_is_replaced_witness:
  "\<exists>host. te_find_host demo_env (V4 0xC6120001) = Some host \<and>
    empty_metadata\<lparr>m_host := ''a.b'', m_dns_mode := DNSFakeIP\<rparr> =
    empty_metadata\<lparr>m_host := host, m_dns_mode := DNSFakeIP, m_dst_ip := NoAddr\<rparr>"
proof -
  let ?m = "empty_metadata\<lparr>m_dst_ip := V4 0xC6120001\<rparr>"
  have "pre_handle_metadata demo_env ?m = Some (None, empty_metadata\<lparr>m_host := ''a.b'', m_dns_mode := DNSFakeIP\<rparr>)"
    by (simp add: pre_handle_metadata_def need_lookup_ip_def demo_env_def empty_metadata_def)
  from fake_address_is_replaced [OF this] show ?thesis by (simp add: demo_env_def empty_metadata_def)
qed

text \<open>
  Within one connection the name is resolved at most once and the process looked up at most
  once, however many rules ask for it.
\<close>

theorem lookups_run_once:
  "resolve_ip_closure env (resolve_ip_closure env s) = resolve_ip_closure env s \<and>
   find_process_closure env (find_process_closure env s) = find_process_closure env s"
proof
  show "resolve_ip_closure env (resolve_ip_closure env s) = resolve_ip_closure env s"
    by (auto simp: resolve_ip_closure_def Let_def)
  have "\<not> ms_attempt (find_process_closure env s)"
    by (auto simp: find_process_closure_def Let_def split: option.split)
  then show "find_process_closure env (find_process_closure env s) = find_process_closure env s"
    by (simp add: find_process_closure_def [of env "find_process_closure env s"])
qed

lemma retry_from_spec:
  "retry_from left i ft wait = (j, r) \<Longrightarrow>
   i \<le> j \<and> j \<le> i + left \<and> r = ft j \<and>
   (\<forall>q. i \<le> q \<and> q < j \<longrightarrow> wait q \<and> (\<exists>e. ft q = Inl e \<and> \<not> should_stop_retry e)) \<and>
   (\<forall>e. r = Inl e \<longrightarrow> should_stop_retry e \<or> \<not> wait j \<or> j = i + left)"
proof (induction left i ft wait rule: retry_from.induct)
  case (2 left i ft wait)
  show ?case
  proof (cases "ft i")
    case (Inr t)
    then show ?thesis using 2(2) by auto
  next
    case (Inl e)
    show ?thesis
    proof (cases "should_stop_retry e \<or> \<not> wait i")
      case True
      then show ?thesis using 2(2) Inl by (auto split: if_splits)
    next
      case False
      then have "retry_from left (Suc i) ft wait = (j, r)" using 2(2) Inl by simp
      from 2(1) [OF Inl _ _ this] False have tail: "Suc i \<le> j" "j \<le> Suc i + left" "r = ft j"
        "\<forall>q. Suc i \<le> q \<and> q < j \<longrightarrow> wait q \<and> (\<exists>e. ft q = Inl e \<and> \<not> should_stop_retry e)"
        "\<forall>e. r = Inl e \<longrightarrow> should_stop_retry e \<or> \<not> wait j \<or> j = Suc i + left" by auto
      moreover have "i \<le> q \<longleftrightarrow> q = i \<or> Suc i \<le> q" for q by auto
      ultimately show ?thesis using False Inl by auto
    qed
  qed
qed auto

text \<open>
  A dial is tried at most ten times; every attempt but the last failed with an error worth
  another try and its pause ended in time, and a failure is only reported when the error is
  final, the time is up or the attempts are used up.
\<close>

theorem retry_dial_correct:
  assumes "retry_dial ft wait = (j, r)"
  shows "j < 10 \<and> r = ft j \<and>
    (\<forall>q<j. wait q \<and> (\<exists>e. ft q = Inl e \<and> \<not> should_stop_retry e)) \<and>
    (\<forall>e. r = Inl e \<longrightarrow> should_stop_retry e \<or> \<not> wait j \<or> j = 9)"
  using retry_from_spec [OF assms [unfolded retry_dial_def]] by auto

theorem retry_dial_correct_witness: "(2::nat) < 10 \<and> (\<lambda>i. i < 5) (1::nat)"
proof -
  have "retry_dial (\<lambda>i. if i < 2 then Inl (OtherDialError ''x'') else Inr i) (\<lambda>i. i < 5) = (2, Inr 2)"
    by (simp add: retry_dial_def eval_nat_numeral)
  from retry_dial_correct [OF this] show ?thesis by simp
qed

end
