(* ===== verification/Config_Parse.thy ===== *)
theory Config_Parse
  imports Config_Proxies Config_Dns Tunnel_Match
begin

text \<open>
  The whole configuration (\<open>config/config.go\<close>: \<open>ParseRawConfig\<close>, \<open>parseController\<close>, \<open>parseListeners\<close>,
  \<open>parseRuleProviders\<close>, \<open>parseAuthentication\<close>, \<open>parseIPV6\<close>, \<open>parseTun\<close>, \<open>parseIPCIDR\<close>, \<open>parseSniffer\<close>),
  put together from the sections of the other theories in the order of the code. Reading a listener
  or a rule provider, the check of paths and the sets of addresses are parameters. A map Go ranges
  over is a list of pairs in the order of the visit.
\<close>

subsection \<open>The sniffer section\<close>

datatype sniffer_type = SniffTLS | SniffHTTP | SniffQUIC

fun sniffer_type_string :: "sniffer_type \<Rightarrow> string" where
  "sniffer_type_string SniffTLS = ''TLS''"
| "sniffer_type_string SniffHTTP = ''HTTP''"
| "sniffer_type_string SniffQUIC = ''QUIC''"

definition sniffer_types :: "sniffer_type list" where
  "sniffer_types = [SniffTLS, SniffHTTP, SniffQUIC]"

record raw_sniffing_config =
  rsc_ports :: "string list"
  rsc_override_dest :: "bool option"

record raw_sniffer =
  rsn_enable :: bool
  rsn_override_dest :: bool
  rsn_sniffing :: "string list"
  rsn_force_domain :: "string list"
  rsn_skip_src :: "string list"
  rsn_skip_dst :: "string list"
  rsn_skip_domain :: "string list"
  rsn_ports :: "string list"
  rsn_force_dns_mapping :: bool
  rsn_parse_pure_ip :: bool
  rsn_sniff :: "(string \<times> raw_sniffing_config) list"

record sniffer_config =
  sc_ports :: "16 word range list"
  sc_override_dest :: bool

record sniffer_section =
  sx_enable :: bool
  sx_sniffers :: "(sniffer_type \<times> sniffer_config) list"
  sx_force_domain :: "(string \<Rightarrow> bool) list"
  sx_skip_src :: "(addr \<Rightarrow> bool) list"
  sx_skip_dst :: "(addr \<Rightarrow> bool) list"
  sx_skip_domain :: "(string \<Rightarrow> bool) list"
  sx_force_dns_mapping :: bool
  sx_parse_pure_ip :: bool

record parse_all_env =
  al_proxies :: proxies_env
  al_dns :: dns_section_env
  al_hosts :: hosts_env
  al_listener :: "mapping \<Rightarrow> string + string"
  al_rule_provider :: "string \<Rightarrow> mapping \<Rightarrow> string + set_behavior"
  al_has_ip6 :: bool
  al_safe_path :: "string \<Rightarrow> bool"
  al_local_path :: "string \<Rightarrow> bool"
  al_cidr_err :: "string \<Rightarrow> string option"
  al_geoip :: "string \<Rightarrow> string + (addr \<Rightarrow> bool)"
  al_ip_rule_set :: "string \<Rightarrow> string + (addr \<Rightarrow> bool)"

definition find_sniffer :: "string \<Rightarrow> sniffer_type list" where
  "find_sniffer name = filter (\<lambda>t. sniffer_type_string t = to_upper name) sniffer_types"

definition add_sniffer :: "string \<Rightarrow> sniffer_config \<Rightarrow> (sniffer_type \<times> sniffer_config) list \<Rightarrow>
    string + (sniffer_type \<times> sniffer_config) list" where
  "add_sniffer name c loaded =
     (case find_sniffer name of
        [] \<Rightarrow> Inl (''not find the sniffer['' @ name @ '']'')
      | ts \<Rightarrow> Inr (fold (\<lambda>t. AList.update t c) ts loaded))"

fun load_sniff ::
  "bool \<Rightarrow> (string \<times> raw_sniffing_config) list \<Rightarrow> (sniffer_type \<times> sniffer_config) list \<Rightarrow>
    string + (sniffer_type \<times> sniffer_config) list" where
  "load_sniff override [] loaded = Inr loaded"
| "load_sniff override ((name, c) # rest) loaded =
     attempt (new_unsigned_ranges_from_list (rsc_ports c)) (\<lambda>ports.
     attempt (add_sniffer name \<lparr>sc_ports = ports,
         sc_override_dest = (case rsc_override_dest c of Some b \<Rightarrow> b | None \<Rightarrow> override)\<rparr> loaded) (\<lambda>loaded'.
       load_sniff override rest loaded'))"

fun load_sniffing ::
  "sniffer_config \<Rightarrow> string list \<Rightarrow> (sniffer_type \<times> sniffer_config) list \<Rightarrow> string + (sniffer_type \<times> sniffer_config) list" where
  "load_sniffing c [] loaded = Inr loaded"
| "load_sniffing c (name # names) loaded = attempt (add_sniffer name c loaded) (\<lambda>loaded'. load_sniffing c names loaded')"

definition load_sniffers :: "raw_sniffer \<Rightarrow> string + (sniffer_type \<times> sniffer_config) list" where
  "load_sniffers raw =
     (if rsn_sniff raw \<noteq> [] then load_sniff (rsn_override_dest raw) (rsn_sniff raw) []
      else
        attempt (new_unsigned_ranges_from_list (rsn_ports raw)) (\<lambda>ports.
          load_sniffing \<lparr>sc_ports = ports, sc_override_dest = rsn_override_dest raw\<rparr> (rsn_sniffing raw) []))"

definition parse_ip_rule_set :: "parse_all_env \<Rightarrow> (string \<Rightarrow> set_behavior option) \<Rightarrow> string \<Rightarrow> string + (addr \<Rightarrow> bool)" where
  "parse_ip_rule_set env sets name =
     (case sets name of
        None \<Rightarrow> Inl (''not found rule-set: '' @ name)
      | Some BDomain \<Rightarrow> Inl ''rule provider type error, expect ipcidr''
      | Some _ \<Rightarrow> al_ip_rule_set env name)"

text \<open>The matchers so far, and the prefixes for the set that is built at the end.\<close>

fun parse_ip_cidr_list ::
  "parse_all_env \<Rightarrow> (string \<Rightarrow> set_behavior option) \<Rightarrow> string list \<Rightarrow> string list \<Rightarrow> (addr \<Rightarrow> bool) list \<Rightarrow>
    string + (addr \<Rightarrow> bool) list \<times> string list" where
  "parse_ip_cidr_list env sets [] ps ms = Inr (ms, ps)"
| "parse_ip_cidr_list env sets (a # as) ps ms =
     (let lower = to_lower a in
      if has_prefix lower ''geoip:'' then
        attempt (try_each (al_geoip env) (sub_keys a)) (\<lambda>more. parse_ip_cidr_list env sets as ps (ms @ more))
      else if has_prefix lower ''rule-set:'' then
        attempt (try_each (parse_ip_rule_set env sets) (sub_keys a)) (\<lambda>more. parse_ip_cidr_list env sets as ps (ms @ more))
      else (case al_cidr_err env a of
              Some e \<Rightarrow> Inl e
            | None \<Rightarrow> parse_ip_cidr_list env sets as (ps @ [a]) ms))"

definition parse_ip_cidr :: "parse_all_env \<Rightarrow> (string \<Rightarrow> set_behavior option) \<Rightarrow> string list \<Rightarrow> string + (addr \<Rightarrow> bool) list" where
  "parse_ip_cidr env sets addresses =
     attempt (parse_ip_cidr_list env sets addresses [] []) (\<lambda>(ms, ps).
       if ps = [] then Inr ms else attempt (de_cidr_set (al_dns env) ps) (\<lambda>m. Inr (ms @ [m])))"

definition parse_sniffer :: "parse_all_env \<Rightarrow> (string \<Rightarrow> set_behavior option) \<Rightarrow> raw_sniffer \<Rightarrow> string + sniffer_section" where
  "parse_sniffer env sets raw =
     (let dns = (al_dns env)\<lparr>de_rule_sets := sets\<rparr> in
      attempt (load_sniffers raw) (\<lambda>sniffers.
      attempt (parse_domain dns (rsn_force_domain raw) []) (\<lambda>force.
      attempt (parse_ip_cidr env sets (rsn_skip_src raw)) (\<lambda>src.
      attempt (parse_ip_cidr env sets (rsn_skip_dst raw)) (\<lambda>dst.
      attempt (parse_domain dns (rsn_skip_domain raw) []) (\<lambda>skip.
        Inr \<lparr>sx_enable = rsn_enable raw, sx_sniffers = sniffers, sx_force_domain = force, sx_skip_src = src, sx_skip_dst = dst,
          sx_skip_domain = skip, sx_force_dns_mapping = rsn_force_dns_mapping raw, sx_parse_pure_ip = rsn_parse_pure_ip raw\<rparr>))))))"

subsection \<open>The other sections\<close>

definition parse_controller :: "parse_all_env \<Rightarrow> raw_controller \<Rightarrow> string + raw_controller" where
  "parse_controller env k =
     (if rk_ui k \<noteq> [] \<and> \<not> al_safe_path env (rk_ui k) then Inl (''path is not safe: '' @ rk_ui k)
      else if rk_ui_name k \<noteq> [] \<and> \<not> al_local_path env (rk_ui_name k) then Inl (''external UI name is not local: '' @ rk_ui_name k)
      else Inr k)"

fun parse_listeners :: "parse_all_env \<Rightarrow> mapping list \<Rightarrow> string list \<Rightarrow> string + string list" where
  "parse_listeners env [] names = Inr names"
| "parse_listeners env (m # ms) names =
     attempt (al_listener env m) (\<lambda>name.
       if name \<in> set names then Inl (''listener '' @ name @ '' is the duplicate name'') else parse_listeners env ms (names @ [name]))"

definition parse_rule_providers :: "parse_all_env \<Rightarrow> (string \<times> mapping) list \<Rightarrow> string + (string \<times> set_behavior) list" where
  "parse_rule_providers env = try_each (\<lambda>(name, m). attempt (al_rule_provider env name m) (\<lambda>b. Inr (name, b)))"

definition parse_authentication :: "string list \<Rightarrow> (string \<times> string) list" where
  "parse_authentication ls =
     concat (map (\<lambda>l. if CHR '':'' \<in> set l
       then [(takeWhile (\<lambda>c. c \<noteq> CHR '':'') l, tl (dropWhile (\<lambda>c. c \<noteq> CHR '':'') l))] else []) ls)"

definition parse_ipv6 :: "bool \<Rightarrow> raw_config \<Rightarrow> raw_config" where
  "parse_ipv6 has_ip6 cfg =
     (if \<not> rc_ipv6 cfg \<or> \<not> has_ip6
      then cfg\<lparr>rc_dns := (rc_dns cfg)\<lparr>rd_fake_ip_range6 := []\<rparr>, rc_tun := (rc_tun cfg)\<lparr>rt_inet6_address := []\<rparr>\<rparr>
      else cfg)"

text \<open>The address of the tun device: that of the fake range, in a network of four.\<close>

definition parse_tun_address :: "net_prefix \<Rightarrow> net_prefix" where
  "parse_tun_address fake = Pfx (prefix_addr (if prefix_valid fake then fake else Pfx (V4 0xC6120001) 16)) 30"

definition host_texts :: "parse_all_env \<Rightarrow> mapping \<Rightarrow> (string + (string \<times> string list) list) option" where
  "host_texts env hosts =
     foldr (\<lambda>(domain, v) rest.
       try_step (to_string_slice (al_dns env) v) (\<lambda>texts. try_step rest (\<lambda>more. Some (Inr ((domain, texts) # more))))) hosts (Some (Inr []))"

definition tunnel_err :: "proxy_table \<Rightarrow> raw_tunnel list \<Rightarrow> string option" where
  "tunnel_err table tunnels =
     (case List.find (\<lambda>t. tn_proxy t \<noteq> [] \<and> map_of table (tn_proxy t) = None) tunnels of
        Some t \<Rightarrow> Some (''tunnel proxy '' @ tn_proxy t @ '' not found'')
      | None \<Rightarrow> None)"

record 's parsed_config =
  cg_controller :: raw_controller
  cg_proxies :: parsed_proxies
  cg_listeners :: "string list"
  cg_rule_providers :: "(string \<times> set_behavior) list"
  cg_sub_rules :: sub_alist
  cg_rules :: "top_rule list"
  cg_hosts :: "host_value node"
  cg_dns :: "'s dns_section"
  cg_tun :: raw_tun
  cg_tun_address :: net_prefix
  cg_users :: "(string \<times> string) list"
  cg_tunnels :: "raw_tunnel list"
  cg_sniffer :: sniffer_section

definition rules_env_of :: "parse_all_env \<Rightarrow> parsed_proxies \<Rightarrow> (string \<times> set_behavior) list \<Rightarrow> rules_env" where
  "rules_env_of env proxies providers =
     \<lparr>rv_parse = de_parse_rule (al_dns env), rv_proxies = (\<lambda>n. map_of (pp_table proxies) n \<noteq> None),
      rv_providers = (\<lambda>n. map_of providers n \<noteq> None)\<rparr>"

definition parse_raw_config ::
  "parse_all_env \<Rightarrow> 's store_ops \<Rightarrow> 's \<Rightarrow> (net_prefix \<Rightarrow> addr) \<Rightarrow> raw_config \<Rightarrow> raw_sniffer \<Rightarrow> (string + 's parsed_config) option" where
  "parse_raw_config env ops fresh last_ip cfg raw_sniff =
     try_step (Some (parse_controller env (rc_controller cfg))) (\<lambda>controller.
     try_step (parse_all_proxies (al_proxies env) cfg) (\<lambda>proxies.
     try_step (Some (parse_listeners env (rc_listeners cfg) [])) (\<lambda>listeners.
     try_step (Some (parse_rule_providers env (rc_rule_provider cfg))) (\<lambda>providers.
       let v = rules_env_of env proxies providers; sets = map_of providers in
     try_step (Some (parse_sub_rules v (rc_sub_rules cfg))) (\<lambda>sub_rules.
     try_step (Some (parse_rules v (\<lambda>n. map_of sub_rules n \<noteq> None) ''rules'' (rc_rule cfg))) (\<lambda>rules.
     try_step (host_texts env (rc_hosts cfg)) (\<lambda>texts.
     try_step (parse_hosts (al_hosts env) texts) (\<lambda>hosts.
       let cfg' = parse_ipv6 (al_has_ip6 env) cfg in
     try_step (parse_dns ((al_dns env)\<lparr>de_rule_sets := sets\<rparr>) ops fresh last_ip (rc_dns cfg')) (\<lambda>dns.
       case tunnel_err (pp_table proxies) (rc_tunnels cfg) of
         Some e \<Rightarrow> Some (Inl e)
       | None \<Rightarrow>
           try_step (Some (parse_sniffer env sets raw_sniff)) (\<lambda>sniffer.
             Some (Inr \<lparr>cg_controller = controller, cg_proxies = proxies, cg_listeners = listeners, cg_rule_providers = providers,
               cg_sub_rules = sub_rules, cg_rules = rules, cg_hosts = hosts, cg_dns = dns, cg_tun = rc_tun cfg',
               cg_tun_address = parse_tun_address (dx_range dns), cg_users = parse_authentication (rc_authentication cfg),
               cg_tunnels = rc_tunnels cfg, cg_sniffer = sniffer\<rparr>)))))))))))"

subsection \<open>An accepted configuration can be run\<close>

lemma parse_raw_config_steps:
  assumes "parse_raw_config env ops fresh last_ip cfg raw_sniff = Some (Inr c)"
  shows "let v = rules_env_of env (cg_proxies c) (cg_rule_providers c) in
    parse_all_proxies (al_proxies env) cfg = Some (Inr (cg_proxies c)) \<and>
    parse_listeners env (rc_listeners cfg) [] = Inr (cg_listeners c) \<and>
    parse_sub_rules v (rc_sub_rules cfg) = Inr (cg_sub_rules c) \<and>
    parse_rules v (\<lambda>n. map_of (cg_sub_rules c) n \<noteq> None) ''rules'' (rc_rule cfg) = Inr (cg_rules c) \<and>
    parse_dns ((al_dns env)\<lparr>de_rule_sets := map_of (cg_rule_providers c)\<rparr>) ops fresh last_ip
      (rc_dns (parse_ipv6 (al_has_ip6 env) cfg)) = Some (Inr (cg_dns c)) \<and>
    tunnel_err (pp_table (cg_proxies c)) (cg_tunnels c) = None \<and> cg_tunnels c = rc_tunnels cfg \<and>
    cg_users c = parse_authentication (rc_authentication cfg) \<and> cg_tun c = rc_tun (parse_ipv6 (al_has_ip6 env) cfg)"
  using assms unfolding parse_raw_config_def try_step_Inr Let_def
  by (auto simp: try_step_Inr split: option.splits)

text \<open>A rule that was accepted names a proxy of the table, or a sub-rule.\<close>

definition target_known :: "proxy_table \<Rightarrow> sub_alist \<Rightarrow> rule \<Rightarrow> bool" where
  "target_known table subs r \<longleftrightarrow>
     map_of table (rule_adapter r) \<noteq> None \<or> rule_type_of r = RT_SubRules \<and> map_of subs (rule_adapter r) \<noteq> None"

lemma accepted_targets:
  assumes rules: "parse_rules (rules_env_of env proxies providers) (\<lambda>n. map_of subs n \<noteq> None) fmt ls = Inr ts" and t: "t \<in> set ts"
  shows "wf_rule (inner_rule t) \<and> target_known (pp_table proxies) subs (inner_rule t)"
  using parse_rules_from_ok [OF rules [unfolded parse_rules_def] t]
  by (auto simp: line_ok_def target_known_def rules_env_of_def)

lemma sub_rule_targets:
  assumes "parse_sub_rules (rules_env_of env proxies providers) cfg = Inr subs" and "(n, rs) \<in> set subs" and "r \<in> set rs"
  shows "target_known (pp_table proxies) subs r"
proof -
  have entries: "parse_sub_entries (rules_env_of env proxies providers) (\<lambda>n. n \<in> fst ` set cfg) cfg = Inr subs"
    using assms(1) by (auto simp: parse_sub_rules_def split: sum.splits option.splits)
  have "map fst subs = map fst cfg" and ok: "line_ok (rules_env_of env proxies providers) (\<lambda>n. n \<in> fst ` set cfg) r"
    using parse_sub_entries_ok [OF entries] assms(2,3) by blast+
  then have "n \<in> fst ` set cfg \<longleftrightarrow> map_of subs n \<noteq> None" for n
    by (metis list.set_map map_of_eq_None_iff)
  then show ?thesis using ok by (auto simp: line_ok_def target_known_def rules_env_of_def)
qed

lemma tunnel_err_None:
  "tunnel_err table tunnels = None \<longleftrightarrow> (\<forall>t\<in>set tunnels. tn_proxy t = [] \<or> map_of table (tn_proxy t) \<noteq> None)"
proof (cases "List.find (\<lambda>t. tn_proxy t \<noteq> [] \<and> map_of table (tn_proxy t) = None) tunnels")
  case (Some t)
  then have "t \<in> set tunnels" "tn_proxy t \<noteq> []" "map_of table (tn_proxy t) = None"
    by (auto simp: find_Some_iff)
  then show ?thesis using Some by (auto simp: tunnel_err_def)
next
  case None
  have "\<forall>t\<in>set tunnels. tn_proxy t = [] \<or> map_of table (tn_proxy t) \<noteq> None"
    using None [unfolded find_None_iff] by (simp only: ball_simps Ball_def not_ex de_Morgan_conj not_not imp_conv_disj) blast
  then show ?thesis unfolding tunnel_err_def None option.case by (simp only: simp_thms)
qed

definition configuration_ok :: "'s parsed_config \<Rightarrow> bool" where
  "configuration_ok c \<longleftrightarrow>
     (let table = pp_table (cg_proxies c); subs = cg_sub_rules c in
      list_all (\<lambda>t. target_known table subs (inner_rule t)) (cg_rules c) \<and>
      list_all (\<lambda>(_, rs). list_all (target_known table subs) rs) subs \<and>
      list_all (\<lambda>t. tn_proxy t = [] \<or> map_of table (tn_proxy t) \<noteq> None) (cg_tunnels c))"

text \<open>
  C3: a configuration that is accepted can be run as a whole. Every rule and sub-rule ends at a proxy of
  the table or at a sub-rule that exists, and so does every tunnel; matching any rule returns;
  going through groups to a proxy ends; and the resolver is built without a panic.
\<close>

theorem accepted_configuration_runs:
  assumes order: "\<And>xs. mset (pc_order (al_proxies env) xs) = mset xs" and subs: "distinct (map fst (rc_sub_rules cfg))"
    and run: "parse_raw_config env ops fresh last_ip cfg raw_sniff = Some (Inr c)"
  shows "configuration_ok c \<and> wf (selection (pp_table (cg_proxies c))) \<and>
    list_all (\<lambda>t. returns (top_match renv (sub_lookup (cg_sub_rules c)) (Suc (length (cg_sub_rules c))) now h t st)) (cg_rules c) \<and>
    (\<exists>rs. new_resolver cenv (dx_resolver (cg_dns c)) = Some rs)"
proof -
  define v where "v = rules_env_of env (cg_proxies c) (cg_rule_providers c)"
  note steps = parse_raw_config_steps [OF run, folded v_def, unfolded Let_def]
  have proxies: "parse_all_proxies (al_proxies env) cfg = Some (Inr (cg_proxies c))"
    and parsed: "parse_sub_rules v (rc_sub_rules cfg) = Inr (cg_sub_rules c)"
    and rules: "parse_rules v (\<lambda>n. map_of (cg_sub_rules c) n \<noteq> None) ''rules'' (rc_rule cfg) = Inr (cg_rules c)"
    and dns: "parse_dns ((al_dns env)\<lparr>de_rule_sets := map_of (cg_rule_providers c)\<rparr>) ops fresh last_ip
      (rc_dns (parse_ipv6 (al_has_ip6 env) cfg)) = Some (Inr (cg_dns c))"
    and tunnels: "tunnel_err (pp_table (cg_proxies c)) (cg_tunnels c) = None"
    using steps by blast+
  note tables = parse_sub_rules_verified [OF subs parsed]
  have rule: "wf_rule (inner_rule t) \<and> target_known (pp_table (cg_proxies c)) (cg_sub_rules c) (inner_rule t)" if "t \<in> set (cg_rules c)" for t
    using accepted_targets [OF rules [unfolded v_def] that] .
  have "configuration_ok c"
    using rule sub_rule_targets [OF parsed [unfolded v_def]] tunnels
    by (auto simp: configuration_ok_def list_all_iff tunnel_err_None Let_def)
  moreover have "wf (selection (pp_table (cg_proxies c)))"
    using parsed_table_ok [OF order proxies] selection_ends by blast
  moreover have "returns (top_match renv (sub_lookup (cg_sub_rules c)) (Suc (length (cg_sub_rules c))) now h t st)"
    if "t \<in> set (cg_rules c)" for t
    using tables rule [OF that] by (intro top_match_returns match_rule_terminates) simp_all
  moreover have "\<exists>rs. new_resolver cenv (dx_resolver (cg_dns c)) = Some rs"
    by (rule config_ok_builds [OF parse_dns_config_ok [OF dns]])
  ultimately show ?thesis by (simp add: list_all_iff)
qed

definition demo_all_env :: parse_all_env where
  "demo_all_env =
     \<lparr>al_proxies = demo_proxies_env, al_dns = demo_dns_env,
      al_hosts = \<lparr>he_parse_addr = (\<lambda>_. None), he_system = None, he_lan = None\<rparr>,
      al_listener = (\<lambda>m. Inr (text_of m ''name'')), al_rule_provider = (\<lambda>_ _. Inr BDomain), al_has_ip6 = True,
      al_safe_path = (\<lambda>_. True), al_local_path = (\<lambda>_. True), al_cidr_err = (\<lambda>_. None), al_geoip = (\<lambda>_. Inl []),
      al_ip_rule_set = (\<lambda>_. Inl [])\<rparr>"

definition demo_config :: raw_config where
  "demo_config = loop_config\<lparr>rc_dns := demo_raw_dns, rc_rule := [''SUB-RULE,(NETWORK,TCP),s'', ''MATCH,g''],
     rc_sub_rules := [(''s'', [''MATCH,DIRECT''])]\<rparr>"

definition demo_sniffer :: raw_sniffer where
  "demo_sniffer =
     \<lparr>rsn_enable = True, rsn_override_dest = False, rsn_sniffing = [], rsn_force_domain = [], rsn_skip_src = [], rsn_skip_dst = [],
      rsn_skip_domain = [], rsn_ports = [], rsn_force_dns_mapping = True, rsn_parse_pure_ip = True,
      rsn_sniff = [(''tls'', \<lparr>rsc_ports = [], rsc_override_dest = Some True\<rparr>)]\<rparr>"

lemma demo_config_run:
  "case parse_raw_config demo_all_env memory_ops (new_memory_store 0) (\<lambda>_. NoAddr) demo_config demo_sniffer of
     Some (Inr c) \<Rightarrow> map (rule_adapter \<circ> inner_rule) (cg_rules c) = [''s'', ''g''] \<and> map fst (sx_sniffers (cg_sniffer c)) = [SniffTLS]
   | _ \<Rightarrow> False"
  by code_simp

theorem accepted_configuration_runs_witness:
  "\<exists>c. parse_raw_config demo_all_env memory_ops (new_memory_store 0) (\<lambda>_. NoAddr) demo_config demo_sniffer = Some (Inr c) \<and>
     configuration_ok c \<and> length (cg_rules c) = 2"
proof -
  have order: "mset (pc_order (al_proxies demo_all_env) xs) = mset xs" for xs
    by (simp add: demo_all_env_def demo_proxies_env_def)
  have subs: "distinct (map fst (rc_sub_rules demo_config))" by (simp add: demo_config_def)
  obtain c where run: "parse_raw_config demo_all_env memory_ops (new_memory_store 0) (\<lambda>_. NoAddr) demo_config demo_sniffer = Some (Inr c)"
    and rules: "map (rule_adapter \<circ> inner_rule) (cg_rules c) = [''s'', ''g'']"
    using demo_config_run by (auto split: option.splits sum.splits)
  have "configuration_ok c" using accepted_configuration_runs [OF order subs run] by blast
  moreover have "length (cg_rules c) = 2" using arg_cong [OF rules, of length] by simp
  ultimately show ?thesis using run by blast
qed

end
