(* ===== verification/Profile_Patch.thy ===== *)
theory Profile_Patch
  imports Raw_Config
begin

text \<open>
  What the application does to a profile before the kernel parses it
  (\<open>src/kernel-core/src/main/golang/native/config\<close>: \<open>process.go\<close>, \<open>override.go\<close>, \<open>provider.go\<close>,
  \<open>fetch.go\<close>, and \<open>common/path.go\<close>). A profile comes from a subscription that is not trusted: the
  patches close what it may open. Decoding the override into the configuration, the hash of an
  address and the compiler of regular expressions are parameters.
\<close>

subsection \<open>Paths\<close>

text \<open>\<open>ResolveAsRoot\<close>: a path as if its root were the current directory.\<close>

definition resolve_step :: "string list \<Rightarrow> string \<Rightarrow> string list" where
  "resolve_step result directory =
     (if directory = [] \<or> directory = ''.'' then result
      else if directory = ''..'' then butlast result
      else result @ [directory])"

definition resolve_as_root :: "string \<Rightarrow> string" where
  "resolve_as_root path = str_join (foldl resolve_step [] (str_split CHR ''/'' path)) ''/''"

subsection \<open>The override settings\<close>

datatype override_slot = SlotPersist | SlotSession

record override_state =
  os_file :: "string option"
  os_session :: string

definition read_override :: "override_slot \<Rightarrow> override_state \<Rightarrow> string" where
  "read_override slot st =
     (case slot of
        SlotPersist \<Rightarrow> (case os_file st of Some content \<Rightarrow> content | None \<Rightarrow> ''{}'')
      | SlotSession \<Rightarrow> os_session st)"

text \<open>The file is truncated when it is opened; \<open>written\<close> says how much of the content reaches it.\<close>

definition write_override :: "bool \<Rightarrow> nat \<Rightarrow> override_slot \<Rightarrow> string \<Rightarrow> override_state \<Rightarrow> override_state" where
  "write_override opens written slot content st =
     (case slot of
        SlotPersist \<Rightarrow> (if opens then st\<lparr>os_file := Some (take written content)\<rparr> else st)
      | SlotSession \<Rightarrow> st\<lparr>os_session := content\<rparr>)"

definition clear_override :: "override_slot \<Rightarrow> override_state \<Rightarrow> override_state" where
  "clear_override slot st =
     (case slot of SlotPersist \<Rightarrow> st\<lparr>os_file := None\<rparr> | SlotSession \<Rightarrow> st\<lparr>os_session := ''{}''\<rparr>)"

subsection \<open>The patches\<close>

record native_env =
  ne_decode :: "string \<Rightarrow> raw_config \<Rightarrow> raw_config"
  ne_hash :: "string \<Rightarrow> string"
  ne_compiles :: "string \<Rightarrow> bool"

definition default_name_servers :: "string list" where
  "default_name_servers = [''223.5.5.5'', ''119.29.29.29'', ''8.8.4.4'', ''1.0.0.1'']"

definition default_fake_ip_filter :: "string list" where
  "default_fake_ip_filter =
     [''+.stun.*.*'', ''+.stun.*.*.*'', ''+.stun.*.*.*.*'', ''+.stun.*.*.*.*.*'', ''lens.l.google.com'',
      ''*.n.n.srv.nintendo.net'', ''+.stun.playstation.net'', ''xbox.*.*.microsoft.com'', ''*.*.xboxlive.com'',
      ''*.msftncsi.com'', ''*.msftconnecttest.com'', ''*.mcdn.bilivideo.cn'', ''WORKGROUP'']"

definition default_fake_ip_range :: string where
  "default_fake_ip_range = ''28.0.0.0/8''"

definition direct_domains :: "string list" where
  "direct_domains = [''example.com'']"

text \<open>The JSON decoder changes the fields it reads even when it ends in an error, which is only logged.\<close>

definition patch_override :: "native_env \<Rightarrow> override_state \<Rightarrow> raw_config \<Rightarrow> raw_config" where
  "patch_override env st cfg =
     ne_decode env (read_override SlotSession st) (ne_decode env (read_override SlotPersist st) cfg)"

definition patch_external_controller :: "raw_config \<Rightarrow> raw_config" where
  "patch_external_controller cfg =
     cfg\<lparr>rc_controller := (rc_controller cfg)\<lparr>rk_controller := [], rk_tls := [], rk_unix := [], rk_pipe := [], rk_secret := []\<rparr>\<rparr>"

definition patch_general :: "raw_config \<Rightarrow> raw_config" where
  "patch_general cfg =
     cfg\<lparr>rc_interface := [], rc_routing_mark := 0, rc_port := 0, rc_socks_port := 0, rc_redir_port := 0, rc_tproxy_port := 0,
         rc_mixed_port := 0, rc_ss_config := [], rc_vmess_config := [], rc_allow_lan := False, rc_bind_address := [],
         rc_authentication := [], rc_tunnels := [], rc_tuic_server := zero_tuic_server, rc_listeners := [], rc_hosts := [],
         rc_tls := zero_tls, rc_iptables := zero_iptables, rc_geox_url := rc_geox_url default_raw_config,
         rc_ntp := rc_ntp default_raw_config\<rparr>"

definition patch_profile :: "raw_config \<Rightarrow> raw_config" where
  "patch_profile cfg =
     cfg\<lparr>rc_profile := \<lparr>rp_store_selected = True, rp_store_fake_ip = True\<rparr>,
         rc_android := (rc_android cfg)\<lparr>ra_ui_subtitle_pattern := []\<rparr>\<rparr>"

definition add_real_name :: "string list \<Rightarrow> string \<Rightarrow> string list" where
  "add_real_name filters domain =
     (if list_ex (\<lambda>f. str_contains (to_lower f) domain) filters then filters else filters @ [''+.'' @ domain])"

definition patch_dns :: "raw_config \<Rightarrow> raw_config" where
  "patch_dns cfg =
     (let dns = (rc_dns default_raw_config)\<lparr>rd_enable := True, rd_name_server := default_name_servers, rd_enhanced_mode := DNSFakeIP,
            rd_fake_ip_range := default_fake_ip_range, rd_fake_ip_filter := default_fake_ip_filter\<rparr>;
          android = (rc_android cfg)\<lparr>ra_append_system_dns := True\<rparr>;
          dns1 = (if ra_append_system_dns android then dns\<lparr>rd_name_server := rd_name_server dns @ [''system://'']\<rparr> else dns) in
      cfg\<lparr>rc_android := android,
          rc_dns := dns1\<lparr>rd_fake_ip_filter := foldl add_real_name (rd_fake_ip_filter dns1) direct_domains\<rparr>\<rparr>)"

definition direct_rule :: "string \<Rightarrow> string" where
  "direct_rule domain = ''DOMAIN-SUFFIX,'' @ domain @ '',DIRECT''"

definition patch_rules :: "raw_config \<Rightarrow> raw_config" where
  "patch_rules cfg =
     (let missing = filter (\<lambda>d. \<not> list_ex (\<lambda>r. has_prefix r (direct_rule d)) (rc_rule cfg)) direct_domains in
      if missing \<noteq> [] then cfg\<lparr>rc_rule := map direct_rule missing @ rc_rule cfg\<rparr> else cfg)"

definition patch_tun :: "raw_config \<Rightarrow> raw_config" where
  "patch_tun cfg = cfg\<lparr>rc_tun := (rc_tun cfg)\<lparr>rt_enable := False, rt_auto_route := False, rt_auto_detect_interface := False\<rparr>\<rparr>"

definition patch_listeners :: "raw_config \<Rightarrow> raw_config" where
  "patch_listeners cfg = cfg\<lparr>rc_listeners := []\<rparr>"

text \<open>The function \<open>patchProviders\<close> passes to \<open>forEachProviders\<close>.\<close>

definition patch_provider :: "native_env \<Rightarrow> string \<Rightarrow> string \<Rightarrow> mapping \<Rightarrow> mapping" where
  "patch_provider env dir folder provider =
     (let path = (case map_of provider ''path'' of Some (VStr p) \<Rightarrow> p | _ \<Rightarrow> []) in
      if path \<noteq> [] then map_put ''path'' (VStr (dir @ ''/providers/'' @ resolve_as_root path)) provider
      else (case map_of provider ''url'' of
              Some (VStr url) \<Rightarrow> map_put ''path'' (VStr (dir @ ''/providers/'' @ folder @ ''/'' @ ne_hash env url)) provider
            | _ \<Rightarrow> provider))"

definition patch_providers :: "native_env \<Rightarrow> string \<Rightarrow> raw_config \<Rightarrow> raw_config" where
  "patch_providers env dir cfg =
     cfg\<lparr>rc_proxy_provider := map (map_prod id (patch_provider env dir ''proxies'')) (rc_proxy_provider cfg),
         rc_rule_provider := map (map_prod id (patch_provider env dir ''rules'')) (rc_rule_provider cfg)\<rparr>"

definition valid_config :: "native_env \<Rightarrow> raw_config \<Rightarrow> string + raw_config" where
  "valid_config env cfg =
     (if rc_proxy cfg = [] \<and> rc_proxy_provider cfg = [] then Inl ''profile does not contain `proxies` or `proxy-providers`''
      else if \<not> ne_compiles env (ra_ui_subtitle_pattern (rc_android cfg)) then Inl ''compile ui-subtitle-pattern''
      else Inr cfg)"

definition processors :: "native_env \<Rightarrow> override_state \<Rightarrow> string \<Rightarrow> (raw_config \<Rightarrow> string + raw_config) list" where
  "processors env st dir =
     map ((\<circ>) Inr)
       [patch_external_controller, patch_override env st, patch_general, patch_profile, patch_dns, patch_rules, patch_tun,
        patch_listeners, patch_providers env dir] @ [valid_config env]"

definition process_profile :: "native_env \<Rightarrow> override_state \<Rightarrow> string \<Rightarrow> raw_config \<Rightarrow> string + raw_config" where
  "process_profile env st dir cfg = foldl (\<lambda>r p. attempt r p) (Inr cfg) (processors env st dir)"

subsection \<open>What a processed profile can open\<close>

text \<open>The result of the patches when the last check passes.\<close>

definition patched :: "native_env \<Rightarrow> override_state \<Rightarrow> string \<Rightarrow> raw_config \<Rightarrow> raw_config" where
  "patched env st dir cfg =
     patch_providers env dir (patch_listeners (patch_tun (patch_rules (patch_dns (patch_profile (patch_general
       (patch_override env st (patch_external_controller cfg))))))))"

lemma process_profile_patched: "process_profile env st dir cfg = valid_config env (patched env st dir cfg)"
  by (simp add: process_profile_def processors_def patched_def)

lemma process_profile_Inr:
  "process_profile env st dir cfg = Inr cfg' \<Longrightarrow> cfg' = patched env st dir cfg"
  by (auto simp: process_profile_patched valid_config_def split: if_splits)

lemmas patches =
  patched_def patch_providers_def patch_listeners_def patch_tun_def patch_rules_def patch_dns_def patch_profile_def
  patch_general_def Let_def

text \<open>The ways into the device a configuration can open, by name.\<close>

definition entry_points :: "raw_config \<Rightarrow> string list" where
  "entry_points cfg = concat (map (\<lambda>(name, opened). if opened then [name] else [])
     [(''port'', rc_port cfg \<noteq> 0), (''socks-port'', rc_socks_port cfg \<noteq> 0), (''redir-port'', rc_redir_port cfg \<noteq> 0),
      (''tproxy-port'', rc_tproxy_port cfg \<noteq> 0), (''mixed-port'', rc_mixed_port cfg \<noteq> 0), (''ss-config'', rc_ss_config cfg \<noteq> []),
      (''vmess-config'', rc_vmess_config cfg \<noteq> []), (''allow-lan'', rc_allow_lan cfg), (''tunnels'', rc_tunnels cfg \<noteq> []),
      (''listeners'', rc_listeners cfg \<noteq> []), (''tuic-server'', ru_enable (rc_tuic_server cfg)),
      (''iptables'', ri_enable (rc_iptables cfg)), (''tun'', rt_enable (rc_tun cfg)), (''dns'', rd_listen (rc_dns cfg) \<noteq> []),
      (''ntp'', rn_enable (rc_ntp cfg))])"

text \<open>What decides on names, time and the control interface.\<close>

definition control_keys :: "raw_config \<Rightarrow> string list" where
  "control_keys cfg = (let k = rc_controller cfg in [rk_controller k, rk_tls k, rk_unix k, rk_pipe k, rk_secret k])"

definition resolution :: "raw_config \<Rightarrow> raw_dns \<times> mapping \<times> raw_ntp \<times> raw_geox_url \<times> raw_tls" where
  "resolution cfg = (rc_dns cfg, rc_hosts cfg, rc_ntp cfg, rc_geox_url cfg, rc_tls cfg)"

text \<open>
  a subscription opens no way into the device and decides nothing about names, time, databases or
  the control interface: whatever two subscriptions contain, once they are processed no listener,
  port or tunnel is open and both resolve names in the same way, with the same control interface,
  when decoding the user's override treats equal control keys alike.
\<close>

theorem subscriptions_open_nothing:
  assumes "\<And>text c d. control_keys c = control_keys d \<Longrightarrow> control_keys (ne_decode env text c) = control_keys (ne_decode env text d)"
    and "process_profile env st dir cfg = Inr cfg'" and "process_profile env st dir' other = Inr other'"
  shows "entry_points cfg' = [] \<and> resolution cfg' = resolution other' \<and> control_keys cfg' = control_keys other'"
proof -
  have keys: "control_keys (patched env st d c) = control_keys (patch_override env st (patch_external_controller c))" for d c
    by (simp add: patches control_keys_def)
  have "control_keys (patch_external_controller cfg) = control_keys (patch_external_controller other)"
    by (simp add: control_keys_def patch_external_controller_def)
  then have "control_keys cfg' = control_keys other'"
    using process_profile_Inr [OF assms(2)] process_profile_Inr [OF assms(3)]
    by (simp only: keys patch_override_def) (intro assms(1))
  moreover have "entry_points (patched env st d c) = []" for d c
    by (simp add: patches entry_points_def zero_tuic_server_def zero_iptables_def default_raw_config_def default_raw_dns_def
        default_raw_ntp_def)
  moreover have "resolution (patched env st dir cfg) = resolution (patched env st dir' other)"
    by (simp add: patches resolution_def)
  ultimately show ?thesis
    using process_profile_Inr [OF assms(2)] process_profile_Inr [OF assms(3)] by simp
qed

definition demo_profile :: raw_config where
  "demo_profile = default_raw_config\<lparr>rc_mixed_port := 7890, rc_allow_lan := True, rc_proxy := [[(''name'', VStr ''a'')]],
     rc_rule := [''MATCH,DIRECT'']\<rparr>"

definition demo_native_env :: native_env where
  "demo_native_env = \<lparr>ne_decode = (\<lambda>text cfg. if text = ''{}'' then cfg
     else cfg\<lparr>rc_controller := (rc_controller cfg)\<lparr>rk_controller := text\<rparr>\<rparr>), ne_hash = (\<lambda>_. ''0a''), ne_compiles = (\<lambda>_. True)\<rparr>"

theorem subscriptions_open_nothing_witness:
  "entry_points demo_profile \<noteq> [] \<and>
   (let st = \<lparr>os_file = None, os_session = ''127.0.0.1:9090''\<rparr>; cfg = patched demo_native_env st ''/p'' demo_profile in
    process_profile demo_native_env st ''/p'' demo_profile = Inr cfg \<and> entry_points cfg = [] \<and>
    control_keys cfg = [''127.0.0.1:9090'', [], [], [], []])"
proof -
  let ?st = "\<lparr>os_file = None, os_session = ''127.0.0.1:9090''\<rparr>"
  have run: "process_profile demo_native_env ?st ''/p'' demo_profile = Inr (patched demo_native_env ?st ''/p'' demo_profile)"
    by (simp add: process_profile_patched valid_config_def patches demo_native_env_def patch_override_def read_override_def
        patch_external_controller_def demo_profile_def default_raw_config_def direct_domains_def)
  have decodes: "control_keys (ne_decode demo_native_env content c) = control_keys (ne_decode demo_native_env content d)"
    if "control_keys c = control_keys d" for content c d
    using that by (simp add: demo_native_env_def control_keys_def Let_def)
  have "control_keys (patched demo_native_env ?st ''/p'' demo_profile) = [''127.0.0.1:9090'', [], [], [], []]"
    by (simp add: patches demo_native_env_def patch_override_def read_override_def control_keys_def
        patch_external_controller_def)
  then show ?thesis
    using run subscriptions_open_nothing [OF decodes run run]
    by (simp add: Let_def) (simp add: entry_points_def demo_profile_def)
qed

subsection \<open>Files of providers\<close>

definition plain_name :: "string \<Rightarrow> bool" where
  "plain_name s \<longleftrightarrow> s \<noteq> [] \<and> s \<noteq> ''.'' \<and> s \<noteq> ''..'' \<and> CHR ''/'' \<notin> set s"

text \<open>A path below a directory that no component leads out of.\<close>

definition plain_path :: "string \<Rightarrow> bool" where
  "plain_path p \<longleftrightarrow> (\<exists>names. p = str_join names ''/'' \<and> list_all plain_name names)"

lemma str_split_names: "\<forall>x\<in>set (str_split c s). c \<notin> set x"
  by (induction s) (auto split: list.splits)

lemma resolve_names:
  "list_all plain_name acc \<Longrightarrow> \<forall>x\<in>set xs. CHR ''/'' \<notin> set x \<Longrightarrow> list_all plain_name (foldl resolve_step acc xs)"
proof (induction xs arbitrary: acc)
  case (Cons x xs)
  have "list_all plain_name (resolve_step acc x)"
    using Cons.prems by (auto simp: resolve_step_def plain_name_def list_all_iff dest: in_set_butlastD)
  then show ?case using Cons by simp
qed simp

lemma resolve_as_root_plain: "plain_path (resolve_as_root path)"
  unfolding plain_path_def resolve_as_root_def
  using resolve_names [of "[]" "str_split CHR ''/'' path"] str_split_names by auto

lemma plain_path_below: "plain_name a \<Longrightarrow> plain_name b \<Longrightarrow> plain_path (a @ ''/'' @ b)"
  unfolding plain_path_def by (intro exI [of _ "[a, b]"]) simp

text \<open>\<open>utils.HashType.String\<close> is hexadecimal.\<close>

definition hex_text :: "string \<Rightarrow> bool" where
  "hex_text s \<longleftrightarrow> s \<noteq> [] \<and> set s \<subseteq> set ''0123456789abcdef''"

lemma hex_plain: "hex_text s \<Longrightarrow> plain_name s"
  by (cases s) (auto simp: hex_text_def plain_name_def)

lemma map_of_map_put_same [simp]: "map_of (map_put k v m) k = Some v"
  by (induction k v m rule: map_put.induct) auto

lemma map_of_map_put_other: "k \<noteq> k' \<Longrightarrow> map_of (map_put k v m) k' = map_of m k'"
  by (induction k v m rule: map_put.induct) auto

lemma patch_provider_path:
  assumes "map_of (patch_provider env dir folder p) ''path'' = Some (VStr path)" and "plain_name folder" and "\<And>u. hex_text (ne_hash env u)"
  shows "(\<exists>rest. path = dir @ ''/providers/'' @ rest \<and> plain_path rest) \<or>
    path = [] \<and> (\<nexists>u. map_of (patch_provider env dir folder p) ''url'' = Some (VStr u))"
proof -
  define given where "given = (case map_of p ''path'' of Some (VStr x) \<Rightarrow> x | _ \<Rightarrow> [])"
  show ?thesis
  proof (cases "given = []")
    case False
    then show ?thesis
      using assms(1) resolve_as_root_plain by (auto simp: patch_provider_def Let_def given_def [symmetric])
  next
    case True
    show ?thesis
    proof (cases "\<exists>u. map_of p ''url'' = Some (VStr u)")
      case url: True
      then show ?thesis
        using assms(1) True plain_path_below [OF assms(2) hex_plain [OF assms(3)]]
        by (auto simp: patch_provider_def Let_def given_def [symmetric])
    next
      case no_url: False
      then have same: "patch_provider env dir folder p = p"
        using True by (auto simp: patch_provider_def Let_def given_def [symmetric] split: option.split oval.split)
      then have "path = []" using assms(1) True by (simp add: given_def)
      with no_url same show ?thesis by simp
    qed
  qed
qed

lemma processed_provider_path:
  assumes "process_profile env st dir cfg = Inr cfg'"
    and "(name, p) \<in> set (rc_proxy_provider cfg') \<union> set (rc_rule_provider cfg')"
    and "map_of p ''path'' = Some (VStr path)" and "\<And>u. hex_text (ne_hash env u)"
  shows "(\<exists>rest. path = dir @ ''/providers/'' @ rest \<and> plain_path rest) \<or>
    path = [] \<and> (\<nexists>u. map_of p ''url'' = Some (VStr u))"
proof -
  have names: "plain_name ''proxies''" "plain_name ''rules''" by (simp_all add: plain_name_def)
  have "\<exists>folder q. p = patch_provider env dir folder q \<and> plain_name folder"
    using assms(2) names unfolding process_profile_Inr [OF assms(1)] patched_def patch_providers_def by auto
  then obtain folder q where p: "p = patch_provider env dir folder q" and folder: "plain_name folder" by blast
  show ?thesis
    using patch_provider_path [OF assms(3) [unfolded p] folder assms(4)] by (simp add: p)
qed

subsection \<open>Own domains\<close>

text \<open>
  Every domain of the application has a rule that sends it directly, in front of the rules of the
  subscription when they name it nowhere. A subscription that names it keeps its order, so its rule
  can come after one that already takes the connection.
\<close>

lemma patch_rules_direct:
  assumes "d \<in> set direct_domains"
  shows "\<exists>r\<in>set (rc_rule (patch_rules cfg)). has_prefix r (direct_rule d)"
proof (cases "list_ex (\<lambda>r. has_prefix r (direct_rule d)) (rc_rule cfg)")
  case True
  then show ?thesis by (auto simp: patch_rules_def Let_def list_ex_iff)
next
  case False
  then have missing: "d \<in> set (filter (\<lambda>d. \<not> list_ex (\<lambda>r. has_prefix r (direct_rule d)) (rc_rule cfg)) direct_domains)"
    using assms by simp
  have "has_prefix (direct_rule d) (direct_rule d)" by (simp add: has_prefix_def)
  moreover have "direct_rule d \<in> set (rc_rule (patch_rules cfg))"
    using missing by (auto simp: patch_rules_def Let_def filter_empty_conv)
  ultimately show ?thesis by blast
qed

lemma own_domains_have_rules:
  assumes "d \<in> set direct_domains"
  shows "\<exists>r\<in>set (rc_rule (patched env st dir cfg)). has_prefix r (direct_rule d)"
proof -
  have keep: "rc_rule (patched env st dir cfg) = rc_rule (patch_rules (patch_dns (patch_profile (patch_general
      (patch_override env st (patch_external_controller cfg))))))"
    by (simp add: patched_def patch_providers_def patch_listeners_def patch_tun_def)
  show ?thesis unfolding keep by (rule patch_rules_direct [OF assms])
qed

lemma own_domain_rule_can_come_late:
  "rc_rule (patch_rules (default_raw_config\<lparr>rc_rule := [''MATCH,P'', direct_rule ''example.com'']\<rparr>)) =
    [''MATCH,P'', direct_rule ''example.com'']"
  by (simp add: patch_rules_def direct_domains_def has_prefix_def direct_rule_def)

end
