(* ===== verification/Profile_Fetch.thy ===== *)
theory Profile_Fetch
  imports Profile_Patch Provider_Parser
begin

text \<open>
  Fetching a profile and the files of its providers
  (\<open>src/kernel-core/src/main/golang/native/config/fetch.go\<close>). A file system is a map from paths to
  contents. What the network and the system answer is a parameter; a reader is the bytes it gives
  until its end or its error.
\<close>

type_synonym file_system = "string \<Rightarrow> string option"

subsection \<open>Writing a file\<close>

record io_answers =
  io_opens :: bool
  io_closes :: bool
  io_renames :: bool

definition max_config_file_size :: nat where
  "max_config_file_size = 20 * 1024 * 1024"

definition write_file :: "io_answers \<Rightarrow> string \<Rightarrow> string \<times> bool \<Rightarrow> file_system \<Rightarrow> string option \<times> file_system" where
  "write_file io file reader fs =
     (let tmp = file @ ''.tmp'' in
      if \<not> io_opens io then (Some ''open'', fs)
      else
        (let written = take (max_config_file_size + 1) (fst reader) in
         if length written > max_config_file_size then (Some ''file too large'', fs(tmp := None))
         else if snd reader then (Some ''copy'', fs(tmp := None))
         else if \<not> io_closes io then (Some ''close'', fs(tmp := None))
         else if \<not> io_renames io then (Some ''rename'', fs(tmp := None))
         else (None, fs(tmp := None, file := Some written))))"

text \<open>
  C40: a file that is fetched is replaced as a whole or not at all: after an error it is what it was,
  otherwise it is exactly what the reader gave, at most 20 MB; no other file changes and the
  temporary one is gone.
\<close>

theorem config_file_replaced_whole:
  "case write_file io file (content, broken) fs of
     (None, fs') \<Rightarrow> fs' = fs(file @ ''.tmp'' := None, file := Some content) \<and> length content \<le> max_config_file_size \<and> \<not> broken
   | (Some e, fs') \<Rightarrow> fs' file = fs file \<and> (\<forall>g. g \<noteq> file @ ''.tmp'' \<longrightarrow> fs' g = fs g) \<and>
       (io_opens io \<longrightarrow> fs' (file @ ''.tmp'') = None)"
proof -
  have "take (max_config_file_size + 1) content = content" if "\<not> length (take (max_config_file_size + 1) content) > max_config_file_size"
    using that by simp
  then show ?thesis
    by (auto simp: write_file_def Let_def simp del: length_take)
qed

theorem config_file_replaced_whole_witness:
  "\<exists>e fs'. write_file \<lparr>io_opens = True, io_closes = True, io_renames = True\<rparr> ''f'' (''half'', True) (\<lambda>_. Some ''old'') = (Some e, fs') \<and>
     fs' ''f'' = Some ''old'' \<and> fs' ''f.tmp'' = None"
proof -
  let ?io = "\<lparr>io_opens = True, io_closes = True, io_renames = True\<rparr>"
  obtain e fs' where run: "write_file ?io ''f'' (''half'', True) (\<lambda>_. Some ''old'') = (Some e, fs')"
    by (simp add: write_file_def max_config_file_size_def)
  then show ?thesis
    using config_file_replaced_whole [of "\<lambda>_. Some ''old''" "''f''" "''half''" True ?io] by simp
qed

subsection \<open>What is reported\<close>

record status =
  st_action :: string
  st_args :: "string list"
  st_progress :: int
  st_max_progress :: int
  st_sub_upload :: "int option"
  st_sub_download :: "int option"
  st_sub_total :: "int option"
  st_sub_expire :: "int option"
  st_sub_update_interval :: "int option"

definition plain_status :: "string \<Rightarrow> string list \<Rightarrow> int \<Rightarrow> int \<Rightarrow> status" where
  "plain_status action args progress most =
     \<lparr>st_action = action, st_args = args, st_progress = progress, st_max_progress = most, st_sub_upload = None,
      st_sub_download = None, st_sub_total = None, st_sub_expire = None, st_sub_update_interval = None\<rparr>"

text \<open>Milliseconds; a \<open>time.Duration\<close> is a number of nanoseconds of 64 bits.\<close>

definition parse_profile_update_interval :: "string \<Rightarrow> int option" where
  "parse_profile_update_interval v =
     (case parse_int64 (trim_space v) of
        None \<Rightarrow> None
      | Some hours \<Rightarrow>
          (if hours \<le> 0 then Some 0
           else
             (let interval = wrap64 (hours * 3600000000000);
                  interval1 = (if interval < 900000000000 then 900000000000 else interval) in
              Some (interval1 div 1000000))))"

record fetch_header =
  fh_userinfo :: string
  fh_interval :: string

definition subscription_status :: "(string \<Rightarrow> int option) \<Rightarrow> fetch_header \<Rightarrow> status list" where
  "subscription_status parse header =
     (if fh_userinfo header = [] \<and> fh_interval header = [] then []
      else
        (let base = plain_status ''SubscriptionInfo'' [] (-1) (-1);
             info = new_subscription_info parse (fh_userinfo header);
             with_info = (if fh_userinfo header = [] then base
               else base\<lparr>st_sub_upload := Some (si_upload info), st_sub_download := Some (si_download info),
                 st_sub_total := Some (si_total info), st_sub_expire := Some (wrap64 (si_expire info * 1000))\<rparr>) in
         [with_info\<lparr>st_sub_update_interval := parse_profile_update_interval (fh_interval header)\<rparr>]))"

subsection \<open>Fetching\<close>

record fetch_env =
  fe_native :: native_env
  fe_parse_url :: "string \<Rightarrow> (string \<times> string) option"
  fe_open_url :: "string \<Rightarrow> string + (string \<times> bool) \<times> fetch_header"
  fe_open_content :: "string \<Rightarrow> string + string \<times> bool"
  fe_io :: "string \<Rightarrow> io_answers"
  fe_bundle :: "string \<Rightarrow> (string \<times> bool) option"
  fe_unmarshal :: "string \<Rightarrow> string + raw_config"
  fe_parse :: "raw_config \<Rightarrow> string option"
  fe_parse_float :: "string \<Rightarrow> int option"

text \<open>\<open>fetch\<close>, for an address that parses: the error or the header, and the files.\<close>

definition fetch_file :: "fetch_env \<Rightarrow> string \<Rightarrow> string \<Rightarrow> file_system \<Rightarrow> (string + fetch_header) \<times> file_system" where
  "fetch_file env url file fs =
     (case fe_parse_url env url of
        None \<Rightarrow> (Inl ''parse'', fs)
      | Some (scheme, host) \<Rightarrow>
          (let empty = \<lparr>fh_userinfo = [], fh_interval = []\<rparr>;
               opened =
                 (if scheme = ''http'' \<or> scheme = ''https'' then fe_open_url env url
                  else if scheme = ''content'' then attempt (fe_open_content env url) (\<lambda>r. Inr (r, empty))
                  else Inl ''unsupported scheme'') in
           case opened of
             Inl e \<Rightarrow> (Inl e, fs)
           | Inr (reader, header) \<Rightarrow>
               (case write_file (fe_io env file) file reader fs of
                  (None, fs') \<Rightarrow> (Inr header, fs')
                | (Some e, fs') \<Rightarrow> (Inl e, fs'))))"

definition unmarshal_and_patch :: "fetch_env \<Rightarrow> override_state \<Rightarrow> string \<Rightarrow> file_system \<Rightarrow> string + raw_config" where
  "unmarshal_and_patch env st dir fs =
     (case fs (dir @ ''/config.yaml'') of
        None \<Rightarrow> Inl ''read''
      | Some content \<Rightarrow> attempt (fe_unmarshal env content) (process_profile (fe_native env) st dir))"

text \<open>The providers in the order \<open>forEachProviders\<close> visits them, with their folder.\<close>

definition all_providers :: "raw_config \<Rightarrow> (string \<times> mapping \<times> string) list" where
  "all_providers cfg =
     map (\<lambda>(k, v). (k, v, ''proxies'')) (rc_proxy_provider cfg) @ map (\<lambda>(k, v). (k, v, ''rules'')) (rc_rule_provider cfg)"

text \<open>The file of one provider.\<close>

definition fetch_provider :: "fetch_env \<Rightarrow> mapping \<Rightarrow> string \<Rightarrow> file_system \<Rightarrow> file_system" where
  "fetch_provider env provider folder fs =
     (case (map_of provider ''url'', map_of provider ''path'') of
        (Some (VStr url), Some (VStr path)) \<Rightarrow>
          (if fs path \<noteq> None \<or> fe_parse_url env url = None then fs
           else
             (let bundled =
                (if folder = ''rules'' then
                   (case map_of provider ''path-in-bundle'' of
                      Some (VStr pib) \<Rightarrow>
                        (if pib = [] then None
                         else (case fe_bundle env pib of
                                 None \<Rightarrow> None
                               | Some reader \<Rightarrow> Some (write_file (fe_io env path) path reader fs)))
                    | _ \<Rightarrow> None)
                 else None) in
              case bundled of
                Some (None, fs') \<Rightarrow> fs'
              | Some (Some e, fs') \<Rightarrow> snd (fetch_file env url path fs')
              | None \<Rightarrow> snd (fetch_file env url path fs)))
      | _ \<Rightarrow> fs)"

definition fetch_step ::
  "fetch_env \<Rightarrow> nat \<Rightarrow> string \<times> mapping \<times> string \<Rightarrow> nat \<times> status list \<times> file_system \<Rightarrow> nat \<times> status list \<times> file_system" where
  "fetch_step env number = (\<lambda>(name, provider, folder) (index, reports, fs).
     (Suc index, reports @ [plain_status ''FetchProviders'' [name] (int index) (int number)], fetch_provider env provider folder fs))"

text \<open>\<open>FetchAndValid\<close>: the error if any, the reports and the files.\<close>

definition fetch_and_valid ::
  "fetch_env \<Rightarrow> override_state \<Rightarrow> string \<Rightarrow> string \<Rightarrow> bool \<Rightarrow> file_system \<Rightarrow> string option \<times> status list \<times> file_system" where
  "fetch_and_valid env st dir url force fs =
     (let config_path = dir @ ''/config.yaml'';
          fetched =
            (if fs config_path = None \<or> force then
               (case fe_parse_url env url of
                  None \<Rightarrow> (Some ''parse'', [], fs)
                | Some (scheme, host) \<Rightarrow>
                    (let report = plain_status ''FetchConfiguration'' [host] (-1) (-1) in
                     case fetch_file env url config_path fs of
                       (Inl e, fs') \<Rightarrow> (Some e, [report], fs')
                     | (Inr header, fs') \<Rightarrow> (None, report # subscription_status (fe_parse_float env) header, fs')))
             else (None, [], fs)) in
      case fetched of
        (Some e, reports, fs1) \<Rightarrow> (Some e, reports, fs1)
      | (None, reports, fs1) \<Rightarrow>
          (case unmarshal_and_patch env st dir fs1 of
             Inl e \<Rightarrow> (Some e, reports, fs1)
           | Inr cfg \<Rightarrow>
               (let (n, reports2, fs2) =
                  fold (fetch_step env (length (all_providers cfg))) (all_providers cfg) (0, reports, fs1) in
                (fe_parse env cfg, reports2 @ [plain_status ''Verifying'' [] 65535 65535], fs2))))"

subsection \<open>Downloads stay inside the profile\<close>

definition inside_profile :: "string \<Rightarrow> string \<Rightarrow> bool" where
  "inside_profile dir file \<longleftrightarrow>
     (\<exists>name. (name = dir @ ''/config.yaml'' \<or> (\<exists>rest. name = dir @ ''/providers/'' @ rest \<and> plain_path rest)) \<and>
        (file = name \<or> file = name @ ''.tmp''))"

definition only_inside :: "string \<Rightarrow> file_system \<Rightarrow> file_system \<Rightarrow> bool" where
  "only_inside dir fs fs' \<longleftrightarrow> (\<forall>file. fs' file \<noteq> fs file \<longrightarrow> inside_profile dir file)"

lemma only_inside_refl [simp]: "only_inside dir fs fs"
  by (simp add: only_inside_def)

lemma only_inside_trans: "only_inside dir a b \<Longrightarrow> only_inside dir b c \<Longrightarrow> only_inside dir a c"
  unfolding only_inside_def by metis

lemma write_file_changes: "snd (write_file io file reader fs) g \<noteq> fs g \<Longrightarrow> g = file \<or> g = file @ ''.tmp''"
  by (auto simp: write_file_def Let_def split: if_splits)

lemma write_file_elsewhere: "g \<noteq> file \<Longrightarrow> g \<noteq> file @ ''.tmp'' \<Longrightarrow> snd (write_file io file reader fs) g = fs g"
  using write_file_changes by blast

lemma fetch_elsewhere: "g \<noteq> file \<Longrightarrow> g \<noteq> file @ ''.tmp'' \<Longrightarrow> snd (fetch_file env url file fs) g = fs g"
proof -
  have shape: "snd (fetch_file env url file fs) = fs \<or> (\<exists>reader. snd (fetch_file env url file fs) = snd (write_file (fe_io env file) file reader fs))"
    by (auto simp: fetch_file_def Let_def split: option.split sum.split prod.split) (metis snd_conv)+
  assume "g \<noteq> file" "g \<noteq> file @ ''.tmp''"
  then show ?thesis using shape write_file_elsewhere [of g "file"] by auto
qed

lemma fetch_changes: "snd (fetch_file env url file fs) g \<noteq> fs g \<Longrightarrow> g = file \<or> g = file @ ''.tmp''"
  using fetch_elsewhere by blast

lemma fetch_provider_changes:
  assumes "fetch_provider env p folder fs g \<noteq> fs g"
  shows "\<exists>url path. map_of p ''url'' = Some (VStr url) \<and> map_of p ''path'' = Some (VStr path) \<and> (g = path \<or> g = path @ ''.tmp'')"
proof -
  obtain url path where known: "map_of p ''url'' = Some (VStr url)" "map_of p ''path'' = Some (VStr path)"
    using assms by (auto simp: fetch_provider_def split: option.splits oval.splits)
  have "fetch_provider env p folder fs g = fs g" if g: "g \<noteq> path" "g \<noteq> path @ ''.tmp''"
  proof -
    have w: "fs' g = fs g" if "write_file io path reader fs = (r, fs')" for io reader r fs'
      using write_file_elsewhere [OF g, of io reader fs] that by simp
    show ?thesis
      by (auto simp: fetch_provider_def known Let_def fetch_elsewhere [OF g] w split: option.split oval.split prod.split)
  qed
  with known assms show ?thesis by blast
qed

lemma inside_profileI:
  "plain_path rest \<Longrightarrow> file = dir @ ''/providers/'' @ rest \<or> file = (dir @ ''/providers/'' @ rest) @ ''.tmp'' \<Longrightarrow>
    inside_profile dir file"
  unfolding inside_profile_def by blast

definition path_inside :: "string \<Rightarrow> mapping \<Rightarrow> bool" where
  "path_inside dir p \<longleftrightarrow>
     (\<forall>path u. map_of p ''path'' = Some (VStr path) \<longrightarrow> map_of p ''url'' = Some (VStr u) \<longrightarrow>
       (\<exists>rest. path = dir @ ''/providers/'' @ rest \<and> plain_path rest))"

lemma fetch_provider_inside:
  assumes "path_inside dir p"
  shows "only_inside dir fs (fetch_provider env p folder fs)"
  unfolding only_inside_def
proof (intro allI impI)
  fix g
  assume "fetch_provider env p folder fs g \<noteq> fs g"
  from fetch_provider_changes [OF this] obtain url path where known: "map_of p ''url'' = Some (VStr url)" "map_of p ''path'' = Some (VStr path)"
    and g: "g = path \<or> g = path @ ''.tmp''" by blast
  obtain rest where "path = dir @ ''/providers/'' @ rest" "plain_path rest"
    using assms known unfolding path_inside_def by blast
  then show "inside_profile dir g" using g inside_profileI by blast
qed

lemma fetch_fold_inside:
  "list_all (\<lambda>x. path_inside dir (fst (snd x))) ps \<Longrightarrow>
    only_inside dir fs (snd (snd (fold (fetch_step env k) ps (i, reports, fs))))"
proof (induction ps arbitrary: i reports fs)
  case (Cons x ps)
  obtain name p folder where x: "x = (name, p, folder)" using prod_cases3 by blast
  let ?fs = "fetch_provider env p folder fs"
  have "only_inside dir ?fs (snd (snd (fold (fetch_step env k) ps (i', reports', ?fs))))" for i' reports'
    using Cons by simp
  then have "only_inside dir ?fs (snd (snd (fold (fetch_step env k) (x # ps) (i, reports, fs))))"
    by (simp add: x fetch_step_def)
  moreover have "path_inside dir p" using Cons.prems by (simp add: x)
  ultimately show ?case using only_inside_trans fetch_provider_inside by blast
qed simp


definition demo_fetch_env :: fetch_env where
  "demo_fetch_env = \<lparr>fe_native = demo_native_env, fe_parse_url = (\<lambda>_. Some (''http'', ''h'')),
     fe_open_url = (\<lambda>_. Inr ((''data'', False), \<lparr>fh_userinfo = [], fh_interval = []\<rparr>)), fe_open_content = (\<lambda>_. Inl []),
     fe_io = (\<lambda>_. \<lparr>io_opens = True, io_closes = True, io_renames = True\<rparr>), fe_bundle = (\<lambda>_. None),
     fe_unmarshal = (\<lambda>_. Inr (default_raw_config\<lparr>rc_proxy_provider :=
       [(''a'', [(''path'', VStr ''../../etc/x''), (''url'', VStr ''u'')])]\<rparr>)),
     fe_parse = (\<lambda>_. None), fe_parse_float = (\<lambda>_. None)\<rparr>"

lemma demo_provider:
  "patch_provider demo_native_env ''/p'' ''proxies'' [(''path'', VStr ''../../etc/x''), (''url'', VStr ''u'')] =
    [(''path'', VStr ''/p/providers/etc/x''), (''url'', VStr ''u'')]"
  by (simp add: patch_provider_def Let_def resolve_as_root_def resolve_step_def)

lemma demo_native_simps:
  "ne_decode demo_native_env ''{}'' cfg = cfg" "ne_compiles demo_native_env pattern = True"
  by (simp_all add: demo_native_env_def)

lemma demo_processed:
  "\<exists>cfg. process_profile demo_native_env \<lparr>os_file = None, os_session = ''{}''\<rparr> ''/p''
      (default_raw_config\<lparr>rc_proxy_provider := [(''a'', [(''path'', VStr ''../../etc/x''), (''url'', VStr ''u'')])]\<rparr>) = Inr cfg \<and>
    rc_proxy_provider cfg = [(''a'', [(''path'', VStr ''/p/providers/etc/x''), (''url'', VStr ''u'')])] \<and> rc_rule_provider cfg = []"
  by (simp add: process_profile_patched valid_config_def patches patch_override_def read_override_def patch_external_controller_def
      demo_provider demo_native_simps)
    (simp add: default_raw_config_def direct_domains_def)

lemma write_file_plain: "length content \<le> 1000 \<Longrightarrow>
  write_file \<lparr>io_opens = True, io_closes = True, io_renames = True\<rparr> name (content, False) fs =
    (None, fs(name @ ''.tmp'' := None, name := Some content))"
  by (simp add: write_file_def Let_def max_config_file_size_def)


end
