(* ===== verification/Profile_Run.thy ===== *)
theory Profile_Run
  imports Config_Parse Profile_Fetch
begin

text \<open>
  A subscription from its text to a running configuration: the patches of the application
  (\<open>native/config/process.go\<close>) followed by the parser of the kernel (\<open>config/config.go\<close>).
\<close>

lemma parse_dns_plain:
  assumes "parse_dns env ops fresh last_ip cfg = Some (Inr section)"
  shows "dx_listen section = rd_listen cfg \<and> dx_mode section = rd_enhanced_mode cfg \<and> dx_enable section = rd_enable cfg"
proof -
  obtain rv inner where inner: "parse_enhancer env ops fresh last_ip cfg rv = Inr inner"
    "dx_listen inner = dx_listen section" "dx_mode inner = dx_mode section" "dx_enable inner = dx_enable section"
    using assms by (auto simp: parse_dns_def Let_def try_step_Inr attempt_Inr_iff split: if_splits prod.splits)
  moreover have "dx_listen inner = rd_listen cfg \<and> dx_mode inner = rd_enhanced_mode cfg \<and> dx_enable inner = rd_enable cfg"
    using inner(1) by (auto simp: parse_enhancer_def Let_def attempt_Inr_iff split: if_splits)
  ultimately show ?thesis by simp
qed

text \<open>The DNS section of a processed profile, whatever the subscription.\<close>

lemma processed_dns:
  assumes "process_profile nenv st dir raw = Inr cfg"
  shows "rd_listen (rc_dns cfg) = [] \<and> rd_enable (rc_dns cfg) \<and> rd_enhanced_mode (rc_dns cfg) = DNSFakeIP \<and>
    rd_name_server (rc_dns cfg) = default_name_servers @ [''system://''] \<and> rd_prefer_h3 (rc_dns cfg) = False \<and>
    rd_respect_rules (rc_dns cfg) = False \<and> rd_name_server_policy (rc_dns cfg) = [] \<and> rd_fallback (rc_dns cfg) = []"
  using process_profile_Inr [OF assms] by (simp add: patches default_raw_config_def default_raw_dns_def)

lemma processed_closed:
  assumes "process_profile nenv st dir raw = Inr cfg"
  shows "rc_listeners cfg = [] \<and> rc_authentication cfg = [] \<and> rc_tunnels cfg = [] \<and> \<not> rt_enable (rc_tun cfg)"
  using process_profile_Inr [OF assms] by (simp add: patches)

lemma parse_ipv6_keeps:
  "rt_enable (rc_tun (parse_ipv6 b cfg)) = rt_enable (rc_tun cfg)"
  "rd_listen (rc_dns (parse_ipv6 b cfg)) = rd_listen (rc_dns cfg)"
  "rd_enable (rc_dns (parse_ipv6 b cfg)) = rd_enable (rc_dns cfg)"
  "rd_enhanced_mode (rc_dns (parse_ipv6 b cfg)) = rd_enhanced_mode (rc_dns cfg)"
  "rd_name_server (rc_dns (parse_ipv6 b cfg)) = rd_name_server (rc_dns cfg)"
  "rd_respect_rules (rc_dns (parse_ipv6 b cfg)) = rd_respect_rules (rc_dns cfg)"
  "rd_prefer_h3 (rc_dns (parse_ipv6 b cfg)) = rd_prefer_h3 (rc_dns cfg)"
  "rd_name_server_policy (rc_dns (parse_ipv6 b cfg)) = rd_name_server_policy (rc_dns cfg)"
  by (simp_all add: parse_ipv6_def)


subsection \<open>A profile that runs\<close>

definition run_dns_env :: dns_section_env where
  "run_dns_env =
     demo_dns_env\<lparr>de_parse_url := (\<lambda>t. if t = ''system://'' then Inr \<lparr>du_scheme = ''system'', du_host = [], du_path = [], du_user = [],
          du_fragment = []\<rparr> else Inr \<lparr>du_scheme = ''udp'', du_host = drop 6 t, du_path = [], du_user = [], du_fragment = []\<rparr>),
       de_parse_addr := (\<lambda>s. if s = ''system://'' then None else Some (V4 1)), de_is_ip := (\<lambda>_. True),
       de_parse_prefix := (\<lambda>_. Inr (Pfx (V4 0xc6120000) 28)), de_rule_sets := map_of []\<rparr>"

definition run_env :: parse_all_env where
  "run_env = demo_all_env\<lparr>al_dns := run_dns_env\<rparr>"

definition run_state :: override_state where
  "run_state = \<lparr>os_file = None, os_session = ''{}''\<rparr>"

definition run_profile :: raw_config where
  "run_profile = patched demo_native_env run_state ''/p'' demo_profile"

lemma run_profile_processed: "process_profile demo_native_env run_state ''/p'' demo_profile = Inr run_profile"
  by (simp add: process_profile_patched valid_config_def patches demo_native_env_def patch_override_def read_override_def
      patch_external_controller_def demo_profile_def default_raw_config_def direct_domains_def run_state_def run_profile_def)

lemma run_profile_fields:
  "rc_dns run_profile = default_raw_dns\<lparr>rd_enable := True, rd_name_server := default_name_servers @ [''system://''],
     rd_enhanced_mode := DNSFakeIP, rd_fake_ip_range := default_fake_ip_range,
     rd_fake_ip_filter := foldl add_real_name default_fake_ip_filter direct_domains\<rparr>"
  "rc_ipv6 run_profile" "rc_controller run_profile = rc_controller demo_profile" "rc_listeners run_profile = []" "rc_rule_provider run_profile = []" "rc_sub_rules run_profile = []"
  "rc_hosts run_profile = []" "rc_tunnels run_profile = []" "rc_proxy run_profile = rc_proxy demo_profile"
  "rc_proxy_group run_profile = []" "rc_proxy_provider run_profile = []"
  by (simp_all add: run_profile_def patches patch_override_def read_override_def run_state_def demo_native_env_def
      patch_external_controller_def demo_profile_def default_raw_config_def)

lemma run_main: "\<exists>nss. parse_name_server run_dns_env (default_name_servers @ [''system://'']) False False = Inr nss"
proof -
  have "isl (parse_name_server run_dns_env (default_name_servers @ [''system://'']) False False) = False" by code_simp
  then show ?thesis by (cases "parse_name_server run_dns_env (default_name_servers @ [''system://'']) False False") auto
qed

lemma run_default: "\<exists>nss. parse_name_server run_dns_env (rd_default_nameserver default_raw_dns) False False = Inr nss \<and>
    list_all (pure_address run_dns_env) nss"
proof -
  have "(case parse_name_server run_dns_env (rd_default_nameserver default_raw_dns) False False of
      Inl _ \<Rightarrow> False | Inr nss \<Rightarrow> list_all (pure_address run_dns_env) nss)" by code_simp
  then show ?thesis by (auto split: sum.splits)
qed

lemma run_skipper: "\<exists>sk. parse_skipper run_dns_env (rc_dns run_profile) [] = Inr sk"
proof -
  have "isl (parse_domain_list run_dns_env (foldl add_real_name default_fake_ip_filter direct_domains) [] []) = False" by code_simp
  then show ?thesis
    by (cases "parse_domain_list run_dns_env (foldl add_real_name default_fake_ip_filter direct_domains) [] []")
      (auto simp: parse_skipper_def parse_domain_def run_profile_fields default_raw_dns_def fallback_names_def)
qed

lemma run_rules:
  "case parse_all_proxies demo_proxies_env demo_profile of
     Some (Inr r) \<Rightarrow> \<not> isl (parse_rules (rules_env_of run_env r []) (\<lambda>n. map_of [] n \<noteq> None) ''rules'' (rc_rule run_profile))
   | _ \<Rightarrow> False"
  by code_simp

lemma run_hosts: "\<exists>t. parse_hosts (al_hosts run_env) [] = Some (Inr t)"
proof -
  have "(case parse_hosts (al_hosts run_env) [] of Some (Inr t) \<Rightarrow> True | _ \<Rightarrow> False)" by code_simp
  then show ?thesis by (auto split: option.splits sum.splits)
qed

lemma run_sniffer: "\<exists>x. parse_sniffer run_env (map_of []) demo_sniffer = Inr x"
proof -
  have "isl (parse_sniffer run_env (map_of []) demo_sniffer) = False" by code_simp
  then show ?thesis by (cases "parse_sniffer run_env (map_of []) demo_sniffer") auto
qed

lemma run_dns: "\<exists>dnsx. parse_dns run_dns_env memory_ops (new_memory_store 100) demo_last_ip (rc_dns run_profile) = Some (Inr dnsx)"
proof -
  obtain main where 1: "parse_name_server run_dns_env (default_name_servers @ [''system://'']) False False = Inr main"
    using run_main by blast
  obtain nss where 2: "parse_name_server run_dns_env (rd_default_nameserver default_raw_dns) False False = Inr nss"
    "list_all (pure_address run_dns_env) nss" using run_default by blast
  obtain sk where 3: "parse_skipper run_dns_env (rc_dns run_profile) [] = Inr sk" using run_skipper by blast
  have net: "de_parse_prefix run_dns_env t = Inr (Pfx (V4 0xc6120000) 28)" for t by (simp add: run_dns_env_def)
  have range4: "parse_range run_dns_env default_fake_ip_range addr_is4 e = Inr (Pfx (V4 0xc6120000) 28)" for e
    by (simp add: parse_range_def net default_fake_ip_range_def)
  have pool: "parse_pool memory_ops (new_memory_store 100) demo_last_ip (Pfx (V4 0xc6120000) 28) = Inr (Some demo_pool)"
    by (simp add: parse_pool_def demo_new_pool)
  have enhancer: "\<exists>inner. parse_enhancer run_dns_env memory_ops (new_memory_store 100) demo_last_ip (rc_dns run_profile) rv = Inr inner"
    if "dc_fallback rv = []" for rv
    using 3 that
    by (simp add: parse_enhancer_def Let_def run_profile_fields(1) default_raw_dns_def range4 pool)
      (simp add: parse_range_def parse_pool_def)
  let ?rv = "\<lparr>dc_main = main, dc_fallback = [], dc_default = nss, dc_proxy_server = [], dc_direct_server = [],
    dc_direct_follow_policy = False, dc_ip_filter = [], dc_domain_filter = [], dc_policy = [], dc_proxy_policy = []\<rparr>"
  have fields: "rd_respect_rules default_raw_dns = False" "rd_prefer_h3 default_raw_dns = False" "rd_fallback default_raw_dns = []"
    "rd_name_server_policy default_raw_dns = []" "rd_proxy_server_policy default_raw_dns = []"
    "rd_proxy_server_nameserver default_raw_dns = []" "rd_direct_name_server default_raw_dns = []"
    "rd_default_nameserver default_raw_dns \<noteq> []" "rd_direct_follow_policy default_raw_dns = False"
    by (simp_all add: default_raw_dns_def)
  obtain inner where "parse_enhancer run_dns_env memory_ops (new_memory_store 100) demo_last_ip (rc_dns run_profile) ?rv = Inr inner"
    using enhancer [of ?rv] by auto
  then show ?thesis
    using 1 2 fields
    by (simp add: parse_dns_def Let_def run_profile_fields(1) demo_none try_step_def parse_name_server_policy_def
        parse_fallback_filters_def)
qed


end
