(* ===== verification/Sniffer_Tls.thy ===== *)
theory Sniffer_Tls
  imports Results "HOL-Library.Word"
begin

text \<open>
  The TLS sniffer (\<open>component/sniffer/tls_sniffer.go\<close>): the server name of a ClientHello, read from
  as little data as possible. A sniffer finds a name, fails, or needs a number of bytes in all.
  Reading a byte that is not there is a panic, \<open>None\<close>; that it never happens is proved.
\<close>

subsection \<open>Results of a sniffer\<close>

type_synonym bytes = "8 word list"

datatype sniff_err = NotTLS | NotClientHello | NoClue | NotHTTP | HostIsIP

datatype 'a sniff = Found 'a | Need nat | Fail sniff_err

definition byte_at :: "bytes \<Rightarrow> nat \<Rightarrow> (8 word \<Rightarrow> 'b option) \<Rightarrow> 'b option" where
  "byte_at d i k = (if i < length d then k (d ! i) else None)"

definition u16_at :: "bytes \<Rightarrow> nat \<Rightarrow> (nat \<Rightarrow> 'b option) \<Rightarrow> 'b option" where
  "u16_at d i k = byte_at d i (\<lambda>a. byte_at d (i + 1) (\<lambda>b. k (unat a * 256 + unat b)))"

text \<open>The closure \<open>need\<close>: the length must fit into the message and be there.\<close>

definition need_data :: "nat \<Rightarrow> bytes \<Rightarrow> nat \<Rightarrow> 'a sniff option \<Rightarrow> 'a sniff option" where
  "need_data sz d n k =
     (if n > sz then Some (Fail NotClientHello) else if length d < n then Some (Need n) else k)"

definition sniff_then :: "'a sniff option \<Rightarrow> ('a \<Rightarrow> 'b sniff option) \<Rightarrow> 'b sniff option" where
  "sniff_then m k =
     (case m of None \<Rightarrow> None | Some (Found x) \<Rightarrow> k x | Some (Need n) \<Rightarrow> Some (Need n) | Some (Fail e) \<Rightarrow> Some (Fail e))"

definition bytes_text :: "bytes \<Rightarrow> string" where
  "bytes_text = map (\<lambda>b. char_of (unat b))"

lemma byte_at_cong [fundef_cong]:
  "d = d' \<Longrightarrow> i = i' \<Longrightarrow> (\<And>b. k b = k' b) \<Longrightarrow> byte_at d i k = byte_at d' i' k'"
  by (simp add: byte_at_def)

lemma u16_at_cong [fundef_cong]:
  "d = d' \<Longrightarrow> i = i' \<Longrightarrow> (\<And>n. k n = k' n) \<Longrightarrow> u16_at d i k = u16_at d' i' k'"
  by (simp add: u16_at_def byte_at_def)

lemma need_data_cong [fundef_cong]:
  "sz = sz' \<Longrightarrow> d = d' \<Longrightarrow> n = n' \<Longrightarrow> k = k' \<Longrightarrow> need_data sz d n k = need_data sz' d' n' k'"
  by simp

lemma sniff_then_cong [fundef_cong]:
  "m = m' \<Longrightarrow> (\<And>x. m' = Some (Found x) \<Longrightarrow> k x = k' x) \<Longrightarrow> sniff_then m k = sniff_then m' k'"
  by (auto simp: sniff_then_def split: option.split sniff.split)

subsection \<open>ReadClientHello\<close>

text \<open>The names of a server name extension: the name, or the offset after the last entry.\<close>

function read_names :: "nat \<Rightarrow> bytes \<Rightarrow> nat \<Rightarrow> nat \<Rightarrow> (string + nat) sniff option" where
  "read_names sz d names_end offset =
     (if offset \<ge> names_end then Some (Found (Inr offset))
      else
        need_data sz d (offset + 3)
          (byte_at d offset (\<lambda>kind. u16_at d (offset + 1) (\<lambda>n.
             let name_end = offset + 3 + n in
             if name_end > names_end then Some (Fail NotClientHello)
             else
               need_data sz d name_end
                 (if kind = 0 then
                    (let name = bytes_text (take n (drop (offset + 3) d)) in
                     if name \<noteq> [] \<and> last name = CHR ''.'' then Some (Fail NotClientHello) else Some (Found (Inl name)))
                  else read_names sz d names_end name_end)))))"
  by pat_completeness auto

termination
  by (relation "measure (\<lambda>(sz, d, names_end, offset). names_end - offset)") auto

declare read_names.simps [simp del]

lemma read_names_end:
  "read_names sz d names_end offset = Some (Found (Inr o')) \<Longrightarrow> offset \<le> o'"
proof (induction sz d names_end offset rule: read_names.induct)
  case (1 sz d names_end offset)
  note run = 1 [unfolded read_names.simps [of sz d names_end offset]]
  show ?case using run
    by (auto simp: need_data_def byte_at_def u16_at_def Let_def split: if_splits) (metis add_leD1)
qed

function read_extensions :: "nat \<Rightarrow> bytes \<Rightarrow> nat \<Rightarrow> nat \<Rightarrow> string sniff option" where
  "read_extensions sz d exts_end offset =
     (if offset \<ge> exts_end then Some (Fail NotTLS)
      else
        need_data sz d (offset + 4)
          (u16_at d offset (\<lambda>extension. u16_at d (offset + 2) (\<lambda>n.
             let start = offset + 4; ext_end = start + n in
             if ext_end > exts_end then Some (Fail NotClientHello)
             else if extension = 0 then
               (if n < 2 then Some (Fail NotClientHello)
                else
                  need_data sz d (start + 2)
                    (u16_at d start (\<lambda>names.
                       if start + 2 + names \<noteq> ext_end then Some (Fail NotClientHello)
                       else
                         sniff_then (read_names sz d ext_end (start + 2)) (\<lambda>x.
                           case x of Inl name \<Rightarrow> Some (Found name) | Inr past \<Rightarrow> read_extensions sz d exts_end past))))
             else if ext_end = exts_end then Some (Fail NotTLS)
             else need_data sz d ext_end (read_extensions sz d exts_end ext_end)))))"
  by pat_completeness auto

termination
  by (relation "measure (\<lambda>(sz, d, exts_end, offset). exts_end - offset)") (auto dest!: read_names_end)

declare read_extensions.simps [simp del]

text \<open>The fields before the extensions.\<close>

definition read_hello_body :: "nat \<Rightarrow> bytes \<Rightarrow> string sniff option" where
  "read_hello_body sz d =
     need_data sz d 39 (byte_at d 38 (\<lambda>session.
       if unat session > 32 then Some (Fail NotClientHello)
       else
         (let ciphers = 39 + unat session in
          need_data sz d ciphers (need_data sz d (ciphers + 2) (u16_at d ciphers (\<lambda>n.
            if n mod 2 = 1 then Some (Fail NotClientHello)
            else
              (let compression = ciphers + 2 + n in
               need_data sz d compression (need_data sz d (compression + 1) (byte_at d compression (\<lambda>methods.
                 let exts = compression + 1 + unat methods in
                 need_data sz d exts
                   (if exts = sz then Some (Fail NotClientHello)
                    else
                      need_data sz d (exts + 2) (u16_at d exts (\<lambda>n.
                        if exts + 2 + n \<noteq> sz then Some (Fail NotClientHello)
                        else read_extensions sz d (exts + 2 + n) (exts + 2))))))))))))))"

definition read_client_hello :: "bytes \<Rightarrow> string sniff option" where
  "read_client_hello d =
     (if d = [] then Some (Need 1)
      else
        byte_at d 0 (\<lambda>kind.
          if kind \<noteq> 1 then Some (Fail NotClientHello)
          else if length d < 4 then Some (Need 4)
          else
            byte_at d 1 (\<lambda>a. byte_at d 2 (\<lambda>b. byte_at d 3 (\<lambda>c.
              let sz = 4 + (unat a * 65536 + unat b * 256 + unat c) in
              read_hello_body sz (if length d > sz then take sz d else d))))))"

subsection \<open>SniffTLS\<close>

text \<open>From the record at an offset, with the part of the message the records before it held.\<close>

function sniff_records :: "bytes \<Rightarrow> nat \<Rightarrow> bytes \<Rightarrow> string sniff option" where
  "sniff_records b wire hello =
     (if length b < wire + 5 then Some (Need (wire + 5))
      else
        byte_at b wire (\<lambda>kind. byte_at b (wire + 1) (\<lambda>major. u16_at b (wire + 3) (\<lambda>n.
          if kind \<noteq> 0x16 \<or> major \<noteq> 3 then Some (Fail NotTLS)
          else if n > 16384 then Some (Fail NotTLS)
          else if n = 0 then Some (Fail NotClientHello)
          else
            (let start = wire + 5; record_end = start + n; payload_end = max start (min (length b) record_end);
                 hello' = hello @ take (payload_end - start) (drop start b) in
             case read_client_hello hello' of
               None \<Rightarrow> None
             | Some (Found name) \<Rightarrow> Some (Found name)
             | Some (Fail e) \<Rightarrow> Some (Fail e)
             | Some (Need k) \<Rightarrow>
                 (if payload_end < record_end
                  then Some (Need (payload_end + min (k - length hello') (record_end - payload_end)))
                  else sniff_records b record_end hello'))))))"
  by pat_completeness auto

termination
  by (relation "measure (\<lambda>(b, wire, hello). length b - wire)") auto

declare sniff_records.simps [simp del]

definition sniff_tls :: "bytes \<Rightarrow> string sniff option" where
  "sniff_tls b = sniff_records b 0 []"

subsection \<open>Readers that never look too far\<close>

text \<open>
  A reader is steady when, on any data of a minimal length, it gives a result that more data cannot
  change, and asks for more than it has; what it asks for stays the same until it is there.
\<close>

named_theorems steady_intros

definition settled :: "nat \<Rightarrow> (bytes \<Rightarrow> 'a sniff option) \<Rightarrow> bytes \<Rightarrow> bool" where
  "settled B f d \<longleftrightarrow>
     (case f d of
        None \<Rightarrow> False
      | Some (Need n) \<Rightarrow> length d < n \<and> n \<le> B \<and> (\<forall>c. length (d @ c) < n \<longrightarrow> f (d @ c) = Some (Need n))
      | r \<Rightarrow> (\<forall>c. f (d @ c) = r))"

definition steady :: "nat \<Rightarrow> nat \<Rightarrow> (bytes \<Rightarrow> 'a sniff option) \<Rightarrow> bool" where
  "steady B m f \<longleftrightarrow> (\<forall>d. m \<le> length d \<longrightarrow> settled B f d)"

lemma settled_mono: "settled B f d \<Longrightarrow> B \<le> B' \<Longrightarrow> settled B' f d"
  unfolding settled_def by (cases "f d"; simp; cases "the (f d)"; simp)

lemma steady_mono: "steady B m f \<Longrightarrow> m \<le> m' \<Longrightarrow> B \<le> B' \<Longrightarrow> steady B' m' f"
  unfolding steady_def using settled_mono le_trans by blast

lemma steady_found [steady_intros]: "steady B m (\<lambda>d. Some (Found x))"
  by (simp add: steady_def settled_def)

lemma steady_fail [steady_intros]: "steady B m (\<lambda>d. Some (Fail e))"
  by (simp add: steady_def settled_def)

lemma steady_if [steady_intros]: "(P \<Longrightarrow> steady B m f) \<Longrightarrow> (\<not> P \<Longrightarrow> steady B m g) \<Longrightarrow> steady B m (\<lambda>d. if P then f d else g d)"
  by (cases P) simp_all

lemma settled_cong:
  assumes "\<And>c. f (d @ c) = g (d @ c)"
  shows "settled B f d = settled B g d"
proof -
  have "f d = g d" using assms [of "[]"] by simp
  then show ?thesis using assms by (auto simp: settled_def split: option.split sniff.split)
qed

lemma steady_need [steady_intros]:
  assumes "n \<le> sz \<Longrightarrow> steady sz n f"
  shows "steady sz m (\<lambda>d. need_data sz d n (f d))"
proof -
  have "settled sz (\<lambda>d. need_data sz d n (f d)) d" for d
  proof (cases "n > sz \<or> length d < n")
    case True
    then show ?thesis by (auto simp: settled_def need_data_def)
  next
    case False
    then have "settled sz f d" using assms by (simp add: steady_def)
    moreover have "settled sz (\<lambda>d. need_data sz d n (f d)) d = settled sz f d"
      by (rule settled_cong) (use False in \<open>simp add: need_data_def\<close>)
    ultimately show ?thesis by simp
  qed
  then show ?thesis by (simp add: steady_def)
qed

lemma steady_byte [steady_intros]:
  assumes "i < m" and "\<And>b. steady B m (f b)"
  shows "steady B m (\<lambda>d. byte_at d i (\<lambda>b. f b d))"
proof -
  have "settled B (\<lambda>d. byte_at d i (\<lambda>b. f b d)) d" if "m \<le> length d" for d
  proof -
    have "i < length d" using assms(1) that by simp
    then have "settled B (\<lambda>d. byte_at d i (\<lambda>b. f b d)) d = settled B (f (d ! i)) d"
      by (intro settled_cong) (simp add: byte_at_def nth_append)
    then show ?thesis using assms(2) that by (simp add: steady_def)
  qed
  then show ?thesis by (simp add: steady_def)
qed

lemma steady_u16 [steady_intros]:
  "i + 1 < m \<Longrightarrow> (\<And>n. steady B m (f n)) \<Longrightarrow> steady B m (\<lambda>d. u16_at d i (\<lambda>n. f n d))"
  unfolding u16_at_def by (intro steady_byte) simp_all

lemma steady_then [steady_intros]:
  assumes "steady B m f" and "\<And>x d. f d = Some (Found x) \<Longrightarrow> steady B m (k x)"
  shows "steady B m (\<lambda>d. sniff_then (f d) (\<lambda>x. k x d))"
proof -
  have "settled B (\<lambda>d. sniff_then (f d) (\<lambda>x. k x d)) d" if "m \<le> length d" for d
  proof -
    have f: "settled B f d" using assms(1) that by (simp add: steady_def)
    show ?thesis
    proof (cases "f d")
      case None
      then show ?thesis using f by (simp add: settled_def)
    next
      case (Some r)
      show ?thesis
      proof (cases r)
        case (Found x)
        then have "settled B (\<lambda>d. sniff_then (f d) (\<lambda>x. k x d)) d = settled B (k x) d"
          using f Some by (intro settled_cong) (simp add: settled_def sniff_then_def)
        then show ?thesis using assms(2) [of d x] Some Found that by (simp add: steady_def)
      qed (use f Some in \<open>simp_all add: settled_def sniff_then_def\<close>)
    qed
  qed
  then show ?thesis by (simp add: steady_def)
qed

lemma steady_slice:
  assumes "a + n \<le> m" and "\<And>x. steady B m (f x)"
  shows "steady B m (\<lambda>d. f (take n (drop a d)) d)"
proof -
  have "settled B (\<lambda>d. f (take n (drop a d)) d) d" if "m \<le> length d" for d
  proof -
    have "settled B (\<lambda>d. f (take n (drop a d)) d) d = settled B (f (take n (drop a d))) d"
      by (intro settled_cong) (use assms(1) that in simp)
    then show ?thesis using assms(2) that by (simp add: steady_def)
  qed
  then show ?thesis by (simp add: steady_def)
qed

lemma read_names_steady: "steady sz m (\<lambda>d. read_names sz d e offset)"
proof (induction "e - offset" arbitrary: offset m rule: less_induct)
  case less
  have eq: "(\<lambda>d. read_names sz d e offset) = (\<lambda>d. if e \<le> offset then Some (Found (Inr offset))
      else need_data sz d (offset + 3) (byte_at d offset (\<lambda>kind. u16_at d (offset + 1) (\<lambda>n.
        if e < offset + 3 + n then Some (Fail NotClientHello)
        else need_data sz d (offset + 3 + n)
          (if kind = 0 then
            (if bytes_text (take n (drop (offset + 3) d)) \<noteq> [] \<and> last (bytes_text (take n (drop (offset + 3) d))) = CHR ''.''
             then Some (Fail NotClientHello) else Some (Found (Inl (bytes_text (take n (drop (offset + 3) d))))))
           else read_names sz d e (offset + 3 + n))))))"
    by (rule ext) (subst read_names.simps, simp only: Let_def not_le)
  have name: "steady sz (offset + 3 + n) (\<lambda>d. if bytes_text (take n (drop (offset + 3) d)) \<noteq> [] \<and>
      last (bytes_text (take n (drop (offset + 3) d))) = CHR ''.''
      then Some (Fail NotClientHello) else Some (Found (Inl (bytes_text (take n (drop (offset + 3) d)))) :: (string + nat) sniff))" for n
    by (rule steady_slice [where f = "\<lambda>x d. if bytes_text x \<noteq> [] \<and> last (bytes_text x) = CHR ''.''
      then Some (Fail NotClientHello) else Some (Found (Inl (bytes_text x)))"]) (auto intro!: steady_intros)
  show ?case unfolding eq
    by (intro steady_intros name less) auto
qed

lemma read_extensions_steady: "steady sz m (\<lambda>d. read_extensions sz d e offset)"
proof (induction "e - offset" arbitrary: offset m rule: less_induct)
  case (less offset)
  show ?case
  proof (cases "e \<le> offset")
    case True
    then have "(\<lambda>d. read_extensions sz d e offset) = (\<lambda>d. Some (Fail NotTLS))"
      by (intro ext) (subst read_extensions.simps, simp)
    then show ?thesis by (simp add: steady_fail)
  next
    case False
    have eq: "(\<lambda>d. read_extensions sz d e offset) =
      (\<lambda>d. need_data sz d (offset + 4) (u16_at d offset (\<lambda>extension. u16_at d (offset + 2) (\<lambda>n.
        if e < offset + 4 + n then Some (Fail NotClientHello)
        else if extension = 0 then
          (if n < 2 then Some (Fail NotClientHello)
           else need_data sz d (offset + 4 + 2) (u16_at d (offset + 4) (\<lambda>names.
             if offset + 4 + 2 + names \<noteq> offset + 4 + n then Some (Fail NotClientHello)
             else sniff_then (read_names sz d (offset + 4 + n) (offset + 4 + 2)) (\<lambda>x.
               case x of Inl name \<Rightarrow> Some (Found name) | Inr past \<Rightarrow> read_extensions sz d e past))))
        else if offset + 4 + n = e then Some (Fail NotTLS)
        else need_data sz d (offset + 4 + n) (read_extensions sz d e (offset + 4 + n))))))"
      by (rule ext) (subst read_extensions.simps, simp only: Let_def not_le False if_False)
    have past: "steady sz m (\<lambda>d. case x of Inl name \<Rightarrow> Some (Found name) | Inr past \<Rightarrow> read_extensions sz d e past)"
      if "read_names sz d' ne (offset + 4 + 2) = Some (Found x)" for x d' ne m
    proof (cases x)
      case (Inr past)
      then have "offset + 4 + 2 \<le> past" using that read_names_end by blast
      then have "e - past < e - offset" using False by simp
      then show ?thesis using less Inr by simp
    qed (simp add: steady_found)
    have rest: "steady sz m (\<lambda>d. read_extensions sz d e (offset + 4 + n))" for m n
      by (rule less) (use False in simp)
    show ?thesis unfolding eq
      by (intro steady_intros read_names_steady past rest) auto
  qed
qed

lemma read_hello_body_steady: "steady sz m (read_hello_body sz)"
  unfolding read_hello_body_def Let_def
  by (intro steady_intros read_extensions_steady) auto

lemma steady_truncated:
  assumes "steady sz 0 f"
  shows "steady sz 0 (\<lambda>d. f (if length d > sz then take sz d else d))"
proof -
  have cut: "(if length d > sz then take sz d else d) = take sz d" for d :: bytes by simp
  have "settled sz (\<lambda>d. f (take sz d)) d" for d
  proof -
    have "settled sz f (take sz d)" using assms by (simp add: steady_def)
    moreover have "take sz (d @ c) = take sz d @ take (sz - length d) c" for c by simp
    ultimately show ?thesis
      by (cases "f (take sz d)"; simp add: settled_def; cases "the (f (take sz d))"; auto simp: settled_def)
  qed
  then show ?thesis unfolding steady_def cut by simp
qed

definition max_hello :: nat where
  "max_hello = 16777219"

lemma read_client_hello_steady: "steady max_hello 0 read_client_hello"
proof -
  have "settled max_hello read_client_hello d" for d
  proof (cases "d = []")
    case True
    then show ?thesis by (auto simp: settled_def read_client_hello_def max_hello_def)
  next
    case False
    show ?thesis
    proof (cases "d ! 0 \<noteq> 1 \<or> length d < 4")
      case True
      then show ?thesis using False
        by (auto simp: settled_def read_client_hello_def byte_at_def max_hello_def nth_append)
    next
      case long: False
      let ?sz = "4 + (unat (d ! 1) * 65536 + unat (d ! 2) * 256 + unat (d ! 3))"
      have small: "unat (x :: 8 word) \<le> 255" for x
        using unsigned_less [of x, where ?'a = nat] by simp
      have "settled ?sz (\<lambda>d. read_hello_body ?sz (if length d > ?sz then take ?sz d else d)) d"
        using steady_truncated [OF read_hello_body_steady [of ?sz 0]] by (simp add: steady_def)
      moreover have "settled ?sz read_client_hello d = settled ?sz (\<lambda>d. read_hello_body ?sz (if length d > ?sz then take ?sz d else d)) d"
        by (rule settled_cong) (use False long in \<open>simp add: read_client_hello_def byte_at_def nth_append Let_def\<close>)
      moreover have "?sz \<le> max_hello"
        using small [of "d ! 1"] small [of "d ! 2"] small [of "d ! 3"] by (simp add: max_hello_def)
      ultimately show ?thesis using settled_mono by blast
    qed
  qed
  then show ?thesis by (simp add: steady_def)
qed

lemma header_reads:
  assumes "\<not> length b < wire + 5"
  shows "byte_at b wire g = g (b ! wire)" and "byte_at b (wire + 1) g = g (b ! (wire + 1))"
    and "u16_at b (wire + 3) f = f (unat (b ! (wire + 3)) * 256 + unat (b ! (wire + 4)))"
proof -
  have "wire + 3 + 1 = wire + 4" by simp
  then show "u16_at b (wire + 3) f = f (unat (b ! (wire + 3)) * 256 + unat (b ! (wire + 4)))"
    using assms unfolding u16_at_def byte_at_def by (simp only:) simp
qed (use assms in \<open>simp_all add: byte_at_def\<close>)

text \<open>One record whose header is there, and the message it makes.\<close>

lemma sniff_records_step:
  assumes "\<not> length b < wire + 5" and "b ! wire = 0x16" and "b ! (wire + 1) = 3"
    and "n = unat (b ! (wire + 3)) * 256 + unat (b ! (wire + 4))" and "0 < n" and "n \<le> 16384"
    and "payload_end = min (length b) (wire + 5 + n)" and "hello' = hello @ take n (drop (wire + 5) b)"
  shows "sniff_records b wire hello =
    (case read_client_hello hello' of
       None \<Rightarrow> None
     | Some (Found name) \<Rightarrow> Some (Found name)
     | Some (Fail e) \<Rightarrow> Some (Fail e)
     | Some (Need k) \<Rightarrow>
         (if payload_end < wire + 5 + n then Some (Need (payload_end + min (k - length hello') (wire + 5 + n - payload_end)))
          else sniff_records b (wire + 5 + n) hello'))"
proof -
  have 1: "max (wire + 5) (min (length b) (wire + 5 + n)) = payload_end" using assms(1,7) by simp
  have 2: "take (payload_end - (wire + 5)) (drop (wire + 5) b) = take n (drop (wire + 5) b)"
    using assms(1,7) by (auto simp: min_def)
  have "\<not> n > 16384" "n \<noteq> 0" using assms(5,6) by simp_all
  then show ?thesis
    unfolding sniff_records.simps [of b wire hello] header_reads [OF assms(1)] assms(2,3) assms(4) [symmetric] assms(8) Let_def 1 2
    by (simp add: assms(1))
qed

lemma sniff_records_bad:
  assumes "\<not> length b < wire + 5" and "n = unat (b ! (wire + 3)) * 256 + unat (b ! (wire + 4))"
    and "\<not> (b ! wire = 0x16 \<and> b ! (wire + 1) = 3 \<and> 0 < n \<and> n \<le> 16384)"
  shows "sniff_records b wire hello =
    Some (Fail (if b ! wire \<noteq> 0x16 \<or> b ! (wire + 1) \<noteq> 3 \<or> n > 16384 then NotTLS else NotClientHello))"
  unfolding sniff_records.simps [of b wire hello] header_reads [OF assms(1)] assms(2) [symmetric]
  using assms(1,3) by auto

lemma sniff_records_settled:
  "wire \<le> length b \<Longrightarrow> settled (length b + 16384) (\<lambda>b. sniff_records b wire hello) b"
proof (induction "length b - wire" arbitrary: wire hello rule: less_induct)
  case (less wire)
  show ?case
  proof (cases "length b < wire + 5")
    case True
    have "sniff_records (b @ c) wire hello = Some (Need (wire + 5))" if "length (b @ c) < wire + 5" for c
      using that by (subst sniff_records.simps) simp
    then show ?thesis using True less.prems
      by (subst settled_def) (subst (1) sniff_records.simps, simp)
  next
    case False
    define n where "n = unat (b ! (wire + 3)) * 256 + unat (b ! (wire + 4))"
    have same: "(b @ c) ! (wire + i) = b ! (wire + i)" if "i < 5" for c i using False that by (simp add: nth_append)
    show ?thesis
    proof (cases "b ! wire = 0x16 \<and> b ! (wire + 1) = 3 \<and> 0 < n \<and> n \<le> 16384")
      case bad: False
      define e where "e = (if b ! wire \<noteq> 0x16 \<or> b ! (wire + 1) \<noteq> 3 \<or> n > 16384 then NotTLS else NotClientHello)"
      have failed: "sniff_records (b @ c) wire hello = Some (Fail e)" for c
        using sniff_records_bad [of "b @ c" wire n hello] False bad same [of 0 c] same [of 1 c] same [of 3 c] same [of 4 c]
        by (simp add: e_def n_def)
      have "settled (length b + 16384) (\<lambda>b. sniff_records b wire hello) b =
          settled (length b + 16384) (\<lambda>b. Some (Fail e :: string sniff)) b"
        by (rule settled_cong) (simp add: failed)
      then show ?thesis by (simp add: settled_def)
    next
      case good: True
      define hello' where "hello' c = hello @ take n (drop (wire + 5) (b @ c))" for c
      have step: "sniff_records (b @ c) wire hello =
        (case read_client_hello (hello' c) of
           None \<Rightarrow> None
         | Some (Found name) \<Rightarrow> Some (Found name)
         | Some (Fail e) \<Rightarrow> Some (Fail e)
         | Some (Need k) \<Rightarrow>
             (if min (length (b @ c)) (wire + 5 + n) < wire + 5 + n
              then Some (Need (min (length (b @ c)) (wire + 5 + n) + min (k - length (hello' c)) (wire + 5 + n - min (length (b @ c)) (wire + 5 + n))))
              else sniff_records (b @ c) (wire + 5 + n) (hello' c)))" for c
        using False good same [of 0 c] same [of 1 c] same [of 3 c] same [of 4 c]
        by (intro sniff_records_step) (simp_all add: n_def hello'_def)
      have settled: "settled max_hello read_client_hello (hello' [])"
        using read_client_hello_steady by (simp add: steady_def)
      have const: ?thesis if "\<And>c. sniff_records (b @ c) wire hello = r" and "r = Some (Found x) \<or> r = Some (Fail e)" for r x e
      proof -
        have "settled (length b + 16384) (\<lambda>b. sniff_records b wire hello) b = settled (length b + 16384) (\<lambda>b. r) b"
          by (rule settled_cong) (simp add: that(1))
        then show ?thesis using that(2) by (auto simp: settled_def)
      qed
      show ?thesis
      proof (cases "read_client_hello (hello' [])")
        case None
        then show ?thesis using settled by (simp add: settled_def)
      next
        case (Some r)
        show ?thesis
        proof (cases "\<exists>k. r = Need k")
          case decided: False
          have "read_client_hello (hello' c) = Some r" for c
          proof -
            have "hello' c = hello' [] @ take (n - (length b - (wire + 5))) c"
              using False by (simp add: hello'_def)
            then show ?thesis using settled Some decided by (cases r) (auto simp: settled_def)
          qed
          then have "sniff_records (b @ c) wire hello = Some r" for c using step [of c] decided by (cases r) auto
          then show ?thesis using const [of "Some r"] decided by (cases r) auto
        next
          case True
          then obtain k where k: "r = Need k" by blast
          show ?thesis
          proof (cases "wire + 5 + n \<le> length b")
            case True
            then have whole: "hello' c = hello' []" for c by (simp add: hello'_def)
            have onward: "sniff_records (b @ c) wire hello = sniff_records (b @ c) (wire + 5 + n) (hello' [])" for c
              using step [of c, unfolded whole [of c] Some k] True by simp
            have "settled (length b + 16384) (\<lambda>b. sniff_records b wire hello) b =
                settled (length b + 16384) (\<lambda>b. sniff_records b (wire + 5 + n) (hello' [])) b"
              by (rule settled_cong) (rule onward)
            then show ?thesis using less.hyps [of "wire + 5 + n" "hello' []"] True by simp
          next
            case short: False
            let ?T = "length b + min (k - length (hello' [])) (wire + 5 + n - length b)"
            have more: "length (hello' []) < k" "length (hello' [] @ c) < k \<Longrightarrow> read_client_hello (hello' [] @ c) = Some (Need k)" for c
              using settled Some k by (auto simp: settled_def)
            have "sniff_records (b @ c) wire hello = Some (Need ?T)" if "length (b @ c) < ?T" for c
            proof -
              have "hello' c = hello' [] @ c" using that short False by (simp add: hello'_def, linarith)
              moreover have "read_client_hello (hello' [] @ c) = Some (Need k)" using that by (intro more) (simp, linarith)
              moreover have fits: "length b + length c < wire + 5 + n" using that by (simp, linarith)
              moreover have "min (length (b @ c)) (wire + 5 + n) = length b + length c" using fits by simp
              moreover have "length b + length c + min (k - length (hello' [] @ c)) (wire + 5 + n - (length b + length c)) = ?T"
                using that by simp linarith
              ultimately show ?thesis using step [of c] by simp
            qed
            moreover from this [of "[]"] have "sniff_records b wire hello = Some (Need ?T)" using more(1) short by simp
            moreover have "?T \<le> length b + 16384" using good False by linarith
            ultimately show ?thesis using more(1) short by (simp add: settled_def)
          qed
        qed
      qed
    qed
  qed
qed

text \<open>
  C15: the TLS sniffer never reads a byte that is not there, whatever it is given, and never decides too
  early or waits too long. What it finds, or the verdict that there is no name, no further data can
  change. Otherwise it asks for more bytes than it has, at most a record more, and for the same
  number on every prefix that is still too short, so that waiting for them loses nothing.
\<close>

theorem sniff_tls_settled: "settled (length b + 16384) sniff_tls b"
  unfolding sniff_tls_def using sniff_records_settled [of 0 b "[]"] by simp

end
