(* ===== verification/Sniffer_Hello.thy ===== *)
theory Sniffer_Hello
  imports Sniffer_Tls
begin

text \<open>
  What the TLS sniffer finds: a ClientHello is written down from its fields, split into records in any
  way, and read back.
\<close>

subsection \<open>Writing a ClientHello\<close>

record client_hello =
  ch_prefix :: bytes
  ch_session :: bytes
  ch_ciphers :: bytes
  ch_compression :: bytes
  ch_before :: "(nat \<times> bytes) list"
  ch_host :: bytes
  ch_after :: bytes

definition u16 :: "nat \<Rightarrow> bytes" where
  "u16 n = [of_nat (n div 256), of_nat (n mod 256)]"

definition u24 :: "nat \<Rightarrow> bytes" where
  "u24 n = [of_nat (n div 65536), of_nat (n div 256 mod 256), of_nat (n mod 256)]"

definition enc_extension :: "nat \<times> bytes \<Rightarrow> bytes" where
  "enc_extension = (\<lambda>(kind, d). u16 kind @ u16 (length d) @ d)"

definition enc_server_name :: "bytes \<Rightarrow> bytes" where
  "enc_server_name host = u16 0 @ u16 (length host + 5) @ u16 (length host + 3) @ [0] @ u16 (length host) @ host"

definition enc_extensions :: "client_hello \<Rightarrow> bytes" where
  "enc_extensions h = concat (map enc_extension (ch_before h)) @ enc_server_name (ch_host h) @ ch_after h"

definition enc_body :: "client_hello \<Rightarrow> bytes" where
  "enc_body h =
     ch_prefix h @ [of_nat (length (ch_session h))] @ ch_session h @ u16 (length (ch_ciphers h)) @ ch_ciphers h @
     [of_nat (length (ch_compression h))] @ ch_compression h @ u16 (length (enc_extensions h)) @ enc_extensions h"

definition enc_hello :: "client_hello \<Rightarrow> bytes" where
  "enc_hello h = [1] @ u24 (length (enc_body h)) @ enc_body h"

definition enc_record :: "8 word \<Rightarrow> bytes \<Rightarrow> bytes" where
  "enc_record version d = [0x16, 3, version] @ u16 (length d) @ d"

definition hello_ok :: "client_hello \<Rightarrow> bool" where
  "hello_ok h \<longleftrightarrow>
     length (ch_prefix h) = 34 \<and> length (ch_session h) \<le> 32 \<and> even (length (ch_ciphers h)) \<and> length (ch_ciphers h) < 65536 \<and>
     length (ch_compression h) < 256 \<and> list_all (\<lambda>(kind, d). 0 < kind \<and> kind < 65536 \<and> length d < 65536) (ch_before h) \<and>
     length (enc_extensions h) < 65536 \<and> (ch_host h = [] \<or> last (ch_host h) \<noteq> 46)"

subsection \<open>Reading it back\<close>

lemma unat_byte: "n < 256 \<Longrightarrow> unat (of_nat n :: 8 word) = n"
  by (simp add: unat_of_nat take_bit_eq_mod)

lemma length_u16 [simp]: "length (u16 n) = 2"
  by (simp add: u16_def)

lemma byte_at_append: "i = length xs \<Longrightarrow> byte_at (xs @ b # ys) i k = k b"
  by (simp add: byte_at_def)

lemma u16_at_append: "i = length xs \<Longrightarrow> n < 65536 \<Longrightarrow> u16_at (xs @ u16 n @ ys) i k = k n"
  by (simp add: u16_at_def byte_at_def u16_def nth_append unat_byte)

lemma need_data_there: "n \<le> length d \<Longrightarrow> need_data (length d) d n k = k"
  by (simp add: need_data_def)

lemma byte_char: "char_of (unat (b :: 8 word)) = CHR ''.'' \<longleftrightarrow> b = 46"
proof
  assume "char_of (unat b) = CHR ''.''"
  then have "of_char (char_of (unat b)) = (46 :: nat)" by simp
  moreover have "unat b < 256" using unsigned_less [of b, where ?'a = nat] by simp
  ultimately have "unat b = 46" by simp
  then show "b = 46" by (simp add: word_unat_eq_iff)
next
  assume "b = 46"
  then show "char_of (unat b) = CHR ''.''" by (simp add: char_of_eq_iff bit_numeral_rec)
qed

lemma bytes_text_dot: "bytes_text d \<noteq> [] \<and> last (bytes_text d) = CHR ''.'' \<longleftrightarrow> d \<noteq> [] \<and> last d = 46"
  by (cases "d = []") (simp_all add: bytes_text_def last_map byte_char)

lemma read_names_found:
  assumes d: "d = pre @ [0] @ u16 (length host) @ host @ post" and e: "e = length pre + 3 + length host"
    and small: "length host < 65536" and dot: "host = [] \<or> last host \<noteq> 46"
  shows "read_names (length d) d e (length pre) = Some (Found (Inl (bytes_text host)))"
proof -
  have 1: "byte_at d (length pre) k = k 0" for k :: "8 word \<Rightarrow> (string + nat) sniff option"
    by (simp add: d byte_at_append)
  have 2: "u16_at d (length pre + 1) k = k (length host)" for k :: "nat \<Rightarrow> (string + nat) sniff option"
    using u16_at_append [of "length pre + 1" "pre @ [0]" "length host" "host @ post" k] small by (simp add: d)
  have 3: "take (length host) (drop (length pre + 3) d) = host" by (simp add: d u16_def)
  have 4: "need_data (length d) d n k = k" if "n \<le> e" for n and k :: "(string + nat) sniff option"
    using that by (intro need_data_there) (simp add: d e)
  have 5: "need_data (length d) d (length pre + 3) k = k" "need_data (length d) d (length pre + 3 + length host) k = k"
    for k :: "(string + nat) sniff option" by (rule 4, simp add: e)+
  have 6: "\<not> e \<le> length pre" "\<not> e < length pre + 3 + length host" using e by simp_all
  show ?thesis
    unfolding read_names.simps [of "length d" d e "length pre"] 1 2 Let_def 3 5
    using dot 6 by (simp add: bytes_text_dot)
qed

lemma read_server_name_found:
  assumes d: "d = pre @ enc_server_name host @ post" and small: "length host + 5 < 65536" and dot: "host = [] \<or> last host \<noteq> 46"
    and off: "off = length pre" and sz: "sz = length d"
  shows "read_extensions sz d sz off = Some (Found (bytes_text host))"
proof -
  have len: "length d = off + 9 + length host + length post" by (simp add: d enc_server_name_def off)
  have 1: "u16_at d off k = k 0" for k :: "nat \<Rightarrow> string sniff option"
    using u16_at_append [of off pre 0 _ k] by (simp add: d enc_server_name_def off)
  have 2: "u16_at d (off + 2) k = k (length host + 5)" for k :: "nat \<Rightarrow> string sniff option"
    using u16_at_append [of "off + 2" "pre @ u16 0" "length host + 5" "u16 (length host + 3) @ [0] @ u16 (length host) @ host @ post" k] small
    by (simp add: d enc_server_name_def off)
  have 3: "u16_at d (off + 4) k = k (length host + 3)" for k :: "nat \<Rightarrow> string sniff option"
    using u16_at_append [of "off + 4" "pre @ u16 0 @ u16 (length host + 5)" "length host + 3" "[0] @ u16 (length host) @ host @ post" k] small
    by (simp add: d enc_server_name_def off)
  have 4: "read_names sz d (off + 4 + (length host + 5)) (off + 4 + 2) = Some (Found (Inl (bytes_text host)))"
    using read_names_found [of d "pre @ u16 0 @ u16 (length host + 5) @ u16 (length host + 3)" host post "off + 9 + length host"] small dot
    unfolding sz off by (simp add: d enc_server_name_def add.commute add.left_commute)
  have 5: "need_data sz d n k = k" if "n \<le> off + 9" for n and k :: "string sniff option"
    using that unfolding sz by (intro need_data_there) (simp add: len)
  have 6: "need_data sz d (off + 4) k = k" "need_data sz d (off + 4 + 2) k = k" for k :: "string sniff option"
    by (rule 5, simp)+
  have 7: "\<not> sz \<le> off" "\<not> sz < off + 4 + (length host + 5)" "\<not> length host + 5 < 2"
    "off + 4 + 2 + (length host + 3) = off + 4 + (length host + 5)" by (simp_all add: len sz)
  show ?thesis
    unfolding read_extensions.simps [of sz d sz off] 1 2 3 6 4 Let_def sniff_then_def
    using 7 by (simp only: if_False if_True not_True_eq_False refl option.case sniff.case sum.case)
qed

lemma read_extensions_found:
  assumes "d = pre @ concat (map enc_extension before) @ enc_server_name host @ post" and "length host + 5 < 65536"
    and "host = [] \<or> last host \<noteq> 46" and "list_all (\<lambda>(kind, d). 0 < kind \<and> kind < 65536 \<and> length d < 65536) before"
    and "off = length pre" and "sz = length d"
  shows "read_extensions sz d sz off = Some (Found (bytes_text host))"
  using assms
proof (induction before arbitrary: pre off)
  case Nil
  then show ?case by (intro read_server_name_found [of d pre host post]) simp_all
next
  case (Cons x before)
  obtain kind b where x: "x = (kind, b)" by fastforce
  let ?rest = "concat (map enc_extension before) @ enc_server_name host @ post"
  have d: "d = pre @ u16 kind @ u16 (length b) @ b @ ?rest" using Cons.prems(1) by (simp add: x enc_extension_def)
  have ok: "0 < kind" "kind < 65536" "length b < 65536" using Cons.prems(4) by (simp_all add: x)
  have 1: "u16_at d off k = k kind" for k :: "nat \<Rightarrow> string sniff option"
    using u16_at_append [of off pre kind _ k] ok Cons.prems(5) by (simp add: d)
  have 2: "u16_at d (off + 2) k = k (length b)" for k :: "nat \<Rightarrow> string sniff option"
    using u16_at_append [of "off + 2" "pre @ u16 kind" "length b" "b @ ?rest" k] ok Cons.prems(5) by (simp add: d)
  have "length (enc_server_name host) > 0" by (simp add: enc_server_name_def)
  then have more: "off + 4 + length b < sz" using Cons.prems(5,6) by (simp add: d)
  have 3: "need_data sz d n k = k" if "n \<le> off + 4 + length b" for n and k :: "string sniff option"
    using that more Cons.prems(6) by (simp add: need_data_there)
  have IH: "read_extensions sz d sz (off + 4 + length b) = Some (Found (bytes_text host))"
    using Cons.prems by (intro Cons.IH [of "pre @ enc_extension x"]) (simp_all add: x enc_extension_def)
  have 4: "need_data sz d (off + 4) k = k" "need_data sz d (off + 4 + length b) k = k" for k :: "string sniff option"
    by (rule 3, simp)+
  have 5: "\<not> sz \<le> off" "\<not> sz < off + 4 + length b" "kind \<noteq> 0" "off + 4 + length b \<noteq> sz" using more ok by simp_all
  show ?case
    unfolding read_extensions.simps [of sz d sz off] 1 2 4 Let_def IH
    using 5 by (simp only: if_False)
qed

lemma length_u24 [simp]: "length (u24 n) = 3"
  by (simp add: u24_def)

lemma host_small: "hello_ok h \<Longrightarrow> length (ch_host h) + 5 < 65536"
  by (simp add: hello_ok_def enc_extensions_def enc_server_name_def)

lemma read_hello_body_found:
  assumes ok: "hello_ok h" and sz: "sz = length (enc_hello h)"
  shows "read_hello_body sz (enc_hello h) = Some (Found (bytes_text (ch_host h)))"
proof -
  define d where "d = enc_hello h"
  let ?s = "ch_session h" and ?c = "ch_ciphers h" and ?m = "ch_compression h" and ?x = "enc_extensions h"
  let ?pre = "[1] @ u24 (length (enc_body h)) @ ch_prefix h"
  define ciphers where "ciphers = 39 + length ?s"
  define compression where "compression = ciphers + 2 + length ?c"
  define exts where "exts = compression + 1 + length ?m"
  have fields: "length (ch_prefix h) = 34" "length ?s \<le> 32" "even (length ?c)" "length ?c < 65536" "length ?m < 256" "length ?x < 65536"
    using ok by (simp_all add: hello_ok_def)
  have d: "d = ?pre @ [of_nat (length ?s)] @ ?s @ u16 (length ?c) @ ?c @ [of_nat (length ?m)] @ ?m @ u16 (length ?x) @ ?x"
    by (simp add: d_def enc_hello_def enc_body_def)
  have at: "38 = length ?pre" "ciphers = length (?pre @ [of_nat (length ?s)] @ ?s)"
    "compression = length (?pre @ [of_nat (length ?s)] @ ?s @ u16 (length ?c) @ ?c)"
    "exts = length (?pre @ [of_nat (length ?s)] @ ?s @ u16 (length ?c) @ ?c @ [of_nat (length ?m)] @ ?m)"
    by (simp_all add: fields ciphers_def compression_def exts_def)
  have 1: "byte_at d 38 k = k (of_nat (length ?s))" for k :: "8 word \<Rightarrow> string sniff option"
    using byte_at_append [OF at(1)] by (simp add: d)
  have 2: "u16_at d ciphers k = k (length ?c)" for k :: "nat \<Rightarrow> string sniff option"
    using u16_at_append [OF at(2) fields(4)] by (simp add: d)
  have 3: "byte_at d compression k = k (of_nat (length ?m))" for k :: "8 word \<Rightarrow> string sniff option"
    using byte_at_append [OF at(3)] by (simp add: d)
  have 4: "u16_at d exts k = k (length ?x)" for k :: "nat \<Rightarrow> string sniff option"
    using u16_at_append [OF at(4) fields(6), of "?x"] by (simp add: d)
  have size: "sz = exts + 2 + length ?x" "sz = length d" "\<not> 32 < length ?s" "length ?c mod 2 \<noteq> 1"
    "unat (of_nat (length ?s) :: 8 word) = length ?s" "unat (of_nat (length ?m) :: 8 word) = length ?m"
    using fields by (simp_all add: sz d_def [symmetric] d at(4) unat_byte)
  have 5: "need_data sz d n k = k" if "n \<le> exts + 2" for n and k :: "string sniff option"
  proof -
    have "n \<le> length d" using that size(1) by (simp add: size(2) [symmetric])
    then show ?thesis unfolding size(2) by (rule need_data_there)
  qed
  have 6: "need_data sz d 39 k = k" "need_data sz d ciphers k = k" "need_data sz d (ciphers + 2) k = k"
    "need_data sz d compression k = k" "need_data sz d (compression + 1) k = k" "need_data sz d exts k = k"
    "need_data sz d (exts + 2) k = k" for k :: "string sniff option"
    by (rule 5, simp add: ciphers_def compression_def exts_def)+
  define front where "front = ?pre @ [of_nat (length ?s)] @ ?s @ u16 (length ?c) @ ?c @ [of_nat (length ?m)] @ ?m @ u16 (length ?x)"
  have "d = front @ ?x" unfolding d front_def by (simp only: append_assoc)
  then have "d = front @ concat (map enc_extension (ch_before h)) @ enc_server_name (ch_host h) @ ch_after h"
    by (simp only: enc_extensions_def)
  moreover have "exts + 2 = length front" by (simp add: at(4) front_def)
  ultimately have 7: "read_extensions sz d sz (exts + 2) = Some (Found (bytes_text (ch_host h)))"
    using ok unfolding hello_ok_def by (intro read_extensions_found [OF _ host_small [OF ok] _ _ _ size(2)]) blast+
  have "exts + 2 + length ?x = sz" "exts \<noteq> sz" using size(1) by simp_all
  then show ?thesis
    unfolding read_hello_body_def d_def [symmetric] 1 6 size(5) ciphers_def [symmetric] 2 Let_def compression_def [symmetric] 3 6
      size(6) exts_def [symmetric] 4 6
    using size(3,4) 7 by simp
qed

lemma read_client_hello_found:
  assumes ok: "hello_ok h" and small: "length (enc_body h) < 16777216"
  shows "read_client_hello (enc_hello h) = Some (Found (bytes_text (ch_host h)))"
proof -
  let ?n = "length (enc_body h)"
  have bytes: "enc_hello h = 1 # of_nat (?n div 65536) # of_nat (?n div 256 mod 256) # of_nat (?n mod 256) # enc_body h"
    by (simp add: enc_hello_def u24_def)
  have parts: "unat (of_nat (?n div 65536) :: 8 word) = ?n div 65536" "unat (of_nat (?n div 256 mod 256) :: 8 word) = ?n div 256 mod 256"
    "unat (of_nat (?n mod 256) :: 8 word) = ?n mod 256"
    using small by (auto intro!: unat_byte simp: div_less_iff_less_mult)
  have split: "?n div 65536 = ?n div 256 div 256" by (simp add: div_mult2_eq [symmetric])
  have "?n div 256 div 256 * 65536 + ?n div 256 mod 256 * 256 = ?n div 256 * 256"
    using div_mult_mod_eq [of "?n div 256" 256] by linarith
  then have "?n div 65536 * 65536 + ?n div 256 mod 256 * 256 + ?n mod 256 = ?n"
    unfolding split using div_mult_mod_eq [of ?n 256] by linarith
  then have sz: "4 + (?n div 65536 * 65536 + ?n div 256 mod 256 * 256 + ?n mod 256) = length (enc_hello h)" by (simp add: bytes)
  have "enc_hello h \<noteq> []" "\<not> length (enc_hello h) < 4" by (simp_all add: bytes)
  moreover have "byte_at (enc_hello h) 0 k = k 1" "byte_at (enc_hello h) 1 k = k (of_nat (?n div 65536))"
    "byte_at (enc_hello h) 2 k = k (of_nat (?n div 256 mod 256))" "byte_at (enc_hello h) 3 k = k (of_nat (?n mod 256))"
    for k :: "8 word \<Rightarrow> string sniff option"
    by (simp_all add: bytes byte_at_def)
  ultimately show ?thesis
    unfolding read_client_hello_def Let_def parts
    by (simp add: parts sz read_hello_body_found [OF ok refl])
qed

lemma body_small:
  assumes "hello_ok h"
  shows "length (enc_body h) < 16777216"
  using assms by (simp add: hello_ok_def enc_body_def)

subsection \<open>The records\<close>

lemma enc_record_step:
  assumes "b = before @ enc_record v c @ rest" and "wire = length before" and "0 < length c" and "length c \<le> 16384"
  shows "sniff_records b wire hello =
    (case read_client_hello (hello @ c) of
       None \<Rightarrow> None
     | Some (Found name) \<Rightarrow> Some (Found name)
     | Some (Fail e) \<Rightarrow> Some (Fail e)
     | Some (Need k) \<Rightarrow> sniff_records b (wire + 5 + length c) (hello @ c))"
proof -
  have b: "b = before @ 0x16 # 3 # v # of_nat (length c div 256) # of_nat (length c mod 256) # c @ rest"
    using assms(1) by (simp add: enc_record_def u16_def)
  have long: "\<not> length b < wire + 5" "wire + 5 + length c \<le> length b" using assms(2) by (simp_all add: b)
  have bytes: "b ! wire = 0x16" "b ! (wire + 1) = 3" "b ! (wire + 3) = of_nat (length c div 256)"
    "b ! (wire + 4) = of_nat (length c mod 256)" and payload: "take (length c) (drop (wire + 5) b) = c"
    using assms(2) by (simp_all add: b nth_append)
  have n: "length c = unat (b ! (wire + 3)) * 256 + unat (b ! (wire + 4))"
    using assms(4) by (simp add: bytes unat_byte)
  have "min (length b) (wire + 5 + length c) = wire + 5 + length c" using long by simp
  then show ?thesis
    using sniff_records_step [OF long(1) bytes(1,2) n assms(3,4) refl refl, of hello, unfolded payload] long
    by (simp split: option.split sniff.split)
qed

lemma prefix_of_hello:
  assumes ok: "hello_ok h" and whole: "d @ c = enc_hello h"
  shows "(\<exists>k. read_client_hello d = Some (Need k)) \<and> c \<noteq> [] \<or> read_client_hello d = Some (Found (bytes_text (ch_host h)))"
proof -
  have found: "read_client_hello (d @ c) = Some (Found (bytes_text (ch_host h)))"
    unfolding whole by (rule read_client_hello_found [OF ok body_small [OF ok]])
  have "settled max_hello read_client_hello d" using read_client_hello_steady by (simp add: steady_def)
  then show ?thesis using found by (auto simp: settled_def split: option.splits sniff.splits)
qed

lemma sniff_records_found:
  assumes ok: "hello_ok h" and "list_all (\<lambda>c. 0 < length c \<and> length c \<le> 16384) cs" and "cs \<noteq> []"
    and "b = before @ concat (map (enc_record v) cs) @ rest" and "wire = length before" and "hello @ concat cs = enc_hello h"
  shows "sniff_records b wire hello = Some (Found (bytes_text (ch_host h)))"
  using assms(2-)
proof (induction cs arbitrary: before wire hello)
  case (Cons c cs)
  have step: "sniff_records b wire hello =
    (case read_client_hello (hello @ c) of
       None \<Rightarrow> None
     | Some (Found name) \<Rightarrow> Some (Found name)
     | Some (Fail e) \<Rightarrow> Some (Fail e)
     | Some (Need k) \<Rightarrow> sniff_records b (wire + 5 + length c) (hello @ c))"
    using Cons.prems by (intro enc_record_step [of b before v c "concat (map (enc_record v) cs) @ rest"]) simp_all
  have "(hello @ c) @ concat cs = enc_hello h" using Cons.prems by simp
  from prefix_of_hello [OF ok this] show ?case
  proof
    assume "(\<exists>k. read_client_hello (hello @ c) = Some (Need k)) \<and> concat cs \<noteq> []"
    moreover from this have "cs \<noteq> []" by auto
    then have "sniff_records b (wire + 5 + length c) (hello @ c) = Some (Found (bytes_text (ch_host h)))"
      using Cons.prems by (intro Cons.IH [of "before @ enc_record v c"]) (simp_all add: enc_record_def)
    ultimately show ?thesis using step by auto
  qed (simp add: step)
qed simp

text \<open>
  C16: the name in a ClientHello is found however the message is cut into records, whatever else the
  message holds and whatever follows it.
\<close>

theorem tls_name_round_trip:
  assumes "hello_ok h" and "concat cs = enc_hello h" and "list_all (\<lambda>c. 0 < length c \<and> length c \<le> 16384) cs"
  shows "sniff_tls (concat (map (enc_record v) cs) @ rest) = Some (Found (bytes_text (ch_host h)))"
proof -
  have "cs \<noteq> []" using assms(2) by (auto simp: enc_hello_def)
  then show ?thesis
    unfolding sniff_tls_def by (intro sniff_records_found [OF assms(1,3), of _ "[]" v rest]) (simp_all add: assms(2))
qed

definition demo_hello :: client_hello where
  "demo_hello =
     \<lparr>ch_prefix = [3, 3] @ replicate 32 7, ch_session = [], ch_ciphers = [0x13, 1], ch_compression = [0],
      ch_before = [(43, [2, 3, 4])], ch_host = [0x61, 46, 0x62], ch_after = [0, 1, 0, 0]\<rparr>"

theorem tls_name_round_trip_witness:
  "sniff_tls (concat (map (enc_record 1) [take 50 (enc_hello demo_hello), drop 50 (enc_hello demo_hello)]) @ [9]) = Some (Found ''a.b'')"
proof -
  have ok: "hello_ok demo_hello" and len: "length (enc_hello demo_hello) = 70"
    by (simp_all add: hello_ok_def demo_hello_def enc_hello_def enc_body_def enc_extensions_def enc_extension_def enc_server_name_def)
  then have "enc_hello demo_hello \<noteq> []" by auto
  have "bytes_text (ch_host demo_hello) = ''a.b''" by code_simp
  moreover have "sniff_tls (concat (map (enc_record 1) [take 50 (enc_hello demo_hello), drop 50 (enc_hello demo_hello)]) @ [9]) =
      Some (Found (bytes_text (ch_host demo_hello)))"
    by (rule tls_name_round_trip [OF ok]) (simp_all add: len \<open>enc_hello demo_hello \<noteq> []\<close>)
  ultimately show ?thesis by simp
qed

end
