(* ===== verification/Sniffer_Http.thy ===== *)
theory Sniffer_Http
  imports Sniffer_Tls Metadata
begin

text \<open>
  The HTTP sniffer (\<open>component/sniffer/http_sniffer.go\<close>): the host of an HTTP/1 request, from its
  target or its \<open>Host\<close> field, and the authority of the first request of an HTTP/2 connection.
  The HPACK decoder is a parameter: what a write to it decodes, and whether it fails. So is
  the test whether a text is an address (\<open>netip.ParseAddr\<close>).
\<close>

subsection \<open>Package bytes\<close>

text \<open>\<open>bytes.Cut\<close>, for a separator that is not empty.\<close>

fun bytes_cut :: "string \<Rightarrow> string \<Rightarrow> (string \<times> string) option" where
  "bytes_cut sep [] = None"
| "bytes_cut sep (c # s) =
     (if has_prefix (c # s) sep then Some ([], drop (length sep) (c # s))
      else map_option (\<lambda>(before, after). (c # before, after)) (bytes_cut sep s))"

lemma bytes_cut_parts: "bytes_cut sep s = Some (x, y) \<Longrightarrow> s = x @ sep @ y"
  by (induction sep s arbitrary: x rule: bytes_cut.induct) (auto simp: has_prefix_iff split: if_splits)

text \<open>
  \<open>bytes.EqualFold\<close>, for a second text in ASCII: beside the other case of a letter, the long s and the
  sign of the kelvin, two and three bytes in UTF-8, are equal to a letter.
\<close>

fun equal_fold :: "string \<Rightarrow> string \<Rightarrow> bool" where
  "equal_fold s [] = (s = [])"
| "equal_fold s (t # ts) =
     (case s of
        [] \<Rightarrow> False
      | c # s' \<Rightarrow>
          (if lower_char c = lower_char t then equal_fold s' ts
           else if lower_char t = CHR ''s'' \<and> has_prefix s [CHR 0xC5, CHR 0xBF] then equal_fold (drop 2 s) ts
           else if lower_char t = CHR ''k'' \<and> has_prefix s [CHR 0xE2, CHR 0x84, CHR 0xAA] then equal_fold (drop 3 s) ts
           else False))"

abbreviation crlf :: string where
  "crlf \<equiv> [CHR 0x0D, CHR 0x0A]"

subsection \<open>HTTP/1\<close>

definition http_methods :: "string list" where
  "http_methods = [''GET'', ''POST'', ''HEAD'', ''PUT'', ''DELETE'', ''OPTIONS'', ''CONNECT'', ''PATCH'', ''TRACE'']"

definition is_http_method :: "string \<Rightarrow> bool" where
  "is_http_method s = list_ex (equal_fold s) http_methods"

definition is_http_method_prefix :: "string \<Rightarrow> bool" where
  "is_http_method_prefix s = list_ex (\<lambda>m. length s \<le> length m \<and> equal_fold s (take (length s) m)) http_methods"

definition parse_host :: "(string \<Rightarrow> bool) \<Rightarrow> string \<Rightarrow> string sniff" where
  "parse_host is_addr h =
     (if h = [] then Fail NoClue
      else
        (let h1 = (case split_host_port h of Inr (host, port) \<Rightarrow> host | Inl e \<Rightarrow> h);
             h2 = (if has_prefix h1 ''['' \<and> has_suffix h1 '']'' then take (length h1 - 2) (drop 1 h1) else h1);
             h3 = to_lower (rev (dropWhile (\<lambda>c. c = CHR ''.'') (rev h2))) in
         if h3 = [] then Fail NoClue else if is_addr h3 then Fail HostIsIP else Found h3))"

text \<open>The fields from one on; \<open>n\<close> is the length of all the data.\<close>

function header_host :: "(string \<Rightarrow> bool) \<Rightarrow> nat \<Rightarrow> string \<Rightarrow> string sniff" where
  "header_host is_addr n s =
     (case bytes_cut crlf s of
        None \<Rightarrow> Need (n + 1)
      | Some (line, tail) \<Rightarrow>
          (if line = [] then Fail NoClue
           else
             (case bytes_cut '':'' line of
                None \<Rightarrow> header_host is_addr n tail
              | Some (key, val) \<Rightarrow>
                  (if equal_fold key ''host'' then parse_host is_addr (trim_space val) else header_host is_addr n tail))))"
  by pat_completeness auto

termination
  by (relation "measure (\<lambda>(is_addr, n, s). length s)") (auto dest!: bytes_cut_parts)

declare header_host.simps [simp del]

definition target_host :: "string \<Rightarrow> string" where
  "target_host uri =
     (let u1 = (case bytes_cut ''://'' uri of Some (_, after) \<Rightarrow> after | None \<Rightarrow> uri);
          u2 = takeWhile (\<lambda>c. c \<noteq> CHR ''/'' \<and> c \<noteq> CHR ''?'' \<and> c \<noteq> CHR ''#'') u1 in
      case bytes_cut ''@'' u2 of Some (_, after) \<Rightarrow> after | None \<Rightarrow> u2)"

definition sniff_request :: "(string \<Rightarrow> bool) \<Rightarrow> string \<Rightarrow> string \<Rightarrow> string sniff" where
  "sniff_request is_addr b req =
     (if length req < 14 then Fail NoClue
      else
        (case bytes_cut '' '' req of
           None \<Rightarrow> Fail NoClue
         | Some (_, after) \<Rightarrow>
             (case bytes_cut '' '' after of
                None \<Rightarrow> Fail NoClue
              | Some (uri, _) \<Rightarrow>
                  (if uri = [] then Fail NoClue
                   else if hd uri = CHR ''/'' \<or> hd uri = CHR ''*'' then header_host is_addr (length b) b
                   else
                     (case parse_host is_addr (target_host uri) of
                        Found h \<Rightarrow> Found h
                      | _ \<Rightarrow> header_host is_addr (length b) b)))))"

definition sniff_http1 :: "(string \<Rightarrow> bool) \<Rightarrow> string \<Rightarrow> string sniff" where
  "sniff_http1 is_addr b =
     (case bytes_cut '' '' b of
        None \<Rightarrow> if is_http_method_prefix b then Need (length b + 1) else Fail NotHTTP
      | Some (m, _) \<Rightarrow>
          (if \<not> is_http_method m then Fail NotHTTP
           else
             (case bytes_cut crlf b of
                None \<Rightarrow> Need (length b + 1)
              | Some (req, _) \<Rightarrow> sniff_request is_addr b req)))"

subsection \<open>HTTP/2\<close>

record 'd http_env =
  ht_is_addr :: "string \<Rightarrow> bool"
  ht_decoder :: 'd
  ht_write :: "'d \<Rightarrow> bytes \<Rightarrow> 'd \<times> (string \<times> string) list \<times> bool"

record 'd header_block =
  hb_decoder :: 'd
  hb_authority :: string
  hb_host :: string
  hb_stream :: nat

definition preface :: string where
  "preface = ''PRI * HTTP/2.0'' @ crlf @ crlf @ ''SM'' @ crlf @ crlf"

text \<open>The callback of the decoder.\<close>

definition keep_field :: "string \<times> string \<Rightarrow> 'd header_block \<Rightarrow> 'd header_block" where
  "keep_field f s =
     (if fst f = '':authority'' then s\<lparr>hb_authority := snd f\<rparr>
      else if fst f = ''host'' then s\<lparr>hb_host := snd f\<rparr> else s)"

definition decode_fragment :: "'d http_env \<Rightarrow> bytes \<Rightarrow> 'd header_block \<Rightarrow> 'd header_block \<times> bool" where
  "decode_fragment env x s =
     (case ht_write env (hb_decoder s) x of (d, decoded, failed) \<Rightarrow> (fold keep_field decoded (s\<lparr>hb_decoder := d\<rparr>), failed))"

text \<open>What a frame header alone tells: the frame is not one of a client's first request.\<close>

definition bad_frame :: "bool \<Rightarrow> 8 word \<Rightarrow> 8 word \<Rightarrow> nat \<Rightarrow> nat \<Rightarrow> nat \<Rightarrow> bool" where
  "bad_frame first kind flags n stream header_stream \<longleftrightarrow>
     first \<and> (kind \<noteq> 4 \<or> bit flags 0) \<or> n > 16384 \<or>
     kind = 4 \<and> (stream \<noteq> 0 \<or> bit flags 0 \<and> n \<noteq> 0 \<or> \<not> bit flags 0 \<and> n mod 6 \<noteq> 0) \<or>
     (if header_stream = 0 then kind = 9 \<or> kind = 1 \<and> stream = 0 else kind \<noteq> 9 \<or> stream \<noteq> header_stream)"

text \<open>The part of the payload that is the header block.\<close>

definition fragment_bounds :: "8 word \<Rightarrow> 8 word \<Rightarrow> nat \<Rightarrow> nat \<Rightarrow> bytes \<Rightarrow> (nat \<times> nat) sniff option" where
  "fragment_bounds kind flags n payload_offset b =
     (let priority = (\<lambda>s e. if bit flags 5 then (if e - s < 5 then Fail NoClue else Found (s + 5, e)) else Found (s, e)) in
      if kind \<noteq> 1 then Some (Found (0, n))
      else if bit flags 3 then
        (if n = 0 then Some (Fail NoClue)
         else if b = [] then Some (Need (payload_offset + 1))
         else byte_at b 0 (\<lambda>pad. Some (if unat pad \<ge> n then Fail NoClue else priority 1 (n - unat pad))))
      else Some (priority 0 n))"

text \<open>One frame: a verdict, or the rest of the data and the header block so far.\<close>

definition h2_fragment ::
  "'d http_env \<Rightarrow> 8 word \<Rightarrow> nat \<Rightarrow> nat \<Rightarrow> nat \<Rightarrow> bytes \<Rightarrow> nat \<times> nat \<Rightarrow> 'd header_block \<Rightarrow> string sniff + 'd header_block" where
  "h2_fragment env flags n size_all payload_offset b bounds s =
     (let start = fst bounds; stop = snd bounds; avail = min (length b) stop;
          (s', failed) = (if avail > start then decode_fragment env (take (avail - start) (drop start b)) s else (s, False)) in
      if avail > start \<and> hb_authority s' \<noteq> [] then Inl (parse_host (ht_is_addr env) (hb_authority s'))
      else if avail > start \<and> hb_host s' \<noteq> [] then Inl (parse_host (ht_is_addr env) (hb_host s'))
      else if failed then Inl (Fail NoClue)
      else if bit flags 2 \<and> (start = stop \<or> avail = stop) then Inl (Fail NoClue)
      else if length b < n then
        Inl (Need (if avail < stop then (if length b < start then payload_offset + start + 1 else size_all + 1) else payload_offset + n))
      else Inr s')"

function h2_frames :: "'d http_env \<Rightarrow> nat \<Rightarrow> bytes \<Rightarrow> 'd header_block \<Rightarrow> string sniff option" where
  "h2_frames env size_all b s =
     (if length b < 9 then Some (Need (size_all - length b + 9))
      else
        byte_at b 0 (\<lambda>l1. u16_at b 1 (\<lambda>l2. byte_at b 3 (\<lambda>kind. byte_at b 4 (\<lambda>flags. u16_at b 5 (\<lambda>s1. u16_at b 7 (\<lambda>s2.
          let n = unat l1 * 65536 + l2; stream = s1 mod 32768 * 65536 + s2; b' = drop 9 b; payload_offset = size_all - length b' in
          if bad_frame (payload_offset = length preface + 9) kind flags n stream (hb_stream s) then Some (Fail NoClue)
          else if hb_stream s = 0 \<and> kind \<noteq> 1 then
            (if length b' < n then Some (Need (payload_offset + n)) else h2_frames env size_all (drop n b') s)
          else
            sniff_then (fragment_bounds kind flags n payload_offset b') (\<lambda>bounds.
              case h2_fragment env flags n size_all payload_offset b' bounds (s\<lparr>hb_stream := stream\<rparr>) of
                Inl r \<Rightarrow> Some r
              | Inr s' \<Rightarrow> h2_frames env size_all (drop n b') s'))))))))"
  by pat_completeness auto

termination
  by (relation "measure (\<lambda>(env, size_all, b, s). length b)") auto

declare h2_frames.simps [simp del]

definition sniff_http2 :: "'d http_env \<Rightarrow> bytes \<Rightarrow> string sniff option" where
  "sniff_http2 env b =
     h2_frames env (length b) (drop (length preface) b)
       \<lparr>hb_decoder = ht_decoder env, hb_authority = [], hb_host = [], hb_stream = 0\<rparr>"

definition sniff_http :: "'d http_env \<Rightarrow> bytes \<Rightarrow> string sniff option" where
  "sniff_http env b =
     (if length b < length preface then
        (if has_prefix preface (bytes_text b) then Some (Need (length b + 1)) else Some (sniff_http1 (ht_is_addr env) (bytes_text b)))
      else if has_prefix (bytes_text b) preface then sniff_http2 env b
      else Some (sniff_http1 (ht_is_addr env) (bytes_text b)))"

declare equal_fold.simps(2) [simp del]

subsection \<open>Data that is asked for\<close>

text \<open>No panic, and when more data is asked for, then more than there is, but not much more.\<close>

definition asks :: "nat \<Rightarrow> nat \<Rightarrow> 'a sniff option \<Rightarrow> bool" where
  "asks B n r \<longleftrightarrow> (case r of None \<Rightarrow> False | Some (Need m) \<Rightarrow> n < m \<and> m \<le> n + B | Some (Found x) \<Rightarrow> True | Some (Fail e) \<Rightarrow> True)"

lemma asks_simps [simp]:
  "\<not> asks B n None" "asks B n (Some (Found x))" "asks B n (Some (Fail e))" "asks B n (Some (Need m)) \<longleftrightarrow> n < m \<and> m \<le> n + B"
  by (simp_all add: asks_def)

lemma settled_asks: "settled (length b + B) f b \<Longrightarrow> asks B (length b) (f b)"
  by (auto simp: settled_def asks_def split: option.splits sniff.splits)

lemma parse_host_decides: "parse_host is_addr h \<noteq> Need n"
  by (simp add: parse_host_def Let_def split: sum.split)

lemma header_host_need: "header_host is_addr n s = Need k \<Longrightarrow> k = n + 1"
proof (induction is_addr n s rule: header_host.induct)
  case (1 is_addr n s)
  note run = 1(3) [unfolded header_host.simps [of is_addr n s]]
  show ?case
  proof (cases "bytes_cut crlf s")
    case (Some p)
    obtain line tail where p: "p = (line, tail)" by fastforce
    have "line \<noteq> []" using run by (auto simp: Some p)
    show ?thesis
    proof (cases "bytes_cut '':'' line")
      case None
      then show ?thesis
        using run \<open>line \<noteq> []\<close> by (intro 1(1) [OF Some p [symmetric] \<open>line \<noteq> []\<close>]) (simp_all add: Some p)
    next
      case field: (Some q)
      obtain key val where q: "q = (key, val)" by fastforce
      have "\<not> equal_fold key ''host''" using run \<open>line \<noteq> []\<close> by (auto simp: Some p field q parse_host_decides)
      then show ?thesis
        using run \<open>line \<noteq> []\<close> by (intro 1(2) [OF Some p [symmetric] \<open>line \<noteq> []\<close> field q [symmetric]]) (simp_all add: Some p field q)
    qed
  qed (use run in simp)
qed

lemma sniff_http1_need:
  assumes "sniff_http1 is_addr b = Need k"
  shows "k = length b + 1"
  using assms header_host_need [of is_addr "length b" b k]
  by (auto simp: sniff_http1_def sniff_request_def Let_def split: option.splits if_splits sniff.splits)

lemma fragment_bounds_ok:
  assumes "n \<le> 16384" and "fragment_bounds kind flags n p b = r"
  shows "\<exists>x. r = Some x \<and> (\<forall>s e. x = Found (s, e) \<longrightarrow> s \<le> 6 \<and> e \<le> n) \<and> (\<forall>m. x = Need m \<longrightarrow> b = [] \<and> m = p + 1)"
  using assms by (auto simp: fragment_bounds_def Let_def byte_at_def split: if_splits)

lemma h2_fragment_asks:
  assumes "h2_fragment env flags n all p b (s, e) hb = Inl r" and "s \<le> 6" and "e \<le> n" and "n \<le> 16384" and "p = all - length b"
    and "length b \<le> all"
  shows "asks 16384 all (Some r)"
proof (cases r)
  case (Need m)
  have "length b < n \<and> m = (if min (length b) e < e then (if length b < s then p + s + 1 else all + 1) else p + n)"
    using assms(1) Need
    by (auto simp: h2_fragment_def Let_def parse_host_decides split: if_splits prod.splits)
  then show ?thesis using assms(2-) Need by (auto split: if_splits)
qed simp_all

lemma frame_header:
  assumes "\<not> length b < 9"
  shows "byte_at b 0 f = f (b ! 0)" and "u16_at b 1 g = g (unat (b ! 1) * 256 + unat (b ! 2))" and "byte_at b 3 f = f (b ! 3)"
    and "byte_at b 4 f = f (b ! 4)" and "u16_at b 5 g = g (unat (b ! 5) * 256 + unat (b ! 6))"
    and "u16_at b 7 g = g (unat (b ! 7) * 256 + unat (b ! 8))"
proof -
  have "(1::nat) + 1 = 2" "(5::nat) + 1 = 6" "(7::nat) + 1 = 8" by simp_all
  then show "u16_at b 1 g = g (unat (b ! 1) * 256 + unat (b ! 2))" "u16_at b 5 g = g (unat (b ! 5) * 256 + unat (b ! 6))"
    "u16_at b 7 g = g (unat (b ! 7) * 256 + unat (b ! 8))"
    using assms unfolding u16_at_def byte_at_def by (simp_all only:) simp_all
qed (use assms in \<open>auto simp: byte_at_def\<close>)

lemma h2_frames_asks: "length b \<le> all \<Longrightarrow> asks 16384 all (h2_frames env all b s)"
proof (induction "length b" arbitrary: b s rule: less_induct)
  case less
  show ?case
  proof (cases "length b < 9")
    case True
    then have "all < all - length b + 9 \<and> all - length b + 9 \<le> all + 16384" using less.prems by linarith
    then show ?thesis using True by (subst h2_frames.simps) simp
  next
    case False
    define n where "n = unat (b ! 0) * 65536 + (unat (b ! 1) * 256 + unat (b ! 2))"
    define stream where "stream = (unat (b ! 5) * 256 + unat (b ! 6)) mod 32768 * 65536 + (unat (b ! 7) * 256 + unat (b ! 8))"
    define b' where "b' = drop 9 b"
    define p where "p = all - length b'"
    have frames: "h2_frames env all b s =
      (if bad_frame (p = length preface + 9) (b ! 3) (b ! 4) n stream (hb_stream s) then Some (Fail NoClue)
       else if hb_stream s = 0 \<and> b ! 3 \<noteq> 1 then
         (if length b' < n then Some (Need (p + n)) else h2_frames env all (drop n b') s)
       else
         sniff_then (fragment_bounds (b ! 3) (b ! 4) n p b') (\<lambda>bounds.
           case h2_fragment env (b ! 4) n all p b' bounds (s\<lparr>hb_stream := stream\<rparr>) of
             Inl r \<Rightarrow> Some r
           | Inr s' \<Rightarrow> h2_frames env all (drop n b') s'))"
      unfolding h2_frames.simps [of env all b s] frame_header [OF False] Let_def n_def stream_def b'_def p_def
      by (simp only: False if_False)
    have on: "asks 16384 all (h2_frames env all (drop n b') s')" for s'
      using False less.prems by (intro less.hyps) (simp_all add: b'_def)
    have b': "length b' \<le> all" using less.prems by (simp add: b'_def)
    show ?thesis
    proof (cases "bad_frame (p = length preface + 9) (b ! 3) (b ! 4) n stream (hb_stream s)")
      case bad: False
      then have small: "n \<le> 16384" by (auto simp: bad_frame_def)
      show ?thesis
      proof (cases "hb_stream s = 0 \<and> b ! 3 \<noteq> 1")
        case True
        then show ?thesis unfolding frames using on small b' by (auto simp: p_def)
      next
        case headers: False
        obtain x where x: "fragment_bounds (b ! 3) (b ! 4) n p b' = Some x"
          and ends: "\<And>s e. x = Found (s, e) \<Longrightarrow> s \<le> 6 \<and> e \<le> n" and need: "\<And>m. x = Need m \<Longrightarrow> b' = [] \<and> m = p + 1"
          using fragment_bounds_ok [OF small refl] by blast
        have step: "h2_frames env all b s =
          sniff_then (Some x) (\<lambda>bounds.
            case h2_fragment env (b ! 4) n all p b' bounds (s\<lparr>hb_stream := stream\<rparr>) of
              Inl r \<Rightarrow> Some r
            | Inr s' \<Rightarrow> h2_frames env all (drop n b') s')"
          unfolding frames x by (simp only: bad headers if_False)
        show ?thesis
        proof (cases x)
          case (Found bounds)
          obtain st e where bounds: "bounds = (st, e)" by fastforce
          note inside = ends [OF Found [unfolded bounds]]
          show ?thesis
            unfolding step Found bounds using on inside small b'
            by (cases "h2_fragment env (b ! 4) n all p b' (st, e) (s\<lparr>hb_stream := stream\<rparr>)")
              (auto simp: sniff_then_def p_def intro: h2_fragment_asks)
        next
          case (Need m)
          then show ?thesis unfolding step using need [OF Need] b' by (auto simp: sniff_then_def p_def)
        qed (simp add: step sniff_then_def)
      qed
    qed (simp add: frames)
  qed
qed

lemma sniff_http_asks: "asks 16384 (length b) (sniff_http env b)"
proof -
  have http1: "asks 16384 (length b) (Some (sniff_http1 (ht_is_addr env) (bytes_text b)))"
    using sniff_http1_need [of "ht_is_addr env" "bytes_text b"]
    by (cases "sniff_http1 (ht_is_addr env) (bytes_text b)") (simp_all add: bytes_text_def)
  show ?thesis
    unfolding sniff_http_def sniff_http2_def by (simp add: http1 h2_frames_asks)
qed

subsection \<open>Verdicts on a request do not change\<close>

lemma bytes_cut_more:
  "bytes_cut sep s = Some (x, y) \<Longrightarrow> bytes_cut sep (s @ c) = Some (x, y @ c)"
proof (induction sep s arbitrary: x rule: bytes_cut.induct)
  case (2 sep ch s)
  show ?case
  proof (cases "has_prefix (ch # s) sep")
    case True
    then obtain t where t: "ch # s = sep @ t" unfolding has_prefix_iff by blast
    have "x = []" "y = drop (length sep) (ch # s)" using 2(2) True by simp_all
    then have "x = []" "y = t" unfolding t by simp_all
    moreover have more: "ch # s @ c = sep @ t @ c" using t by (metis append.assoc append_Cons)
    moreover have "has_prefix (ch # s @ c) sep" unfolding more has_prefix_iff by blast
    ultimately show ?thesis unfolding append_Cons bytes_cut.simps by (simp add: more)
  next
    case False
    then obtain x' where x': "bytes_cut sep s = Some (x', y)" "x = ch # x'" using 2(2) by (auto split: prod.splits)
    then have "length sep \<le> length s" using bytes_cut_parts by fastforce
    then have "take (length sep) (ch # s @ c) = take (length sep) (ch # s)" by (simp add: take_Cons')
    then have "\<not> has_prefix (ch # s @ c) sep" using False by (simp only: has_prefix_def not_False_eq_True)
    then show ?thesis using 2(1) [OF False x'(1)] x'(2) by simp
  qed
qed simp

lemma has_prefix_char: "has_prefix s [ch] \<longleftrightarrow> s \<noteq> [] \<and> hd s = ch"
  by (cases s) (auto simp: has_prefix_def)

lemma bytes_cut_char_None: "bytes_cut [ch] s = None \<longleftrightarrow> ch \<notin> set s"
  by (induction s) (auto simp: has_prefix_char)

lemma bytes_cut_later: "ch \<notin> set b \<Longrightarrow> bytes_cut [ch] (b @ c) = map_option (\<lambda>(x, y). (b @ x, y)) (bytes_cut [ch] c)"
proof (induction b)
  case Nil
  then show ?case by (cases "bytes_cut [ch] c") auto
next
  case (Cons d b)
  then show ?case by (cases "bytes_cut [ch] c") (auto simp: has_prefix_char)
qed

lemma bytes_cut_begins: "ch \<notin> set b \<Longrightarrow> bytes_cut [ch] (b @ c) = Some (x, y) \<Longrightarrow> \<exists>x'. x = b @ x'"
  by (auto simp: bytes_cut_later)

definition is_ascii :: "string \<Rightarrow> bool" where
  "is_ascii = list_all (\<lambda>c. char_code c < 128)"

lemma equal_fold_begins:
  "is_ascii b \<Longrightarrow> equal_fold (b @ x) m \<Longrightarrow> length b \<le> length m \<and> equal_fold b (take (length b) m)"
proof (induction b arbitrary: m)
  case (Cons ch b)
  obtain t ts where m: "m = t # ts" using Cons.prems by (cases m) auto
  have "ch \<noteq> CHR 0xC5" "ch \<noteq> CHR 0xE2" using Cons.prems(1) by (auto simp: is_ascii_def char_code_def)
  then have "lower_char ch = lower_char t" "equal_fold (b @ x) ts"
    using Cons.prems(2) by (auto simp: m equal_fold.simps has_prefix_def split: if_splits)
  moreover have "is_ascii b" using Cons.prems(1) by (simp add: is_ascii_def)
  ultimately show ?case using Cons.IH by (simp add: m equal_fold.simps)
qed simp

lemma method_begins: "is_ascii b \<Longrightarrow> is_http_method (b @ x) \<Longrightarrow> is_http_method_prefix b"
  unfolding is_http_method_def is_http_method_prefix_def list_ex_iff using equal_fold_begins by blast

lemma header_host_more:
  "header_host is_addr n s = r \<Longrightarrow> r \<noteq> Need (n + 1) \<Longrightarrow> header_host is_addr n' (s @ c) = r"
proof (induction is_addr n s rule: header_host.induct)
  case (1 is_addr n s)
  obtain line tail where cut: "bytes_cut crlf s = Some (line, tail)"
    using 1(3,4) by (cases "bytes_cut crlf s") (auto simp: header_host.simps [of is_addr n s])
  note unfold = header_host.simps [of is_addr n s] header_host.simps [of is_addr n' "s @ c"]
  show ?case
  proof (cases "line = []")
    case False
    show ?thesis
    proof (cases "bytes_cut '':'' line")
      case None
      have "header_host is_addr n' (tail @ c) = r"
        using 1(3,4) False None by (intro 1(1) [OF cut refl False None]) (simp_all add: unfold(1) cut)
      then show ?thesis unfolding unfold(2) bytes_cut_more [OF cut] using False None by simp
    next
      case (Some p)
      obtain key val where p: "p = (key, val)" by fastforce
      show ?thesis
      proof (cases "equal_fold key ''host''")
        case True
        then show ?thesis
          using 1(3) False Some unfolding unfold bytes_cut_more [OF cut] by (simp add: cut p)
      next
        case other: False
        have "header_host is_addr n' (tail @ c) = r"
          using 1(3,4) False Some other by (intro 1(2) [OF cut refl False Some p [symmetric] other]) (simp_all add: unfold(1) cut p)
        then show ?thesis unfolding unfold(2) bytes_cut_more [OF cut] using False Some p other by simp
      qed
    qed
  qed (use 1(3) in \<open>simp add: unfold cut bytes_cut_more [OF cut]\<close>)
qed

lemma sniff_request_more:
  assumes "sniff_request is_addr b req = r" and "r \<noteq> Need (length b + 1)"
  shows "sniff_request is_addr (b @ c) req = r"
proof -
  have "header_host is_addr (length (b @ c)) (b @ c) = header_host is_addr (length b) b"
    if "header_host is_addr (length b) b \<noteq> Need (length b + 1)"
    using header_host_more [OF refl that] .
  then show ?thesis using assms
    by (auto simp: sniff_request_def Let_def split: option.splits if_splits sniff.splits)
qed

lemma sniff_http1_more:
  assumes run: "sniff_http1 is_addr b = r" and decided: "r \<noteq> Need (length b + 1)" and ascii: "is_ascii b"
  shows "sniff_http1 is_addr (b @ c) = r"
proof (cases "bytes_cut '' '' b")
  case None
  then have none: "CHR '' '' \<notin> set b" by (simp add: bytes_cut_char_None)
  have r: "r = Fail NotHTTP" and no: "\<not> is_http_method_prefix b"
    using run decided unfolding sniff_http1_def None by (auto split: if_splits)
  have "\<not> is_http_method_prefix (b @ x)" for x
  proof
    assume "is_http_method_prefix (b @ x)"
    then obtain m where "m \<in> set http_methods" "equal_fold (b @ x) (take (length (b @ x)) m)"
      by (auto simp: is_http_method_prefix_def list_ex_iff)
    then show False
      using no equal_fold_begins [OF ascii, of x "take (length (b @ x)) m"]
      by (auto simp: is_http_method_prefix_def list_ex_iff min_def split: if_splits)
  qed
  moreover have "\<not> is_http_method (b @ x)" for x using no method_begins [OF ascii] by blast
  ultimately show ?thesis unfolding sniff_http1_def bytes_cut_later [OF none] r
    by (cases "bytes_cut '' '' c") auto
next
  case (Some p)
  obtain m after where p: "bytes_cut '' '' b = Some (m, after)" using Some by (cases p) simp
  show ?thesis
    using run decided unfolding sniff_http1_def p bytes_cut_more [OF p]
    by (auto simp: bytes_cut_more sniff_request_more split: option.splits if_splits)
qed

lemma bytes_text_append: "bytes_text (b @ c) = bytes_text b @ bytes_text c"
  by (simp add: bytes_text_def)

lemma length_bytes_text [simp]: "length (bytes_text b) = length b"
  by (simp add: bytes_text_def)

lemma sniff_http_request:
  assumes "\<not> has_prefix (bytes_text b) preface" and "\<not> (length b < length preface \<and> has_prefix preface (bytes_text b))"
  shows "sniff_http env (b @ c) = Some (sniff_http1 (ht_is_addr env) (bytes_text (b @ c)))"
proof -
  have "\<not> has_prefix preface (bytes_text (b @ c))" if "length (b @ c) < length preface"
    using assms(2) that by (auto simp: has_prefix_iff bytes_text_append)
  moreover have "\<not> has_prefix (bytes_text (b @ c)) preface"
  proof
    assume "has_prefix (bytes_text (b @ c)) preface"
    then obtain t where t: "bytes_text b @ bytes_text c = preface @ t" by (auto simp: has_prefix_iff bytes_text_append)
    show False
    proof (cases "length preface \<le> length b")
      case True
      then have "has_prefix (bytes_text b) preface" using arg_cong [OF t, of "take (length preface)"] by (simp add: has_prefix_def)
      then show False using assms(1) by simp
    next
      case False
      then have "has_prefix preface (bytes_text b)" using arg_cong [OF t, of "take (length b)"] by (simp add: has_prefix_def)
      then show False using assms(2) False by simp
    qed
  qed
  ultimately show ?thesis by (simp add: sniff_http_def)
qed


subsection \<open>The host of a request is found\<close>

definition text_bytes :: "string \<Rightarrow> bytes" where
  "text_bytes = map (\<lambda>c. of_nat (char_code c))"

lemma bytes_text_bytes [simp]: "bytes_text (text_bytes s) = s"
proof -
  have "char_of (unat (of_nat (char_code c) :: 8 word)) = c" for c
    using char_code_less [of c] by (simp add: unat_of_nat take_bit_eq_mod char_code_def)
  then show ?thesis by (simp add: bytes_text_def text_bytes_def comp_def)
qed

lemma length_text_bytes [simp]: "length (text_bytes s) = length s"
  by (simp add: text_bytes_def)

lemma bytes_cut_crlf: "CHR 0x0D \<notin> set x \<Longrightarrow> bytes_cut crlf (x @ crlf @ y) = Some (x, y)"
  by (induction x) (auto simp: has_prefix_def)

lemma bytes_cut_char: "ch \<notin> set x \<Longrightarrow> bytes_cut [ch] (x @ ch # y) = Some (x, y)"
  by (induction x) (auto simp: has_prefix_char)

definition plain_field :: "string \<times> string \<Rightarrow> bool" where
  "plain_field = (\<lambda>(key, val). CHR '':'' \<notin> set key \<and> CHR 0x0D \<notin> set key \<and> CHR 0x0D \<notin> set val)"

definition field_line :: "string \<times> string \<Rightarrow> string" where
  "field_line = (\<lambda>(key, val). key @ '':'' @ val)"

lemma header_host_field:
  assumes "plain_field (key, val)"
  shows "header_host is_addr n (field_line (key, val) @ crlf @ s) =
    (if equal_fold key ''host'' then parse_host is_addr (trim_space val) else header_host is_addr n s)"
proof -
  have "bytes_cut crlf (field_line (key, val) @ crlf @ s) = Some (field_line (key, val), s)"
    using assms by (intro bytes_cut_crlf) (auto simp: plain_field_def field_line_def)
  moreover have "bytes_cut '':'' (field_line (key, val)) = Some (key, val)"
    using assms bytes_cut_char [of "CHR '':''" key val] by (simp add: plain_field_def field_line_def)
  moreover have "field_line (key, val) \<noteq> []" by (simp add: field_line_def)
  ultimately show ?thesis by (subst header_host.simps) simp
qed

lemma header_host_found:
  assumes "list_all plain_field hs" and "list_all (\<lambda>(key, val). \<not> equal_fold key ''host'') hs"
    and "plain_field (key, val)" and "equal_fold key ''host''"
  shows "header_host is_addr n (concat (map (\<lambda>f. field_line f @ crlf) (hs @ [(key, val)])) @ s) = parse_host is_addr (trim_space val)"
  using assms
proof (induction hs)
  case Nil
  then show ?case using header_host_field [of key val is_addr n s] by simp
next
  case (Cons h hs)
  obtain k v where h: "h = (k, v)" by fastforce
  have "header_host is_addr n (field_line (k, v) @ crlf @ concat (map (\<lambda>f. field_line f @ crlf) (hs @ [(key, val)])) @ s) =
      parse_host is_addr (trim_space val)"
    using Cons header_host_field [of k v] by (simp add: h)
  then show ?case by (simp add: h)
qed

lemma methods_known: "m \<in> set http_methods \<Longrightarrow> is_http_method m \<and> CHR '' '' \<notin> set m \<and> 3 \<le> length m"
proof -
  have "list_all (\<lambda>m. is_http_method m \<and> CHR '' '' \<notin> set m \<and> CHR 0x0D \<notin> set m) http_methods" by code_simp
  moreover have "list_all (\<lambda>m. 3 \<le> length m) http_methods" by (simp add: http_methods_def)
  ultimately show "m \<in> set http_methods \<Longrightarrow> ?thesis" by (simp add: list_all_iff)
qed

lemma method_no_preface:
  "m \<in> set http_methods \<Longrightarrow> \<not> has_prefix (m @ CHR '' '' # t) preface \<and> \<not> has_prefix preface (m @ CHR '' '' # t)"
  by (auto simp: http_methods_def has_prefix_iff preface_def)

lemma method_no_host: "m \<in> set http_methods \<Longrightarrow> \<not> equal_fold (m @ CHR '' '' # t) ''host''"
proof -
  have "list_all (\<lambda>m. is_ascii (m @ '' '') \<and> (length (m @ '' '') \<le> 4 \<longrightarrow> \<not> equal_fold (m @ '' '') (take (length (m @ '' '')) ''host''))) http_methods"
    by code_simp
  then show "m \<in> set http_methods \<Longrightarrow> ?thesis"
    using equal_fold_begins [of "m @ '' ''" t "''host''"] by (auto simp: list_all_iff)
qed

definition http_request :: "string \<Rightarrow> string \<Rightarrow> (string \<times> string) list \<Rightarrow> string" where
  "http_request m path fs = m @ '' '' @ path @ '' HTTP/1.1'' @ crlf @ concat (map (\<lambda>f. field_line f @ crlf) fs)"

text \<open>
  the sniffer of a request for a path takes the first field that is named host, in any case,
  whatever the other fields are, as soon as that field is complete.
\<close>

theorem http_host_found:
  assumes m: "m \<in> set http_methods" and path: "CHR '' '' \<notin> set path" "CHR 0x0D \<notin> set path"
    and others: "list_all plain_field hs" "list_all (\<lambda>(key, val). \<not> equal_fold key ''host'') hs"
    and host: "plain_field (key, val)" "equal_fold key ''host''"
  shows "sniff_http env (text_bytes (http_request m (CHR ''/'' # path) (hs @ [(key, val)]) @ s)) =
    Some (parse_host (ht_is_addr env) (trim_space val))"
proof -
  let ?req = "m @ '' '' @ (CHR ''/'' # path) @ '' HTTP/1.1''"
    and ?fs = "concat (map (\<lambda>f. field_line f @ crlf) (hs @ [(key, val)]))"
  let ?b = "http_request m (CHR ''/'' # path) (hs @ [(key, val)]) @ s"
  have b: "?b = ?req @ crlf @ ?fs @ s" by (simp add: http_request_def)
  have known: "is_http_method m" "CHR '' '' \<notin> set m" "3 \<le> length m" using methods_known [OF m] by blast+
  have "CHR 0x0D \<notin> set m" using m by (auto simp: http_methods_def)
  then have line: "bytes_cut crlf ?b = Some (?req, ?fs @ s)" unfolding b by (intro bytes_cut_crlf) (use path in simp)
  have first: "bytes_cut '' '' ?b = Some (m, CHR ''/'' # path @ '' HTTP/1.1'' @ crlf @ ?fs @ s)"
    using bytes_cut_char [OF known(2)] by (simp add: b)
  have parts: "bytes_cut '' '' ?req = Some (m, CHR ''/'' # path @ '' HTTP/1.1'')" using bytes_cut_char [OF known(2)] by simp
  have uri: "bytes_cut '' '' (CHR ''/'' # path @ '' HTTP/1.1'') = Some (CHR ''/'' # path, ''HTTP/1.1'')"
    using bytes_cut_char [of "CHR '' ''" "CHR ''/'' # path"] path(1) by simp
  have fields: "header_host a n ?b = parse_host a (trim_space val)" for a n
  proof -
    have "\<not> equal_fold x ''host''" if cut: "bytes_cut '':'' ?req = Some (x, y)" for x y
    proof -
      have "CHR '':'' \<notin> set (m @ '' '')" using m by (auto simp: http_methods_def)
      then obtain x' where "x = (m @ '' '') @ x'"
        using bytes_cut_begins [of "CHR '':''" "m @ '' ''" "(CHR ''/'' # path) @ '' HTTP/1.1''" x y] cut by auto
      then show ?thesis using method_no_host [OF m] by simp
    qed
    moreover have "header_host a n (?fs @ s) = parse_host a (trim_space val)" by (rule header_host_found [OF others host])
    moreover have "?req \<noteq> []" by simp
    ultimately show ?thesis
      unfolding header_host.simps [of a n ?b] line option.case prod.case by (simp split: option.split prod.split)
  qed
  have "sniff_http1 (ht_is_addr env) ?b = parse_host (ht_is_addr env) (trim_space val)"
    using known unfolding sniff_http1_def sniff_request_def first line option.case prod.case parts uri fields by simp
  moreover have "sniff_http env (text_bytes ?b) = Some (sniff_http1 (ht_is_addr env) ?b)"
    using sniff_http_request [of "text_bytes ?b" env "[]"] method_no_preface [OF m] by (simp add: http_request_def)
  ultimately show ?thesis by simp
qed


definition demo_http_env :: "unit http_env" where
  "demo_http_env = \<lparr>ht_is_addr = (\<lambda>_. False), ht_decoder = (), ht_write = (\<lambda>d x. (d, [], False))\<rparr>"

theorem http_host_found_witness:
  "sniff_http demo_http_env (text_bytes (http_request ''GET'' ''/a:b'' ([(''Accept'', '' *'')] @ [(''HOST'', '' A.com:80 '')]) @ ''x'')) =
     Some (Found ''a.com'')"
proof -
  have "parse_host (ht_is_addr demo_http_env) (trim_space '' A.com:80 '') = Found ''a.com''" by code_simp
  moreover have "\<not> equal_fold ''Accept'' ''host''" "equal_fold ''HOST'' ''host''" by code_simp+
  ultimately show ?thesis
    using http_host_found [of "''GET''" "''a:b''" "[(''Accept'', '' *'')]" "''HOST''" "'' A.com:80 ''" demo_http_env "''x''"]
    by (simp add: http_methods_def plain_field_def)
qed


end
