(* ===== verification/Sniffer_Dispatch.thy ===== *)
theory Sniffer_Dispatch
  imports Sniffer_Hello Sniffer_Http Config_Parse Lru_Cache
begin

text \<open>
  The sniffer dispatcher (\<open>component/sniffer/dispatcher.go\<close>, \<open>base_sniffer.go\<close>) over a buffered
  connection (\<open>common/net/bufconn.go\<close>, \<open>bufconn_unsafe.go\<close>). What the connection returns within the
  deadlines is a list of reads, whose end is a read error. The check of names
  (\<open>metadata.IsDomainName\<close>) is a parameter. Times are in seconds.
\<close>

subsection \<open>The buffered connection\<close>

record buffered_conn =
  bc_buf :: bytes
  bc_cap :: nat
  bc_in :: "bytes list"

fun bits_len :: "nat \<Rightarrow> nat" where
  "bits_len n = (if n = 0 then 0 else Suc (bits_len (n div 2)))"

declare bits_len.simps [simp del]

definition grow :: "nat \<Rightarrow> buffered_conn \<Rightarrow> buffered_conn" where
  "grow n c = (if n \<le> bc_cap c then c else c\<lparr>bc_cap := 2 ^ bits_len (n - 1)\<rparr>)"

text \<open>\<open>bufio.Reader.Peek\<close> reads until there is enough, or no room, or an error.\<close>

function peek_loop :: "nat \<Rightarrow> buffered_conn \<Rightarrow> buffered_conn" where
  "peek_loop n c =
     (if n \<le> length (bc_buf c) \<or> bc_cap c \<le> length (bc_buf c) then c
      else
        (case bc_in c of
           [] \<Rightarrow> c
         | x # xs \<Rightarrow>
             (let room = bc_cap c - length (bc_buf c) in
              peek_loop n (c\<lparr>bc_buf := bc_buf c @ take room x, bc_in := (if length x \<le> room then xs else drop room x # xs)\<rparr>))))"
  by pat_completeness auto

termination
  by (relation "measure (\<lambda>(n, c). length (bc_in c) + length (concat (bc_in c)))") auto

declare peek_loop.simps [simp del]

definition peek_conn :: "nat \<Rightarrow> buffered_conn \<Rightarrow> bool \<times> buffered_conn" where
  "peek_conn n c = (let c' = peek_loop n c in (n \<le> length (bc_buf c'), c'))"

text \<open>All the bytes of the connection, the ones that were read ahead first.\<close>

definition stream :: "buffered_conn \<Rightarrow> bytes" where
  "stream c = bc_buf c @ concat (bc_in c)"

lemma grow_simps [simp]: "bc_buf (grow n c) = bc_buf c" "bc_in (grow n c) = bc_in c" "stream (grow n c) = stream c"
  by (simp_all add: grow_def stream_def)

lemma bits_len_below: "n < 2 ^ bits_len n"
proof (induction n rule: bits_len.induct)
  case (1 n)
  then show ?case by (cases "n = 0"; subst bits_len.simps) auto
qed

lemma bits_len_least: "n < 2 ^ k \<Longrightarrow> bits_len n \<le> k"
proof (induction n arbitrary: k rule: bits_len.induct)
  case (1 n)
  show ?case
  proof (cases "n = 0")
    case False
    then obtain k' where k: "k = Suc k'" using 1(2) by (cases k) auto
    then have "n div 2 < 2 ^ k'" using 1(2) by (simp add: less_mult_imp_div_less)
    then show ?thesis using 1(1) [OF False] False by (subst bits_len.simps) (simp add: k)
  qed (simp add: bits_len.simps)
qed

lemma grow_enough: "n \<le> bc_cap (grow n c)"
  using bits_len_below [of "n - 1"] by (auto simp: grow_def)

lemma grow_bounded: "n \<le> 65536 \<or> n \<le> bc_cap c \<Longrightarrow> bc_cap (grow n c) \<le> max (bc_cap c) 65536"
proof -
  assume "n \<le> 65536 \<or> n \<le> bc_cap c"
  moreover have "2 ^ bits_len (n - 1) \<le> (65536::nat)" if "n \<le> 65536"
  proof -
    have "n - 1 < 2 ^ 16" using that by simp
    then have "(2::nat) ^ bits_len (n - 1) \<le> 2 ^ 16" by (intro power_increasing bits_len_least) simp_all
    then show ?thesis by simp
  qed
  ultimately show ?thesis by (auto simp: grow_def)
qed

lemma peek_loop_ok:
  "stream (peek_loop n c) = stream c \<and> bc_cap (peek_loop n c) = bc_cap c \<and>
    (length (bc_buf c) \<le> bc_cap c \<longrightarrow> length (bc_buf (peek_loop n c)) \<le> bc_cap c) \<and>
    length (bc_buf c) \<le> length (bc_buf (peek_loop n c)) \<and>
    (n \<le> length (bc_buf (peek_loop n c)) \<or> bc_cap c \<le> length (bc_buf (peek_loop n c)) \<or> bc_in (peek_loop n c) = [])"
proof (induction n c rule: peek_loop.induct)
  case (1 n c)
  show ?case
  proof (cases "n \<le> length (bc_buf c) \<or> bc_cap c \<le> length (bc_buf c)")
    case True
    then show ?thesis by (subst (1 2 3 4 5 6 7) peek_loop.simps) auto
  next
    case False
    show ?thesis
    proof (cases "bc_in c")
      case Nil
      then show ?thesis by (subst (1 2 3 4 5 6 7) peek_loop.simps) auto
    next
      case (Cons x xs)
      let ?room = "bc_cap c - length (bc_buf c)"
      let ?c = "c\<lparr>bc_buf := bc_buf c @ take ?room x, bc_in := (if length x \<le> ?room then xs else drop ?room x # xs)\<rparr>"
      have step: "peek_loop n c = peek_loop n ?c"
        by (subst peek_loop.simps) (use False Cons in \<open>simp add: Let_def\<close>)
      have "stream ?c = stream c" by (simp add: stream_def Cons)
      moreover have "length (bc_buf ?c) \<le> bc_cap c" "length (bc_buf c) \<le> length (bc_buf ?c)" using False by auto
      ultimately show ?thesis unfolding step using 1(1) [OF False Cons refl] by auto
    qed
  qed
qed

lemma peek_ok:
  assumes "peek_conn n c = (ok, c')"
  shows "stream c' = stream c" and "bc_cap c' = bc_cap c" and "length (bc_buf c) \<le> bc_cap c \<Longrightarrow> length (bc_buf c') \<le> bc_cap c"
    and "ok \<longleftrightarrow> n \<le> length (bc_buf c')" and "n \<le> bc_cap c \<Longrightarrow> n \<le> length (stream c) \<Longrightarrow> ok"
    and "length (bc_buf c) \<le> length (bc_buf c')"
proof -
  note facts = peek_loop_ok [of n c]
  show "stream c' = stream c" "bc_cap c' = bc_cap c" "length (bc_buf c) \<le> bc_cap c \<Longrightarrow> length (bc_buf c') \<le> bc_cap c"
    "ok \<longleftrightarrow> n \<le> length (bc_buf c')" "length (bc_buf c) \<le> length (bc_buf c')"
    using facts assms by (auto simp: peek_conn_def Let_def)
  assume n: "n \<le> bc_cap c" "n \<le> length (stream c)"
  have "n \<le> length (bc_buf c')" if "bc_in c' = []"
    using n(2) facts assms that by (auto simp: peek_conn_def Let_def stream_def)
  then show ok using facts assms n(1) by (auto simp: peek_conn_def Let_def)
qed

subsection \<open>Trying the sniffers\<close>

text \<open>\<open>sniff\<close> is the method \<open>SniffData\<close> of a sniffer.\<close>

datatype sniff_error = SniffFailed | BufferFull | ReadFailed

fun try_candidates ::
  "('s \<Rightarrow> bytes \<Rightarrow> string sniff option) \<Rightarrow> (string \<Rightarrow> bool) \<Rightarrow> bytes \<Rightarrow> ('s \<times> nat) list \<Rightarrow> ((string \<times> 's) + ('s \<times> nat) list) option" where
  "try_candidates sniff valid d [] = Some (Inr [])"
| "try_candidates sniff valid d ((s, want) # cs) =
     (let keep = (\<lambda>want'. map_option (map_sum id ((#) (s, want'))) (try_candidates sniff valid d cs)) in
      if want \<le> length d then
        (case sniff s d of
           None \<Rightarrow> None
         | Some (Found host) \<Rightarrow> if valid host then Some (Inl (host, s)) else try_candidates sniff valid d cs
         | Some (Fail e) \<Rightarrow> try_candidates sniff valid d cs
         | Some (Need n) \<Rightarrow> if n \<le> length d then try_candidates sniff valid d cs else keep n)
      else keep want)"

definition next_want :: "('s \<times> nat) list \<Rightarrow> nat" where
  "next_want cs = foldl (\<lambda>n c. if n = 0 \<or> snd c < n then snd c else n) 0 cs"

definition max_sniff_buffer :: nat where
  "max_sniff_buffer = 65536"

lemma try_candidates_wait:
  "try_candidates sniff valid d cs = Some (Inr cs') \<Longrightarrow> list_all (\<lambda>c. length d < snd c) cs'"
  by (induction sniff valid d cs arbitrary: cs' rule: try_candidates.induct)
    (auto simp: Let_def map_sum_Inr_iff split: if_splits option.splits sniff.splits)

lemma next_want_least:
  assumes "list_all (\<lambda>c. m < snd c) cs" and "cs \<noteq> []"
  shows "m < next_want cs"
proof -
  have "m < n \<Longrightarrow> list_all (\<lambda>c. m < snd c) cs \<Longrightarrow> m < foldl (\<lambda>n c. if n = 0 \<or> snd c < n then snd c else n) n cs"
    for n and cs :: "('s \<times> nat) list"
    by (induction cs arbitrary: n) auto
  then show ?thesis using assms by (cases cs) (auto simp: next_want_def)
qed

function sniff_loop ::
  "('s \<Rightarrow> bytes \<Rightarrow> string sniff option) \<Rightarrow> (string \<Rightarrow> bool) \<Rightarrow> buffered_conn \<Rightarrow> ('s \<times> nat) list \<Rightarrow> nat \<Rightarrow>
    (sniff_error + string \<times> 's) option \<times> buffered_conn" where
  "sniff_loop sniff valid c cs want =
     (if cs = [] then (Some (Inl SniffFailed), c)
      else if want > max_sniff_buffer \<and> want > length (bc_buf c) then (Some (Inl BufferFull), c)
      else
        (case peek_conn want (grow want c) of (ok, c') \<Rightarrow>
           if \<not> ok then (Some (Inl ReadFailed), c')
           else
             (case try_candidates sniff valid (bc_buf c') cs of
                None \<Rightarrow> (None, c')
              | Some (Inl found) \<Rightarrow> (Some (Inr found), c')
              | Some (Inr cs') \<Rightarrow> sniff_loop sniff valid c' cs' (next_want cs'))))"
  by pat_completeness auto

termination
proof (relation "measure (\<lambda>(sniff, valid, c, cs, want). if cs = [] then 0
    else if want > max_sniff_buffer \<and> want > length (bc_buf c) then 1 else 2 + (Suc max_sniff_buffer - want))", simp, goal_cases)
  case (1 sniff valid c cs want ok c' r cs')
  have more: "length (bc_buf c') < next_want cs'" if "cs' \<noteq> []"
    using next_want_least [OF try_candidates_wait that] 1 by blast
  have "want \<le> length (bc_buf c')" using peek_ok(4) [of want "grow want c" ok c'] 1 by simp
  then show ?case using 1 more by (cases "cs' = []") auto
qed

declare sniff_loop.simps [simp del]

text \<open>From the first byte, which every candidate waits for.\<close>

definition sniff_candidates ::
  "('s \<Rightarrow> bytes \<Rightarrow> string sniff option) \<Rightarrow> (string \<Rightarrow> bool) \<Rightarrow> 's list \<Rightarrow> buffered_conn \<Rightarrow>
    (sniff_error + string \<times> 's) option \<times> buffered_conn" where
  "sniff_candidates sniff valid cs c =
     (if cs = [] then (Some (Inl SniffFailed), c)
      else
        (case peek_conn 1 c of (ok, c') \<Rightarrow>
           if \<not> ok then (Some (Inl ReadFailed), c')
           else sniff_loop sniff valid c' (map (\<lambda>s. (s, 1)) cs) (length (bc_buf c'))))"

subsection \<open>The contract of a sniffer\<close>

locale sniffers =
  fixes sniff :: "'s \<Rightarrow> bytes \<Rightarrow> string sniff option"
  assumes no_panic: "sniff s d \<noteq> None"
begin

lemma try_some: "try_candidates sniff valid d cs \<noteq> None"
  by (induction cs) (auto simp: Let_def no_panic split: option.split sniff.split)

lemma try_found: "try_candidates sniff valid d cs = Some (Inl (host, s)) \<Longrightarrow> valid host \<and> s \<in> fst ` set cs \<and> sniff s d = Some (Found host)"
  by (induction cs) (auto simp: Let_def no_panic map_sum_Inl_iff split: option.splits sniff.splits if_splits)

lemma try_kept: "try_candidates sniff valid d cs = Some (Inr cs') \<Longrightarrow> fst ` set cs' \<subseteq> fst ` set cs"
proof (induction cs arbitrary: cs')
  case (Cons c cs)
  obtain s want where c: "c = (s, want)" by fastforce
  have "\<exists>cs1. try_candidates sniff valid d cs = Some (Inr cs1) \<and> (cs' = cs1 \<or> (\<exists>w. cs' = (s, w) # cs1))"
    using Cons.prems by (auto simp: c Let_def map_sum_Inr_iff split: option.splits sniff.splits if_splits)
  then show ?case using Cons.IH by (fastforce simp: c)
qed simp

lemma loop_ok:
  "sniff_loop sniff valid c cs want = (r, c') \<Longrightarrow> length (bc_buf c) \<le> bc_cap c \<Longrightarrow>
    stream c' = stream c \<and> bc_cap c' \<le> max (bc_cap c) max_sniff_buffer \<and> length (bc_buf c') \<le> bc_cap c' \<and>
    r \<noteq> None \<and> (\<forall>host s. r = Some (Inr (host, s)) \<longrightarrow> valid host \<and> s \<in> fst ` set cs \<and> sniff s (bc_buf c') = Some (Found host))"
proof (induction sn\<equiv>sniff valid c cs want rule: sniff_loop.induct)
  case (1 valid c cs want)
  note run = 1(2) [unfolded sniff_loop.simps [of sniff valid c cs want]]
  show ?case
  proof (cases "cs = [] \<or> want > max_sniff_buffer \<and> want > length (bc_buf c)")
    case True
    then show ?thesis using run 1(3) by (auto split: if_splits)
  next
    case False
    obtain ok c1 where p: "peek_conn want (grow want c) = (ok, c1)" by fastforce
    note peeked = peek_ok [OF p]
    have "want \<le> max_sniff_buffer \<or> want \<le> bc_cap c" using False 1(3) by auto
    then have cap: "bc_cap c1 \<le> max (bc_cap c) max_sniff_buffer" using grow_bounded [of want c] peeked(2) by (simp add: max_sniff_buffer_def)
    have grown: "bc_cap c \<le> bc_cap (grow want c)" using grow_enough [of want c] by (auto simp: grow_def)
    then have buf: "length (bc_buf c1) \<le> bc_cap c1" using peeked(2,3) 1(3) by simp
    show ?thesis
    proof (cases ok)
      case True
      show ?thesis
      proof (cases "try_candidates sniff valid (bc_buf c1) cs")
        case None
        then show ?thesis using try_some by blast
      next
        case (Some t)
        show ?thesis
        proof (cases t)
          case (Inl found)
          then have "r = Some (Inr found)" "c' = c1" using run False p True Some by auto
          then show ?thesis using cap buf peeked(1) try_found Some Inl by (cases found) fastforce
        next
          case (Inr cs1)
          then have "sniff_loop sniff valid c1 cs1 (next_want cs1) = (r, c')" using run False p True Some by auto
          then have "stream c' = stream c1 \<and> bc_cap c' \<le> max (bc_cap c1) max_sniff_buffer \<and> length (bc_buf c') \<le> bc_cap c' \<and>
              r \<noteq> None \<and> (\<forall>host s. r = Some (Inr (host, s)) \<longrightarrow> valid host \<and> s \<in> fst ` set cs1 \<and> sniff s (bc_buf c') = Some (Found host))"
            using 1(1) [of ok c1 t cs1] False p True Some Inr buf by auto
          then show ?thesis using cap peeked(1) try_kept [OF Some [unfolded Inr]] by fastforce
        qed
      qed
    next
      case failed: False
      then have "r = Some (Inl ReadFailed)" "c' = c1" using run False p by auto
      then show ?thesis using cap buf peeked(1) by simp
    qed
  qed
qed

end

text \<open>A sniffer whose verdicts do not change, and that asks for the same bytes until they are there.\<close>

locale patient_sniffer =
  fixes f :: "bytes \<Rightarrow> string sniff option"
  assumes settles: "\<exists>B. settled B f d"
begin

lemma never_panics: "f d \<noteq> None"
  using settles [of d] by (auto simp: settled_def split: option.splits)

lemma found_or_wait:
  assumes found: "f h = Some (Found host)" and d: "d @ x = h @ y"
  shows "f d = Some (Found host) \<or> (\<exists>n. f d = Some (Need n) \<and> length d < n \<and> n \<le> length h)"
proof (cases "length h \<le> length d")
  case True
  then obtain z where z: "d = h @ z" using d by (metis append_eq_append_conv_if append_take_drop_id)
  obtain B where "settled B f h" using settles by blast
  then show ?thesis using found by (simp add: settled_def z)
next
  case False
  then obtain z where z: "h = d @ z" using d by (metis append_eq_append_conv_if append_take_drop_id nat_le_linear)
  obtain B where B: "settled B f d" using settles by blast
  show ?thesis
  proof (cases "f d")
    case None
    then show ?thesis using never_panics by simp
  next
    case (Some r)
    have "n \<le> length h" if "r = Need n" for n
    proof (rule ccontr)
      assume "\<not> n \<le> length h"
      then have "f (d @ z) = Some (Need n)" using B Some that by (simp add: settled_def z)
      then show False using found z by simp
    qed
    then show ?thesis using B Some found by (cases r) (auto simp: settled_def z)
  qed
qed

end

text \<open>The only sniffer for a connection finds its name, however the data comes in.\<close>

lemma sole_candidate_loop:
  assumes patient: "patient_sniffer (sniff s)" and found: "sniff s h = Some (Found host)" and valid: "valid host"
    and small: "length h \<le> max_sniff_buffer"
  shows "stream c = h @ y \<Longrightarrow> length (bc_buf c) \<le> bc_cap c \<Longrightarrow> w \<le> want \<Longrightarrow> want \<le> length (stream c) \<Longrightarrow>
    want \<le> max_sniff_buffer \<or> want \<le> length (bc_buf c) \<Longrightarrow>
    fst (sniff_loop sniff valid c [(s, w)] want) = Some (Inr (host, s))"
proof (induction "Suc (length h) - want" arbitrary: c w want rule: less_induct)
  case less
  obtain ok c' where p: "peek_conn want (grow want c) = (ok, c')" by fastforce
  note peeked = peek_ok [OF p]
  have ok: ok using peeked(5) grow_enough less.prems(4) by simp
  have grown: "bc_cap c \<le> bc_cap (grow want c)" using grow_enough [of want c] by (auto simp: grow_def)
  have buf: "length (bc_buf c') \<le> bc_cap c'" using peeked(2,3) grown less.prems(2) by simp
  have str: "stream c' = h @ y" using peeked(1) less.prems(1) by simp
  have want: "want \<le> length (bc_buf c')" using peeked(4) ok by simp
  let ?d = "bc_buf c'"
  have d: "?d @ concat (bc_in c') = h @ y" using str by (simp add: stream_def)
  have step: "sniff_loop sniff valid c [(s, w)] want =
    (case try_candidates sniff valid ?d [(s, w)] of
       None \<Rightarrow> (None, c') | Some (Inl found) \<Rightarrow> (Some (Inr found), c')
     | Some (Inr cs') \<Rightarrow> sniff_loop sniff valid c' cs' (next_want cs'))"
    unfolding sniff_loop.simps [of sniff valid c "[(s, w)]" want] p using less.prems(5) ok by auto
  from patient_sniffer.found_or_wait [OF patient found d] show ?case
  proof
    assume "sniff s ?d = Some (Found host)"
    then show ?thesis using less.prems(3) want valid by (simp add: step Let_def)
  next
    assume "\<exists>n. sniff s ?d = Some (Need n) \<and> length ?d < n \<and> n \<le> length h"
    then obtain n where n: "sniff s ?d = Some (Need n)" "length ?d < n" "n \<le> length h" by blast
    have "sniff_loop sniff valid c [(s, w)] want = sniff_loop sniff valid c' [(s, n)] n"
      using less.prems(3) want n by (simp add: step Let_def next_want_def)
    moreover have "fst (sniff_loop sniff valid c' [(s, n)] n) = Some (Inr (host, s))"
      using n want small str by (intro less.hyps buf) auto
    ultimately show ?thesis by simp
  qed
qed

lemma sole_candidate_found:
  assumes patient: "patient_sniffer (sniff s)" and found: "sniff s h = Some (Found host)" and valid: "valid host"
    and small: "length h \<le> max_sniff_buffer" and h: "h \<noteq> []" and str: "stream c = h @ y"
    and room: "length (bc_buf c) \<le> bc_cap c" "1 \<le> bc_cap c"
  shows "fst (sniff_candidates sniff valid [s] c) = Some (Inr (host, s))"
proof -
  obtain ok c' where p: "peek_conn 1 c = (ok, c')" by fastforce
  note peeked = peek_ok [OF p]
  have "1 \<le> length (stream c)" using h str by (cases h) simp_all
  then have ok: ok using peeked(5) room(2) by simp
  then have "1 \<le> length (bc_buf c')" using peeked(4) by simp
  moreover have "length (bc_buf c') \<le> bc_cap c'" using peeked(2,3) room(1) by simp
  moreover have "length (bc_buf c') \<le> length (stream c')" by (simp add: stream_def)
  ultimately have "fst (sniff_loop sniff valid c' [(s, 1)] (length (bc_buf c'))) = Some (Inr (host, s))"
    using peeked(1) str by (intro sole_candidate_loop [where sniff = sniff and s = s and valid = valid, OF patient found valid small, of c' y]) simp_all
  then show ?thesis using p ok by (simp add: sniff_candidates_def)
qed

subsection \<open>The dispatcher\<close>

record 'd sniff_env =
  se_http :: "'d http_env"
  se_is_domain :: "string \<Rightarrow> bool"

record configured_sniffer =
  cs_type :: sniffer_type
  cs_ports :: "16 word range list"
  cs_config :: sniffer_config

record dispatcher =
  dp_enable :: bool
  dp_sniffers :: "configured_sniffer list"
  dp_force_domain :: "(string \<Rightarrow> bool) list"
  dp_skip_src :: "(addr \<Rightarrow> bool) list"
  dp_skip_dst :: "(addr \<Rightarrow> bool) list"
  dp_skip_domain :: "(string \<Rightarrow> bool) list"
  dp_skip_list :: "(addr \<times> 16 word, 8 word) lru"
  dp_force_dns_mapping :: bool
  dp_parse_pure_ip :: bool

fun default_port :: "sniffer_type \<Rightarrow> 16 word" where
  "default_port SniffTLS = 443"
| "default_port SniffHTTP = 80"
| "default_port SniffQUIC = 443"

definition new_sniffer :: "sniffer_type \<Rightarrow> sniffer_config \<Rightarrow> configured_sniffer" where
  "new_sniffer t cfg =
     \<lparr>cs_type = t, cs_ports = (if sc_ports cfg = [] then [new_range (default_port t) (default_port t)] else sc_ports cfg),
      cs_config = cfg\<rparr>"

text \<open>The sniffers in the order of their list. A type outside the list cannot occur here.\<close>

definition new_dispatcher :: "sniffer_section \<Rightarrow> dispatcher" where
  "new_dispatcher sx =
     \<lparr>dp_enable = sx_enable sx,
      dp_sniffers = List.map_filter (\<lambda>t. map_option (new_sniffer t) (map_of (sx_sniffers sx) t)) sniffer_types,
      dp_force_domain = sx_force_domain sx, dp_skip_src = sx_skip_src sx, dp_skip_dst = sx_skip_dst sx,
      dp_skip_domain = sx_skip_domain sx, dp_skip_list = lru_new 600 128 False False,
      dp_force_dns_mapping = sx_force_dns_mapping sx, dp_parse_pure_ip = sx_parse_pure_ip sx\<rparr>"

fun supported_network :: "sniffer_type \<Rightarrow> network" where
  "supported_network SniffTLS = TCP"
| "supported_network SniffHTTP = TCP"
| "supported_network SniffQUIC = UDP"

definition supports_network :: "configured_sniffer \<Rightarrow> network \<Rightarrow> bool" where
  "supports_network s n \<longleftrightarrow> supported_network (cs_type s) = n \<or> supported_network (cs_type s) = ALLNet"

definition support_port :: "configured_sniffer \<Rightarrow> 16 word \<Rightarrow> bool" where
  "support_port s = ranges_check (cs_ports s)"

fun sniff_data :: "'d sniff_env \<Rightarrow> sniffer_type \<Rightarrow> bytes \<Rightarrow> string sniff option" where
  "sniff_data env SniffTLS d = sniff_tls d"
| "sniff_data env SniffHTTP d = sniff_http (se_http env) d"
| "sniff_data env SniffQUIC d = Some (Fail NoClue)"

definition force_sniff :: "dispatcher \<Rightarrow> metadata \<Rightarrow> bool" where
  "force_sniff sd m = list_ex (\<lambda>f. f (m_host m)) (dp_force_domain sd)"

definition should_override :: "dispatcher \<Rightarrow> metadata \<Rightarrow> bool" where
  "should_override sd m =
     (if list_ex (\<lambda>f. f (m_dst_ip m)) (dp_skip_dst sd) then False
      else if list_ex (\<lambda>f. f (m_src_ip m)) (dp_skip_src sd) then False
      else if m_host m = [] \<and> dp_parse_pure_ip sd then True
      else if m_dns_mode m = DNSMapping \<and> dp_force_dns_mapping sd then True
      else force_sniff sd m)"

definition is_valid_sniff_host :: "'d sniff_env \<Rightarrow> string \<Rightarrow> bool" where
  "is_valid_sniff_host env host \<longleftrightarrow> host \<noteq> ''.'' \<and> se_is_domain env host"

definition domain_can_replace :: "'d sniff_env \<Rightarrow> dispatcher \<Rightarrow> string \<Rightarrow> bool" where
  "domain_can_replace env sd host \<longleftrightarrow> is_valid_sniff_host env host \<and> \<not> list_ex (\<lambda>f. f host) (dp_skip_domain sd)"

definition replace_domain :: "metadata \<Rightarrow> string \<Rightarrow> bool \<Rightarrow> metadata" where
  "replace_domain m host override =
     (let m1 = m\<lparr>m_sniff_host := host\<rparr> in
      (if override then m1\<lparr>m_host := host, m_dst_ip := NoAddr\<rparr> else m1)\<lparr>m_dns_mode := DNSNormal\<rparr>)"

definition cache_sniff_failed :: "int \<Rightarrow> metadata \<Rightarrow> dispatcher \<Rightarrow> dispatcher" where
  "cache_sniff_failed now m sd =
     sd\<lparr>dp_skip_list := snd (lru_compute now (metadata_addr_port m)
        (\<lambda>old. let v = (case old of Some v \<Rightarrow> v | None \<Rightarrow> 0) in Some (if v \<le> 5 then v + 1 else v)) (dp_skip_list sd))\<rparr>"

definition tcp_sniffers :: "dispatcher \<Rightarrow> 16 word \<Rightarrow> configured_sniffer list" where
  "tcp_sniffers sd port = filter (\<lambda>s. supports_network s TCP \<and> support_port s port) (dp_sniffers sd)"

definition sniff_domain ::
  "'d sniff_env \<Rightarrow> dispatcher \<Rightarrow> buffered_conn \<Rightarrow> metadata \<Rightarrow> (sniff_error + string \<times> configured_sniffer) option \<times> buffered_conn" where
  "sniff_domain env sd c m =
     sniff_candidates (\<lambda>s. sniff_data env (cs_type s)) (is_valid_sniff_host env) (tcp_sniffers sd (m_dst_port m)) c"

text \<open>Whether a name was found; the look-up of the failures is at \<open>now\<close>, their count at \<open>later\<close>.\<close>

definition tcp_sniff ::
  "'d sniff_env \<Rightarrow> int \<Rightarrow> int \<Rightarrow> dispatcher \<Rightarrow> buffered_conn \<Rightarrow> metadata \<Rightarrow> bool option \<times> dispatcher \<times> buffered_conn \<times> metadata" where
  "tcp_sniff env now later sd c m =
     (if \<not> should_override sd m then (Some False, sd, c, m)
      else if tcp_sniffers sd (m_dst_port m) = [] then (Some False, sd, c, m)
      else
        (let force = force_sniff sd m;
             (count, skip) = (if force then (None, dp_skip_list sd) else lru_get now (metadata_addr_port m) (dp_skip_list sd));
             sd1 = sd\<lparr>dp_skip_list := skip\<rparr> in
         if (case count of Some n \<Rightarrow> n > 5 | None \<Rightarrow> False) then (Some False, sd1, c, m)
         else
           (case sniff_domain env sd c m of
              (None, c') \<Rightarrow> (None, sd1, c', m)
            | (Some (Inl e), c') \<Rightarrow> (Some False, if force then sd1 else cache_sniff_failed later m sd1, c', m)
            | (Some (Inr (host, s)), c') \<Rightarrow>
                (if \<not> domain_can_replace env sd host then (Some False, sd1, c', m)
                 else
                   (Some True, sd1\<lparr>dp_skip_list := lru_delete (metadata_addr_port m) (dp_skip_list sd1)\<rparr>, c',
                    replace_domain m host (sc_override_dest (cs_config s)))))))"

text \<open>
  For a UDP packet: the sniffer whose sender replaces the packet's one, if any, and what that sender
  does with a name. Every sniffer of UDP waits for several packets.
\<close>

definition udp_sniff :: "dispatcher \<Rightarrow> metadata \<Rightarrow> configured_sniffer option" where
  "udp_sniff sd m =
     (if should_override sd m then List.find (\<lambda>s. supports_network s UDP \<and> support_port s (m_dst_port m)) (dp_sniffers sd) else None)"

definition udp_name_found :: "'d sniff_env \<Rightarrow> dispatcher \<Rightarrow> configured_sniffer \<Rightarrow> metadata \<Rightarrow> string \<Rightarrow> metadata" where
  "udp_name_found env sd s m host =
     (if domain_can_replace env sd host then replace_domain m host (sc_override_dest (cs_config s)) else m)"

subsection \<open>What sniffing promises\<close>

lemma tls_patient: "patient_sniffer sniff_tls"
proof
  fix d :: bytes
  have "settled (length d + 16384) (\<lambda>b. sniff_records b 0 []) d" by (rule sniff_records_settled) simp
  then show "\<exists>B. settled B sniff_tls d" unfolding sniff_tls_def by blast
qed

interpretation tls: patient_sniffer sniff_tls
  by (rule tls_patient)

interpretation tcp: sniffers "\<lambda>s. sniff_data env (cs_type s)" for env
proof unfold_locales
  fix s d
  have "sniff_http (se_http env) d \<noteq> None" using sniff_http_asks [of d "se_http env"] by (auto simp: asks_def split: option.splits)
  then show "sniff_data env (cs_type s) d \<noteq> None" using tls.never_panics by (cases "cs_type s") simp_all
qed

lemma sniff_domain_ok:
  assumes "sniff_domain env sd c m = (r, c')" and "length (bc_buf c) \<le> bc_cap c"
  shows "r \<noteq> None \<and> stream c' = stream c \<and> bc_cap c' \<le> max (bc_cap c) max_sniff_buffer \<and> length (bc_buf c') \<le> bc_cap c' \<and>
    (\<forall>host s. r = Some (Inr (host, s)) \<longrightarrow> is_valid_sniff_host env host \<and> s \<in> set (tcp_sniffers sd (m_dst_port m)) \<and>
      sniff_data env (cs_type s) (bc_buf c') = Some (Found host))"
proof (cases "tcp_sniffers sd (m_dst_port m) = []")
  case True
  then show ?thesis using assms by (auto simp: sniff_domain_def sniff_candidates_def)
next
  case False
  obtain ok c1 where p: "peek_conn 1 c = (ok, c1)" by fastforce
  note peeked = peek_ok [OF p]
  show ?thesis
  proof (cases ok)
    case True
    then have "sniff_loop (\<lambda>s. sniff_data env (cs_type s)) (is_valid_sniff_host env) c1
        (map (\<lambda>s. (s, 1)) (tcp_sniffers sd (m_dst_port m))) (length (bc_buf c1)) = (r, c')"
      using assms(1) False p by (simp add: sniff_domain_def sniff_candidates_def)
    from tcp.loop_ok [OF this] show ?thesis using peeked(1,2,3) assms(2) by (auto simp: image_image)
  next
    case failed: False
    then show ?thesis using assms False p peeked by (auto simp: sniff_domain_def sniff_candidates_def)
  qed
qed

text \<open>
  C14: sniffing a TCP connection is safe for it. It always returns, and without a panic; not one byte
  of what the client sent is lost or reordered for the relay that follows; the read-ahead buffer
  never exceeds 64 KiB, unless it was larger before. Without a name the metadata is untouched;
  with one, the name is valid, not one to be skipped, and some sniffer configured for the port
  read it off the data.
\<close>

theorem tcp_sniff_safe:
  assumes "tcp_sniff env now later sd c m = (r, sd', c', m')" and "length (bc_buf c) \<le> bc_cap c"
  shows "r \<noteq> None \<and> stream c' = stream c \<and> length (bc_buf c') \<le> max (bc_cap c) 65536 \<and> (r = Some False \<longrightarrow> m' = m) \<and>
    (r = Some True \<longrightarrow> (\<exists>host. \<exists>s\<in>set (tcp_sniffers sd (m_dst_port m)). domain_can_replace env sd host \<and>
       sniff_data env (cs_type s) (bc_buf c') = Some (Found host) \<and> m' = replace_domain m host (sc_override_dest (cs_config s))))"
proof -
  obtain t c1 where run: "sniff_domain env sd c m = (t, c1)" by fastforce
  note ok = sniff_domain_ok [OF run assms(2)]
  have "length (bc_buf c1) \<le> max (bc_cap c) 65536" using ok by (auto simp: max_sniff_buffer_def)
  then show ?thesis using assms ok
    by (auto simp: tcp_sniff_def run Let_def split: if_splits prod.splits option.splits sum.splits)
qed

text \<open>
  C13: a TLS connection is recognised however its data arrives. For the name in a ClientHello, cut
  into records of any size and the records into reads of any size, with anything behind them: if
  the TLS sniffer is the one for the port and the message fits into 64 KiB, the dispatcher finds the
  name, and the connection is routed by it when it may be.
\<close>

theorem tls_connection_named:
  assumes hello: "hello_ok h" "concat cs = enc_hello h" "list_all (\<lambda>c. 0 < length c \<and> length c \<le> 16384) cs"
    and data: "stream c = concat (map (enc_record v) cs) @ rest" "length (concat (map (enc_record v) cs)) \<le> 65536"
    and room: "length (bc_buf c) \<le> bc_cap c" "1 \<le> bc_cap c"
    and sniffer: "should_override sd m" "tcp_sniffers sd (m_dst_port m) = [s]" "cs_type s = SniffTLS"
    and name: "domain_can_replace env sd (bytes_text (ch_host h))"
    and fresh: "force_sniff sd m \<or> fst (lru_get now (metadata_addr_port m) (dp_skip_list sd)) = None"
  shows "\<exists>sd' c'. tcp_sniff env now later sd c m =
    (Some True, sd', c', replace_domain m (bytes_text (ch_host h)) (sc_override_dest (cs_config s)))"
proof -
  let ?h = "concat (map (enc_record v) cs)"
  have "cs \<noteq> []" using hello(2) by (auto simp: enc_hello_def)
  then have "?h \<noteq> []" by (cases cs) (simp_all add: enc_record_def)
  moreover have "sniff_tls ?h = Some (Found (bytes_text (ch_host h)))"
    unfolding sniff_tls_def using \<open>cs \<noteq> []\<close> hello(2)
    by (intro sniff_records_found [OF hello(1,3), of ?h "[]" v "[]"]) simp_all
  moreover have "is_valid_sniff_host env (bytes_text (ch_host h))" using name by (simp add: domain_can_replace_def)
  moreover have "sniff_data env (cs_type s) = sniff_tls" using sniffer(3) by (intro ext) simp
  ultimately have "fst (sniff_domain env sd c m) = Some (Inr (bytes_text (ch_host h), s))"
    using tls_patient data room sniffer(2)
    by (simp add: sniff_domain_def sole_candidate_found max_sniff_buffer_def)
  then obtain c' where "sniff_domain env sd c m = (Some (Inr (bytes_text (ch_host h), s)), c')"
    by (cases "sniff_domain env sd c m") simp
  then show ?thesis
    using sniffer name fresh by (auto simp: tcp_sniff_def Let_def split: prod.split option.split)
qed

subsection \<open>Failures are counted\<close>

definition counted :: "'k \<Rightarrow> nat \<Rightarrow> int \<Rightarrow> ('k, 8 word) lru \<Rightarrow> bool" where
  "counted k n since c \<longleftrightarrow> lru_ok c \<and> l_max_age c = 600 \<and>
     (if n = 0 then l_cache c k = None
      else \<exists>i e. (i, e) \<in> set (l_list c) \<and> e_key e = k \<and> e_value e = of_nat n \<and> since + 600 \<le> e_expires e)"

lemma countedI:
  "lru_ok c \<Longrightarrow> l_max_age c = 600 \<Longrightarrow> (i, e) \<in> set (l_list c) \<Longrightarrow> e_key e = k \<Longrightarrow> e_value e = of_nat n \<Longrightarrow>
    since + 600 \<le> e_expires e \<Longrightarrow> 0 < n \<Longrightarrow> counted k n since c"
  unfolding counted_def by auto

lemma counted_get:
  assumes c: "counted k n since c" and t: "since \<le> t" "t < since + 600"
  shows "fst (lru_get t k c) = (if n = 0 then None else Some (of_nat n)) \<and> counted k n since (snd (lru_get t k c))"
proof (cases "n = 0")
  case True
  then show ?thesis using c by (simp add: counted_def lru_get_def lru_find_def)
next
  case False
  obtain i e where e: "(i, e) \<in> set (l_list c)" "e_key e = k" "e_value e = of_nat n" "since + 600 \<le> e_expires e"
    and ok: "lru_ok c" "l_max_age c = 600" using c False by (auto simp: counted_def)
  have fresh: "\<not> e_expires e \<le> t" using e(4) t(2) by simp
  have element: "l_cache c k = Some i" "map_of (l_list c) i = Some e"
    using ok(1) e(1,2) by (auto simp: lru_ok_def lru_idx_def)
  let ?f = "if l_max_age c > 0 \<and> l_update_age c then e_expires_update (\<lambda>_. t + l_max_age c) else id"
  have get: "lru_get t k c = (Some (of_nat n), c\<lparr>l_list := change_element i ?f (move_to_back i (l_list c))\<rparr>)"
    using element fresh e(3) by (simp add: lru_get_def lru_find_def Let_def)
  have "(i, ?f e) \<in> set (change_element i ?f (move_to_back i (l_list c)))"
    using e(1) by (force simp: change_element_def move_to_back_def)
  moreover have "e_key (?f e) = k" "e_value (?f e) = of_nat n" "since + 600 \<le> e_expires (?f e)" using e t ok(2) by simp_all
  moreover have "lru_ok (snd (lru_get t k c))" by (rule lru_ok_get [OF ok(1)])
  ultimately have "counted k n since (snd (lru_get t k c))"
    using False ok(2) by (intro countedI [of _ i "?f e"]) (simp_all only: get snd_conv, simp_all)
  then show ?thesis using False by (simp add: get)
qed

lemma counted_fail:
  assumes c: "counted (metadata_addr_port m) n since (dp_skip_list sd)" and t: "since \<le> t" "t < since + 600" and n: "n \<le> 5"
  shows "counted (metadata_addr_port m) (Suc n) t (dp_skip_list (cache_sniff_failed t m sd))"
proof -
  let ?k = "metadata_addr_port m" and ?c = "dp_skip_list sd"
  note get = counted_get [OF c t]
  have "(of_nat n :: 8 word) \<le> 5" using n by (simp add: word_le_nat_alt unat_of_nat)
  then have fail: "dp_skip_list (cache_sniff_failed t m sd) = lru_set t ?k (of_nat (Suc n)) (snd (lru_get t ?k ?c))"
    using get by (auto simp: cache_sniff_failed_def lru_compute_def Let_def add.commute split: prod.split)
  have ok: "lru_ok (snd (lru_get t ?k ?c))" "l_max_age (snd (lru_get t ?k ?c)) = 600" using get by (simp_all add: counted_def)
  let ?e = "\<lparr>e_key = ?k, e_value = of_nat (Suc n) :: 8 word, e_expires = t + 600\<rparr>"
  obtain i where "(i, ?e) \<in> set (l_list (lru_set t ?k (of_nat (Suc n)) (snd (lru_get t ?k ?c))))"
    using set_fresh_member [OF ok(1), of t "t + 600" ?k "of_nat (Suc n)"] ok(2) by (auto simp: lru_set_def)
  from countedI [OF lru_ok_set [OF ok(1)] _ this, of ?k "Suc n" t] show ?thesis unfolding fail using ok(2) by simp
qed

fun sniff_runs :: "'d sniff_env \<Rightarrow> metadata \<Rightarrow> dispatcher \<Rightarrow> (int \<times> int \<times> buffered_conn) list \<Rightarrow> dispatcher" where
  "sniff_runs env m sd [] = sd"
| "sniff_runs env m sd ((now, later, c) # runs) = sniff_runs env m (fst (snd (tcp_sniff env now later sd c m))) runs"

text \<open>Runs in which no sniffer finds a name, each begun and ended within ten minutes of the one before.\<close>

fun failing_runs :: "'d sniff_env \<Rightarrow> metadata \<Rightarrow> dispatcher \<Rightarrow> int \<Rightarrow> (int \<times> int \<times> buffered_conn) list \<Rightarrow> bool" where
  "failing_runs env m sd since [] = True"
| "failing_runs env m sd since ((now, later, c) # runs) \<longleftrightarrow>
     since \<le> now \<and> now \<le> later \<and> later < since + 600 \<and> (\<exists>e. fst (sniff_domain env sd c m) = Some (Inl e)) \<and>
     failing_runs env m sd later runs"

definition last_run :: "int \<Rightarrow> (int \<times> int \<times> buffered_conn) list \<Rightarrow> int" where
  "last_run since runs = (if runs = [] then since else fst (snd (last runs)))"

lemma skip_list_irrelevant:
  "force_sniff (sd\<lparr>dp_skip_list := l\<rparr>) m = force_sniff sd m" "should_override (sd\<lparr>dp_skip_list := l\<rparr>) m = should_override sd m"
  "tcp_sniffers (sd\<lparr>dp_skip_list := l\<rparr>) p = tcp_sniffers sd p" "sniff_domain env (sd\<lparr>dp_skip_list := l\<rparr>) c m = sniff_domain env sd c m"
  by (simp_all add: force_sniff_def should_override_def tcp_sniffers_def sniff_domain_def)

lemma failing_runs_skip_list: "failing_runs env m (sd\<lparr>dp_skip_list := l\<rparr>) since runs = failing_runs env m sd since runs"
  by (induction env m sd since runs rule: failing_runs.induct) (simp_all add: skip_list_irrelevant)

lemma sniff_runs_counted:
  assumes "should_override sd m" and "\<not> force_sniff sd m" and "tcp_sniffers sd (m_dst_port m) \<noteq> []"
    and "counted (metadata_addr_port m) n since (dp_skip_list sd)" and "failing_runs env m sd since runs" and "n + length runs \<le> 6"
  shows "\<exists>l. sniff_runs env m sd runs = sd\<lparr>dp_skip_list := l\<rparr> \<and> counted (metadata_addr_port m) (n + length runs) (last_run since runs) l"
  using assms
proof (induction runs arbitrary: n since sd)
  case Nil
  then show ?case by (intro exI [of _ "dp_skip_list sd"]) (simp add: last_run_def)
next
  case (Cons run runs)
  obtain now later c where run: "run = (now, later, c)" by (cases run)
  let ?k = "metadata_addr_port m"
  obtain e c' where dom: "sniff_domain env sd c m = (Some (Inl e), c')"
    using Cons.prems(5) by (cases "sniff_domain env sd c m") (auto simp: run)
  have times: "since \<le> now" "now \<le> later" "later < since + 600" and more: "failing_runs env m sd later runs"
    using Cons.prems(5) by (simp_all add: run)
  have "now < since + 600" using times by simp
  note get = counted_get [OF Cons.prems(4) times(1) this]
  have n: "n \<le> 5" using Cons.prems(6) by simp
  obtain l1 where l1: "lru_get now ?k (dp_skip_list sd) = (if n = 0 then None else Some (of_nat n), l1)" "counted ?k n since l1"
    using get by (cases "lru_get now ?k (dp_skip_list sd)") auto
  have small: "\<not> (5 < (of_nat n :: 8 word))" using n by (simp add: word_less_nat_alt unat_of_nat)
  let ?sd1 = "cache_sniff_failed later m (sd\<lparr>dp_skip_list := l1\<rparr>)"
  have after: "fst (snd (tcp_sniff env now later sd c m)) = ?sd1"
    using Cons.prems(1,2,3) small by (simp add: tcp_sniff_def l1(1) dom Let_def)
  have "?sd1 = sd\<lparr>dp_skip_list := dp_skip_list ?sd1\<rparr>" by (simp add: cache_sniff_failed_def)
  then obtain l2 where sd1: "?sd1 = sd\<lparr>dp_skip_list := l2\<rparr>" by blast
  have "counted ?k (Suc n) later (dp_skip_list ?sd1)"
    using counted_fail [of m n since "sd\<lparr>dp_skip_list := l1\<rparr>" later] l1(2) times n by simp
  then have "\<exists>l. sniff_runs env m (sd\<lparr>dp_skip_list := l2\<rparr>) runs = sd\<lparr>dp_skip_list := l2\<rparr>\<lparr>dp_skip_list := l\<rparr> \<and>
      counted ?k (Suc n + length runs) (last_run later runs) l"
    using Cons.prems more by (intro Cons.IH) (simp_all add: sd1 skip_list_irrelevant failing_runs_skip_list)
  then show ?case by (auto simp: run after sd1 last_run_def)
qed


subsection \<open>Examples\<close>

definition demo_sniff_env :: "unit sniff_env" where
  "demo_sniff_env = \<lparr>se_http = demo_http_env, se_is_domain = (\<lambda>h. h \<noteq> [])\<rparr>"

definition demo_dispatcher :: dispatcher where
  "demo_dispatcher = new_dispatcher
     \<lparr>sx_enable = True, sx_sniffers = [(SniffHTTP, \<lparr>sc_ports = [], sc_override_dest = False\<rparr>), (SniffTLS, \<lparr>sc_ports = [], sc_override_dest = True\<rparr>)],
      sx_force_domain = [], sx_skip_src = [], sx_skip_dst = [], sx_skip_domain = [], sx_force_dns_mapping = False, sx_parse_pure_ip = True\<rparr>"

definition demo_target :: metadata where
  "demo_target = empty_metadata\<lparr>m_dst_port := 443\<rparr>"

definition demo_stream :: bytes where
  "demo_stream = concat (map (enc_record 1) [take 50 (enc_hello demo_hello), drop 50 (enc_hello demo_hello)])"

definition demo_conn :: buffered_conn where
  "demo_conn = \<lparr>bc_buf = [], bc_cap = 4096, bc_in = [take 3 demo_stream, drop 3 demo_stream, [7]]\<rparr>"

definition demo_closed :: buffered_conn where
  "demo_closed = \<lparr>bc_buf = [], bc_cap = 4096, bc_in = []\<rparr>"

lemma demo_dispatch:
  "should_override demo_dispatcher demo_target \<and> \<not> force_sniff demo_dispatcher demo_target \<and>
   map (sc_override_dest \<circ> cs_config) (tcp_sniffers demo_dispatcher 443) = [True] \<and> map cs_type (tcp_sniffers demo_dispatcher 443) = [SniffTLS]"
  by code_simp

lemma demo_port: "m_dst_port demo_target = 443" "m_host demo_target = []"
  by (simp_all add: demo_target_def empty_metadata_def)

lemma demo_skip_list: "dp_skip_list demo_dispatcher = lru_new 600 128 False False"
  by (simp add: demo_dispatcher_def new_dispatcher_def)

theorem tls_connection_named_witness:
  "\<exists>sd' c'. tcp_sniff demo_sniff_env 0 0 demo_dispatcher demo_conn demo_target = (Some True, sd', c', replace_domain demo_target ''a.b'' True)"
proof -
  have hello: "hello_ok demo_hello" "length (enc_hello demo_hello) = 70"
    by (simp_all add: hello_ok_def demo_hello_def enc_hello_def enc_body_def enc_extensions_def enc_extension_def enc_server_name_def)
  then have some: "enc_hello demo_hello \<noteq> []" by auto
  have host: "bytes_text (ch_host demo_hello) = ''a.b''" by code_simp
  obtain s where s: "tcp_sniffers demo_dispatcher 443 = [s]" "cs_type s = SniffTLS" "sc_override_dest (cs_config s) = True"
    using demo_dispatch by (cases "tcp_sniffers demo_dispatcher 443") auto
  have "stream demo_conn = demo_stream @ [7]" by (simp add: stream_def demo_conn_def)
  then show ?thesis
    using tls_connection_named [of demo_hello "[take 50 (enc_hello demo_hello), drop 50 (enc_hello demo_hello)]" demo_conn 1 "[7]"
        demo_dispatcher demo_target s demo_sniff_env 0 0, OF hello(1)] hello some s demo_dispatch host
    by (simp add: demo_stream_def enc_record_def demo_conn_def domain_can_replace_def is_valid_sniff_host_def demo_sniff_env_def
        demo_port demo_skip_list lru_get_def lru_find_def lru_new_def) (simp add: demo_dispatcher_def new_dispatcher_def)
qed

theorem tcp_sniff_safe_witness:
  "\<exists>r sd' c' m'. tcp_sniff demo_sniff_env 0 0 demo_dispatcher demo_conn demo_target = (r, sd', c', m') \<and> r \<noteq> None \<and>
     stream c' = demo_stream @ [7] \<and> length (bc_buf c') \<le> 65536"
proof -
  obtain r sd' c' m' where run: "tcp_sniff demo_sniff_env 0 0 demo_dispatcher demo_conn demo_target = (r, sd', c', m')"
    by (cases "tcp_sniff demo_sniff_env 0 0 demo_dispatcher demo_conn demo_target")
  have "length (bc_buf demo_conn) \<le> bc_cap demo_conn" by (simp add: demo_conn_def)
  from tcp_sniff_safe [OF run this] run show ?thesis by (auto simp: stream_def demo_conn_def)
qed


end
