(* ===== verification/Spec2Isabelle.thy ===== *)
theory Spec2Isabelle
  imports Override_Laws Dns_Client Dns_Handler Profile_Run Sniffer_Dispatch
begin

text \<open>
  The traffic kernel of this repository, \<open>src/kernel-core/src/foss/golang/clash\<close>, and the configuration
  layer the Android application puts in front of it, \<open>src/kernel-core/src/main/golang/native/config\<close>.
  Paths below are relative to the first directory, those with \<open>native/\<close> to \<open>src/kernel-core/src/main/golang\<close>.

  \<^bold>\<open>The program.\<close> A connection enters through a listener as a \<open>Metadata\<close> record. The tunnel
  completes it (fake addresses are turned back into names, hosts are looked up), matches it against
  the rules of the configuration and dials through the proxy the rule names, which may be a group
  that chooses one of its members. Names are resolved by the DNS clients, and the DNS service
  answers the system's queries with fake or real addresses and remembers which name an address
  stood for. Proxies come from the configuration and from providers, whose entries pass filters and
  override expressions before they become proxies. A configuration is a subscription the application
  downloads into a profile directory and patches, so that it can neither open a listener nor change
  how names are resolved, before the kernel parses it.

  \<^bold>\<open>The theories, and what they model.\<close>

  \<^item> \<open>Go_Prelude\<close>, \<open>Results\<close>, \<open>Net_Addr\<close>, \<open>Float64\<close>: what the program uses of Go's standard library
    (\<open>strings\<close>, \<open>strconv\<close>, \<open>net/netip\<close>, 64-bit floats), sequencing of computations that may fail
    (\<open>attempt\<close>, \<open>try_each\<close>), and the results of the matchers (\<open>returns\<close>).
  \<^item> \<open>Enums\<close>, \<open>Metadata\<close>, \<open>Int_Ranges\<close>, \<open>Wildcard\<close>: the enumerations and their texts
    (\<open>constant/*.go\<close>), the metadata of a connection (\<open>constant/metadata.go\<close>), ranges of numbers
    (\<open>common/utils/range.go\<close>, \<open>ranges.go\<close>), wildcard patterns (\<open>component/wildcard\<close>).
  \<^item> \<open>Rule_Match\<close>, \<open>Sub_Rules\<close>, \<open>Rule_Parser\<close>, \<open>Config_Rules\<close>, \<open>Rule_Semantics\<close>: the rules
    (\<open>rules/common\<close>, \<open>rules/logic\<close>), the check of the sub-rule table, the parser of rule lines
    (\<open>rules/parser.go\<close>), the rule section of the configuration (\<open>config/config.go\<close>,
    \<open>rules/wrapper\<close>), and what the rules mean.
  \<^item> \<open>Domain_Trie\<close>, \<open>Hosts\<close>: the trie of domain patterns (\<open>component/trie/domain.go\<close>, \<open>node.go\<close>) and
    the hosts table over it (\<open>component/resolver/host.go\<close>, \<open>parseHosts\<close>).
  \<^item> \<open>Lru_Cache\<close>, \<open>Fakeip_Pool\<close>: the cache (\<open>common/lru\<close>) and the pool of fake addresses with its
    store (\<open>component/fakeip\<close>).
  \<^item> \<open>Tunnel_Match\<close>: from metadata to proxy (\<open>tunnel/tunnel.go\<close>).
  \<^item> \<open>Dns_Message\<close>, \<open>Dns_Client\<close>, \<open>Dns_Handler\<close>: messages, clients and resolver, and the DNS service
    with its enhancer (\<open>dns\<close>, \<open>component/fakeip/skipper.go\<close>).
  \<^item> \<open>Proxy_Health\<close>, \<open>Proxy_Groups\<close>, \<open>Group_Choice\<close>, \<open>Load_Balance\<close>, \<open>Group_Config\<close>,
    \<open>Group_Order\<close>: the health of a proxy (\<open>adapter/adapter.go\<close>), the groups (\<open>adapter/outboundgroup\<close>,
    \<open>common/singledo\<close>), their sections and their order (\<open>config/utils.go\<close>).
  \<^item> \<open>Override_Lexer\<close>, \<open>Override_Parser\<close>, \<open>Override_Value\<close>, \<open>Override_Path\<close>, \<open>Override_Eval\<close>,
    \<open>Override_Apply\<close>: the override expressions of providers (\<open>adapter/provider/override_expr.go\<close>,
    \<open>override.go\<close>); \<open>Override_Parse_Total\<close>, \<open>Override_Literals\<close> and \<open>Override_Laws\<close> prove that the
    parser returns, what it builds, and what statements do.
  \<^item> \<open>Raw_Config\<close>, \<open>Config_Dns\<close>: the configuration as it is read, with its defaults, and its DNS section,
    from texts to what the resolver and the enhancer are built from (\<open>config/config.go\<close>).
  \<^item> \<open>Config_Proxies\<close>, \<open>Config_Parse\<close>: the table of proxies (\<open>parseProxies\<close>), and the configuration
    as a whole with its sniffer section (\<open>ParseRawConfig\<close>), which puts the other sections together.
  \<^item> \<open>Sniffer_Tls\<close>, \<open>Sniffer_Http\<close>, \<open>Sniffer_Dispatch\<close>: the sniffers that read a name off the first
    data of a TLS or HTTP connection (\<open>component/sniffer/tls_sniffer.go\<close>, \<open>http_sniffer.go\<close>) and the
    dispatcher that gives them the data (\<open>dispatcher.go\<close>, \<open>common/net/bufconn.go\<close>);
    \<open>Sniffer_Hello\<close> writes a TLS message down and proves that it is read back.
  \<^item> \<open>Profile_Patch\<close>, \<open>Profile_Fetch\<close>: the patches of the application (\<open>native/config/process.go\<close>,
    \<open>override.go\<close>, \<open>native/common/path.go\<close>) and the download of a profile with its providers
    (\<open>native/config/fetch.go\<close>); \<open>Profile_Run\<close> shows what runs once a profile was patched and parsed.
  \<^item> \<open>Provider_Parser\<close>: reading a provider's proxies, its health check and the subscription header
    (\<open>adapter/provider\<close>).

  \<^bold>\<open>How the models correspond to the code.\<close> A struct is a record with the fields the modelled code
  reads, an enumeration a datatype, a machine integer a word of its width (Go's \<open>int\<close> is an \<open>int\<close>
  where the code cannot overflow it), \<open>string\<close> a list of bytes. A method that changes its receiver
  returns the changed record. A loop that may not end takes fuel and returns \<open>None\<close> without it
  (\<open>match_rule\<close>, \<open>host_chain\<close>, \<open>jump_loop\<close>), and so does Go's panic. A pair \<open>(value, error)\<close> is a
  sum, with the error on the left. Reads of the clock are arguments, and so is the order in which Go
  visits a map.

  Code outside the repository, and code that only talks to the system, is a parameter: a field of
  one of the records \<open>rule_env\<close>, \<open>parse_env\<close>, \<open>hosts_env\<close>, \<open>tunnel_env\<close>, \<open>expr_env\<close>, \<open>client_env\<close>,
  \<open>dns_env\<close>, \<open>probe_env\<close>, \<open>key_env\<close>, \<open>group_env\<close>, \<open>native_env\<close>, \<open>fetch_env\<close>, \<open>dns_section_env\<close>,
  \<open>proxies_env\<close>, \<open>parse_all_env\<close>, \<open>http_env\<close>, \<open>sniff_env\<close>: regular expressions, geo databases, rule providers, the DNS package's methods, \<open>url.Parse\<close>, YAML, the text of floats and addresses. What a
  theorem needs of them is a hypothesis, and its witness shows a value for which it holds.

  \<^bold>\<open>What the lemmas show.\<close> For the rules: an accepted configuration always answers, the answer is the
  first usable rule, and the proxy fits the connection. For the tries and caches: the structure
  refines a map, its invariant is kept by every operation. For names and addresses: a fake address
  leads back to its name through the whole service, a real one too. For the resolver: connections
  are shared exactly between equal servers, the fallback is asked exactly when the filters reject,
  a cached reply ages. For groups: the members are exactly the offered ones, the choices are alive
  and near the fastest, consistent hashing moves only what it must, sections are ordered by their
  dependencies. For override expressions: they parse or fail but never hang, keep mappings well
  formed, set what they name and leave the rest. For profiles: after the patches no entry point is
  left and the resolution is the application's own, downloads stay in the profile directory, a file
  is replaced whole or not at all, and an accepted DNS section builds a resolver. For the
  configuration: no name stands for two proxies, going through groups to a proxy ends, every rule
  and tunnel ends at a proxy, and what runs of a patched profile listens nowhere. For the sniffers:
  they never read past the data and wait only while more data can change the answer, a name is
  found however the data is cut, the dispatcher loses no byte and keeps its buffer bounded, and
  it leaves a destination alone on which it failed.

  Fuel and bounds: the matcher of sub-rules needs one round more than there are sub-rules
  (\<open>match_rule_terminates\<close>), the matcher of the tunnel one more than there are rematch proxies
  (\<open>tunnel_match_terminates\<close>), the rule parser more than the length of its payload
  (\<open>parse_rule_enough_fuel\<close>), the override parser the length of the source
  (\<open>override_parser_terminates\<close>), the jump hash as many rounds as there are buckets
  (\<open>jump_hash_returns\<close>); host aliases may loop for ever, which is proved
  (\<open>self_alias_accepted_but_hangs\<close>).

  \<^bold>\<open>Values and sharing.\<close> Go shares maps, slices and pointers; the models pass values. Where the code
  relies on identity the model numbers the objects (list elements of the cache, members of groups,
  transports), and where it changes a mapping in place the model returns it.

  \<^bold>\<open>Not modelled.\<close> Dialing, relaying and encryption of the protocols, listeners, the control API,
  locks and goroutines (an operation of the model is one critical section), logging, JSON output,
  the store on disk, the JNI entry points and the Android application in Kotlin.
\<close>

end
